(* ===== verification/Prelude.thy ===== *)
theory Prelude
  imports Main "HOL-Library.Sublist" "HOL-Library.Char_ord" "HOL-Library.List_Lexorder"
begin

text \<open>
  What every other theory of the development shares: the Go values the program is written
  with (byte strings, runes), the outcome of a call that may fail or never return, the
  functions of Go's \<^verbatim>\<open>strings\<close>, \<^verbatim>\<open>bytes\<close> and \<^verbatim>\<open>fmt\<close> packages the sources use, and the
  generic lemmas and fact collections of the component proofs.

  A Go \<^verbatim>\<open>string\<close> and a \<^verbatim>\<open>[]byte\<close> are both byte sequences, so both are \<open>string\<close> here (a
  \<open>char\<close> is one byte); a rune is its code point as a \<open>nat\<close>. A slice that the source compares
  with \<^verbatim>\<open>nil\<close> is an option.
\<close>

type_synonym bytes = string
type_synonym rune = nat

named_theorems go_simps \<open>evaluation of the Go library functions\<close>
named_theorems outcome_simps \<open>rules of the outcome monad\<close>

section \<open>Calls that may fail or not return\<close>

text \<open>
  \<open>Hangs\<close>: the call does not return. \<open>Fails e\<close>: it returns a non-nil error. \<open>Returns x\<close>: it
  returns \<open>x\<close> and a nil error.
\<close>

datatype ('e, 'a) outcome = Hangs | Fails 'e | Returns 'a

text \<open>
  An error value: \<^verbatim>\<open>errors.New\<close> is \<open>Err\<close>, \<^verbatim>\<open>fmt.Errorf("context: %w", err)\<close> is \<open>Wrap\<close>, and an error
  that a library call returns is \<open>Lib\<close> with the name of the call; its own text is not modelled.
\<close>

datatype err = Err string | Wrap string err | Lib string

definition obind :: "('e, 'a) outcome \<Rightarrow> ('a \<Rightarrow> ('e, 'b) outcome) \<Rightarrow> ('e, 'b) outcome" where
  "obind m f = (case m of Hangs \<Rightarrow> Hangs | Fails e \<Rightarrow> Fails e | Returns x \<Rightarrow> f x)"

definition of_loop :: "'a option \<Rightarrow> ('e, 'a) outcome" where
  "of_loop m = (case m of None \<Rightarrow> Hangs | Some x \<Rightarrow> Returns x)"

lemma obind_simps [simp, outcome_simps]:
  "obind Hangs f = Hangs" "obind (Fails e) f = Fails e" "obind (Returns x) f = f x"
  by (simp_all add: obind_def)

lemma of_loop_simps [simp, outcome_simps]:
  "of_loop None = Hangs" "of_loop (Some x) = Returns x"
  by (simp_all add: of_loop_def)

lemma obind_eq_Returns [outcome_simps]:
  "obind m f = Returns y \<longleftrightarrow> (\<exists>x. m = Returns x \<and> f x = Returns y)"
  by (cases m) auto

lemma obind_eq_Hangs [outcome_simps]:
  "obind m f = Hangs \<longleftrightarrow> m = Hangs \<or> (\<exists>x. m = Returns x \<and> f x = Hangs)"
  by (cases m) auto

lemma obind_eq_Fails [outcome_simps]:
  "obind m f = Fails e \<longleftrightarrow> m = Fails e \<or> (\<exists>x. m = Returns x \<and> f x = Fails e)"
  by (cases m) auto

section \<open>Bytes and byte strings\<close>

abbreviation bv :: "char \<Rightarrow> nat" where
  "bv c \<equiv> of_char c"

lemma bv_char_of [simp]: "n < 256 \<Longrightarrow> bv (char_of n) = n"
  by simp

definition in_range :: "char \<Rightarrow> char \<Rightarrow> char \<Rightarrow> bool" where
  "in_range lo hi b \<longleftrightarrow> bv lo \<le> bv b \<and> bv b \<le> bv hi"

definition is_upper_ascii :: "char \<Rightarrow> bool" where
  "is_upper_ascii b \<longleftrightarrow> in_range CHR ''A'' CHR ''Z'' b"

definition is_lower_ascii :: "char \<Rightarrow> bool" where
  "is_lower_ascii b \<longleftrightarrow> in_range CHR ''a'' CHR ''z'' b"

definition is_digit_ascii :: "char \<Rightarrow> bool" where
  "is_digit_ascii b \<longleftrightarrow> in_range CHR ''0'' CHR ''9'' b"

definition is_hex_ascii :: "char \<Rightarrow> bool" where
  "is_hex_ascii b \<longleftrightarrow> is_digit_ascii b \<or> in_range CHR ''a'' CHR ''f'' b \<or> in_range CHR ''A'' CHR ''F'' b"

text \<open>\<^verbatim>\<open>strings.ToLower\<close> on ASCII, and \<^verbatim>\<open>hex.EncodeToString\<close>.\<close>

definition ascii_lower :: "char \<Rightarrow> char" where
  "ascii_lower c = (if is_upper_ascii c then char_of (bv c + 32) else c)"

section \<open>The strings and bytes packages\<close>

text \<open>\<^verbatim>\<open>bytes.Index\<close>: the least offset at which the needle occurs.\<close>

fun go_index :: "'a list \<Rightarrow> 'a list \<Rightarrow> nat option" where
  "go_index [] needle = (if needle = [] then Some 0 else None)"
| "go_index (x # xs) needle =
     (if prefix needle (x # xs) then Some 0 else map_option Suc (go_index xs needle))"

definition go_contains :: "'a list \<Rightarrow> 'a list \<Rightarrow> bool" where
  "go_contains hay needle \<longleftrightarrow> go_index hay needle \<noteq> None"

text \<open>\<^verbatim>\<open>bytes.IndexByte\<close>.\<close>

fun go_index_byte :: "'a list \<Rightarrow> 'a \<Rightarrow> nat option" where
  "go_index_byte [] c = None"
| "go_index_byte (x # xs) c = (if x = c then Some 0 else map_option Suc (go_index_byte xs c))"

lemma go_index_empty [simp]: "go_index hay [] = Some 0"
  by (cases hay) auto

lemma go_index_Some:
  "go_index hay needle = Some i \<Longrightarrow> i \<le> length hay \<and> prefix needle (drop i hay)"
  by (induction hay arbitrary: i) (auto split: if_splits)

lemma go_index_length:
  "go_index hay needle = Some i \<Longrightarrow> i + length needle \<le> length hay"
proof -
  assume "go_index hay needle = Some i"
  then have "i \<le> length hay" "prefix needle (drop i hay)"
    using go_index_Some by blast+
  then show ?thesis using prefix_length_le [of needle "drop i hay"] by simp
qed

lemma go_index_least:
  "go_index hay needle = Some i \<Longrightarrow> j < i \<Longrightarrow> \<not> prefix needle (drop j hay)"
proof (induction hay arbitrary: i j)
  case Nil
  then show ?case by (auto split: if_splits)
next
  case (Cons x xs)
  show ?case
  proof (cases j)
    case 0
    with Cons.prems show ?thesis by (auto split: if_splits)
  next
    case (Suc j')
    with Cons show ?thesis by (auto split: if_splits)
  qed
qed

lemma go_index_None:
  "go_index hay needle = None \<longleftrightarrow> (\<forall>i \<le> length hay. \<not> prefix needle (drop i hay))"
proof (induction hay)
  case Nil
  then show ?case by auto
next
  case (Cons x xs)
  have split: "(\<forall>i \<le> length (x # xs). \<not> prefix needle (drop i (x # xs))) \<longleftrightarrow>
      \<not> prefix needle (x # xs) \<and> (\<forall>i \<le> length xs. \<not> prefix needle (drop i xs))"
  proof (intro iffI conjI allI impI)
    fix i assume h: "\<not> prefix needle (x # xs) \<and> (\<forall>i \<le> length xs. \<not> prefix needle (drop i xs))"
      and "i \<le> length (x # xs)"
    then show "\<not> prefix needle (drop i (x # xs))" by (cases i) auto
  next
    assume h: "\<forall>i \<le> length (x # xs). \<not> prefix needle (drop i (x # xs))"
    then show "\<not> prefix needle (x # xs)" by (metis drop0 le0)
  next
    fix i assume h: "\<forall>i \<le> length (x # xs). \<not> prefix needle (drop i (x # xs))" and "i \<le> length xs"
    then show "\<not> prefix needle (drop i xs)" using h [rule_format, of "Suc i"] by simp
  qed
  show ?case using Cons split by auto
qed

lemma go_contains_iff: "go_contains hay needle \<longleftrightarrow> sublist needle hay"
proof
  assume "go_contains hay needle"
  then obtain i where "go_index hay needle = Some i" by (auto simp: go_contains_def)
  then have "prefix needle (drop i hay)" using go_index_Some by blast
  then obtain zs where "drop i hay = needle @ zs" by (auto simp: prefix_def)
  then have "hay = take i hay @ needle @ zs" by (metis append_take_drop_id)
  then show "sublist needle hay" by (auto simp: sublist_def)
next
  assume "sublist needle hay"
  then obtain ps ss where "hay = ps @ needle @ ss" by (auto simp: sublist_def)
  then have "prefix needle (drop (length ps) hay)" "length ps \<le> length hay" by auto
  then show "go_contains hay needle" unfolding go_contains_def using go_index_None by blast
qed

text \<open>\<^verbatim>\<open>strings.Split\<close> on one separator byte, \<^verbatim>\<open>strings.Join\<close>.\<close>

fun go_split :: "'a \<Rightarrow> 'a list \<Rightarrow> 'a list list" where
  "go_split sep [] = [[]]"
| "go_split sep (x # xs) =
     (if x = sep then [] # go_split sep xs
      else (case go_split sep xs of [] \<Rightarrow> [[x]] | y # ys \<Rightarrow> (x # y) # ys))"

fun go_join :: "'a list \<Rightarrow> 'a list list \<Rightarrow> 'a list" where
  "go_join sep [] = []"
| "go_join sep [x] = x"
| "go_join sep (x # y # ys) = x @ sep @ go_join sep (y # ys)"

lemma go_split_nonempty [simp]: "go_split sep xs \<noteq> []"
  by (induction xs) (auto split: list.splits)

lemma go_join_Cons: "ys \<noteq> [] \<Longrightarrow> go_join sep (x # ys) = x @ sep @ go_join sep ys"
  by (cases ys) auto

lemma go_join_split [simp]: "go_join [sep] (go_split sep xs) = xs"
proof (induction xs)
  case Nil
  then show ?case by simp
next
  case (Cons x xs)
  show ?case
  proof (cases "go_split sep xs")
    case Nil
    then show ?thesis by simp
  next
    case (Cons y ys)
    show ?thesis
    proof (cases "x = sep")
      case True
      with Cons.IH Cons show ?thesis by (simp add: go_join_Cons)
    next
      case False
      with Cons.IH Cons show ?thesis by (cases ys) auto
    qed
  qed
qed

lemma go_split_no_sep: "p \<in> set (go_split sep xs) \<Longrightarrow> sep \<notin> set p"
  by (induction xs arbitrary: p) (auto split: list.splits if_splits)

lemma go_split_single: "sep \<notin> set xs \<Longrightarrow> go_split sep xs = [xs]"
  by (induction xs) auto

lemma go_join_snoc: "go_join sep (xs @ [x]) = (if xs = [] then x else go_join sep xs @ sep @ x)"
  by (induction sep xs rule: go_join.induct) auto

lemma go_split_join: "\<forall>x \<in> set xs. sep \<notin> set x \<Longrightarrow> xs \<noteq> [] \<Longrightarrow> go_split sep (go_join [sep] xs) = xs"
proof (induction xs)
  case (Cons x xs)
  have "go_split sep (x @ sep # ys) = x # go_split sep ys" if "sep \<notin> set x" for x ys
    using that by (induction x) auto
  then show ?case using Cons by (cases "xs = []") (simp_all add: go_join_Cons go_split_single)
qed simp

section \<open>path/filepath\<close>

text \<open>
  \<^verbatim>\<open>filepath.Clean\<close> and \<^verbatim>\<open>filepath.Join\<close> on slash-separated paths: the components with the empty ones and
  the dots removed and the double dots resolved lexically, the most recent first while cleaning.
\<close>

definition clean_step :: "bool \<Rightarrow> string \<Rightarrow> string list \<Rightarrow> string list" where
  "clean_step rooted c acc =
     (if c = '''' \<or> c = ''.'' then acc
      else if c = ''..'' then
        (case acc of
           [] \<Rightarrow> if rooted then [] else [''..'']
         | x # xs \<Rightarrow> if x = ''..'' then ''..'' # acc else xs)
      else c # acc)"

definition go_Clean :: "string \<Rightarrow> string" where
  "go_Clean p =
     (let rooted = prefix ''/'' p;
          comps = rev (fold (clean_step rooted) (go_split CHR ''/'' p) []);
          body = go_join ''/'' comps
      in if rooted then ''/'' @ body else if body = '''' then ''.'' else body)"

definition go_Join :: "string list \<Rightarrow> string" where
  "go_Join elems =
     (let es = filter (\<lambda>e. e \<noteq> '''') elems in if es = [] then '''' else go_Clean (go_join ''/'' es))"

text \<open>\<^verbatim>\<open>filepath.Base\<close>: the last component, trailing slashes removed.\<close>

definition go_Base :: "string \<Rightarrow> string" where
  "go_Base p =
     (if p = '''' then ''.''
      else (case filter (\<lambda>c. c \<noteq> '''') (go_split CHR ''/'' p) of [] \<Rightarrow> ''/'' | cs \<Rightarrow> last cs))"

lemma go_split_append: "sep \<notin> set f \<Longrightarrow> go_split sep (x @ sep # f) = go_split sep x @ [f]"
proof (induction x)
  case Nil
  have "sep \<notin> set f \<Longrightarrow> go_split sep f = [f]" by (induction f) auto
  then show ?case using Nil by simp
next
  case (Cons c x)
  then show ?case by (cases "go_split sep x") (auto split: list.splits)
qed

lemma go_join_suffix: "suffix f (go_join sep (xs @ [f]))"
proof (induction xs)
  case (Cons y ys)
  then show ?case by (cases ys) (auto simp: suffix_def)
qed simp

lemma go_Join_suffix:
  assumes "CHR ''/'' \<notin> set f" "f \<noteq> []" "f \<noteq> ''.''" "f \<noteq> ''..''"
  shows "suffix f (go_Join [x, f])"
proof (cases "x = []")
  case True
  have "CHR ''/'' \<notin> set f \<Longrightarrow> go_split CHR ''/'' f = [f]" by (induction f) auto
  moreover have "\<not> prefix ''/'' f" using assms(1) by (cases f) auto
  ultimately show ?thesis using assms True by (simp add: go_Join_def go_Clean_def clean_step_def)
next
  case False
  define rooted where "rooted = prefix ''/'' (x @ ''/'' @ f)"
  define acc where "acc = fold (clean_step rooted) (go_split CHR ''/'' x) []"
  have sp: "go_split CHR ''/'' (x @ ''/'' @ f) = go_split CHR ''/'' x @ [f]"
    using go_split_append [OF assms(1), of x] by simp
  have f: "rev (fold (clean_step rooted) (go_split CHR ''/'' (x @ ''/'' @ f)) []) = rev acc @ [f]"
    using assms unfolding sp by (simp add: acc_def clean_step_def)
  have j: "go_join ''/'' (filter (\<lambda>e. e \<noteq> '''') [x, f]) = x @ ''/'' @ f" "filter (\<lambda>e. e \<noteq> '''') [x, f] \<noteq> []"
    using False assms(2) by simp_all
  have s: "suffix f (go_join ''/'' (rev acc @ [f]))" by (rule go_join_suffix)
  then have "go_join ''/'' (rev acc @ [f]) \<noteq> []" using assms(2) by (auto simp: suffix_def)
  then have "go_Join [x, f] = (if rooted then ''/'' else '''') @ go_join ''/'' (rev acc @ [f])"
    unfolding go_Join_def go_Clean_def Let_def j rooted_def [symmetric] f using j(2) by simp
  then show ?thesis using s by (auto intro: suffix_ConsI)
qed

section \<open>fmt\<close>

text \<open>Decimal and hexadecimal printing: \<^verbatim>\<open>%d\<close>, and \<^verbatim>\<open>%04x\<close> style padding.\<close>

fun show_nat :: "nat \<Rightarrow> string" where
  "show_nat n = (if n < 10 then [char_of (48 + n)] else show_nat (n div 10) @ [char_of (48 + n mod 10)])"

declare show_nat.simps [simp del]

definition hex_digit :: "nat \<Rightarrow> char" where
  "hex_digit n = (if n < 10 then char_of (48 + n) else char_of (87 + n))"

fun hex_fixed :: "nat \<Rightarrow> nat \<Rightarrow> string" where
  "hex_fixed 0 n = []"
| "hex_fixed (Suc w) n = hex_fixed w (n div 16) @ [hex_digit (n mod 16)]"

lemma length_hex_fixed [simp]: "length (hex_fixed w n) = w"
  by (induction w arbitrary: n) auto

definition hex_encode :: "bytes \<Rightarrow> string" where
  "hex_encode bs = concat (map (\<lambda>b. hex_fixed 2 (bv b)) bs)"

lemma hex_digit_lower: "n < 16 \<Longrightarrow> ascii_lower (hex_digit n) = hex_digit n"
  by (auto simp: ascii_lower_def hex_digit_def is_upper_ascii_def in_range_def)

lemma hex_fixed_lower: "map ascii_lower (hex_fixed w n) = hex_fixed w n"
  by (induction w arbitrary: n) (auto simp: hex_digit_lower)

lemma hex_encode_lower: "map ascii_lower (hex_encode bs) = hex_encode bs"
  by (induction bs) (simp_all add: hex_encode_def hex_fixed_lower)

lemma length_hex_encode [simp]: "length (hex_encode bs) = 2 * length bs"
  by (induction bs) (simp_all add: hex_encode_def)

section \<open>Lists\<close>

lemma takeWhile_dropWhile_length: "length (takeWhile P xs) + length (dropWhile P xs) = length xs"
  by (metis length_append takeWhile_dropWhile_id)

lemma dropWhile_shorter: "length (dropWhile P xs) \<le> length xs"
  using takeWhile_dropWhile_length [of P xs] by linarith

lemma takeWhile_drop_bound: "i \<le> length xs \<Longrightarrow> i + length (takeWhile P (drop i xs)) \<le> length xs"
proof -
  assume "i \<le> length xs"
  then show ?thesis using length_takeWhile_le [of P "drop i xs"] by simp
qed

lemma distinct_subseq: "subseq xs ys \<Longrightarrow> distinct ys \<Longrightarrow> distinct xs"
  by (induction rule: list_emb.induct) (auto dest: list_emb_set)

lemma sublist_middle: "sublist x y \<Longrightarrow> sublist x (a @ y @ b)"
  using sublist_appendI sublist_order.order_trans by blast

lemma sublist_right: "sublist x y \<Longrightarrow> sublist x (a @ y)"
  using sublist_middle [of x y a "[]"] by simp

end
