(* ===== verification/Utf8.thy ===== *)
theory Utf8
  imports Prelude
begin

text \<open>
  Go's UTF-8 semantics: \<^verbatim>\<open>utf8.DecodeRune\<close>, the \<^verbatim>\<open>range\<close> loop over a string, \<^verbatim>\<open>utf8.Valid\<close>,
  \<^verbatim>\<open>WriteRune\<close> and \<^verbatim>\<open>strings.Map\<close>. An ill-formed byte is decoded as U+FFFD with width 1. The
  theory proves the two round trips (decode after encode, encode after decode on valid input)
  that the scrubbing and folding components rest on.
\<close>

abbreviation RuneError :: rune where
  "RuneError \<equiv> 0xFFFD"

definition scalar :: "rune \<Rightarrow> bool" where
  "scalar r \<longleftrightarrow> r < 0xD800 \<or> (0xE000 \<le> r \<and> r \<le> 0x10FFFF)"

definition between :: "nat \<Rightarrow> nat \<Rightarrow> char \<Rightarrow> bool" where
  "between lo hi b \<longleftrightarrow> lo \<le> bv b \<and> bv b \<le> hi"

text \<open>The accepted range of the second byte, by first byte (the \<^verbatim>\<open>acceptRanges\<close> of unicode/utf8).\<close>

definition second_lo :: "nat \<Rightarrow> nat" where
  "second_lo x = (if x = 0xE0 then 0xA0 else if x = 0xF0 then 0x90 else 0x80)"

definition second_hi :: "nat \<Rightarrow> nat" where
  "second_hi x = (if x = 0xED then 0x9F else if x = 0xF4 then 0x8F else 0xBF)"

fun decode_rune :: "bytes \<Rightarrow> rune \<times> nat" where
  "decode_rune [] = (RuneError, 0)"
| "decode_rune (b0 # rest) =
     (let x = bv b0 in
      if x < 0x80 then (x, 1)
      else if 0xC2 \<le> x \<and> x \<le> 0xDF then
        (case rest of
           b1 # _ \<Rightarrow> if between 0x80 0xBF b1 then ((x - 0xC0) * 64 + (bv b1 - 0x80), 2) else (RuneError, 1)
         | _ \<Rightarrow> (RuneError, 1))
      else if 0xE0 \<le> x \<and> x \<le> 0xEF then
        (case rest of
           b1 # b2 # _ \<Rightarrow>
             if between (second_lo x) (second_hi x) b1 \<and> between 0x80 0xBF b2
             then ((x - 0xE0) * 4096 + (bv b1 - 0x80) * 64 + (bv b2 - 0x80), 3) else (RuneError, 1)
         | _ \<Rightarrow> (RuneError, 1))
      else if 0xF0 \<le> x \<and> x \<le> 0xF4 then
        (case rest of
           b1 # b2 # b3 # _ \<Rightarrow>
             if between (second_lo x) (second_hi x) b1 \<and> between 0x80 0xBF b2 \<and> between 0x80 0xBF b3
             then ((x - 0xF0) * 262144 + (bv b1 - 0x80) * 4096 + (bv b2 - 0x80) * 64 + (bv b3 - 0x80), 4)
             else (RuneError, 1)
         | _ \<Rightarrow> (RuneError, 1))
      else (RuneError, 1))"

declare decode_rune.simps(2) [simp del]

lemma decode_rune_size: "s \<noteq> [] \<Longrightarrow> 1 \<le> snd (decode_rune s) \<and> snd (decode_rune s) \<le> length s"
  by (cases s) (auto simp: decode_rune.simps(2) Let_def split: list.splits)

text \<open>The \<^verbatim>\<open>range\<close> loop: the runes of a string with the bytes each was read from.\<close>

function rune_chunks :: "bytes \<Rightarrow> (rune \<times> bytes) list" where
  "rune_chunks [] = []"
| "rune_chunks (b # bs) =
     (let (r, n) = decode_rune (b # bs)
      in (r, take n (b # bs)) # rune_chunks (drop n (b # bs)))"
  by pat_completeness auto
termination
proof (relation "measure length", simp)
  fix b bs x r n
  assume "x = decode_rune (b # bs)" "(r, n) = x"
  then show "(drop n (b # bs), b # bs) \<in> measure length"
    using decode_rune_size [of "b # bs"] by (cases "decode_rune (b # bs)") auto
qed

declare rune_chunks.simps(2) [simp del]

definition runes :: "bytes \<Rightarrow> rune list" where
  "runes s = map fst (rune_chunks s)"

definition utf8_valid :: "bytes \<Rightarrow> bool" where
  "utf8_valid s \<longleftrightarrow> (\<forall>(r, c) \<in> set (rune_chunks s). \<not> (r = RuneError \<and> length c = 1))"

definition encode_scalar :: "rune \<Rightarrow> bytes" where
  "encode_scalar r =
     (if r < 0x80 then [char_of r]
      else if r < 0x800 then [char_of (0xC0 + r div 64), char_of (0x80 + r mod 64)]
      else if r < 0x10000 then
        [char_of (0xE0 + r div 4096), char_of (0x80 + r div 64 mod 64), char_of (0x80 + r mod 64)]
      else [char_of (0xF0 + r div 262144), char_of (0x80 + r div 4096 mod 64),
            char_of (0x80 + r div 64 mod 64), char_of (0x80 + r mod 64)])"

text \<open>\<^verbatim>\<open>WriteRune\<close>: what is not a Unicode scalar value is written as U+FFFD.\<close>

definition to_scalar :: "rune \<Rightarrow> rune" where
  "to_scalar r = (if scalar r then r else RuneError)"

definition encode_rune :: "rune \<Rightarrow> bytes" where
  "encode_rune r = encode_scalar (to_scalar r)"

definition encode :: "rune list \<Rightarrow> bytes" where
  "encode rs = concat (map encode_rune rs)"

text \<open>
  \<^verbatim>\<open>strings.Map\<close> and \<^verbatim>\<open>bytes.Map\<close>: every rune is mapped, a negative result drops it (\<open>None\<close>).
\<close>

definition go_map :: "(rune \<Rightarrow> rune option) \<Rightarrow> bytes \<Rightarrow> bytes" where
  "go_map f s = encode (List.map_filter f (runes s))"

definition all_ascii :: "bytes \<Rightarrow> bool" where
  "all_ascii s \<longleftrightarrow> list_all (\<lambda>b. bv b < 0x80) s"

section \<open>One rune\<close>

lemma to_scalar_scalar [simp]: "scalar (to_scalar r)"
  by (simp add: to_scalar_def scalar_def)

lemma to_scalar_id [simp]: "scalar r \<Longrightarrow> to_scalar r = r"
  by (simp add: to_scalar_def)

lemma encode_scalar_nonempty [simp]: "encode_scalar r \<noteq> []"
  by (simp add: encode_scalar_def)

lemma encode_rune_nonempty [simp]: "encode_rune r \<noteq> []"
  by (simp add: encode_rune_def)

lemma base64_digits:
  fixes u z :: nat
  assumes "z < 64"
  shows "(u * 64 + z) div 64 = u" "(u * 64 + z) mod 64 = z"
  using assms by simp_all

lemma div_64_64: "(r::nat) div 4096 = r div 64 div 64" "(r::nat) div 262144 = r div 64 div 64 div 64"
  by (simp_all add: div_mult2_eq [symmetric])

lemma three_digits:
  fixes a y z r :: nat
  assumes "r = (a * 64 + y) * 64 + z" "y < 64" "z < 64"
  shows "r div 4096 = a" "r div 64 mod 64 = y" "r mod 64 = z"
  unfolding assms(1) div_64_64 by (simp_all only: base64_digits assms(2,3))

lemma four_digits:
  fixes a y z w r :: nat
  assumes "r = ((a * 64 + y) * 64 + z) * 64 + w" "y < 64" "z < 64" "w < 64"
  shows "r div 262144 = a" "r div 4096 mod 64 = y" "r div 64 mod 64 = z" "r mod 64 = w"
  unfolding assms(1) div_64_64 by (simp_all only: base64_digits assms(2,3,4))

lemma decode_encode_scalar:
  assumes "scalar r"
  shows "decode_rune (encode_scalar r @ rest) = (r, length (encode_scalar r))"
proof -
  have r: "r \<le> 0x10FFFF" "r < 0xD800 \<or> 0xE000 \<le> r" using assms by (auto simp: scalar_def)
  consider "r < 0x80" | "0x80 \<le> r" "r < 0x800" | "0x800 \<le> r" "r < 0x10000" | "0x10000 \<le> r" by linarith
  then show ?thesis
  proof cases
    case 1
    then show ?thesis by (simp add: encode_scalar_def decode_rune.simps(2))
  next
    case 2
    define a c where "a = r div 64" and "c = r mod 64"
    have re: "r = a * 64 + c" by (simp add: a_def c_def)
    have ac: "2 \<le> a" "a < 32" "c < 64" using 2 by (auto simp: a_def c_def)
    have "encode_scalar r = [char_of (0xC0 + a), char_of (0x80 + c)]"
      using 2 by (simp add: encode_scalar_def a_def c_def)
    with ac show ?thesis by (simp add: decode_rune.simps(2) Let_def between_def re)
  next
    case 3
    define a b c where "a = r div 4096" and "b = r div 64 mod 64" and "c = r mod 64"
    have abc: "a < 16" "b < 64" "c < 64" using 3 by (auto simp: a_def b_def c_def)
    have re: "r = a * 4096 + b * 64 + c"
      unfolding a_def b_def c_def div_64_64 using mod_mult_div_eq [of "r div 64" 64] mod_mult_div_eq [of r 64]
      by linarith
    have edge: "a = 0 \<Longrightarrow> 32 \<le> b" "a = 13 \<Longrightarrow> b < 32" using 3 r re abc by linarith+
    have "encode_scalar r = [char_of (0xE0 + a), char_of (0x80 + b), char_of (0x80 + c)]"
      using 3 by (simp add: encode_scalar_def a_def b_def c_def)
    with abc edge show ?thesis
      by (auto simp: decode_rune.simps(2) Let_def between_def second_lo_def second_hi_def re)
  next
    case 4
    define a b c d where "a = r div 262144" and "b = r div 4096 mod 64" and "c = r div 64 mod 64"
      and "d = r mod 64"
    have abc: "a < 5" "b < 64" "c < 64" "d < 64" using r by (auto simp: a_def b_def c_def d_def)
    have re: "r = a * 262144 + b * 4096 + c * 64 + d"
      unfolding a_def b_def c_def d_def div_64_64
      using mod_mult_div_eq [of "r div 64 div 64" 64] mod_mult_div_eq [of "r div 64" 64] mod_mult_div_eq [of r 64]
      by linarith
    have edge: "a = 0 \<Longrightarrow> 16 \<le> b" "a = 4 \<Longrightarrow> b < 16" using 4 r re abc by linarith+
    have "encode_scalar r = [char_of (0xF0 + a), char_of (0x80 + b), char_of (0x80 + c), char_of (0x80 + d)]"
      using 4 by (simp add: encode_scalar_def a_def b_def c_def d_def)
    with abc edge show ?thesis
      by (auto simp: decode_rune.simps(2) Let_def between_def second_lo_def second_hi_def re)
  qed
qed

lemma decode_encode_rune:
  "decode_rune (encode_rune r @ rest) = (to_scalar r, length (encode_rune r))"
  by (simp add: encode_rune_def decode_encode_scalar)

text \<open>A well-formed prefix is the encoding of the scalar value it decodes to.\<close>

lemma encode_decode_rune:
  assumes "s \<noteq> []" "decode_rune s = (r, n)" "\<not> (r = RuneError \<and> n = 1)"
  shows "scalar r \<and> take n s = encode_scalar r"
proof -
  obtain b0 rest where s: "s = b0 # rest" using assms(1) by (cases s) auto
  define x where "x = bv b0"
  note D = assms(2) [unfolded s decode_rune.simps(2) Let_def, folded x_def]
  consider "x < 0x80" | "0xC2 \<le> x" "x \<le> 0xDF" | "0xE0 \<le> x" "x \<le> 0xEF" | "0xF0 \<le> x" "x \<le> 0xF4"
    | "\<not> x < 0x80" "\<not> (0xC2 \<le> x \<and> x \<le> 0xDF)" "\<not> (0xE0 \<le> x \<and> x \<le> 0xEF)" "\<not> (0xF0 \<le> x \<and> x \<le> 0xF4)"
    by linarith
  then show ?thesis
  proof cases
    case 1
    with D show ?thesis by (auto simp: s scalar_def encode_scalar_def x_def)
  next
    case 2
    with D assms(3) obtain b1 rest' where b: "rest = b1 # rest'" "between 0x80 0xBF b1"
        "r = (x - 0xC0) * 64 + (bv b1 - 0x80)" "n = 2"
      by (auto split: list.splits if_splits)
    define y where "y = bv b1 - 0x80"
    have y: "y < 64" "bv b1 = 0x80 + y" using b(2) by (auto simp: between_def y_def)
    define a where "a = x - 0xC0"
    have a: "x = 0xC0 + a" "2 \<le> a" "a < 32" using 2 by (auto simp: a_def)
    have re: "r = a * 64 + y" using b(3) by (simp add: a_def y_def)
    then have "encode_scalar r = [char_of x, char_of (bv b1)]"
      using y a base64_digits [of y a] by (simp add: encode_scalar_def)
    moreover have "r < 0x800" using re y a by linarith
    ultimately show ?thesis using b(1,4) by (simp add: s scalar_def x_def)
  next
    case 3
    with D assms(3) obtain b1 b2 rest' where b: "rest = b1 # b2 # rest'"
        "between (second_lo x) (second_hi x) b1" "between 0x80 0xBF b2"
        "r = (x - 0xE0) * 4096 + (bv b1 - 0x80) * 64 + (bv b2 - 0x80)" "n = 3"
      by (auto split: list.splits if_splits)
    define a y z where "a = x - 0xE0" and "y = bv b1 - 0x80" and "z = bv b2 - 0x80"
    have yz: "a < 16" "x = 0xE0 + a" "y < 64" "bv b1 = 0x80 + y" "z < 64" "bv b2 = 0x80 + z"
      using b(2,3) 3 by (auto simp: between_def a_def y_def z_def second_lo_def second_hi_def split: if_splits)
    have edge: "a = 0 \<Longrightarrow> 32 \<le> y" "a = 13 \<Longrightarrow> y < 32"
      using b(2) yz by (auto simp: between_def second_lo_def second_hi_def)
    have re: "r = (a * 64 + y) * 64 + z" using b(4) by (simp add: a_def y_def z_def)
    have "0x800 \<le> r" using re edge(1) by (cases "a = 0") auto
    moreover have "r < 0x10000" using re yz by auto
    ultimately have bnd: "0x800 \<le> r" "r < 0x10000" by auto
    have "a \<le> 12 \<or> a = 13 \<or> 14 \<le> a" by linarith
    then have gap: "r < 0xD800 \<or> 0xE000 \<le> r" using re yz edge(2) by (elim disjE) auto
    have "encode_scalar r = [char_of x, char_of (bv b1), char_of (bv b2)]"
      using bnd three_digits [OF re yz(3,5)] yz by (simp add: encode_scalar_def)
    with bnd gap b(1,5) show ?thesis by (auto simp: s scalar_def x_def)
  next
    case 4
    with D assms(3) obtain b1 b2 b3 rest' where b: "rest = b1 # b2 # b3 # rest'"
        "between (second_lo x) (second_hi x) b1" "between 0x80 0xBF b2" "between 0x80 0xBF b3"
        "r = (x - 0xF0) * 262144 + (bv b1 - 0x80) * 4096 + (bv b2 - 0x80) * 64 + (bv b3 - 0x80)" "n = 4"
      by (auto split: list.splits if_splits)
    define a y z w where "a = x - 0xF0" and "y = bv b1 - 0x80" and "z = bv b2 - 0x80" and "w = bv b3 - 0x80"
    have yz: "a < 5" "x = 0xF0 + a" "y < 64" "bv b1 = 0x80 + y" "z < 64" "bv b2 = 0x80 + z"
        "w < 64" "bv b3 = 0x80 + w"
      using b(2,3,4) 4
      by (auto simp: between_def a_def y_def z_def w_def second_lo_def second_hi_def split: if_splits)
    have edge: "a = 0 \<Longrightarrow> 16 \<le> y" "a = 4 \<Longrightarrow> y < 16"
      using b(2) yz by (auto simp: between_def second_lo_def second_hi_def)
    have re: "r = ((a * 64 + y) * 64 + z) * 64 + w" using b(5) by (simp add: a_def y_def z_def w_def)
    have bnd: "0x10000 \<le> r" using re edge(1) by (cases "a = 0") auto
    have bnd': "r \<le> 0x10FFFF" using re yz edge(2) by (cases "a = 4") auto
    have "encode_scalar r = [char_of x, char_of (bv b1), char_of (bv b2), char_of (bv b3)]"
      using bnd four_digits [OF re yz(3,5,7)] yz by (simp add: encode_scalar_def)
    with bnd bnd' b(1,6) show ?thesis by (auto simp: s scalar_def x_def)
  next
    case 5
    with D assms(3) show ?thesis by (auto split: if_splits)
  qed
qed

section \<open>Strings\<close>

lemma encode_Nil [simp]: "encode [] = []" and encode_Cons: "encode (r # rs) = encode_rune r @ encode rs"
  by (simp_all add: encode_def)

lemma encode_append: "encode (rs @ rs') = encode rs @ encode rs'"
  by (simp add: encode_def)

lemma rune_chunks_encode_Cons:
  "rune_chunks (encode_rune r @ rest) = (to_scalar r, encode_rune r) # rune_chunks rest"
proof -
  obtain b bs where e: "encode_rune r @ rest = b # bs" by (cases "encode_rune r @ rest") auto
  have "decode_rune (b # bs) = (to_scalar r, length (encode_rune r))"
    using decode_encode_rune [of r rest] e by simp
  then have "rune_chunks (b # bs) = (to_scalar r, take (length (encode_rune r)) (b # bs))
      # rune_chunks (drop (length (encode_rune r)) (b # bs))"
    by (simp add: rune_chunks.simps(2))
  then show ?thesis by (simp add: e [symmetric])
qed

lemma rune_chunks_encode: "rune_chunks (encode rs) = map (\<lambda>r. (to_scalar r, encode_rune r)) rs"
  by (induction rs) (simp_all add: encode_Cons rune_chunks_encode_Cons)

lemma runes_encode: "runes (encode rs) = map to_scalar rs"
  by (simp add: runes_def rune_chunks_encode)

lemma utf8_valid_encode [simp]: "utf8_valid (encode rs)"
proof -
  have "to_scalar r = RuneError \<Longrightarrow> length (encode_rune r) \<noteq> 1" for r
    by (simp add: encode_rune_def encode_scalar_def)
  then show ?thesis by (auto simp: utf8_valid_def rune_chunks_encode)
qed

lemma chunks_Cons:
  assumes "s \<noteq> []"
  shows "\<exists>n. decode_rune s = (fst (decode_rune s), n) \<and> 1 \<le> n \<and> n \<le> length s
     \<and> rune_chunks s = (fst (decode_rune s), take n s) # rune_chunks (drop n s)"
  using assms decode_rune_size [OF assms]
  by (cases s; cases "decode_rune s") (auto simp: rune_chunks.simps(2))

lemma length_take_eq_1: "1 \<le> n \<Longrightarrow> n \<le> length s \<Longrightarrow> length (take n s) = 1 \<longleftrightarrow> n = 1"
  by auto

lemma runes_scalar: "r \<in> set (runes s) \<Longrightarrow> scalar r"
proof (induction s rule: length_induct)
  case (1 s)
  show ?case
  proof (cases "s = []")
    case True
    with "1.prems" show ?thesis by (simp add: runes_def)
  next
    case False
    then obtain n where n: "decode_rune s = (fst (decode_rune s), n)" "1 \<le> n" "n \<le> length s"
        "rune_chunks s = (fst (decode_rune s), take n s) # rune_chunks (drop n s)"
      using chunks_Cons by blast
    have "length (drop n s) < length s" using n False by auto
    moreover have "r = fst (decode_rune s) \<or> r \<in> set (runes (drop n s))"
      using "1.prems" n(4) by (auto simp: runes_def)
    moreover have "scalar (fst (decode_rune s))"
      using encode_decode_rune [OF False n(1)] by (cases "fst (decode_rune s) = RuneError") (auto simp: scalar_def)
    ultimately show ?thesis using "1.IH" by blast
  qed
qed

theorem encode_runes: "utf8_valid s \<Longrightarrow> encode (runes s) = s"
proof (induction s rule: length_induct)
  case (1 s)
  show ?case
  proof (cases "s = []")
    case True
    then show ?thesis by (simp add: runes_def)
  next
    case False
    then obtain n where n: "decode_rune s = (fst (decode_rune s), n)" "1 \<le> n" "n \<le> length s"
        "rune_chunks s = (fst (decode_rune s), take n s) # rune_chunks (drop n s)"
      using chunks_Cons by blast
    have v: "\<not> (fst (decode_rune s) = RuneError \<and> n = 1)" "utf8_valid (drop n s)"
      using "1.prems" n(2,3,4) by (auto simp: utf8_valid_def)
    have e: "scalar (fst (decode_rune s))" "take n s = encode_scalar (fst (decode_rune s))"
      using encode_decode_rune [OF False n(1) v(1)] by auto
    have "length (drop n s) < length s" using n False by auto
    then have "encode (runes (drop n s)) = drop n s" using "1.IH" v(2) by blast
    then have "encode (runes s) = take n s @ drop n s"
      using n(4) e by (simp add: runes_def encode_Cons encode_rune_def)
    then show ?thesis by simp
  qed
qed

section \<open>ASCII strings\<close>

lemma rune_chunks_ascii_Cons:
  "bv b < 0x80 \<Longrightarrow> rune_chunks (b # bs) = (bv b, [b]) # rune_chunks bs"
  by (simp add: rune_chunks.simps(2) decode_rune.simps(2))

lemma runes_ascii_Cons: "bv b < 0x80 \<Longrightarrow> runes (b # bs) = bv b # runes bs"
  by (simp add: runes_def rune_chunks_ascii_Cons)

lemma runes_Nil [simp]: "runes [] = []"
  by (simp add: runes_def)

lemma runes_ascii: "all_ascii s \<Longrightarrow> runes s = map bv s"
  by (induction s) (simp_all add: all_ascii_def runes_ascii_Cons)

lemma ascii_valid: "all_ascii s \<Longrightarrow> utf8_valid s"
  by (induction s) (auto simp: all_ascii_def utf8_valid_def rune_chunks_ascii_Cons)

lemma encode_ascii: "all_ascii s \<Longrightarrow> encode (map bv s) = s"
  using encode_runes [OF ascii_valid] runes_ascii by metis

section \<open>strings.Map\<close>

lemma runes_go_map: "(\<And>r r'. f r = Some r' \<Longrightarrow> scalar r \<Longrightarrow> scalar r') \<Longrightarrow>
   runes (go_map f s) = List.map_filter f (runes s)"
proof -
  assume f: "\<And>r r'. f r = Some r' \<Longrightarrow> scalar r \<Longrightarrow> scalar r'"
  have "\<forall>r \<in> set (List.map_filter f (runes s)). scalar r"
    using f runes_scalar [of _ s] by (auto simp: List.map_filter_def)
  then show ?thesis by (simp add: go_map_def runes_encode map_idI)
qed

lemma go_map_id: "utf8_valid s \<Longrightarrow> (\<And>r. r \<in> set (runes s) \<Longrightarrow> f r = Some r) \<Longrightarrow> go_map f s = s"
proof -
  assume v: "utf8_valid s" and f: "\<And>r. r \<in> set (runes s) \<Longrightarrow> f r = Some r"
  have "List.map_filter f xs = xs" if "\<And>r. r \<in> set xs \<Longrightarrow> f r = Some r" for xs
    using that by (induction xs) (auto simp: List.map_filter_simps)
  then show ?thesis using f v by (simp add: go_map_def encode_runes)
qed

end
