(* ===== verification/Invisible.thy ===== *)
theory Invisible
  imports Utf8
begin

text \<open>
  \<^verbatim>\<open>internal/engine/invisible.go\<close> and \<^verbatim>\<open>internal/engine/confusables.go\<close>: the invisible characters
  (range tables derived from Go's Unicode tables), stripping them, recovering text smuggled in
  the Tags block, and folding homoglyphs. Go's own tables and character classes are the record
  \<open>unicode_data\<close>; the golang.org/x/text normal forms are parameters.
\<close>

section \<open>Range tables of package unicode\<close>

record Range =
  rg_lo :: nat
  rg_hi :: nat
  rg_stride :: nat

record RangeTable =
  R16 :: "Range list"
  R32 :: "Range list"
  LatinOffset :: nat

text \<open>The linear search of \<^verbatim>\<open>unicode.is16\<close> and \<^verbatim>\<open>is32\<close>, and \<^verbatim>\<open>unicode.Is\<close>.\<close>

fun is_ranges :: "Range list \<Rightarrow> rune \<Rightarrow> bool" where
  "is_ranges [] r = False"
| "is_ranges (rg # rgs) r =
     (if r < rg_lo rg then False
      else if r \<le> rg_hi rg then rg_stride rg = 1 \<or> (r - rg_lo rg) mod rg_stride rg = 0
      else is_ranges rgs r)"

definition unicode_Is :: "RangeTable \<Rightarrow> rune \<Rightarrow> bool" where
  "unicode_Is t r =
     (if R16 t \<noteq> [] \<and> r \<le> rg_hi (last (R16 t)) then is_ranges (R16 t) r
      else if R32 t \<noteq> [] \<and> r \<ge> rg_lo (hd (R32 t)) then is_ranges (R32 t) r
      else False)"

text \<open>What the package unicode provides, as far as the engine and its detectors use it.\<close>

record unicode_data =
  u_Other_Default_Ignorable :: RangeTable
  u_Cf :: RangeTable
  u_Variation_Selector :: RangeTable
  u_White_Space :: RangeTable
  u_Prepended_Concatenation_Mark :: RangeTable
  u_Mn :: RangeTable
  u_RTL_scripts :: "rune \<Rightarrow> bool"
  u_IsLetter :: "rune \<Rightarrow> bool"
  u_IsPunct :: "rune \<Rightarrow> bool"
  u_IsSpace :: "rune \<Rightarrow> bool"
  u_IsPrint :: "rune \<Rightarrow> bool"

section \<open>Invisible characters (invisible.go)\<close>

definition tagRangeLo :: rune where "tagRangeLo = 0xE0000"
definition tagRangeHi :: rune where "tagRangeHi = 0xE007F"

definition IsTagChar :: "rune \<Rightarrow> bool" where
  "IsTagChar r \<longleftrightarrow> r \<ge> tagRangeLo \<and> r \<le> tagRangeHi"

definition IsBidiControl :: "rune \<Rightarrow> bool" where
  "IsBidiControl r \<longleftrightarrow>
     r \<in> {0x202A, 0x202B, 0x202C, 0x202D, 0x202E, 0x2066, 0x2067, 0x2068, 0x2069}"

text \<open>
  \<^verbatim>\<open>for r := lo; r <= hi; r += stride\<close>, with \<open>d = stride - 1\<close>: the strides of the tables are at
  least one.
\<close>

function stride_loop :: "nat \<Rightarrow> nat \<Rightarrow> nat \<Rightarrow> rune list" where
  "stride_loop r hi d = (if r \<le> hi then r # stride_loop (r + Suc d) hi d else [])"
  by pat_completeness auto
termination
  by (relation "measure (\<lambda>(r, hi, d). Suc hi - r)") auto

declare stride_loop.simps [simp del]

definition range_runes :: "Range \<Rightarrow> rune list" where
  "range_runes rg = stride_loop (rg_lo rg) (rg_hi rg) (rg_stride rg - 1)"

definition appendTable :: "rune list \<Rightarrow> RangeTable \<Rightarrow> rune list" where
  "appendTable rs tab = rs @ concat (map range_runes (R16 tab)) @ concat (map range_runes (R32 tab))"

definition add_range :: "nat \<Rightarrow> nat \<Rightarrow> RangeTable \<Rightarrow> RangeTable" where
  "add_range lo hi t =
     (if hi \<le> 0xFFFF then
        t\<lparr>R16 := R16 t @ [\<lparr>rg_lo = lo, rg_hi = hi, rg_stride = 1\<rparr>],
          LatinOffset := (if hi \<le> 0xFF then Suc (LatinOffset t) else LatinOffset t)\<rparr>
      else if lo \<le> 0xFFFF then
        t\<lparr>R16 := R16 t @ [\<lparr>rg_lo = lo, rg_hi = 0xFFFF, rg_stride = 1\<rparr>],
          R32 := R32 t @ [\<lparr>rg_lo = 0x10000, rg_hi = hi, rg_stride = 1\<rparr>]\<rparr>
      else t\<lparr>R32 := R32 t @ [\<lparr>rg_lo = lo, rg_hi = hi, rg_stride = 1\<rparr>]\<rparr>)"

text \<open>The coalescing loop of \<^verbatim>\<open>tableFromRunes\<close>: the open range is \<open>None\<close> until one is started.\<close>

fun coalesce :: "(rune \<Rightarrow> bool) \<Rightarrow> (nat \<times> nat) option \<Rightarrow> rune list \<Rightarrow> RangeTable \<Rightarrow> RangeTable" where
  "coalesce keep cur [] t = (case cur of None \<Rightarrow> t | Some (lo, hi) \<Rightarrow> add_range lo hi t)"
| "coalesce keep cur (r # rs) t =
     (if \<not> keep r then coalesce keep cur rs t
      else (case cur of
              None \<Rightarrow> coalesce keep (Some (r, r)) rs t
            | Some (lo, hi) \<Rightarrow>
                if r = hi + 1 then coalesce keep (Some (lo, r)) rs t
                else coalesce keep (Some (r, r)) rs (add_range lo hi t)))"

definition tableFromRunes :: "rune list \<Rightarrow> (rune \<Rightarrow> bool) \<Rightarrow> RangeTable" where
  "tableFromRunes rs keep =
     coalesce keep None (remdups_adj (sort rs)) \<lparr>R16 = [], R32 = [], LatinOffset = 0\<rparr>"

definition buildDefaultIgnorable :: "unicode_data \<Rightarrow> RangeTable" where
  "buildDefaultIgnorable ud =
     tableFromRunes
       (appendTable (appendTable (appendTable [] (u_Other_Default_Ignorable ud)) (u_Cf ud))
          (u_Variation_Selector ud))
       (\<lambda>r. if unicode_Is (u_White_Space ud) r then False
            else if r \<ge> 0xFFF9 \<and> r \<le> 0xFFFB then False
            else if r \<ge> 0x13430 \<and> r \<le> 0x13440 then False
            else if unicode_Is (u_Prepended_Concatenation_Mark ud) r then False
            else True)"

definition buildZeroWidth :: "unicode_data \<Rightarrow> RangeTable" where
  "buildZeroWidth ud =
     tableFromRunes (appendTable [] (buildDefaultIgnorable ud))
       (\<lambda>r. \<not> unicode_Is (u_Variation_Selector ud) r)"

definition IsDefaultIgnorable :: "unicode_data \<Rightarrow> rune \<Rightarrow> bool" where
  "IsDefaultIgnorable ud r = unicode_Is (buildDefaultIgnorable ud) r"

definition IsZeroWidth :: "unicode_data \<Rightarrow> rune \<Rightarrow> bool" where
  "IsZeroWidth ud r = unicode_Is (buildZeroWidth ud) r"

definition IsSuspiciousInvisible :: "unicode_data \<Rightarrow> rune \<Rightarrow> bool" where
  "IsSuspiciousInvisible ud r \<longleftrightarrow> r \<noteq> 0x00AD \<and> \<not> IsTagChar r \<and> unicode_Is (buildZeroWidth ud) r"

definition IsInvisible :: "unicode_data \<Rightarrow> rune \<Rightarrow> bool" where
  "IsInvisible ud r =
     (if r < 0x80 then False
      else unicode_Is (buildDefaultIgnorable ud) r \<or> unicode_Is (u_Cf ud) r)"

fun tag_loop :: "rune list \<Rightarrow> bytes" where
  "tag_loop [] = []"
| "tag_loop (r # rs) =
     (if \<not> IsTagChar r then tag_loop rs
      else if r \<ge> 0xE0020 \<and> r \<le> 0xE007E then encode_rune (r - 0xE0000) @ tag_loop rs
      else tag_loop rs)"

definition DecodeTagChars :: "bytes \<Rightarrow> bytes option" where
  "DecodeTagChars content = (let buf = tag_loop (runes content) in if buf = [] then None else Some buf)"

fun count_loop :: "rune list \<Rightarrow> nat \<Rightarrow> nat \<Rightarrow> nat \<times> nat" where
  "count_loop [] tags bidi = (tags, bidi)"
| "count_loop (r # rs) tags bidi =
     (if IsTagChar r then count_loop rs (Suc tags) bidi
      else if IsBidiControl r then count_loop rs tags (Suc bidi)
      else count_loop rs tags bidi)"

definition CountInvisible :: "bytes \<Rightarrow> nat \<times> nat" where
  "CountInvisible content = count_loop (runes content) 0 0"

definition StripInvisible :: "unicode_data \<Rightarrow> bytes \<Rightarrow> bytes \<times> bool" where
  "StripInvisible ud data =
     (go_map (\<lambda>r. if IsInvisible ud r then None else Some r) data,
      list_ex (IsInvisible ud) (runes data))"

section \<open>Homoglyph folding (confusables.go)\<close>

definition confusables_table :: "(rune \<times> rune) list" where
  "confusables_table =
     [
      (0x0410, 0x41), (0x0412, 0x42), (0x0415, 0x45), (0x041A, 0x4B), (0x041C, 0x4D), (0x041D, 0x48), (0x041E, 0x4F), (0x0420, 0x50),
      (0x0421, 0x43), (0x0422, 0x54), (0x0423, 0x59), (0x0425, 0x58), (0x0406, 0x49), (0x0408, 0x4A), (0x0405, 0x53), (0x0430, 0x61),
      (0x0435, 0x65), (0x043E, 0x6F), (0x0440, 0x70), (0x0441, 0x63), (0x0443, 0x79), (0x0445, 0x78), (0x043C, 0x6D), (0x0442, 0x74),
      (0x0456, 0x69), (0x0458, 0x6A), (0x0455, 0x73), (0x04BB, 0x68), (0x04CF, 0x6C), (0x0501, 0x64), (0x051B, 0x71), (0x051D, 0x77),
      (0x043D, 0x68), (0x0432, 0x62), (0x0391, 0x41), (0x0392, 0x42), (0x0395, 0x45), (0x0396, 0x5A), (0x0397, 0x48), (0x0399, 0x49),
      (0x039A, 0x4B), (0x039C, 0x4D), (0x039D, 0x4E), (0x039F, 0x4F), (0x03A1, 0x50), (0x03A4, 0x54), (0x03A5, 0x59), (0x03A7, 0x58),
      (0x03B1, 0x61), (0x03B5, 0x65), (0x03B9, 0x69), (0x03BA, 0x6B), (0x03BF, 0x6F), (0x03C1, 0x70), (0x03C4, 0x74), (0x03BD, 0x76),
      (0x03B3, 0x79), (0x03C5, 0x75), (0x0585, 0x6F), (0x0578, 0x6E), (0x057D, 0x73), (0x0563, 0x71), (0x13AA, 0x41), (0x13AB, 0x42),
      (0x13AF, 0x43), (0x13A0, 0x44), (0x13AC, 0x45), (0x13B3, 0x57), (0x13BB, 0x47), (0x13C0, 0x56), (0x0131, 0x69), (0x0251, 0x61),
      (0x0261, 0x67), (0x026A, 0x49), (0x01C0, 0x6C), (0x2C65, 0x61), (0x0250, 0x61), (0x2044, 0x2F), (0x2215, 0x2F)]"

definition confusables :: "rune \<Rightarrow> rune option" where
  "confusables = map_of confusables_table"

definition isASCII :: "bytes \<Rightarrow> bool" where
  "isASCII content = list_all (\<lambda>b. \<not> bv b \<ge> 0x80) content"

text \<open>The loop: the runes written and whether one was dropped or folded.\<close>

fun fold_loop :: "unicode_data \<Rightarrow> rune list \<Rightarrow> rune list \<times> bool" where
  "fold_loop ud [] = ([], False)"
| "fold_loop ud (r # rs) =
     (if unicode_Is (u_Mn ud) r then (fst (fold_loop ud rs), True)
      else (case confusables r of
              Some folded \<Rightarrow> (folded # fst (fold_loop ud rs), True)
            | None \<Rightarrow> (r # fst (fold_loop ud rs), snd (fold_loop ud rs))))"

text \<open>\<^verbatim>\<open>norm.NFD.Bytes\<close> of golang.org/x/text is the parameter \<open>nfd\<close>.\<close>

definition FoldConfusables :: "(bytes \<Rightarrow> bytes) \<Rightarrow> unicode_data \<Rightarrow> bytes \<Rightarrow> bytes option" where
  "FoldConfusables nfd ud content =
     (if isASCII content then None
      else let (out, changed) = fold_loop ud (runes (nfd content)) in
           if \<not> changed \<and> encode out = content then None else Some (encode out))"

section \<open>Well-formed tables\<close>

text \<open>
  Package unicode documents its tables: both slices sorted and non-overlapping, strides positive,
  R16 below and R32 from U+10000 on.
\<close>

definition range_ok :: "Range \<Rightarrow> bool" where
  "range_ok rg \<longleftrightarrow> rg_lo rg \<le> rg_hi rg \<and> 0 < rg_stride rg"

definition ranges_ok :: "Range list \<Rightarrow> bool" where
  "ranges_ok rgs \<longleftrightarrow> sorted_wrt (\<lambda>a b. rg_hi a < rg_lo b) rgs \<and> (\<forall>rg \<in> set rgs. range_ok rg)"

definition table_ok :: "RangeTable \<Rightarrow> bool" where
  "table_ok t \<longleftrightarrow> ranges_ok (R16 t) \<and> ranges_ok (R32 t)
     \<and> (\<forall>rg \<in> set (R16 t). rg_hi rg \<le> 0xFFFF) \<and> (\<forall>rg \<in> set (R32 t). 0x10000 \<le> rg_lo rg)"

definition in_rg :: "Range \<Rightarrow> rune \<Rightarrow> bool" where
  "in_rg rg r \<longleftrightarrow> rg_lo rg \<le> r \<and> r \<le> rg_hi rg \<and> (r - rg_lo rg) mod rg_stride rg = 0"

definition in_table :: "RangeTable \<Rightarrow> rune \<Rightarrow> bool" where
  "in_table t r \<longleftrightarrow> (\<exists>rg \<in> set (R16 t) \<union> set (R32 t). in_rg rg r)"

lemma is_ranges_iff: "ranges_ok rgs \<Longrightarrow> is_ranges rgs r \<longleftrightarrow> (\<exists>rg \<in> set rgs. in_rg rg r)"
proof (induction rgs)
  case Nil
  then show ?case by simp
next
  case (Cons rg rgs)
  have ok: "ranges_ok rgs" "range_ok rg" and later: "\<forall>q \<in> set rgs. rg_hi rg < rg_lo q"
    using Cons.prems by (auto simp: ranges_ok_def)
  have none: "\<not> in_rg q r" if "q \<in> set rgs" "r \<le> rg_hi rg" for q
    using that later by (force simp: in_rg_def)
  consider "r < rg_lo rg" | "rg_lo rg \<le> r" "r \<le> rg_hi rg" | "rg_hi rg < r" by linarith
  then show ?case
  proof cases
    case 1
    then show ?thesis using none ok by (auto simp: in_rg_def range_ok_def)
  next
    case 2
    then have "is_ranges (rg # rgs) r \<longleftrightarrow> in_rg rg r" by (auto simp: in_rg_def)
    with none 2 show ?thesis by auto
  next
    case 3
    then have "is_ranges (rg # rgs) r \<longleftrightarrow> is_ranges rgs r" "\<not> in_rg rg r"
      using ok by (auto simp: in_rg_def range_ok_def)
    with Cons.IH ok show ?thesis by simp
  qed
qed

lemma ranges_ok_last: "ranges_ok rgs \<Longrightarrow> rg \<in> set rgs \<Longrightarrow> rg_hi rg \<le> rg_hi (last rgs)"
proof (induction rgs)
  case Nil
  then show ?case by simp
next
  case (Cons q rgs)
  show ?case
  proof (cases "rgs = []")
    case True
    with Cons.prems show ?thesis by simp
  next
    case False
    then have l: "last rgs \<in> set rgs" by simp
    have "rg_hi q < rg_lo (last rgs)" "rg_lo (last rgs) \<le> rg_hi (last rgs)" "ranges_ok rgs"
      using Cons.prems(1) l by (auto simp: ranges_ok_def range_ok_def)
    then show ?thesis using Cons False by auto
  qed
qed

lemma ranges_ok_hd: "ranges_ok rgs \<Longrightarrow> rg \<in> set rgs \<Longrightarrow> rg_lo (hd rgs) \<le> rg_lo rg"
  by (cases rgs) (force simp: ranges_ok_def range_ok_def)+

lemma unicode_Is_iff: "table_ok t \<Longrightarrow> unicode_Is t r \<longleftrightarrow> in_table t r"
proof -
  assume t: "table_ok t"
  have r16: "in_rg rg r \<Longrightarrow> r \<le> rg_hi (last (R16 t)) \<and> r \<le> 0xFFFF" if "rg \<in> set (R16 t)" for rg
    using that t ranges_ok_last [of "R16 t" rg] by (auto simp: table_ok_def in_rg_def)
  have r32: "in_rg rg r \<Longrightarrow> rg_lo (hd (R32 t)) \<le> r \<and> 0x10000 \<le> r" if "rg \<in> set (R32 t)" for rg
    using that t ranges_ok_hd [of "R32 t" rg] by (force simp: table_ok_def in_rg_def)
  have top: "rg_hi (last (R16 t)) \<le> 0xFFFF" if "R16 t \<noteq> []"
    using that t by (auto simp: table_ok_def)
  show ?thesis
  proof (cases "R16 t \<noteq> [] \<and> r \<le> rg_hi (last (R16 t))")
    case True
    then have "unicode_Is t r \<longleftrightarrow> (\<exists>rg \<in> set (R16 t). in_rg rg r)"
      using t by (simp add: unicode_Is_def is_ranges_iff table_ok_def)
    moreover have "\<not> in_rg rg r" if "rg \<in> set (R32 t)" for rg
      using r32 [OF that] True top by auto
    ultimately show ?thesis by (auto simp: in_table_def)
  next
    case False
    have "\<not> in_rg rg r" if "rg \<in> set (R16 t)" for rg
      using r16 [OF that] False that by auto
    then have "in_table t r \<longleftrightarrow> (\<exists>rg \<in> set (R32 t). in_rg rg r)" by (auto simp: in_table_def)
    moreover have "unicode_Is t r \<longleftrightarrow> (\<exists>rg \<in> set (R32 t). in_rg rg r)"
      using False t r32 by (auto simp: unicode_Is_def is_ranges_iff table_ok_def)
    ultimately show ?thesis by simp
  qed
qed

section \<open>Building tables\<close>

lemma stride_loop_set: "x \<in> set (stride_loop r hi d) \<longleftrightarrow> r \<le> x \<and> x \<le> hi \<and> (x - r) mod Suc d = 0"
proof (induction r hi d rule: stride_loop.induct)
  case (1 r hi d)
  show ?case
  proof (cases "r \<le> hi")
    case True
    have "(r + Suc d \<le> x \<and> (x - (r + Suc d)) mod Suc d = 0 \<or> x = r) \<longleftrightarrow> r \<le> x \<and> (x - r) mod Suc d = 0"
    proof (cases "r + Suc d \<le> x")
      case True
      then have "x - r = (x - (r + Suc d)) + Suc d" by simp
      then have "(x - r) mod Suc d = (x - (r + Suc d)) mod Suc d" by (metis mod_add_self2)
      with True show ?thesis by auto
    next
      case False
      then show ?thesis by (auto simp: mod_less dest: le_Suc_ex)
    qed
    with True "1.IH" show ?thesis by (subst stride_loop.simps) auto
  next
    case False
    then show ?thesis by (subst stride_loop.simps) auto
  qed
qed

lemma range_runes_set: "range_ok rg \<Longrightarrow> x \<in> set (range_runes rg) \<longleftrightarrow> in_rg rg x"
  by (cases "rg_stride rg") (auto simp: range_runes_def stride_loop_set in_rg_def range_ok_def)

lemma appendTable_set: "table_ok t \<Longrightarrow> x \<in> set (appendTable rs t) \<longleftrightarrow> x \<in> set rs \<or> in_table t x"
  by (auto simp: appendTable_def in_table_def table_ok_def ranges_ok_def range_runes_set)

definition below :: "RangeTable \<Rightarrow> nat \<Rightarrow> bool" where
  "below t b \<longleftrightarrow> (\<forall>rg \<in> set (R16 t) \<union> set (R32 t). rg_hi rg < b)"

lemma add_range_ok:
  assumes "table_ok t" "below t lo" "lo \<le> hi"
  shows "table_ok (add_range lo hi t)" "below (add_range lo hi t) (Suc hi)"
    "in_table (add_range lo hi t) r \<longleftrightarrow> in_table t r \<or> (lo \<le> r \<and> r \<le> hi)"
proof -
  have R: "ranges_ok (rgs @ [\<lparr>rg_lo = a, rg_hi = b, rg_stride = Suc 0\<rparr>])"
    if "ranges_ok rgs" "\<forall>rg \<in> set rgs. rg_hi rg < a" "a \<le> b" for rgs a b
    using that by (auto simp: ranges_ok_def range_ok_def sorted_wrt_append)
  have S: "ranges_ok [\<lparr>rg_lo = a, rg_hi = b, rg_stride = Suc 0\<rparr>]" if "a \<le> b" for a b
    using that by (simp add: ranges_ok_def range_ok_def)
  have b16: "\<forall>rg \<in> set (R16 t). rg_hi rg < lo" and b32: "\<forall>rg \<in> set (R32 t). rg_hi rg < lo"
    using assms(2) by (auto simp: below_def)
  have empty32: "R32 t = []" if "lo \<le> 0xFFFF"
  proof (rule ccontr)
    assume "R32 t \<noteq> []"
    then have "hd (R32 t) \<in> set (R32 t)" by simp
    then have "rg_hi (hd (R32 t)) < lo" "0x10000 \<le> rg_lo (hd (R32 t))" "range_ok (hd (R32 t))"
      using assms(1) b32 by (auto simp: table_ok_def ranges_ok_def)
    with that show False by (simp add: range_ok_def)
  qed
  note D = add_range_def table_ok_def
  show "table_ok (add_range lo hi t)"
    using assms(1,3) b16 b32 empty32 by (auto simp: D intro!: R S)
  show "below (add_range lo hi t) (Suc hi)"
    using assms(3) b16 b32 by (auto simp: below_def add_range_def intro: less_le_trans less_SucI)
  show "in_table (add_range lo hi t) r \<longleftrightarrow> in_table t r \<or> (lo \<le> r \<and> r \<le> hi)"
    using assms(3) by (auto simp: in_table_def add_range_def in_rg_def)
qed

definition cur_ok :: "(nat \<times> nat) option \<Rightarrow> rune list \<Rightarrow> RangeTable \<Rightarrow> bool" where
  "cur_ok cur rs t =
     (case cur of
        None \<Rightarrow> R16 t = [] \<and> R32 t = []
      | Some (lo, hi) \<Rightarrow> lo \<le> hi \<and> below t lo \<and> (\<forall>r \<in> set rs. hi < r))"

definition in_cur :: "(nat \<times> nat) option \<Rightarrow> rune \<Rightarrow> bool" where
  "in_cur cur r = (case cur of None \<Rightarrow> False | Some (lo, hi) \<Rightarrow> lo \<le> r \<and> r \<le> hi)"

lemma coalesce_ok:
  assumes "table_ok t" "cur_ok cur rs t" "sorted_wrt (<) rs"
  shows "table_ok (coalesce keep cur rs t) \<and>
    (in_table (coalesce keep cur rs t) r \<longleftrightarrow> in_table t r \<or> in_cur cur r \<or> (r \<in> set rs \<and> keep r))"
  using assms
proof (induction keep cur rs t rule: coalesce.induct)
  case (1 keep cur t)
  then show ?case
    by (cases cur) (auto simp: cur_ok_def in_cur_def add_range_ok split: prod.splits)
next
  case (2 keep cur x rs t)
  have srt: "sorted_wrt (<) rs" and lt: "\<forall>r \<in> set rs. x < r" using "2.prems" by auto
  show ?case
  proof (cases "keep x")
    case False
    have "cur_ok cur rs t" using "2.prems"(2) by (auto simp: cur_ok_def split: option.splits)
    with "2.IH"(1) False "2.prems" srt show ?thesis by auto
  next
    case True
    show ?thesis
    proof (cases cur)
      case None
      then have "cur_ok (Some (x, x)) rs t" using "2.prems"(2) lt by (simp add: cur_ok_def below_def)
      with "2.IH"(2) True None "2.prems" srt show ?thesis by (auto simp: in_cur_def)
    next
      case (Some p)
      obtain lo hi where p: "cur = Some (lo, hi)" using Some by (cases p) auto
      have c: "lo \<le> hi" "below t lo" "hi < x" using "2.prems"(2) p by (auto simp: cur_ok_def)
      show ?thesis
      proof (cases "x = hi + 1")
        case adj: True
        have "cur_ok (Some (lo, x)) rs t" using c lt by (simp add: cur_ok_def)
        then have "table_ok (coalesce keep (Some (lo, x)) rs t) \<and>
          (in_table (coalesce keep (Some (lo, x)) rs t) r \<longleftrightarrow>
            in_table t r \<or> in_cur (Some (lo, x)) r \<or> (r \<in> set rs \<and> keep r))"
          using "2.IH"(3) [OF _ p refl adj] True "2.prems"(1) srt by simp
        moreover have "in_cur (Some (lo, x)) r \<longleftrightarrow> in_cur cur r \<or> r = x"
          using adj c by (auto simp: in_cur_def p)
        moreover have "coalesce keep cur (x # rs) t = coalesce keep (Some (lo, x)) rs t"
          using True p adj by simp
        ultimately show ?thesis using True by auto
      next
        case gap: False
        note a = add_range_ok [OF "2.prems"(1) c(2,1)]
        have "below (add_range lo hi t) x"
          using a(2) c(3) unfolding below_def by force
        then have "cur_ok (Some (x, x)) rs (add_range lo hi t)" using lt by (simp add: cur_ok_def)
        then have "table_ok (coalesce keep (Some (x, x)) rs (add_range lo hi t)) \<and>
          (in_table (coalesce keep (Some (x, x)) rs (add_range lo hi t)) r \<longleftrightarrow>
            in_table (add_range lo hi t) r \<or> in_cur (Some (x, x)) r \<or> (r \<in> set rs \<and> keep r))"
          using "2.IH"(4) [OF _ p refl gap] True a(1) srt by simp
        moreover have "in_cur (Some (x, x)) r \<longleftrightarrow> r = x" by (auto simp: in_cur_def)
        moreover have "coalesce keep cur (x # rs) t = coalesce keep (Some (x, x)) rs (add_range lo hi t)"
          using True p gap by simp
        ultimately show ?thesis using True a(3) by (auto simp: in_cur_def p)
      qed
    qed
  qed
qed

lemma sorted_strict: "sorted xs \<Longrightarrow> sorted_wrt (<) (remdups_adj (xs :: nat list))"
proof (induction xs rule: remdups_adj.induct)
  case (3 x y xs)
  show ?case
  proof (cases "x = y")
    case True
    with 3 show ?thesis by simp
  next
    case False
    with 3 show ?thesis by (auto simp: less_le)
  qed
qed simp_all

lemma tableFromRunes_ok:
  "table_ok (tableFromRunes rs keep) \<and> (in_table (tableFromRunes rs keep) r \<longleftrightarrow> r \<in> set rs \<and> keep r)"
proof -
  have "table_ok \<lparr>R16 = [], R32 = [], LatinOffset = 0\<rparr>" by (simp add: table_ok_def ranges_ok_def)
  moreover have "cur_ok None (remdups_adj (sort rs)) \<lparr>R16 = [], R32 = [], LatinOffset = 0\<rparr>"
    by (simp add: cur_ok_def)
  ultimately have "table_ok (tableFromRunes rs keep) \<and> (in_table (tableFromRunes rs keep) r \<longleftrightarrow>
      in_table \<lparr>R16 = [], R32 = [], LatinOffset = 0\<rparr> r \<or> in_cur None r \<or>
      (r \<in> set (remdups_adj (sort rs)) \<and> keep r))"
    unfolding tableFromRunes_def by (rule coalesce_ok) (simp add: sorted_strict)
  then show ?thesis by (simp add: in_table_def in_cur_def)
qed

text \<open>
  The range table built from a list of runes is the predicate it was built from: looking a
  rune up in the coalesced, BMP-split table with \<^verbatim>\<open>unicode.Is\<close> answers exactly whether the rune is in
  the list and kept by the filter.
\<close>

theorem tableFromRunes_correct: "unicode_Is (tableFromRunes rs keep) r \<longleftrightarrow> r \<in> set rs \<and> keep r"
  using tableFromRunes_ok [of rs keep r] by (simp add: unicode_Is_iff)

text \<open>
  \<^verbatim>\<open>DefaultIgnorable\<close> is the published formula (Other_Default_Ignorable_Code_Point + Cf +
  Variation_Selector - White_Space - FFF9..FFFB - 13430..13440 - Prepended_Concatenation_Mark),
  and \<^verbatim>\<open>ZeroWidth\<close> is that set without the variation selectors, for Unicode tables that are sorted
  and non-overlapping as package unicode documents.
\<close>

theorem DefaultIgnorable_formula:
  assumes "table_ok (u_Other_Default_Ignorable ud)" "table_ok (u_Cf ud)" "table_ok (u_Variation_Selector ud)"
  shows "(IsDefaultIgnorable ud r \<longleftrightarrow>
      (unicode_Is (u_Other_Default_Ignorable ud) r \<or> unicode_Is (u_Cf ud) r \<or> unicode_Is (u_Variation_Selector ud) r)
      \<and> \<not> unicode_Is (u_White_Space ud) r \<and> \<not> (0xFFF9 \<le> r \<and> r \<le> 0xFFFB) \<and> \<not> (0x13430 \<le> r \<and> r \<le> 0x13440)
      \<and> \<not> unicode_Is (u_Prepended_Concatenation_Mark ud) r)
    \<and> (IsZeroWidth ud r \<longleftrightarrow> IsDefaultIgnorable ud r \<and> \<not> unicode_Is (u_Variation_Selector ud) r)"
proof -
  have A: "unicode_Is (tableFromRunes rs keep) r \<longleftrightarrow> r \<in> set rs \<and> keep r" for rs keep
    using tableFromRunes_ok [of rs keep r] by (simp add: unicode_Is_iff)
  have ok: "table_ok (buildDefaultIgnorable ud)" by (simp add: buildDefaultIgnorable_def tableFromRunes_ok)
  show ?thesis
    using assms ok
    by (auto simp: IsDefaultIgnorable_def IsZeroWidth_def buildZeroWidth_def appendTable_set unicode_Is_iff)
      (auto simp: buildDefaultIgnorable_def tableFromRunes_ok appendTable_set unicode_Is_iff split: if_splits)
qed

definition sample_ud :: unicode_data where
  "sample_ud =
     \<lparr>u_Other_Default_Ignorable = \<lparr>R16 = [\<lparr>rg_lo = 0x034F, rg_hi = 0x034F, rg_stride = 1\<rparr>],
        R32 = [\<lparr>rg_lo = 0xE0002, rg_hi = 0xE001F, rg_stride = 1\<rparr>], LatinOffset = 0\<rparr>,
      u_Cf = \<lparr>R16 = [\<lparr>rg_lo = 0xAD, rg_hi = 0xAD, rg_stride = 1\<rparr>, \<lparr>rg_lo = 0x200B, rg_hi = 0x200F, rg_stride = 1\<rparr>],
        R32 = [\<lparr>rg_lo = 0xE0001, rg_hi = 0xE0020, rg_stride = 31\<rparr>], LatinOffset = 1\<rparr>,
      u_Variation_Selector = \<lparr>R16 = [\<lparr>rg_lo = 0xFE00, rg_hi = 0xFE0F, rg_stride = 1\<rparr>], R32 = [], LatinOffset = 0\<rparr>,
      u_White_Space = \<lparr>R16 = [\<lparr>rg_lo = 9, rg_hi = 13, rg_stride = 1\<rparr>], R32 = [], LatinOffset = 1\<rparr>,
      u_Prepended_Concatenation_Mark = \<lparr>R16 = [\<lparr>rg_lo = 0x600, rg_hi = 0x605, rg_stride = 1\<rparr>], R32 = [], LatinOffset = 0\<rparr>,
      u_Mn = \<lparr>R16 = [\<lparr>rg_lo = 0x300, rg_hi = 0x36F, rg_stride = 1\<rparr>], R32 = [], LatinOffset = 0\<rparr>,
      u_RTL_scripts = (\<lambda>r. 0x590 \<le> r \<and> r \<le> 0x6FF), u_IsLetter = (\<lambda>r. 65 \<le> r \<and> r \<le> 122),
      u_IsPunct = (\<lambda>r. r = 33), u_IsSpace = (\<lambda>r. r = 32), u_IsPrint = (\<lambda>r. 32 \<le> r \<and> r < 127)\<rparr>"

lemma sample_ud_ok:
  "table_ok (u_Other_Default_Ignorable sample_ud)" "table_ok (u_Cf sample_ud)"
  "table_ok (u_Variation_Selector sample_ud)"
  by (simp_all add: sample_ud_def table_ok_def ranges_ok_def range_ok_def)

theorem DefaultIgnorable_formula_witness:
  "table_ok (u_Other_Default_Ignorable sample_ud) \<and> table_ok (u_Cf sample_ud)
   \<and> table_ok (u_Variation_Selector sample_ud)
   \<and> IsDefaultIgnorable sample_ud 0x200B \<and> IsZeroWidth sample_ud 0x200B
   \<and> IsDefaultIgnorable sample_ud 0xFE0F \<and> \<not> IsZeroWidth sample_ud 0xFE0F"
  using sample_ud_ok DefaultIgnorable_formula [OF sample_ud_ok, where r = "0x200B"]
    DefaultIgnorable_formula [OF sample_ud_ok, where r = "0xFE0F"]
  by (simp add: sample_ud_def unicode_Is_def)

section \<open>Stripping\<close>

lemma map_filter_filter: "List.map_filter (\<lambda>r. if P r then None else Some r) rs = filter (\<lambda>r. \<not> P r) rs"
  by (induction rs) (auto simp: List.map_filter_simps)

lemma StripInvisible_runes:
  "runes (fst (StripInvisible ud data)) = filter (\<lambda>r. \<not> IsInvisible ud r) (runes data)"
  unfolding StripInvisible_def fst_conv
  by (subst runes_go_map) (auto simp: map_filter_filter split: if_splits)

lemma StripInvisible_id:
  "utf8_valid data \<Longrightarrow> \<not> list_ex (IsInvisible ud) (runes data) \<Longrightarrow> StripInvisible ud data = (data, False)"
  by (auto simp: StripInvisible_def list_ex_iff intro!: go_map_id)

lemma StripInvisible_valid: "utf8_valid (fst (StripInvisible ud data))"
  by (simp add: StripInvisible_def go_map_def)

text \<open>
  Stripping removes exactly the invisible runes: the runes of the result are those of the
  input that are not invisible, in order; the flag says whether there was one; the result is
  valid UTF-8 and a second strip changes nothing; ASCII content is returned unchanged.
\<close>

theorem StripInvisible_correct:
  "runes (fst (StripInvisible ud data)) = filter (\<lambda>r. \<not> IsInvisible ud r) (runes data)
   \<and> (snd (StripInvisible ud data) \<longleftrightarrow> (\<exists>r. r \<in> set (runes data) \<and> IsInvisible ud r))
   \<and> utf8_valid (fst (StripInvisible ud data))
   \<and> StripInvisible ud (fst (StripInvisible ud data)) = (fst (StripInvisible ud data), False)
   \<and> (all_ascii data \<longrightarrow> StripInvisible ud data = (data, False))"
proof -
  have "\<not> list_ex (IsInvisible ud) (runes (fst (StripInvisible ud data)))"
    by (simp add: StripInvisible_runes list_ex_iff)
  then have "StripInvisible ud (fst (StripInvisible ud data)) = (fst (StripInvisible ud data), False)"
    using StripInvisible_id StripInvisible_valid by blast
  moreover have "StripInvisible ud data = (data, False)" if a: "all_ascii data"
  proof -
    have "\<not> list_ex (IsInvisible ud) (runes data)"
      using a by (auto simp: runes_ascii list_ex_iff IsInvisible_def all_ascii_def list_all_iff)
    then show ?thesis using StripInvisible_id ascii_valid [OF a] by blast
  qed
  moreover have "snd (StripInvisible ud data) \<longleftrightarrow> (\<exists>r. r \<in> set (runes data) \<and> IsInvisible ud r)"
    by (auto simp: StripInvisible_def list_ex_iff)
  ultimately show ?thesis using StripInvisible_runes StripInvisible_valid by blast
qed

theorem StripInvisible_correct_witness:
  "StripInvisible sample_ud ''plain'' = (''plain'', False)"
  using StripInvisible_correct [of sample_ud "''plain''"] by (simp add: all_ascii_def)

section \<open>The Tags block\<close>

definition tag_mirror :: "char \<Rightarrow> rune" where
  "tag_mirror c = 0xE0000 + bv c"

lemma tag_loop_append: "tag_loop (xs @ ys) = tag_loop xs @ tag_loop ys"
  by (induction xs) auto

lemma tag_loop_filter: "tag_loop (filter IsTagChar rs) = tag_loop rs"
  by (induction rs) auto

lemma tag_loop_mirror:
  "(\<And>c. c \<in> set msg \<Longrightarrow> 0x20 \<le> bv c \<and> bv c \<le> 0x7E) \<Longrightarrow> tag_loop (map tag_mirror msg) = msg"
proof (induction msg)
  case Nil
  then show ?case by simp
next
  case (Cons c msg)
  have c: "0x20 \<le> bv c" "bv c \<le> 0x7E" using Cons.prems by auto
  then have "encode_rune (bv c) = [c]"
    by (simp add: encode_rune_def encode_scalar_def to_scalar_def scalar_def)
  moreover have "IsTagChar (tag_mirror c)" "0xE0020 \<le> tag_mirror c" "tag_mirror c \<le> 0xE007E"
      "tag_mirror c - 0xE0000 = bv c"
    using c by (auto simp: tag_mirror_def IsTagChar_def tagRangeLo_def tagRangeHi_def)
  ultimately show ?case using Cons by simp
qed

text \<open>
  Smuggled msg is recovered. If the tag characters of the content spell a non-empty text of
  printable ASCII, wherever they stand between other runes, \<^verbatim>\<open>DecodeTagChars\<close> returns that text; if
  the Unicode tables class the block as format characters, \<^verbatim>\<open>StripInvisible\<close> leaves none of them.
\<close>

theorem DecodeTagChars_recovers:
  assumes "filter IsTagChar (runes content) = map tag_mirror msg" "msg \<noteq> []"
    and "\<forall>c \<in> set msg. 0x20 \<le> bv c \<and> bv c \<le> 0x7E"
    and "\<forall>r. IsTagChar r \<longrightarrow> unicode_Is (u_Cf ud) r"
  shows "DecodeTagChars content = Some msg
    \<and> filter IsTagChar (runes (fst (StripInvisible ud content))) = []"
proof -
  have "tag_loop (runes content) = tag_loop (map tag_mirror msg)"
    using tag_loop_filter [of "runes content"] assms(1) by simp
  also have "\<dots> = msg" using assms(3) by (intro tag_loop_mirror) auto
  finally have "DecodeTagChars content = Some msg" using assms(2) by (simp add: DecodeTagChars_def)
  moreover have "IsTagChar r \<Longrightarrow> IsInvisible ud r" for r
    using assms(4) by (auto simp: IsInvisible_def IsTagChar_def tagRangeLo_def)
  then have "filter IsTagChar (runes (fst (StripInvisible ud content))) = []"
    by (auto simp: StripInvisible_runes filter_empty_conv)
  ultimately show ?thesis by blast
qed

definition tags_ud :: unicode_data where
  "tags_ud = sample_ud\<lparr>u_Cf := \<lparr>R16 = [], R32 = [\<lparr>rg_lo = 0xE0000, rg_hi = 0xE007F, rg_stride = 1\<rparr>], LatinOffset = 0\<rparr>\<rparr>"

theorem DecodeTagChars_recovers_witness:
  "DecodeTagChars (encode [104, tag_mirror CHR ''o'', 105, tag_mirror CHR ''k'']) = Some ''ok''
   \<and> filter IsTagChar (runes (fst (StripInvisible tags_ud
        (encode [104, tag_mirror CHR ''o'', 105, tag_mirror CHR ''k''])))) = []"
  by (rule DecodeTagChars_recovers)
    (auto simp: runes_encode tag_mirror_def IsTagChar_def tagRangeLo_def tagRangeHi_def to_scalar_def scalar_def
      tags_ud_def unicode_Is_def)

section \<open>Folding\<close>

lemma confusables_ascii: "confusables r = Some f \<Longrightarrow> f < 0x80 \<and> 0x80 \<le> r"
proof -
  have "list_all (\<lambda>(a, b). b < 0x80 \<and> 0x80 \<le> a) confusables_table"
    by (simp add: confusables_table_def)
  moreover assume "confusables r = Some f"
  then have "(r, f) \<in> set confusables_table" by (simp add: confusables_def map_of_SomeD)
  ultimately show ?thesis by (auto simp: list_all_iff)
qed

lemma fold_loop_clean:
  assumes "\<And>r. r < 0x80 \<Longrightarrow> \<not> unicode_Is (u_Mn ud) r" "r \<in> set (fst (fold_loop ud rs))"
  shows "\<not> unicode_Is (u_Mn ud) r \<and> confusables r = None"
  using assms(2)
proof (induction rs)
  case Nil
  then show ?case by simp
next
  case (Cons x rs)
  show ?case
  proof (cases "r \<in> set (fst (fold_loop ud rs))")
    case True
    with Cons.IH show ?thesis by simp
  next
    case False
    with Cons.prems consider "r = x" "\<not> unicode_Is (u_Mn ud) x" "confusables x = None"
      | "confusables x = Some r"
      by (auto split: if_splits option.splits)
    then show ?thesis
    proof cases
      case 2
      then have "r < 0x80" using confusables_ascii by blast
      then show ?thesis using assms(1) confusables_ascii [of r] by (cases "confusables r") auto
    qed simp
  qed
qed

lemma fold_loop_scalar: "(\<And>r. r \<in> set rs \<Longrightarrow> scalar r) \<Longrightarrow> r \<in> set (fst (fold_loop ud rs)) \<Longrightarrow> scalar r"
proof (induction rs)
  case Nil
  then show ?case by simp
next
  case (Cons x rs)
  have "scalar f" if "confusables x = Some f" for f
    using confusables_ascii [OF that] by (simp add: scalar_def)
  with Cons show ?case by (auto split: if_splits option.splits)
qed

text \<open>
  Folding leaves no homoglyph. Where \<^verbatim>\<open>FoldConfusables\<close> returns a skeleton, none of its runes
  is a nonspacing mark and none is a confusable of the table (ASCII itself has no nonspacing
  marks); it returns none for ASCII content.
\<close>

theorem FoldConfusables_clean:
  assumes "\<forall>r < 0x80. \<not> unicode_Is (u_Mn ud) r" "FoldConfusables nfd ud content = Some out"
  shows "\<not> isASCII content \<and> (\<forall>r \<in> set (runes out). \<not> unicode_Is (u_Mn ud) r \<and> confusables r = None)"
proof -
  define rs where "rs = fst (fold_loop ud (runes (nfd content)))"
  have out: "out = encode rs" "\<not> isASCII content"
    using assms(2) by (auto simp: FoldConfusables_def rs_def Let_def split: if_splits prod.splits)
  have "\<forall>r \<in> set rs. scalar r"
    unfolding rs_def using fold_loop_scalar runes_scalar by blast
  then have "runes out = rs" by (simp add: out runes_encode map_idI)
  moreover have "\<not> unicode_Is (u_Mn ud) r \<and> confusables r = None" if "r \<in> set rs" for r
    using fold_loop_clean [of ud r "runes (nfd content)"] that assms(1) by (auto simp: rs_def)
  ultimately show ?thesis using out by simp
qed

theorem FoldConfusables_clean_witness:
  "FoldConfusables (\<lambda>b. b) sample_ud (encode [105, 0x043E]) = Some (encode [105, 0x6F])
   \<and> \<not> isASCII (encode [105, 0x043E])
   \<and> list_all (\<lambda>r. \<not> unicode_Is (u_Mn sample_ud) r \<and> confusables r = None) (runes (encode [105, 0x6F]))"
proof -
  have a: "\<forall>r < 0x80. \<not> unicode_Is (u_Mn sample_ud) r" by (simp add: sample_ud_def unicode_Is_def)
  have e: "\<not> isASCII (encode [105, 0x043E])"
    by (simp add: encode_def encode_rune_def to_scalar_def scalar_def encode_scalar_def isASCII_def)
  have h: "FoldConfusables (\<lambda>b. b) sample_ud (encode [105, 0x043E]) = Some (encode [105, 0x6F])"
    using e by (simp add: FoldConfusables_def runes_encode to_scalar_def scalar_def sample_ud_def
        unicode_Is_def confusables_def confusables_table_def)
  show ?thesis using h FoldConfusables_clean [OF a h] unfolding list_all_iff by blast
qed

end
