(* ===== verification/Bidi.thy ===== *)
theory Bidi
  imports Invisible "HOL-Library.Multiset"
begin

text \<open>
  \<^verbatim>\<open>internal/engine/bidi.go\<close>: the view of a text that a renderer shows when explicit bidirectional
  controls reorder it. The embedding stack is a list with its top first; the output of the first
  pass pairs every rune with its embedding level.
\<close>

section \<open>Definitions\<close>

definition runeLRE :: rune where "runeLRE = 0x202A"
definition runeRLE :: rune where "runeRLE = 0x202B"
definition runePDF :: rune where "runePDF = 0x202C"
definition runeLRO :: rune where "runeLRO = 0x202D"
definition runeRLO :: rune where "runeRLO = 0x202E"
definition runeLRI :: rune where "runeLRI = 0x2066"
definition runeRLI :: rune where "runeRLI = 0x2067"
definition runeFSI :: rune where "runeFSI = 0x2068"
definition runePDI :: rune where "runePDI = 0x2069"

lemmas bidi_runes = runeLRE_def runeRLE_def runePDF_def runeLRO_def runeRLO_def runeLRI_def runeRLI_def
  runeFSI_def runePDI_def

definition maxBidiDepth :: nat where "maxBidiDepth = 125"

record bidiFrame =
  bf_level :: nat
  bf_isolate :: bool

record bidi_state =
  bs_stack :: "bidiFrame list"
  bs_level :: nat
  bs_out :: "(rune \<times> nat) list"

definition bidi_push :: "nat \<Rightarrow> bool \<Rightarrow> bidi_state \<Rightarrow> bidi_state" where
  "bidi_push newLevel isolate st =
     (if newLevel > maxBidiDepth \<or> length (bs_stack st) \<ge> maxBidiDepth then st
      else st\<lparr>bs_stack := \<lparr>bf_level = newLevel, bf_isolate = isolate\<rparr> # bs_stack st, bs_level := newLevel\<rparr>)"

definition nextOdd :: "nat \<Rightarrow> nat" where
  "nextOdd l = (if l mod 2 = 0 then l + 1 else l + 2)"

definition nextEven :: "nat \<Rightarrow> nat" where
  "nextEven l = (if l mod 2 = 0 then l + 2 else l + 1)"

definition hasIsolate :: "bidiFrame list \<Rightarrow> bool" where
  "hasIsolate stack = list_ex bf_isolate stack"

fun strong_loop :: "unicode_data \<Rightarrow> nat \<Rightarrow> rune list \<Rightarrow> bool" where
  "strong_loop ud depth [] = False"
| "strong_loop ud depth (r # rest) =
     (if r = runeLRI \<or> r = runeRLI \<or> r = runeFSI then strong_loop ud (Suc depth) rest
      else if r = runePDI then (if depth = 0 then False else strong_loop ud (depth - 1) rest)
      else if depth > 0 then strong_loop ud depth rest
      else if u_RTL_scripts ud r then True
      else if u_IsLetter ud r then False
      else strong_loop ud depth rest)"

definition firstStrongIsRTL :: "unicode_data \<Rightarrow> rune list \<Rightarrow> bool" where
  "firstStrongIsRTL ud rest = strong_loop ud 0 rest"

text \<open>Popping at a PDI: down to and including the innermost isolate, never the base frame.\<close>

fun pop_isolate :: "bidiFrame list \<Rightarrow> bidiFrame list" where
  "pop_isolate (t0 # f # fs) = (if bf_isolate t0 then f # fs else pop_isolate (f # fs))"
| "pop_isolate fs = fs"

definition top_level :: "bidiFrame list \<Rightarrow> nat" where
  "top_level fs = (case fs of [] \<Rightarrow> 0 | f # _ \<Rightarrow> bf_level f)"

definition bidi_step :: "unicode_data \<Rightarrow> rune \<Rightarrow> rune list \<Rightarrow> bidi_state \<Rightarrow> bidi_state" where
  "bidi_step ud r rest st =
     (if r = runeRLE \<or> r = runeRLO then bidi_push (nextOdd (bs_level st)) False st
      else if r = runeLRE \<or> r = runeLRO then bidi_push (nextEven (bs_level st)) False st
      else if r = runeRLI then bidi_push (nextOdd (bs_level st)) True st
      else if r = runeLRI then bidi_push (nextEven (bs_level st)) True st
      else if r = runeFSI then
        (if firstStrongIsRTL ud rest then bidi_push (nextOdd (bs_level st)) True st
         else bidi_push (nextEven (bs_level st)) True st)
      else if r = runePDF then
        (case bs_stack st of
           t0 # f # fs \<Rightarrow>
             if \<not> bf_isolate t0 then st\<lparr>bs_stack := f # fs, bs_level := bf_level f\<rparr> else st
         | _ \<Rightarrow> st)
      else if r = runePDI then
        (if hasIsolate (bs_stack st)
         then st\<lparr>bs_stack := pop_isolate (bs_stack st), bs_level := top_level (pop_isolate (bs_stack st))\<rparr>
         else st)
      else st\<lparr>bs_out := bs_out st @ [(r, bs_level st)]\<rparr>)"

fun bidi_loop :: "unicode_data \<Rightarrow> rune list \<Rightarrow> bidi_state \<Rightarrow> bidi_state" where
  "bidi_loop ud [] st = st"
| "bidi_loop ud (r # rest) st = bidi_loop ud rest (bidi_step ud r rest st)"

definition bidi_init :: bidi_state where
  "bidi_init = \<lparr>bs_stack = [\<lparr>bf_level = 0, bf_isolate = False\<rparr>], bs_level = 0, bs_out = []\<rparr>"

fun level_bounds :: "nat \<Rightarrow> nat \<Rightarrow> nat list \<Rightarrow> nat \<times> nat" where
  "level_bounds maxLevel minOdd [] = (maxLevel, minOdd)"
| "level_bounds maxLevel minOdd (l # ls) =
     level_bounds (if l > maxLevel then l else maxLevel)
       (if l mod 2 = 1 \<and> l < minOdd then l else minOdd) ls"

text \<open>Rule L2 for one level: reverse every maximal run of positions at or above the level.\<close>

function reverse_runs :: "nat \<Rightarrow> nat list \<Rightarrow> 'a list \<Rightarrow> 'a list" where
  "reverse_runs lvl [] rs = rs"
| "reverse_runs lvl (l # ls) rs =
     (if l < lvl then take 1 rs @ reverse_runs lvl ls (drop 1 rs)
      else let n = length (takeWhile (\<lambda>x. x \<ge> lvl) (l # ls))
           in rev (take n rs) @ reverse_runs lvl (drop n (l # ls)) (drop n rs))"
  by pat_completeness auto
termination
  by (relation "measure (\<lambda>(lvl, ls, rs). length ls)") auto

declare reverse_runs.simps(2) [simp del]

definition l2_reorder :: "nat \<Rightarrow> nat \<Rightarrow> nat list \<Rightarrow> 'a list \<Rightarrow> 'a list" where
  "l2_reorder maxLevel minOdd levels rs =
     fold (\<lambda>lvl. reverse_runs lvl levels) (rev [minOdd..<Suc maxLevel]) rs"

definition reorderParagraph :: "unicode_data \<Rightarrow> bytes \<Rightarrow> bytes option" where
  "reorderParagraph ud para =
     (let out = bs_out (bidi_loop ud (runes para) bidi_init);
          rs = map fst out;
          levels = map snd out;
          (maxLevel, minOdd) = level_bounds 0 (maxBidiDepth + 2) levels
      in if maxLevel = 0 \<or> minOdd > maxLevel then None
         else Some (encode (l2_reorder maxLevel minOdd levels rs)))"

definition contains_rune :: "bytes \<Rightarrow> rune \<Rightarrow> bool" where
  "contains_rune content r = go_contains content (encode_rune r)"

definition ReorderBidi :: "unicode_data \<Rightarrow> bytes \<Rightarrow> bytes option" where
  "ReorderBidi ud content =
     (if \<not> contains_rune content runeRLE \<and> \<not> contains_rune content runeLRE
         \<and> \<not> contains_rune content runeRLO \<and> \<not> contains_rune content runeLRO
         \<and> \<not> contains_rune content runeRLI \<and> \<not> contains_rune content runeLRI
         \<and> \<not> contains_rune content runeFSI then None
      else
        let lines = go_split (CHR 0x0A) content;
            outs = map (reorderParagraph ud) lines
        in if list_all (\<lambda>d. d = None) outs then None
           else Some (go_join [CHR 0x0A]
                  (map2 (\<lambda>line d. case d of None \<Rightarrow> line | Some out \<Rightarrow> out) lines outs)))"

section \<open>The embedding stack\<close>

definition bidi_inv :: "bidi_state \<Rightarrow> bool" where
  "bidi_inv st \<longleftrightarrow>
     bs_stack st \<noteq> [] \<and> bs_level st = bf_level (hd (bs_stack st))
     \<and> length (bs_stack st) \<le> maxBidiDepth
     \<and> (\<forall>f \<in> set (bs_stack st). bf_level f \<le> maxBidiDepth)
     \<and> (\<forall>p \<in> set (bs_out st). snd p \<le> maxBidiDepth)"

lemma pop_isolate_suffix: "fs \<noteq> [] \<Longrightarrow> pop_isolate fs \<noteq> [] \<and> suffix (pop_isolate fs) fs"
  by (induction fs rule: pop_isolate.induct) (auto simp: suffix_ConsI)

lemma bidi_push_inv: "bidi_inv st \<Longrightarrow> bidi_inv (bidi_push l i st)"
  by (auto simp: bidi_inv_def bidi_push_def)

lemma bidi_push_out [simp]: "bs_out (bidi_push l i st) = bs_out st"
  by (simp add: bidi_push_def)

lemma bidi_step_inv: "bidi_inv st \<Longrightarrow> bidi_inv (bidi_step ud r rest st)"
proof -
  assume inv: "bidi_inv st"
  note s = pop_isolate_suffix [of "bs_stack st"]
  have pop: "bidi_inv (st\<lparr>bs_stack := pop_isolate (bs_stack st), bs_level := top_level (pop_isolate (bs_stack st))\<rparr>)"
  proof -
    have ne: "bs_stack st \<noteq> []" using inv by (simp add: bidi_inv_def)
    then have len: "length (pop_isolate (bs_stack st)) \<le> length (bs_stack st)"
      and sub: "set (pop_isolate (bs_stack st)) \<subseteq> set (bs_stack st)"
      and ne': "pop_isolate (bs_stack st) \<noteq> []"
      using s suffix_length_le set_mono_suffix by blast+
    have "top_level (pop_isolate (bs_stack st)) = bf_level (hd (pop_isolate (bs_stack st)))"
      using ne' by (cases "pop_isolate (bs_stack st)") (simp_all add: top_level_def)
    then show ?thesis using inv len sub ne' by (auto simp: bidi_inv_def)
  qed
  have pdf: "bidi_inv (st\<lparr>bs_stack := f # fs, bs_level := bf_level f\<rparr>)" if "bs_stack st = t0 # f # fs" for t0 f fs
    using inv that by (auto simp: bidi_inv_def)
  have lvl: "bs_level st \<le> maxBidiDepth" using inv by (auto simp: bidi_inv_def)
  then have out: "bidi_inv (st\<lparr>bs_out := bs_out st @ [(r, bs_level st)]\<rparr>)"
    using inv by (auto simp: bidi_inv_def)
  show ?thesis
    using inv pop pdf out by (auto simp: bidi_step_def bidi_push_inv split: list.splits)
qed

lemma bidi_loop_inv: "bidi_inv st \<Longrightarrow> bidi_inv (bidi_loop ud rs st)"
  by (induction rs arbitrary: st) (simp_all add: bidi_step_inv)

lemma bidi_init_inv: "bidi_inv bidi_init"
  by (simp add: bidi_inv_def bidi_init_def maxBidiDepth_def)

lemma bidi_step_out:
  "map fst (bs_out (bidi_step ud r rest st)) = map fst (bs_out st) @ (if IsBidiControl r then [] else [r])"
  by (auto simp: bidi_step_def IsBidiControl_def bidi_runes split: list.splits)

lemma bidi_loop_out:
  "map fst (bs_out (bidi_loop ud rs st)) = map fst (bs_out st) @ filter (\<lambda>r. \<not> IsBidiControl r) rs"
  by (induction rs arbitrary: st) (auto simp: bidi_step_out)

section \<open>Reordering is a permutation\<close>

lemma mset_reverse_runs: "mset (reverse_runs lvl ls rs) = mset rs"
proof (induction lvl ls rs rule: reverse_runs.induct)
  case (1 lvl rs)
  then show ?case by simp
next
  case (2 lvl l ls rs)
  have split: "mset (take n rs) + mset (drop n rs) = mset rs" for n
    by (metis append_take_drop_id mset_append)
  show ?case
  proof (cases "l < lvl")
    case True
    then show ?thesis using "2.IH"(1) split [of 1] by (simp add: reverse_runs.simps(2))
  next
    case False
    define n where "n = length (takeWhile (\<lambda>x. x \<ge> lvl) (l # ls))"
    have "mset (reverse_runs lvl (drop n (l # ls)) (drop n rs)) = mset (drop n rs)"
      using "2.IH"(2) [OF False n_def] .
    then have "mset (rev (take n rs) @ reverse_runs lvl (drop n (l # ls)) (drop n rs)) = mset rs"
      using split [of n] by simp
    then show ?thesis
      by (subst reverse_runs.simps(2)) (use False in \<open>simp add: Let_def n_def del: takeWhile.simps\<close>)
  qed
qed

lemma mset_l2: "mset (l2_reorder hi lo levels rs) = mset rs"
proof -
  have "mset (fold (\<lambda>lvl. reverse_runs lvl levels) ls rs) = mset rs" for ls
    by (induction ls arbitrary: rs) (simp_all add: mset_reverse_runs)
  then show ?thesis by (simp add: l2_reorder_def)
qed

text \<open>
  C17: Reordering a line neither loses nor invents text: where a reordered line is returned, its
  runes are a permutation of the line's runes other than the bidi controls. On the way the
  embedding stack and every level stay within UAX #9's depth of 125, whatever the input nests.
\<close>

theorem reorderParagraph_permutes:
  assumes "reorderParagraph ud para = Some out"
  shows "mset (runes out) = mset (filter (\<lambda>r. \<not> IsBidiControl r) (runes para))
    \<and> length (bs_stack (bidi_loop ud (runes para) bidi_init)) \<le> 125
    \<and> (\<forall>p \<in> set (bs_out (bidi_loop ud (runes para) bidi_init)). snd p \<le> 125)"
proof -
  define st where "st = bidi_loop ud (runes para) bidi_init"
  have fsts: "map fst (bs_out st) = filter (\<lambda>r. \<not> IsBidiControl r) (runes para)"
    by (simp add: st_def bidi_loop_out bidi_init_def)
  obtain hi lo where out: "out = encode (l2_reorder hi lo (map snd (bs_out st)) (map fst (bs_out st)))"
    using assms by (auto simp: reorderParagraph_def Let_def st_def split: prod.splits if_splits)
  define rs where "rs = l2_reorder hi lo (map snd (bs_out st)) (map fst (bs_out st))"
  have m: "mset rs = mset (filter (\<lambda>r. \<not> IsBidiControl r) (runes para))"
    by (simp add: rs_def mset_l2 fsts)
  then have "set rs \<subseteq> set (runes para)" by (metis filter_is_subset set_mset_mset)
  then have "\<forall>r \<in> set rs. scalar r" using runes_scalar by blast
  then have "runes out = rs" by (simp add: out rs_def [symmetric] runes_encode map_idI)
  moreover have "bidi_inv st" by (simp add: st_def bidi_loop_inv bidi_init_inv)
  ultimately show ?thesis using m by (simp add: bidi_inv_def st_def maxBidiDepth_def)
qed

lemma override_sample:
  "reorderParagraph sample_ud (encode [runeRLO, 103, 105, runePDF]) = Some (encode [105, 103])"
proof -
  have "runes (encode [runeRLO, 103, 105, runePDF]) = [runeRLO, 103, 105, runePDF]"
    by (simp add: runes_encode bidi_runes to_scalar_def scalar_def)
  then show ?thesis
    by (simp add: reorderParagraph_def bidi_init_def bidi_step_def bidi_push_def bidi_runes nextOdd_def
        maxBidiDepth_def l2_reorder_def reverse_runs.simps(2))
qed

theorem reorderParagraph_permutes_witness:
  "mset (runes (encode [105, 103])) =
     mset (filter (\<lambda>r. \<not> IsBidiControl r) (runes (encode [runeRLO, 103, 105, runePDF])))"
  using reorderParagraph_permutes [OF override_sample] by blast

section \<open>Overrides render backwards\<close>

lemma bidi_loop_append: "bidi_loop ud (xs @ ys) st =
    bidi_loop ud ys (bidi_loop ud xs st)" if "\<forall>x \<in> set xs. x \<noteq> runeFSI"
  using that by (induction xs arbitrary: st) (auto simp: bidi_step_def)

lemma bidi_loop_plain:
  "(\<And>r. r \<in> set rs \<Longrightarrow> \<not> IsBidiControl r) \<Longrightarrow>
   bidi_loop ud rs st = st\<lparr>bs_out := bs_out st @ map (\<lambda>r. (r, bs_level st)) rs\<rparr>"
proof (induction rs arbitrary: st)
  case Nil
  then show ?case by simp
next
  case (Cons r rs)
  have "\<not> IsBidiControl r" using Cons.prems by simp
  then have "bidi_step ud r rs st = st\<lparr>bs_out := bs_out st @ [(r, bs_level st)]\<rparr>"
    by (auto simp: bidi_step_def IsBidiControl_def bidi_runes)
  with Cons show ?case by simp
qed

lemma level_bounds_ones: "n > 0 \<Longrightarrow> level_bounds 0 127 (replicate n (Suc 0)) = (1, 1)"
proof -
  have ones: "level_bounds 1 1 (replicate n (Suc 0)) = (1, 1)" for n
    by (induction n) auto
  assume "n > 0"
  then obtain k where "n = Suc k" by (cases n) auto
  then show ?thesis using ones [of k] by simp
qed

lemma reverse_runs_ones: "length rs = n \<Longrightarrow> reverse_runs 1 (replicate n 1) rs = rev rs"
proof (cases n)
  case (Suc k)
  assume "length rs = n"
  moreover have "takeWhile (\<lambda>x. x \<ge> 1) (1 # replicate k (1::nat)) = 1 # replicate k 1" by simp
  ultimately show ?thesis using Suc by (simp add: reverse_runs.simps(2))
qed simp

text \<open>
  A payload written backwards inside a right-to-left override is read forwards. For a
  non-empty text without bidi controls, the line RLO, the reversed text, PDF is reordered to
  exactly the text, so the matchers see what the renderer shows.
\<close>

theorem reorderParagraph_undoes_override:
  assumes "msg \<noteq> []" "\<forall>r \<in> set msg. scalar r \<and> \<not> IsBidiControl r"
  shows "reorderParagraph ud (encode ([runeRLO] @ rev msg @ [runePDF])) = Some (encode msg)"
proof -
  define st1 where "st1 = \<lparr>bs_stack = [\<lparr>bf_level = 1, bf_isolate = False\<rparr>, \<lparr>bf_level = 0, bf_isolate = False\<rparr>],
    bs_level = 1, bs_out = []\<rparr>"
  have src: "runes (encode ([runeRLO] @ rev msg @ [runePDF])) = [runeRLO] @ rev msg @ [runePDF]"
    using assms(2) by (auto simp: runes_encode bidi_runes to_scalar_def scalar_def intro!: map_idI)
  have rlo: "bidi_step ud runeRLO rest bidi_init = st1" for rest
    by (simp add: bidi_step_def bidi_push_def bidi_init_def st1_def nextOdd_def maxBidiDepth_def)
  have mid: "bidi_loop ud (rev msg) st1 = st1\<lparr>bs_out := map (\<lambda>r. (r, 1)) (rev msg)\<rparr>"
    using assms(2) by (subst bidi_loop_plain) (auto simp: st1_def)
  have nofsi: "\<forall>x \<in> set (rev msg). x \<noteq> runeFSI"
    using assms(2) by (auto simp: IsBidiControl_def bidi_runes)
  have "bs_out (bidi_loop ud ([runeRLO] @ rev msg @ [runePDF]) bidi_init) = map (\<lambda>r. (r, 1)) (rev msg)"
  proof -
    define st2 where "st2 = st1\<lparr>bs_out := map (\<lambda>r. (r, 1)) (rev msg)\<rparr>"
    have "bidi_loop ud ([runeRLO] @ rev msg @ [runePDF]) bidi_init = bidi_step ud runePDF [] st2"
      using mid by (simp add: rlo bidi_loop_append [OF nofsi] st2_def)
    then show ?thesis by (simp add: bidi_step_def bidi_runes st2_def st1_def)
  qed
  moreover have "map snd (map (\<lambda>r. (r, 1::nat)) (rev msg)) = replicate (length msg) 1"
    by (simp add: map_replicate_const comp_def)
  moreover have "map fst (map (\<lambda>r. (r, 1::nat)) (rev msg)) = rev msg" by (simp add: comp_def)
  moreover have "level_bounds 0 127 (replicate (length msg) 1) = (1, 1)"
    using assms(1) level_bounds_ones [of "length msg"] by simp
  moreover have "l2_reorder 1 1 (replicate (length msg) 1) (rev msg) = msg"
    using reverse_runs_ones [of "rev msg" "length msg"] by (simp add: l2_reorder_def)
  ultimately show ?thesis
    unfolding reorderParagraph_def src Let_def by (simp only: maxBidiDepth_def) simp
qed

theorem reorderParagraph_undoes_override_witness:
  "reorderParagraph sample_ud (encode ([runeRLO] @ rev [105, 103] @ [runePDF])) = Some (encode [105, 103])"
  using reorderParagraph_undoes_override [of "[105, 103]" sample_ud]
  by (simp add: scalar_def IsBidiControl_def)

end
