(* ===== verification/Unescape.thy ===== *)
theory Unescape
  imports Utf8
begin

text \<open>
  \<^verbatim>\<open>internal/engine/unescape.go\<close>: decoding percent escapes, form "+", numeric backslash escapes and
  HTML character references where they sit. A function that returns \<^verbatim>\<open>(nil, false)\<close> when nothing
  was escaped returns \<open>None\<close> here.
\<close>

section \<open>Hexadecimal digits\<close>

definition hexNibble :: "char \<Rightarrow> nat option" where
  "hexNibble b =
     (if in_range CHR ''0'' CHR ''9'' b then Some (bv b - bv CHR ''0'')
      else if in_range CHR ''a'' CHR ''f'' b then Some (bv b - bv CHR ''a'' + 10)
      else if in_range CHR ''A'' CHR ''F'' b then Some (bv b - bv CHR ''A'' + 10)
      else None)"

fun hex_fold :: "nat \<Rightarrow> bytes \<Rightarrow> nat option" where
  "hex_fold v [] = Some v"
| "hex_fold v (b # bs) = (case hexNibble b of None \<Rightarrow> None | Some n \<Rightarrow> hex_fold (v * 16 + n) bs)"

definition hexValue :: "bytes \<Rightarrow> nat \<Rightarrow> nat \<Rightarrow> nat option" where
  "hexValue s start width =
     (if start + width > length s then None
      else (case hex_fold 0 (take width (drop start s)) of
              None \<Rightarrow> None
            | Some v \<Rightarrow> if v > 0x10FFFF then None else Some v))"

definition hexEscapeWidth :: "char \<Rightarrow> nat" where
  "hexEscapeWidth marker =
     (if marker = CHR ''x'' then 2 else if marker = CHR ''u'' then 4 else 8)"

section \<open>Percent escapes\<close>

text \<open>The loop of \<^verbatim>\<open>unescapePercent\<close>: the bytes written and whether an escape was decoded.\<close>

fun percent_loop :: "bytes \<Rightarrow> bytes \<times> bool" where
  "percent_loop [] = ([], False)"
| "percent_loop (c # cs) =
     (case (c = CHR ''%'', cs) of
        (True, a # b # rest) \<Rightarrow>
          (case (hexNibble a, hexNibble b) of
             (Some hi, Some lo) \<Rightarrow> (char_of (hi * 16 + lo) # fst (percent_loop rest), True)
           | _ \<Rightarrow> (c # fst (percent_loop cs), snd (percent_loop cs)))
      | _ \<Rightarrow> (c # fst (percent_loop cs), snd (percent_loop cs)))"

definition unescapePercent :: "bytes \<Rightarrow> bytes option" where
  "unescapePercent content =
     (if go_index_byte content CHR ''%'' = None then None
      else let (out, changed) = percent_loop content
           in if \<not> changed \<or> \<not> utf8_valid out then None else Some out)"

section \<open>Form encoding\<close>

definition isFormTokenByte :: "char \<Rightarrow> bool" where
  "isFormTokenByte b \<longleftrightarrow>
     in_range CHR ''a'' CHR ''z'' b \<or> in_range CHR ''A'' CHR ''Z'' b \<or> in_range CHR ''0'' CHR ''9'' b
     \<or> bv b \<ge> 0x80 \<or> b \<in> set ''%-_.~''"

definition isURLDelimiter :: "char \<Rightarrow> bool" where
  "isURLDelimiter b \<longleftrightarrow>
     bv b \<le> bv CHR '' '' \<or> bv b = 0x7F
     \<or> b \<in> {CHR 0x22, CHR 0x27, CHR 0x60, CHR ''<'', CHR ''>'', CHR ''('', CHR '')'', CHR ''['',
            CHR '']'', CHR ''{'', CHR ''}'', CHR ''|'', CHR 0x5C, CHR ''^''}"

definition isReferenceBoundary :: "char \<Rightarrow> bool" where
  "isReferenceBoundary b \<longleftrightarrow> isURLDelimiter b \<or> b \<in> set ''=&,;?#''"

definition opensURLQuery :: "bytes \<Rightarrow> bool" where
  "opensURLQuery before =
     (let token = rev (takeWhile (\<lambda>b. \<not> isReferenceBoundary b) (rev before)) in
      if token = [] then False
      else if go_contains token ''://'' \<or> go_index_byte token CHR ''/'' \<noteq> None then True
      else (case go_index_byte token CHR ''.'' of
              None \<Rightarrow> False
            | Some dot \<Rightarrow> dot < length token - 1))"

definition queryComponentEnd :: "bytes \<Rightarrow> nat \<Rightarrow> nat" where
  "queryComponentEnd content from =
     from + length (takeWhile (\<lambda>b. \<not> (b = CHR ''#'' \<or> isURLDelimiter b)) (drop from content))"

text \<open>The loop of \<^verbatim>\<open>isFormEncodedRun\<close>, with the byte before the current one.\<close>

fun form_run_loop :: "char option \<Rightarrow> bytes \<Rightarrow> nat \<Rightarrow> bool" where
  "form_run_loop prev [] separators \<longleftrightarrow> separators \<ge> 3"
| "form_run_loop prev (b # rest) separators \<longleftrightarrow>
     (if b \<noteq> CHR ''+'' then form_run_loop (Some b) rest separators
      else (case (prev, rest) of
              (Some p, q # _) \<Rightarrow>
                if isFormTokenByte p \<and> isFormTokenByte q
                then form_run_loop (Some b) rest (Suc separators) else False
            | _ \<Rightarrow> False))"

definition isFormEncodedRun :: "bytes \<Rightarrow> bool" where
  "isFormEncodedRun run = form_run_loop None run 0"

definition plus_to_space :: "char \<Rightarrow> char" where
  "plus_to_space b = (if b = CHR ''+'' then CHR '' '' else b)"

text \<open>\<^verbatim>\<open>decodePlus\<close>: rewrite the "+" of one span; the state is the buffer and \<^verbatim>\<open>changed\<close>.\<close>

definition decodePlus :: "nat \<Rightarrow> nat \<Rightarrow> bytes \<times> bool \<Rightarrow> bytes \<times> bool" where
  "decodePlus from until st =
     (let (out, changed) = st; span = take (until - from) (drop from out) in
      if go_index_byte span CHR ''+'' = None then st
      else (take from out @ map plus_to_space span @ drop until out, True))"

function query_pass :: "bytes \<Rightarrow> nat \<Rightarrow> bytes \<times> bool \<Rightarrow> bytes \<times> bool" where
  "query_pass content i st =
     (if i < length content then
        if content ! i \<noteq> CHR ''?'' \<or> \<not> opensURLQuery (take i content) then query_pass content (i + 1) st
        else (let end = queryComponentEnd content (i + 1)
              in query_pass content end (decodePlus (i + 1) end st))
      else st)"
  by pat_completeness auto
termination
  by (relation "measure (\<lambda>(content, i, st). length content - i)") (auto simp: queryComponentEnd_def)

declare query_pass.simps [simp del]

definition token_end :: "bytes \<Rightarrow> nat \<Rightarrow> nat" where
  "token_end content i = i + length (takeWhile (\<lambda>b. \<not> isURLDelimiter b) (drop i content))"

function token_pass :: "bytes \<Rightarrow> nat \<Rightarrow> bytes \<times> bool \<Rightarrow> bytes \<times> bool" where
  "token_pass content i st =
     (if i < length content then
        if isURLDelimiter (content ! i) then token_pass content (i + 1) st
        else (let end = token_end content i
              in token_pass content (end + 1)
                   (if isFormEncodedRun (take (end - i) (drop i content)) then decodePlus i end st else st))
      else st)"
  by pat_completeness auto
termination
  by (relation "measure (\<lambda>(content, i, st). length content - i)") (auto simp: token_end_def)

declare token_pass.simps [simp del]

definition unescapeFormPlus :: "bytes \<Rightarrow> bytes option" where
  "unescapeFormPlus content =
     (if go_index_byte content CHR ''+'' = None then None
      else
        let st = (case go_index_byte content CHR ''?'' of
                    None \<Rightarrow> (content, False)
                  | Some i \<Rightarrow> query_pass content i (content, False));
            (out, changed) = token_pass content 0 st
        in if \<not> changed then None else Some out)"

section \<open>Backslash escapes\<close>

text \<open>An escape at the front of the string: its value and the number of bytes it takes.\<close>

definition backslash_escape :: "bytes \<Rightarrow> (nat \<times> nat) option" where
  "backslash_escape s =
     (if 1 < length s \<and> s ! 0 = CHR 0x5C \<and> s ! 1 \<in> set ''xuU'' then
        (case hexValue s 2 (hexEscapeWidth (s ! 1)) of
           None \<Rightarrow> None
         | Some v \<Rightarrow> Some (v, 2 + hexEscapeWidth (s ! 1)))
      else None)"

function backslash_loop :: "bytes \<Rightarrow> bytes \<times> bool" where
  "backslash_loop [] = ([], False)"
| "backslash_loop (c # cs) =
     (case backslash_escape (c # cs) of
        Some (v, n) \<Rightarrow> (encode_rune v @ fst (backslash_loop (drop n (c # cs))), True)
      | None \<Rightarrow> (c # fst (backslash_loop cs), snd (backslash_loop cs)))"
  by pat_completeness auto
termination
  by (relation "measure length") (auto simp: backslash_escape_def split: if_splits option.splits)

declare backslash_loop.simps(2) [simp del]

definition unescapeBackslash :: "bytes \<Rightarrow> bytes option" where
  "unescapeBackslash content =
     (if go_index_byte content CHR 0x5C = None then None
      else let (out, changed) = backslash_loop content in if \<not> changed then None else Some out)"

section \<open>All four families\<close>

text \<open>\<^verbatim>\<open>html.UnescapeString\<close> is the parameter \<open>html_unescape\<close>: its table is part of Go's library.\<close>

definition unescape_step :: "(bytes \<Rightarrow> bytes option) \<Rightarrow> bytes \<times> bool \<Rightarrow> bytes \<times> bool" where
  "unescape_step f st = (case f (fst st) of None \<Rightarrow> st | Some d \<Rightarrow> (d, True))"

definition unescape_html :: "(bytes \<Rightarrow> bytes) \<Rightarrow> bytes \<Rightarrow> bytes option" where
  "unescape_html html_unescape out =
     (if go_index_byte out CHR ''&'' \<noteq> None \<and> html_unescape out \<noteq> out then Some (html_unescape out) else None)"

definition UnescapeInPlace :: "(bytes \<Rightarrow> bytes) \<Rightarrow> bytes \<Rightarrow> bytes option" where
  "UnescapeInPlace html_unescape content =
     (let (out, changed) =
        unescape_step (unescape_html html_unescape)
          (unescape_step unescapeBackslash
            (unescape_step unescapePercent
              (unescape_step unescapeFormPlus (content, False))))
      in if \<not> changed then None else Some out)"

section \<open>Lemmas on the passes\<close>

lemma go_index_byte_None [simp]: "go_index_byte xs c = None \<longleftrightarrow> c \<notin> set xs"
  by (induction xs) auto

lemma decodePlus_length: "from \<le> until \<Longrightarrow> until \<le> length (fst st) \<Longrightarrow>
   length (fst (decodePlus from until st)) = length (fst st)"
  by (cases st) (auto simp: decodePlus_def Let_def)

lemma decodePlus_nth:
  assumes "from \<le> until" "until \<le> length (fst st)" "i < length (fst st)"
  shows "fst (decodePlus from until st) ! i =
    (if from \<le> i \<and> i < until then plus_to_space (fst st ! i) else fst st ! i)"
proof -
  obtain out ch where st: "st = (out, ch)" by (cases st)
  define span where "span = take (until - from) (drop from out)"
  have len: "length span = until - from" using assms by (simp add: span_def st)
  have nth: "j < until - from \<Longrightarrow> span ! j = out ! (from + j)" for j
    using assms by (simp add: span_def st)
  show ?thesis
  proof (cases "CHR ''+'' \<in> set span")
    case True
    then show ?thesis using assms len nth [of "i - from"]
      by (auto simp: decodePlus_def st Let_def nth_append simp flip: span_def)
  next
    case False
    have "plus_to_space (out ! i) = out ! i" if "from \<le> i" "i < until"
    proof -
      have "span ! (i - from) \<in> set span" using that len by (intro nth_mem) simp
      with False nth [of "i - from"] that show ?thesis by (auto simp: plus_to_space_def)
    qed
    with False show ?thesis by (simp add: decodePlus_def st Let_def flip: span_def)
  qed
qed

lemma queryComponentEnd_bounds:
  "from \<le> length content \<Longrightarrow> from \<le> queryComponentEnd content from \<and> queryComponentEnd content from \<le> length content"
  by (simp add: queryComponentEnd_def takeWhile_drop_bound)

lemma token_end_bounds:
  "i \<le> length content \<Longrightarrow> i \<le> token_end content i \<and> token_end content i \<le> length content"
  by (simp add: token_end_def takeWhile_drop_bound)

text \<open>The two kinds of span in which "+" means a space.\<close>

definition in_query_span :: "bytes \<Rightarrow> nat \<Rightarrow> bool" where
  "in_query_span content i \<longleftrightarrow>
     (\<exists>q < i. content ! q = CHR ''?'' \<and> opensURLQuery (take q content) \<and> i < queryComponentEnd content (q + 1))"

definition in_form_token :: "bytes \<Rightarrow> nat \<Rightarrow> bool" where
  "in_form_token content i \<longleftrightarrow>
     (\<exists>a \<le> i. i < token_end content a
        \<and> isFormEncodedRun (take (token_end content a - a) (drop a content)))"

definition plus_inv :: "bytes \<Rightarrow> bytes \<times> bool \<Rightarrow> bool" where
  "plus_inv content st \<longleftrightarrow>
     length (fst st) = length content
     \<and> (\<forall>i < length content. fst st ! i = content ! i \<or>
          (content ! i = CHR ''+'' \<and> fst st ! i = CHR '' '' \<and>
           (in_query_span content i \<or> in_form_token content i)))"

lemma plus_inv_decodePlus:
  assumes "plus_inv content st" "from \<le> until" "until \<le> length content"
    and "\<And>i. from \<le> i \<Longrightarrow> i < until \<Longrightarrow> in_query_span content i \<or> in_form_token content i"
  shows "plus_inv content (decodePlus from until st)"
proof -
  have len: "length (fst st) = length content" using assms(1) by (simp add: plus_inv_def)
  have "fst (decodePlus from until st) ! i = content ! i \<or>
      (content ! i = CHR ''+'' \<and> fst (decodePlus from until st) ! i = CHR '' '' \<and>
       (in_query_span content i \<or> in_form_token content i))" if i: "i < length content" for i
  proof -
    have old: "fst st ! i = content ! i \<or> (content ! i = CHR ''+'' \<and> fst st ! i = CHR '' '' \<and>
       (in_query_span content i \<or> in_form_token content i))"
      using assms(1) i by (simp add: plus_inv_def)
    have new: "fst (decodePlus from until st) ! i =
        (if from \<le> i \<and> i < until then plus_to_space (fst st ! i) else fst st ! i)"
      using assms(2,3) i len by (intro decodePlus_nth) auto
    show ?thesis using old new assms(4) [of i] by (auto simp: plus_to_space_def)
  qed
  moreover have "length (fst (decodePlus from until st)) = length content"
    using assms(2,3) len by (simp add: decodePlus_length)
  ultimately show ?thesis by (simp add: plus_inv_def)
qed

lemma query_pass_inv: "i \<le> length content \<Longrightarrow> plus_inv content st \<Longrightarrow> plus_inv content (query_pass content i st)"
proof (induction content i st rule: query_pass.induct)
  case (1 content i st)
  show ?case
  proof (cases "i < length content")
    case False
    with "1.prems" show ?thesis by (subst query_pass.simps) simp
  next
    case True
    show ?thesis
    proof (cases "content ! i \<noteq> CHR ''?'' \<or> \<not> opensURLQuery (take i content)")
      case skip: True
      with True "1.IH"(1) "1.prems" show ?thesis by (subst query_pass.simps) simp
    next
      case False
      define e where "e = queryComponentEnd content (i + 1)"
      have e: "i + 1 \<le> e" "e \<le> length content"
        using queryComponentEnd_bounds [of "i + 1" content] True by (auto simp: e_def)
      have "plus_inv content (decodePlus (i + 1) e st)"
      proof (rule plus_inv_decodePlus [OF "1.prems"(2) e])
        fix j assume "i + 1 \<le> j" "j < e"
        with False have "in_query_span content j"
          unfolding in_query_span_def e_def by (intro exI [of _ i]) auto
        then show "in_query_span content j \<or> in_form_token content j" by simp
      qed
      then have "plus_inv content (query_pass content e (decodePlus (i + 1) e st))"
        using "1.IH"(2) [OF True False e_def] e by blast
      with True False show ?thesis by (subst query_pass.simps) (simp add: Let_def e_def)
    qed
  qed
qed

lemma token_pass_inv: "plus_inv content st \<Longrightarrow> plus_inv content (token_pass content i st)"
proof (induction content i st rule: token_pass.induct)
  case (1 content i st)
  show ?case
  proof (cases "i < length content")
    case False
    with "1.prems" show ?thesis by (simp add: token_pass.simps [of content i st])
  next
    case True
    show ?thesis
    proof (cases "isURLDelimiter (content ! i)")
      case delim: True
      with True "1.IH"(1) "1.prems" show ?thesis by (subst token_pass.simps) simp
    next
      case False
      define e where "e = token_end content i"
      define st' where "st' = (if isFormEncodedRun (take (e - i) (drop i content)) then decodePlus i e st else st)"
      have e: "i \<le> e" "e \<le> length content"
        using token_end_bounds [of i content] True by (auto simp: e_def)
      have "plus_inv content st'"
      proof (cases "isFormEncodedRun (take (e - i) (drop i content))")
        case run: True
        have "plus_inv content (decodePlus i e st)"
        proof (rule plus_inv_decodePlus [OF "1.prems" e])
          fix j assume "i \<le> j" "j < e"
          with run show "in_query_span content j \<or> in_form_token content j"
            unfolding in_form_token_def e_def by blast
        qed
        with run show ?thesis by (simp add: st'_def)
      qed (simp add: st'_def "1.prems")
      then have "plus_inv content (token_pass content (e + 1) st')"
        using "1.IH"(2) [OF True False e_def] unfolding st'_def by blast
      moreover have "token_pass content i st = token_pass content (e + 1) st'"
        using True False by (subst token_pass.simps) (simp add: Let_def st'_def flip: e_def)
      ultimately show ?thesis by simp
    qed
  qed
qed

text \<open>
  Form decoding touches nothing but separators. Where \<^verbatim>\<open>unescapeFormPlus\<close> returns a buffer,
  that buffer has the length of the content, and every byte is the content's except that some
  "+" became a space; each such "+" lies in the query component of a URL or in a token that is a
  form-encoded value. Everywhere else (\<^verbatim>\<open>C++\<close>, \<^verbatim>\<open>+1 555 0100\<close>, prose) the "+" stays.
\<close>

theorem unescapeFormPlus_only_separators:
  assumes "unescapeFormPlus content = Some out"
  shows "length out = length content \<and>
    (\<forall>i < length content. out ! i = content ! i \<or>
      (content ! i = CHR ''+'' \<and> out ! i = CHR '' '' \<and> (in_query_span content i \<or> in_form_token content i)))"
proof -
  define st where "st = (case go_index_byte content CHR ''?'' of
      None \<Rightarrow> (content, False) | Some i \<Rightarrow> query_pass content i (content, False))"
  have init: "plus_inv content (content, False)" by (simp add: plus_inv_def)
  have "i \<le> length content" if "go_index_byte content c = Some i" for c i
    using that by (induction content arbitrary: i) (auto split: if_splits)
  then have "plus_inv content st"
    using init query_pass_inv by (auto simp: st_def split: option.splits)
  then have "plus_inv content (token_pass content 0 st)" by (rule token_pass_inv)
  moreover have "fst (token_pass content 0 st) = out"
    using assms by (auto simp: unescapeFormPlus_def Let_def st_def split: if_splits prod.splits)
  ultimately show ?thesis by (simp add: plus_inv_def)
qed

theorem unescapeFormPlus_only_separators_witness:
  "unescapeFormPlus ''/r?q=a+b C++'' = Some ''/r?q=a b C++''
   \<and> (in_query_span ''/r?q=a+b C++'' 6 \<or> in_form_token ''/r?q=a+b C++'' 6)"
proof -
  have h: "unescapeFormPlus ''/r?q=a+b C++'' = Some ''/r?q=a b C++''" by code_simp
  then show ?thesis using unescapeFormPlus_only_separators [OF h] by (auto dest!: spec [of _ 6])
qed

section \<open>Percent escapes decode once\<close>

definition hex_upper :: "nat \<Rightarrow> char" where
  "hex_upper n = (if n < 10 then char_of (48 + n) else char_of (55 + n))"

text \<open>The encoder whose output \<^verbatim>\<open>unescapePercent\<close> undoes: every byte written as \<^verbatim>\<open>%XX\<close>.\<close>

definition percent_encode :: "bytes \<Rightarrow> bytes" where
  "percent_encode s = concat (map (\<lambda>b. [CHR ''%'', hex_upper (bv b div 16), hex_upper (bv b mod 16)]) s)"

lemma hexNibble_hex_upper [simp]: "n < 16 \<Longrightarrow> hexNibble (hex_upper n) = Some n"
  by (auto simp: hexNibble_def hex_upper_def in_range_def)

lemma percent_encode_Cons:
  "percent_encode (b # s) = CHR ''%'' # hex_upper (bv b div 16) # hex_upper (bv b mod 16) # percent_encode s"
  by (simp add: percent_encode_def)

lemma percent_loop_encode: "percent_loop (percent_encode s) = (s, s \<noteq> [])"
proof (induction s)
  case Nil
  then show ?case by (simp add: percent_encode_def)
next
  case (Cons b s)
  have "bv b div 16 < 16" by (simp add: less_mult_imp_div_less)
  moreover have "bv b div 16 * 16 + bv b mod 16 = bv b" by simp
  ultimately show ?case by (simp add: percent_encode_Cons Cons.IH)
qed

text \<open>
  Percent decoding inverts percent encoding, once. For every non-empty valid UTF-8 text, also
  one that itself contains escapes such as \<^verbatim>\<open>%20\<close>, decoding its fully escaped form gives back
  exactly that text.
\<close>

theorem unescapePercent_inverts:
  assumes "s \<noteq> []" "utf8_valid s"
  shows "unescapePercent (percent_encode s) = Some s"
proof -
  have "CHR ''%'' \<in> set (percent_encode s)"
    using assms(1) by (cases s) (auto simp: percent_encode_Cons)
  with assms show ?thesis by (simp add: unescapePercent_def percent_loop_encode)
qed

theorem unescapePercent_inverts_witness:
  "''%20'' \<noteq> [] \<and> utf8_valid ''%20'' \<and> unescapePercent (percent_encode ''%20'') = Some ''%20''"
proof -
  have h: "''%20'' \<noteq> []" "utf8_valid ''%20''" by (simp_all add: ascii_valid all_ascii_def)
  show ?thesis using h unescapePercent_inverts [OF h] by blast
qed

section \<open>Numeric escapes\<close>

definition u_escape :: "rune \<Rightarrow> bytes" where
  "u_escape r = CHR 0x5C # CHR ''U'' # hex_fixed 8 r"

lemma hexNibble_hex_digit [simp]: "n < 16 \<Longrightarrow> hexNibble (hex_digit n) = Some n"
  by (auto simp: hexNibble_def hex_digit_def in_range_def)

lemma hex_fold_append: "hex_fold v (xs @ [b]) =
   (case hex_fold v xs of None \<Rightarrow> None | Some u \<Rightarrow> (case hexNibble b of None \<Rightarrow> None | Some n \<Rightarrow> Some (u * 16 + n)))"
  by (induction xs arbitrary: v) (auto split: option.splits)

lemma hex_fold_fixed: "n < 16 ^ w \<Longrightarrow> hex_fold 0 (hex_fixed w n) = Some n"
proof (induction w arbitrary: n)
  case 0
  then show ?case by simp
next
  case (Suc w)
  then have "n div 16 < 16 ^ w" by (simp add: less_mult_imp_div_less mult.commute)
  with Suc.IH show ?case by (simp add: hex_fold_append)
qed

lemma backslash_escape_u: "r \<le> 0x10FFFF \<Longrightarrow> backslash_escape (u_escape r @ rest) = Some (r, 10)"
proof -
  assume r: "r \<le> 0x10FFFF"
  then have "hex_fold 0 (hex_fixed 8 r) = Some r" by (intro hex_fold_fixed) simp
  moreover have "take 8 (drop 2 (u_escape r @ rest)) = hex_fixed 8 r" by (simp add: u_escape_def)
  ultimately show ?thesis using r
    by (simp add: backslash_escape_def u_escape_def hexValue_def hexEscapeWidth_def)
qed

lemma backslash_loop_u:
  "(\<And>r. r \<in> set rs \<Longrightarrow> r \<le> 0x10FFFF) \<Longrightarrow>
   backslash_loop (concat (map u_escape rs)) = (encode rs, rs \<noteq> [])"
proof (induction rs)
  case Nil
  then show ?case by simp
next
  case (Cons r rs)
  define rest where "rest = concat (map u_escape rs)"
  have e: "backslash_escape (u_escape r @ rest) = Some (r, 10)"
    using Cons.prems by (intro backslash_escape_u) auto
  have u: "u_escape r @ rest = CHR 0x5C # (CHR ''U'' # hex_fixed 8 r @ rest)" by (simp add: u_escape_def)
  have "backslash_loop (u_escape r @ rest) = (encode_rune r @ fst (backslash_loop (drop 10 (u_escape r @ rest))), True)"
    using e unfolding u by (subst backslash_loop.simps(2)) simp
  moreover have "drop 10 (u_escape r @ rest) = rest" by (simp add: u_escape_def)
  ultimately show ?case using Cons by (simp add: rest_def encode_Cons)
qed

text \<open>
  Backslash decoding inverts the numeric escapes: a text spelled entirely in eight-digit
  \<^verbatim>\<open>\U\<close> escapes of scalar values comes back as the UTF-8 text of those runes.
\<close>

theorem unescapeBackslash_inverts:
  assumes "rs \<noteq> []" "\<forall>r \<in> set rs. scalar r"
  shows "unescapeBackslash (concat (map u_escape rs)) = Some (encode rs) \<and> runes (encode rs) = rs"
proof -
  have "r \<le> 0x10FFFF" if "r \<in> set rs" for r using assms(2) that by (auto simp: scalar_def)
  then have "backslash_loop (concat (map u_escape rs)) = (encode rs, rs \<noteq> [])" by (rule backslash_loop_u)
  moreover have "CHR 0x5C \<in> set (concat (map u_escape rs))"
    using assms(1) by (cases rs) (auto simp: u_escape_def)
  ultimately show ?thesis using assms by (simp add: unescapeBackslash_def runes_encode map_idI)
qed

theorem unescapeBackslash_inverts_witness:
  "unescapeBackslash (concat (map u_escape [105, 0x200B])) = Some (encode [105, 0x200B])
   \<and> runes (encode [105, 0x200B]) = [105, 0x200B]"
  by (rule unescapeBackslash_inverts) (simp_all add: scalar_def)

end
