(* ===== verification/F64.thy ===== *)
theory F64
  imports Prelude Complex_Main
begin

text \<open>
  Go's \<^verbatim>\<open>float64\<close>. The scores, weights, boost factors and thresholds of the scanner and the
  fraction of the journal's removal guard are \<^verbatim>\<open>float64\<close> values, and the decisions compare
  sums and products of them, so rounding is part of the program: \<^verbatim>\<open>0.1 + 0.7\<close> is below
  \<^verbatim>\<open>0.8\<close>. A finite double is the rational number it denotes; an operation computes the
  exact result and rounds it to the nearest double, ties to the even significand, with
  53 bits of precision and the gradual underflow below \<open>2 powi -1022\<close>. Overflow to
  infinity (results from \<open>2 powi 1024\<close> on) is not modelled.

  The component proofs use only the laws of the locale \<open>rounding\<close>; the interpretation at
  the end shows that the rounding of this theory satisfies them.
\<close>

section \<open>Rounding\<close>

fun nlog2 :: "int \<Rightarrow> nat" where
  "nlog2 n = (if n < 2 then 0 else Suc (nlog2 (n div 2)))"

declare nlog2.simps [simp del]

text \<open>The exponent of a positive rational: the \<open>e\<close> with \<open>2 powi e \<le> x < 2 powi (e + 1)\<close>.\<close>

definition f64_exp :: "rat \<Rightarrow> int" where
  "f64_exp x =
     (let (n, d) = quotient_of x;
          k = int (nlog2 n) - int (nlog2 d)
      in if x < 2 powi k then k - 1 else k)"

text \<open>Round to the nearest integer, ties to even.\<close>

definition rne :: "rat \<Rightarrow> int" where
  "rne z = (let f = \<lfloor>z\<rfloor>; r = z - of_int f
            in if r < 1/2 then f else if r > 1/2 then f + 1 else if even f then f else f + 1)"

definition f64_quantum :: "rat \<Rightarrow> int" where
  "f64_quantum x = max (f64_exp x) (-1022) - 52"

definition f64_pos :: "rat \<Rightarrow> rat" where
  "f64_pos x = of_int (rne (x / 2 powi f64_quantum x)) * 2 powi f64_quantum x"

definition f64 :: "rat \<Rightarrow> rat" where
  "f64 x = (if x = 0 then 0 else if x < 0 then - f64_pos (- x) else f64_pos x)"

definition fadd :: "rat \<Rightarrow> rat \<Rightarrow> rat" where
  "fadd a b = f64 (a + b)"

definition fmul :: "rat \<Rightarrow> rat \<Rightarrow> rat" where
  "fmul a b = f64 (a * b)"

definition fdiv :: "rat \<Rightarrow> rat \<Rightarrow> rat" where
  "fdiv a b = f64 (a / b)"

section \<open>The exponent\<close>

lemma nlog2_bounds: "0 < n \<Longrightarrow> 2 ^ nlog2 n \<le> n \<and> n < 2 ^ Suc (nlog2 n)"
proof (induction n rule: nlog2.induct)
  case (1 n)
  show ?case
  proof (cases "n < 2")
    case True
    with "1.prems" show ?thesis by (simp add: nlog2.simps [of n])
  next
    case False
    then have "0 < n div 2" by simp
    define p where "p = (2::int) ^ nlog2 (n div 2)"
    from "1.IH" False \<open>0 < n div 2\<close> have "p \<le> n div 2" "n div 2 < 2 * p"
      by (auto simp: p_def)
    then have "2 * p \<le> n" "n < 4 * p" by linarith+
    with False show ?thesis by (simp add: nlog2.simps [of n] p_def)
  qed
qed

lemma powi_pos [simp]: "(0::rat) < 2 powi k"
  by (rule zero_less_power_int) simp

lemma powi_mono: "a \<le> b \<Longrightarrow> (2::rat) powi a \<le> 2 powi b"
  by (rule power_int_increasing) auto

lemma powi_less: "a < b \<Longrightarrow> (2::rat) powi a < 2 powi b"
  by (rule power_int_strict_increasing) auto

lemma powi_split: "(2::rat) powi (a + b) = 2 powi a * 2 powi b"
  by (rule power_int_add) auto

lemma powi_nat: "(2::rat) powi int n = 2 ^ n"
  by simp

lemma f64_exp_bounds:
  assumes "0 < x"
  shows "2 powi f64_exp x \<le> x" and "x < 2 powi (f64_exp x + 1)"
proof -
  obtain n d where q: "quotient_of x = (n, d)" by (cases "quotient_of x")
  have d: "0 < d" using q quotient_of_denom_pos by auto
  have x: "x = of_int n / of_int d" using q by (rule quotient_of_div)
  have n: "0 < n" using assms d x by (auto simp: zero_less_divide_iff)
  define a where "a = nlog2 n"
  define b where "b = nlog2 d"
  have na: "2 ^ a \<le> n" "n < 2 ^ Suc a" using nlog2_bounds [of n] n by (simp_all add: a_def)
  have db: "2 ^ b \<le> d" "d < 2 ^ Suc b" using nlog2_bounds [of d] d by (simp_all add: b_def)
  have "(of_int (2 ^ a) :: rat) \<le> of_int n" "(of_int n :: rat) < of_int (2 ^ Suc a)"
    using na by (simp_all only: of_int_le_iff of_int_less_iff)
  then have rn: "(2::rat) ^ a \<le> of_int n" "(of_int n :: rat) < 2 ^ Suc a" by simp_all
  have "(of_int (2 ^ b) :: rat) \<le> of_int d" "(of_int d :: rat) < of_int (2 ^ Suc b)"
    using db by (simp_all only: of_int_le_iff of_int_less_iff)
  then have rd: "(2::rat) ^ b \<le> of_int d" "(of_int d :: rat) < 2 ^ Suc b" by simp_all
  have up: "x < 2 powi (int a - int b + 1)"
  proof -
    have "x < 2 ^ Suc a / 2 ^ b" unfolding x
      using rn rd d n by (intro frac_less) auto
    also have "\<dots> = 2 powi (int (Suc a)) / 2 powi (int b)" by (simp only: powi_nat)
    also have "\<dots> = 2 powi (int (Suc a) - int b)" by (subst power_int_diff) auto
    finally show ?thesis by (simp add: algebra_simps)
  qed
  have lo: "2 powi (int a - int b - 1) < x"
  proof -
    have "(2::rat) powi (int a - int (Suc b)) = 2 powi int a / 2 powi int (Suc b)"
      by (subst power_int_diff) auto
    also have "\<dots> = 2 ^ a / 2 ^ Suc b" by (simp only: powi_nat)
    also have "\<dots> < x" unfolding x
      using rn rd d n by (intro frac_less2) auto
    finally show ?thesis by (simp add: algebra_simps)
  qed
  have e: "f64_exp x = (if x < 2 powi (int a - int b) then int a - int b - 1 else int a - int b)"
    by (simp add: f64_exp_def q a_def b_def Let_def)
  show "2 powi f64_exp x \<le> x" using e lo by auto
  show "x < 2 powi (f64_exp x + 1)" using e up by auto
qed

lemma f64_exp_unique:
  assumes "2 powi e \<le> x" "x < 2 powi (e + 1)"
  shows "f64_exp x = e"
proof -
  have pos: "0 < x" using assms(1) powi_pos [of e] by linarith
  note b = f64_exp_bounds [OF pos]
  have "\<not> f64_exp x < e"
    using powi_mono [of "f64_exp x + 1" e] b(2) assms(1) by force
  moreover have "\<not> e < f64_exp x"
    using powi_mono [of "e + 1" "f64_exp x"] b(1) assms(2) by force
  ultimately show ?thesis by simp
qed

lemma f64_exp_mono: "0 < x \<Longrightarrow> x \<le> y \<Longrightarrow> f64_exp x \<le> f64_exp y"
proof (rule ccontr)
  assume h: "0 < x" "x \<le> y" "\<not> f64_exp x \<le> f64_exp y"
  then have "(2::rat) powi (f64_exp y + 1) \<le> 2 powi f64_exp x" by (intro powi_mono) simp
  moreover have "2 powi f64_exp x \<le> x" "y < 2 powi (f64_exp y + 1)"
    using h f64_exp_bounds by auto
  ultimately show False using h by linarith
qed

section \<open>Rounding to integers\<close>

lemma rne_of_int [simp]: "rne (of_int m) = m"
  by (simp add: rne_def)

lemma rne_cases: "rne z = \<lfloor>z\<rfloor> \<or> rne z = \<lfloor>z\<rfloor> + 1"
  by (auto simp: rne_def Let_def)

lemma rne_mono: "z \<le> w \<Longrightarrow> rne z \<le> rne w"
proof -
  assume le: "z \<le> w"
  then have fl: "\<lfloor>z\<rfloor> \<le> \<lfloor>w\<rfloor>" by (rule floor_mono)
  show ?thesis
  proof (cases "\<lfloor>z\<rfloor> = \<lfloor>w\<rfloor>")
    case True
    with le show ?thesis by (auto simp: rne_def Let_def)
  next
    case False
    with fl have "\<lfloor>z\<rfloor> + 1 \<le> \<lfloor>w\<rfloor>" by simp
    then show ?thesis using rne_cases [of z] rne_cases [of w] by linarith
  qed
qed

section \<open>The rounding of doubles\<close>

lemma f64_quantum_mono: "0 < x \<Longrightarrow> x \<le> y \<Longrightarrow> f64_quantum x \<le> f64_quantum y"
  using f64_exp_mono [of x y] by (auto simp: f64_quantum_def)

lemma f64_pos_nonneg: "0 < x \<Longrightarrow> 0 \<le> f64_pos x"
proof -
  assume "0 < x"
  then have "rne (of_int 0) \<le> rne (x / 2 powi f64_quantum x)"
    by (intro rne_mono) (simp add: zero_le_divide_iff less_imp_le)
  then have "0 \<le> rne (x / 2 powi f64_quantum x)" by (simp only: rne_of_int)
  then show ?thesis by (simp add: f64_pos_def less_imp_le)
qed

lemma f64_pos_upper:
  assumes "0 < x" "x \<le> of_int m * 2 powi f64_quantum x"
  shows "f64_pos x \<le> of_int m * 2 powi f64_quantum x"
proof -
  have "x / 2 powi f64_quantum x \<le> of_int m" using assms(2) by (simp add: divide_le_eq)
  then have "rne (x / 2 powi f64_quantum x) \<le> m" using rne_mono [of _ "of_int m"] by simp
  then show ?thesis by (simp add: f64_pos_def)
qed

lemma f64_pos_lower:
  assumes "0 < x" "of_int m * 2 powi f64_quantum x \<le> x"
  shows "of_int m * 2 powi f64_quantum x \<le> f64_pos x"
proof -
  have "of_int m \<le> x / 2 powi f64_quantum x" using assms(2) by (simp add: le_divide_eq)
  then have "m \<le> rne (x / 2 powi f64_quantum x)" using rne_mono [of "of_int m"] by simp
  then show ?thesis by (simp add: f64_pos_def)
qed

lemma quantum_top: "0 < x \<Longrightarrow> x \<le> of_int (2 ^ 53) * 2 powi f64_quantum x"
proof -
  assume "0 < x"
  then have "x < 2 powi (f64_exp x + 1)" by (rule f64_exp_bounds)
  also have "\<dots> \<le> 2 powi (53 + f64_quantum x)" by (rule powi_mono) (simp add: f64_quantum_def)
  also have "\<dots> = of_int (2 ^ 53) * 2 powi f64_quantum x" by (subst powi_split) simp
  finally show ?thesis by simp
qed

lemma f64_pos_mono:
  assumes "0 < x" "x \<le> y"
  shows "f64_pos x \<le> f64_pos y"
proof (cases "f64_quantum x = f64_quantum y")
  case True
  have "x / 2 powi f64_quantum x \<le> y / 2 powi f64_quantum x"
    using assms(2) by (intro divide_right_mono) (auto simp: less_imp_le)
  then have "rne (x / 2 powi f64_quantum x) \<le> rne (y / 2 powi f64_quantum y)"
    using True by (auto intro: rne_mono)
  then show ?thesis by (simp add: f64_pos_def True)
next
  case False
  with assms f64_quantum_mono have lt: "f64_quantum x < f64_quantum y" by force
  then have ey: "f64_quantum y = f64_exp y - 52" by (auto simp: f64_quantum_def split: if_splits)
  have "f64_pos x \<le> of_int (2 ^ 53) * 2 powi f64_quantum x"
    using assms(1) quantum_top by (intro f64_pos_upper) auto
  also have "\<dots> = 2 powi (53 + f64_quantum x)" by (subst powi_split) simp
  also have "\<dots> \<le> 2 powi (52 + f64_quantum y)" using lt by (intro powi_mono) simp
  also have "\<dots> = of_int (2 ^ 52) * 2 powi f64_quantum y" by (subst powi_split) simp
  also have "\<dots> \<le> f64_pos y"
  proof (rule f64_pos_lower)
    show "0 < y" using assms by simp
    have "of_int (2 ^ 52) * 2 powi f64_quantum y = (2::rat) powi (52 + f64_quantum y)"
      by (subst powi_split) simp
    also have "\<dots> = 2 powi f64_exp y" by (simp add: ey)
    also have "\<dots> \<le> y" using assms by (intro f64_exp_bounds) simp
    finally show "of_int (2 ^ 52) * 2 powi f64_quantum y \<le> y" .
  qed
  finally show ?thesis .
qed

lemma f64_mono: "x \<le> y \<Longrightarrow> f64 x \<le> f64 y"
proof -
  assume le: "x \<le> y"
  consider "0 < x" | "x \<le> 0" "0 \<le> y" | "y < 0" by linarith
  then show ?thesis
  proof cases
    case 1
    with le show ?thesis by (simp add: f64_def f64_pos_mono)
  next
    case 2
    have "f64 x \<le> 0" using 2 f64_pos_nonneg [of "- x"] by (auto simp: f64_def)
    moreover have "0 \<le> f64 y" using 2 f64_pos_nonneg [of y] by (auto simp: f64_def)
    ultimately show ?thesis by linarith
  next
    case 3
    with le f64_pos_mono [of "- y" "- x"] show ?thesis by (simp add: f64_def)
  qed
qed

text \<open>A number with at most 53 significant bits (and no bit below the subnormals) is a double.\<close>

lemma f64_pos_exact:
  assumes "0 < m" "m < 2 ^ 53" "-1074 \<le> k"
  shows "f64_pos (of_int m * 2 powi k) = of_int m * 2 powi k"
proof -
  define x where "x = of_int m * (2::rat) powi k"
  have pos: "0 < x" using assms(1) by (simp add: x_def)
  have "(of_int m :: rat) < of_int (2 ^ 53)" using assms(2) by (simp only: of_int_less_iff)
  then have "x < 2 ^ 53 * 2 powi k" by (simp add: x_def)
  also have "\<dots> = 2 powi (53 + k)" by (subst powi_split) simp
  finally have top: "x < 2 powi (53 + k)" .
  have "f64_exp x \<le> 52 + k"
  proof (rule ccontr)
    assume "\<not> f64_exp x \<le> 52 + k"
    then have "(2::rat) powi (53 + k) \<le> 2 powi f64_exp x" by (intro powi_mono) simp
    with f64_exp_bounds(1) [OF pos] top show False by linarith
  qed
  then have q: "f64_quantum x \<le> k" using assms(3) by (simp add: f64_quantum_def)
  then obtain j where j: "k = f64_quantum x + int j" using zle_iff_zadd by auto
  have k: "(2::rat) powi k = 2 powi f64_quantum x * 2 powi int j" by (subst j) (rule powi_split)
  have "x = of_int m * (2 powi f64_quantum x * 2 powi int j)" unfolding k [symmetric] by (rule x_def)
  also have "\<dots> = of_int (m * 2 ^ j) * 2 powi f64_quantum x" by (simp add: mult_ac)
  finally have "x / 2 powi f64_quantum x = of_int (m * 2 ^ j)"
    using powi_pos [of "f64_quantum x"] by (metis less_irrefl nonzero_mult_div_cancel_right)
  then have "f64_pos x = of_int (m * 2 ^ j) * 2 powi f64_quantum x"
    by (simp only: f64_pos_def rne_of_int)
  also have "\<dots> = of_int m * (2 powi f64_quantum x * 2 powi int j)" by simp
  also have "\<dots> = of_int m * 2 powi k" by (simp only: k)
  finally show ?thesis by (simp only: x_def)
qed

lemma f64_exact_int:
  assumes "\<bar>m\<bar> < 2 ^ 53"
  shows "f64 (of_int m) = of_int m"
proof -
  consider "m = 0" | "0 < m" | "m < 0" by linarith
  then show ?thesis
  proof cases
    case 1
    then show ?thesis by (simp add: f64_def)
  next
    case 2
    with assms f64_pos_exact [of m 0] show ?thesis by (simp add: f64_def)
  next
    case 3
    with assms f64_pos_exact [of "- m" 0] show ?thesis by (simp add: f64_def)
  qed
qed

lemma f64_zero [simp]: "f64 0 = 0"
  by (simp add: f64_def)

lemma f64_one [simp]: "f64 1 = 1"
  using f64_exact_int [of 1] by simp

lemma f64_pos_idem:
  assumes "0 < x"
  shows "f64 (f64_pos x) = f64_pos x"
proof -
  define m where "m = rne (x / 2 powi f64_quantum x)"
  define q where "q = f64_quantum x"
  have fx: "f64_pos x = of_int m * 2 powi q" by (simp add: f64_pos_def m_def q_def)
  have q: "-1074 \<le> q" by (simp add: q_def f64_quantum_def)
  have "of_int 0 * (2::rat) powi q \<le> of_int m * 2 powi q" using f64_pos_nonneg [OF assms] fx by simp
  then have m0: "0 \<le> m" by (simp only: mult_le_cancel_right_pos powi_pos of_int_le_iff)
  have "of_int m * 2 powi q \<le> of_int (2 ^ 53) * (2::rat) powi q"
    using f64_pos_upper [OF assms quantum_top [OF assms]] fx by (simp add: q_def)
  then have "(of_int m :: rat) \<le> of_int (2 ^ 53)" by (simp only: mult_le_cancel_right_pos powi_pos)
  then have top: "m \<le> 2 ^ 53" by (simp only: of_int_le_iff)
  consider "m = 0" | "0 < m" "m < 2 ^ 53" | "m = 2 ^ 53" using m0 top by linarith
  then show ?thesis
  proof cases
    case 1
    then show ?thesis by (simp add: fx)
  next
    case 2
    then have "f64_pos (f64_pos x) = f64_pos x" using f64_pos_exact [OF 2 q] fx by simp
    moreover have "0 < f64_pos x" using 2 fx by simp
    ultimately show ?thesis by (simp add: f64_def)
  next
    case 3
    have eq: "f64_pos x = of_int (2 ^ 52) * 2 powi (q + 1)"
      unfolding fx 3 by (subst powi_split) simp
    have "f64_pos (f64_pos x) = f64_pos x"
      unfolding eq using q by (intro f64_pos_exact) auto
    moreover have "0 < f64_pos x" using 3 fx by simp
    ultimately show ?thesis by (simp add: f64_def)
  qed
qed

lemma f64_neg: "f64 (- x) = - f64 x"
  by (auto simp: f64_def)

lemma f64_idem: "f64 (f64 x) = f64 x"
proof -
  consider "x = 0" | "0 < x" | "x < 0" by linarith
  then show ?thesis
  proof cases
    case 1
    then show ?thesis by simp
  next
    case 2
    then show ?thesis using f64_pos_idem [of x] by (simp add: f64_def)
  next
    case 3
    then have "f64 x = - f64_pos (- x)" by (simp add: f64_def)
    then show ?thesis using f64_pos_idem [of "- x"] 3 by (simp add: f64_neg)
  qed
qed

section \<open>The laws the components use\<close>

locale rounding =
  fixes rnd :: "rat \<Rightarrow> rat"
  assumes rnd_mono: "x \<le> y \<Longrightarrow> rnd x \<le> rnd y"
    and rnd_zero: "rnd 0 = 0"
    and rnd_one: "rnd 1 = 1"
    and rnd_idem: "rnd (rnd x) = rnd x"
begin

lemma rnd_nonneg: "0 \<le> x \<Longrightarrow> 0 \<le> rnd x"
  using rnd_mono [of 0 x] rnd_zero by simp

lemma rnd_ge_one: "1 \<le> x \<Longrightarrow> 1 \<le> rnd x"
  using rnd_mono [of 1 x] rnd_one by simp

lemma rnd_le_one: "x \<le> 1 \<Longrightarrow> rnd x \<le> 1"
  using rnd_mono [of x 1] rnd_one by simp

text \<open>Adding a non-negative number to a representable one never gives less.\<close>

lemma rnd_add_ge: "rnd a = a \<Longrightarrow> 0 \<le> b \<Longrightarrow> a \<le> rnd (a + b)"
  using rnd_mono [of a "a + b"] by simp

lemma rnd_add_mono: "a \<le> a' \<Longrightarrow> b \<le> b' \<Longrightarrow> rnd (a + b) \<le> rnd (a' + b')"
  by (intro rnd_mono add_mono)

lemma rnd_mult_mono: "0 \<le> a \<Longrightarrow> a \<le> a' \<Longrightarrow> 0 \<le> b \<Longrightarrow> b \<le> b' \<Longrightarrow> rnd (a * b) \<le> rnd (a' * b')"
  by (intro rnd_mono mult_mono) auto

lemma rnd_mult_ge: "rnd a = a \<Longrightarrow> 0 \<le> a \<Longrightarrow> 1 \<le> b \<Longrightarrow> a \<le> rnd (a * b)"
proof -
  assume h: "rnd a = a" "0 \<le> a" "1 \<le> b"
  then have "a * 1 \<le> a * b" by (intro mult_left_mono)
  then show ?thesis using rnd_mono [of a "a * b"] h by simp
qed

end

interpretation dbl: rounding f64
  by unfold_locales (auto intro: f64_mono simp: f64_idem)

end
