(* ===== verification/Scoring.thy ===== *)
theory Scoring
  imports F64
begin

text \<open>
  The scoring and matching core of \<^verbatim>\<open>internal/engine\<close>: signals, boost rules and verdicts
  (\<^verbatim>\<open>scoring.go\<close>), the substring, case-insensitive and regex matchers (\<^verbatim>\<open>matcher.go\<close>), the rule
  file and its validation (\<^verbatim>\<open>rules.go\<close>), the pass over all matchers and detectors (\<^verbatim>\<open>stream.go\<close>)
  and the score ceiling of \<^verbatim>\<open>provenance.go\<close>.
\<close>

section \<open>Signals and verdicts (scoring.go)\<close>

record Signal =
  sig_name :: string
  sig_weight :: rat
  sig_matched :: string

record BoostRule =
  br_name :: string
  br_factor :: rat

datatype Verdict = VerdictPass | VerdictQuarantine | VerdictReject

record ScanResult =
  sr_signals :: "Signal list"
  sr_total :: rat
  sr_verdict :: Verdict

fun boost_loop :: "rat \<Rightarrow> BoostRule list \<Rightarrow> rat" where
  "boost_loop m [] = m"
| "boost_loop m (br # brs) = boost_loop (fmul m (br_factor br)) brs"

fun total_loop :: "rat \<Rightarrow> rat \<Rightarrow> Signal list \<Rightarrow> rat" where
  "total_loop m t [] = t"
| "total_loop m t (s # ss) = total_loop m (fadd t (fmul (sig_weight s) m)) ss"

definition ScoreSignals :: "Signal list \<Rightarrow> BoostRule list \<Rightarrow> rat \<Rightarrow> ScanResult" where
  "ScoreSignals signals boostRules threshold =
     (let boostMultiplier = boost_loop 1 boostRules;
          tot = total_loop boostMultiplier 0 signals
      in \<lparr>sr_signals = signals, sr_total = tot,
          sr_verdict = (if tot \<ge> threshold then VerdictQuarantine else VerdictPass)\<rparr>)"

section \<open>Matchers (matcher.go)\<close>

record MatchResult =
  m_pattern :: string
  m_position :: nat

text \<open>
  \<^verbatim>\<open>findAllOffsets\<close>: the loop has no guard against an empty needle, so it is a partial function;
  \<open>None\<close> is a loop that does not end.
\<close>

partial_function (option) find_all_from :: "bytes \<Rightarrow> bytes \<Rightarrow> nat \<Rightarrow> nat list \<Rightarrow> nat list option" where
  "find_all_from haystack needle offset positions =
     (case go_index (drop offset haystack) needle of
        None \<Rightarrow> Some positions
      | Some idx \<Rightarrow>
          find_all_from haystack needle (offset + (idx + length needle)) (positions @ [offset + idx]))"

definition findAllOffsets :: "bytes \<Rightarrow> bytes \<Rightarrow> nat list option" where
  "findAllOffsets haystack needle = find_all_from haystack needle 0 []"

fun match_patterns :: "(string \<Rightarrow> bytes) \<Rightarrow> bytes \<Rightarrow> string list \<Rightarrow> MatchResult list option" where
  "match_patterns f content [] = Some []"
| "match_patterns f content (p # ps) =
     (case findAllOffsets content (f p) of
        None \<Rightarrow> None
      | Some positions \<Rightarrow>
          (case match_patterns f content ps of
             None \<Rightarrow> None
           | Some rs \<Rightarrow> Some (map (\<lambda>pos. \<lparr>m_pattern = p, m_position = pos\<rparr>) positions @ rs)))"

type_synonym matcher = "bytes \<Rightarrow> string list \<Rightarrow> (err, MatchResult list) outcome"

definition SubstringMatcher :: matcher where
  "SubstringMatcher content patterns = of_loop (match_patterns (\<lambda>p. p) content patterns)"

text \<open>
  \<^verbatim>\<open>bytes.ToLower\<close> and \<^verbatim>\<open>strings.ToLower\<close> are the parameter \<open>lower\<close>: Unicode case mapping is a
  table of Go's standard library.
\<close>

definition CaseInsensitiveMatcher :: "(bytes \<Rightarrow> bytes) \<Rightarrow> matcher" where
  "CaseInsensitiveMatcher lower content patterns = of_loop (match_patterns lower (lower content) patterns)"

text \<open>
  \<^verbatim>\<open>regexp.Compile\<close> is the parameter \<open>rx\<close>: \<open>None\<close> for a pattern that does not compile, otherwise
  what \<^verbatim>\<open>FindAllIndex(content, -1)\<close> returns.
\<close>

type_synonym regexp = "string \<Rightarrow> (bytes \<Rightarrow> (nat \<times> nat) list) option"
type_synonym RegexMatcher = "(string \<times> (bytes \<Rightarrow> (nat \<times> nat) list)) list"

fun NewRegexMatcher :: "regexp \<Rightarrow> string list \<Rightarrow> (err, RegexMatcher) outcome" where
  "NewRegexMatcher rx [] = Returns []"
| "NewRegexMatcher rx (p # ps) =
     (case rx p of
        None \<Rightarrow> Fails (Err (''compile pattern '' @ p))
      | Some re \<Rightarrow> obind (NewRegexMatcher rx ps) (\<lambda>m. Returns ((p, re) # m)))"

definition RegexMatcher_Match :: "RegexMatcher \<Rightarrow> matcher" where
  "RegexMatcher_Match m content patterns =
     Returns (concat (map (\<lambda>(p, re). map (\<lambda>loc. \<lparr>m_pattern = p, m_position = fst loc\<rparr>) (re content)) m))"

section \<open>The rule file (rules.go)\<close>

record Rule =
  r_name :: string
  r_patterns :: "string list"
  r_weight :: rat
  r_match_type :: string
  r_detector :: string
  r_behavior :: string
  r_boost_factor :: rat

record RuleConfig =
  rc_rules :: "Rule list"
  rc_threshold :: rat

definition MatchSubstring :: string where "MatchSubstring = ''substring''"
definition MatchSubstringCaseInsensitive :: string where
  "MatchSubstringCaseInsensitive = ''substring_case_insensitive''"
definition MatchRegex :: string where "MatchRegex = ''regex''"
definition MatchCustomDetector :: string where "MatchCustomDetector = ''custom_detector''"

lemmas match_type_defs =
  MatchSubstring_def MatchSubstringCaseInsensitive_def MatchRegex_def MatchCustomDetector_def

definition validMatchTypes :: "string \<Rightarrow> bool" where
  "validMatchTypes t \<longleftrightarrow>
     t \<in> {MatchSubstring, MatchSubstringCaseInsensitive, MatchRegex, MatchCustomDetector}"

datatype rule_error =
    RulesEmpty
  | ThresholdRange rat
  | WeightRange nat string rat
  | UnknownMatchType nat string string
  | DetectorMissing nat string
  | InvalidRegex nat string string
  | BoostRange nat string rat

fun validate_regexes :: "regexp \<Rightarrow> nat \<Rightarrow> string \<Rightarrow> string list \<Rightarrow> rule_error option" where
  "validate_regexes rx i name [] = None"
| "validate_regexes rx i name (p # ps) =
     (if rx p = None then Some (InvalidRegex i name p) else validate_regexes rx i name ps)"

definition validate_rule :: "regexp \<Rightarrow> nat \<Rightarrow> Rule \<Rightarrow> rule_error option" where
  "validate_rule rx i rule =
     (if r_weight rule < 0 \<or> r_weight rule > 1 then Some (WeightRange i (r_name rule) (r_weight rule))
      else if \<not> validMatchTypes (r_match_type rule) then
        Some (UnknownMatchType i (r_name rule) (r_match_type rule))
      else if r_match_type rule = MatchCustomDetector \<and> r_detector rule = '''' then
        Some (DetectorMissing i (r_name rule))
      else
        (case (if r_match_type rule = MatchRegex
               then validate_regexes rx i (r_name rule) (r_patterns rule) else None) of
           Some e \<Rightarrow> Some e
         | None \<Rightarrow>
             if r_behavior rule = ''weight_booster''
                \<and> (r_boost_factor rule < 1 \<or> r_boost_factor rule > 3)
             then Some (BoostRange i (r_name rule) (r_boost_factor rule))
             else None))"

fun validate_rules :: "regexp \<Rightarrow> nat \<Rightarrow> Rule list \<Rightarrow> rule_error option" where
  "validate_rules rx i [] = None"
| "validate_rules rx i (rule # rules) =
     (case validate_rule rx i rule of Some e \<Rightarrow> Some e | None \<Rightarrow> validate_rules rx (Suc i) rules)"

definition validateRuleConfig :: "regexp \<Rightarrow> RuleConfig \<Rightarrow> rule_error option" where
  "validateRuleConfig rx rc =
     (if rc_rules rc = [] then Some RulesEmpty
      else if rc_threshold rc \<le> 0 \<or> rc_threshold rc > 2 then Some (ThresholdRange (rc_threshold rc))
      else validate_rules rx 0 (rc_rules rc))"

text \<open>
  \<^verbatim>\<open>LoadRules\<close>: \<^verbatim>\<open>json.Decoder.Decode\<close> into the struct is the parameter \<open>decode\<close> (\<open>None\<close>: a
  decoding error).
\<close>

datatype load_error = ParsingRulesJSON | InvalidRules rule_error

definition LoadRules :: "(bytes \<Rightarrow> RuleConfig option) \<Rightarrow> regexp \<Rightarrow> bytes \<Rightarrow> load_error + RuleConfig" where
  "LoadRules decode rx raw =
     (case decode raw of
        None \<Rightarrow> Inl ParsingRulesJSON
      | Some rc \<Rightarrow>
          (case validateRuleConfig rx rc of Some e \<Rightarrow> Inl (InvalidRules e) | None \<Rightarrow> Inr rc))"

section \<open>Running the scan functions (stream.go)\<close>

type_synonym ScanFunc = "bytes \<Rightarrow> (err, Signal list) outcome"

definition DefaultSampleSize :: nat where
  "DefaultSampleSize = 64 * 1024"

fun scan_loop :: "ScanFunc list \<Rightarrow> bytes \<Rightarrow> Signal list \<Rightarrow> (err, Signal list) outcome" where
  "scan_loop [] content allSignals = Returns allSignals"
| "scan_loop (scan # scans) content allSignals =
     obind (scan content) (\<lambda>signals. scan_loop scans content (allSignals @ signals))"

text \<open>Reading from the in-memory reader the callers pass cannot fail, so the content is the argument.\<close>

definition ScanContent :: "bytes \<Rightarrow> ScanFunc list \<Rightarrow> ScanFunc list \<Rightarrow> (err, Signal list) outcome" where
  "ScanContent content matchers detectors =
     obind (scan_loop matchers content []) (\<lambda>signals. scan_loop detectors content signals)"

definition SampleContent :: "bytes \<Rightarrow> nat \<Rightarrow> bytes" where
  "SampleContent content sampleSize =
     (if length content \<le> sampleSize * 2 then content
      else take sampleSize content @ drop (length content - sampleSize) content)"

section \<open>The score ceiling (provenance.go)\<close>

fun max_score_loop :: "rat \<Rightarrow> rat \<Rightarrow> Rule list \<Rightarrow> rat" where
  "max_score_loop tot boost [] = fmul tot boost"
| "max_score_loop tot boost (r # rs) =
     (if r_behavior r = ''weight_booster'' then
        max_score_loop tot (if r_boost_factor r > 0 then fmul boost (r_boost_factor r) else boost) rs
      else max_score_loop (fadd tot (r_weight r)) boost rs)"

definition MaxAchievableScore :: "RuleConfig \<Rightarrow> rat" where
  "MaxAchievableScore rc = max_score_loop 0 1 (rc_rules rc)"

section \<open>Scores\<close>

lemma boost_loop_ge:
  "f64 m = m \<Longrightarrow> 0 \<le> m \<Longrightarrow> (\<And>b. b \<in> set brs \<Longrightarrow> 1 \<le> br_factor b) \<Longrightarrow> m \<le> boost_loop m brs"
proof (induction brs arbitrary: m)
  case Nil
  then show ?case by simp
next
  case (Cons b brs)
  have ge: "m \<le> fmul m (br_factor b)"
    unfolding fmul_def using Cons.prems by (intro dbl.rnd_mult_ge) auto
  also have "\<dots> \<le> boost_loop (fmul m (br_factor b)) brs"
    using Cons.prems ge by (intro Cons.IH) (auto simp: fmul_def f64_idem)
  finally show ?case by simp
qed

lemma boost_loop_double: "f64 m = m \<Longrightarrow> f64 (boost_loop m brs) = boost_loop m brs"
  by (induction brs arbitrary: m) (auto simp: fmul_def f64_idem)

lemma boost_loop_append: "boost_loop m (as @ bs) = boost_loop (boost_loop m as) bs"
  by (induction as arbitrary: m) auto

lemma boost_loop_mono: "0 \<le> m \<Longrightarrow> m \<le> m' \<Longrightarrow> (\<And>b. b \<in> set brs \<Longrightarrow> 0 \<le> br_factor b) \<Longrightarrow>
   boost_loop m brs \<le> boost_loop m' brs"
proof (induction brs arbitrary: m m')
  case Nil
  then show ?case by simp
next
  case (Cons b brs)
  have "fmul m (br_factor b) \<le> fmul m' (br_factor b)" "0 \<le> fmul m (br_factor b)"
    unfolding fmul_def using Cons.prems by (auto intro: dbl.rnd_mult_mono dbl.rnd_nonneg)
  with Cons show ?case by simp
qed

text \<open>A boost list extended anywhere by factors of at least one gives at least the same multiplier.\<close>

lemma boost_loop_subseq:
  "subseq as bs \<Longrightarrow> f64 m = m \<Longrightarrow> 0 \<le> m \<Longrightarrow> m \<le> m' \<Longrightarrow> f64 m' = m' \<Longrightarrow>
   (\<And>b. b \<in> set bs \<Longrightarrow> 1 \<le> br_factor b) \<Longrightarrow> boost_loop m as \<le> boost_loop m' bs"
proof (induction as bs arbitrary: m m' rule: list_emb.induct)
  case (list_emb_Nil ys)
  then have "m' \<le> boost_loop m' ys" by (intro boost_loop_ge) auto
  with list_emb_Nil show ?case by simp
next
  case (list_emb_Cons xs ys y)
  have "m' \<le> fmul m' (br_factor y)" unfolding fmul_def
    using list_emb_Cons.prems by (intro dbl.rnd_mult_ge) auto
  then show ?case using list_emb_Cons.prems
    by (auto intro!: list_emb_Cons.IH simp: fmul_def f64_idem)
next
  case (list_emb_Cons2 x y xs ys)
  have "fmul m (br_factor x) \<le> fmul m' (br_factor y)" "0 \<le> fmul m (br_factor x)"
    unfolding fmul_def using list_emb_Cons2.prems list_emb_Cons2.hyps
    by (force intro: dbl.rnd_mult_mono dbl.rnd_nonneg)+
  then show ?case using list_emb_Cons2.prems
    by (auto intro!: list_emb_Cons2.IH simp: fmul_def f64_idem)
qed

lemma total_loop_double: "f64 t = t \<Longrightarrow> f64 (total_loop m t ss) = total_loop m t ss"
  by (induction ss arbitrary: t) (auto simp: fadd_def f64_idem)

lemma total_loop_ge:
  "0 \<le> m \<Longrightarrow> f64 t = t \<Longrightarrow> (\<And>s. s \<in> set ss \<Longrightarrow> 0 \<le> sig_weight s) \<Longrightarrow> t \<le> total_loop m t ss"
proof (induction ss arbitrary: t)
  case Nil
  then show ?case by simp
next
  case (Cons s ss)
  have "0 \<le> fmul (sig_weight s) m" unfolding fmul_def using Cons.prems by (auto intro: dbl.rnd_nonneg)
  then have "t \<le> fadd t (fmul (sig_weight s) m)"
    unfolding fadd_def using Cons.prems by (intro dbl.rnd_add_ge) auto
  also have "\<dots> \<le> total_loop m (fadd t (fmul (sig_weight s) m)) ss"
    using Cons.prems by (intro Cons.IH) (auto simp: fadd_def f64_idem)
  finally show ?case by simp
qed

lemma total_loop_mono:
  "subseq as bs \<Longrightarrow> 0 \<le> m \<Longrightarrow> m \<le> m' \<Longrightarrow> t \<le> t' \<Longrightarrow> f64 t' = t' \<Longrightarrow>
   (\<And>s. s \<in> set bs \<Longrightarrow> 0 \<le> sig_weight s) \<Longrightarrow> total_loop m t as \<le> total_loop m' t' bs"
proof (induction as bs arbitrary: t t' rule: list_emb.induct)
  case (list_emb_Nil ys)
  then have "t' \<le> total_loop m' t' ys" by (intro total_loop_ge) auto
  with list_emb_Nil show ?case by simp
next
  case (list_emb_Cons xs ys y)
  have "0 \<le> fmul (sig_weight y) m'"
    unfolding fmul_def using list_emb_Cons.prems by (auto intro: dbl.rnd_nonneg)
  then have "t' \<le> fadd t' (fmul (sig_weight y) m')"
    unfolding fadd_def using list_emb_Cons.prems by (intro dbl.rnd_add_ge) auto
  then show ?case using list_emb_Cons.prems
    by (auto intro!: list_emb_Cons.IH simp: fadd_def f64_idem)
next
  case (list_emb_Cons2 x y xs ys)
  have "fmul (sig_weight x) m \<le> fmul (sig_weight y) m'"
    unfolding fmul_def using list_emb_Cons2.prems list_emb_Cons2.hyps by (auto intro!: dbl.rnd_mult_mono)
  then have "fadd t (fmul (sig_weight x) m) \<le> fadd t' (fmul (sig_weight y) m')"
    unfolding fadd_def using list_emb_Cons2.prems by (intro dbl.rnd_add_mono) auto
  then show ?case using list_emb_Cons2.prems
    by (auto intro!: list_emb_Cons2.IH simp: fadd_def f64_idem)
qed

lemma total_loop_member:
  assumes "s \<in> set ss" "1 \<le> m" "\<And>s. s \<in> set ss \<Longrightarrow> 0 \<le> sig_weight s" "f64 (sig_weight s) = sig_weight s"
  shows "sig_weight s \<le> total_loop m 0 ss"
proof -
  have sub: "subseq [s] ss" using assms(1) by (simp add: subseq_singleton_left)
  have w: "0 \<le> sig_weight s" using assms by auto
  have "sig_weight s \<le> fmul (sig_weight s) m"
    unfolding fmul_def using assms w by (intro dbl.rnd_mult_ge) auto
  also have "\<dots> = total_loop m 0 [s]" by (simp add: fadd_def fmul_def f64_idem)
  also have "\<dots> \<le> total_loop m 0 ss"
    using sub assms by (intro total_loop_mono) auto
  finally show ?thesis .
qed

lemma score_total_mono:
  assumes "subseq as bs" "subseq ba bb"
    and "\<forall>s \<in> set bs. 0 \<le> sig_weight s" "\<forall>b \<in> set bb. 1 \<le> br_factor b"
  shows "sr_total (ScoreSignals as ba th) \<le> sr_total (ScoreSignals bs bb th)"
proof -
  have "1 \<le> br_factor b" if "b \<in> set ba" for b
    using that assms(2,4) by (auto dest: list_emb_set)
  then have "1 \<le> boost_loop 1 ba" "boost_loop 1 ba \<le> boost_loop 1 bb"
    using assms(2,4) by (auto intro!: boost_loop_ge boost_loop_subseq)
  then have "total_loop (boost_loop 1 ba) 0 as \<le> total_loop (boost_loop 1 bb) 0 bs"
    using assms(1,3) by (intro total_loop_mono) auto
  then show ?thesis by (simp add: ScoreSignals_def Let_def)
qed

lemma score_verdict: "sr_verdict (ScoreSignals ss bs th) = VerdictQuarantine \<longleftrightarrow> th \<le> sr_total (ScoreSignals ss bs th)"
  by (simp add: ScoreSignals_def Let_def)

text \<open>
  The score is monotone. Extending the fired signals and the fired boosters (at any place,
  with non-negative weights and factors of at least one, in double arithmetic) never lowers the
  total, so it never turns a quarantine into a pass.
\<close>

theorem ScoreSignals_monotone:
  assumes "subseq as bs" "subseq ba bb"
    and "\<forall>s \<in> set bs. 0 \<le> sig_weight s" "\<forall>b \<in> set bb. 1 \<le> br_factor b"
  shows "sr_total (ScoreSignals as ba th) \<le> sr_total (ScoreSignals bs bb th)
    \<and> (sr_verdict (ScoreSignals as ba th) = VerdictQuarantine \<longrightarrow>
       sr_verdict (ScoreSignals bs bb th) = VerdictQuarantine)"
  using score_total_mono [OF assms, of th] by (auto simp: score_verdict)

theorem ScoreSignals_monotone_witness:
  "sr_total (ScoreSignals [] [] (4/5))
     \<le> sr_total (ScoreSignals [\<lparr>sig_name = ''a'', sig_weight = 1/2, sig_matched = ''x''\<rparr>]
                              [\<lparr>br_name = ''b'', br_factor = 2\<rparr>] (4/5))"
  by (rule ScoreSignals_monotone [THEN conjunct1]) simp_all

section \<open>Substring search\<close>

text \<open>Occurrences: the needle starts at offset \<open>i\<close> of the haystack.\<close>

definition occurs_at :: "bytes \<Rightarrow> bytes \<Rightarrow> nat \<Rightarrow> bool" where
  "occurs_at haystack needle i \<longleftrightarrow> i \<le> length haystack \<and> prefix needle (drop i haystack)"

text \<open>What the loop has done when it stands at \<open>offset\<close>.\<close>

definition offsets_ok :: "bytes \<Rightarrow> bytes \<Rightarrow> nat \<Rightarrow> nat list \<Rightarrow> bool" where
  "offsets_ok haystack needle offset ps \<longleftrightarrow>
     sorted_wrt (\<lambda>p q. p + length needle \<le> q) ps
     \<and> (\<forall>p \<in> set ps. occurs_at haystack needle p \<and> p + length needle \<le> offset)
     \<and> (\<forall>i < offset. occurs_at haystack needle i \<longrightarrow> (\<exists>p \<in> set ps. p \<le> i \<and> i < p + length needle))"

lemma offsets_ok_step:
  assumes "offsets_ok h n off ps" "off \<le> length h" "go_index (drop off h) n = Some idx" "n \<noteq> []"
  shows "offsets_ok h n (off + (idx + length n)) (ps @ [off + idx]) \<and> off + (idx + length n) \<le> length h"
proof -
  have len: "idx + length n \<le> length h - off" using go_index_length [OF assms(3)] by simp
  have occ: "occurs_at h n (off + idx)"
    using go_index_Some [OF assms(3)] len assms(2) by (auto simp: occurs_at_def add.commute)
  have miss: "\<not> occurs_at h n i" if "off \<le> i" "i < off + idx" for i
  proof -
    have "\<not> prefix n (drop (i - off) (drop off h))"
      using that by (intro go_index_least [OF assms(3)]) simp
    with that show ?thesis by (simp add: occurs_at_def)
  qed
  have cover: "\<exists>p \<in> set (ps @ [off + idx]). p \<le> i \<and> i < p + length n"
    if "i < off + (idx + length n)" "occurs_at h n i" for i
  proof (cases "i < off")
    case True
    with assms(1) that show ?thesis by (auto simp: offsets_ok_def)
  next
    case False
    then have "off + idx \<le> i" using miss [of i] that by linarith
    with that show ?thesis by auto
  qed
  have ps: "sorted_wrt (\<lambda>p q. p + length n \<le> q) ps" "\<forall>p \<in> set ps. occurs_at h n p \<and> p + length n \<le> off"
    using assms(1) by (auto simp: offsets_ok_def)
  then have "sorted_wrt (\<lambda>p q. p + length n \<le> q) (ps @ [off + idx])"
    by (auto simp: sorted_wrt_append intro: trans_le_add1)
  moreover have "\<forall>p \<in> set (ps @ [off + idx]). occurs_at h n p \<and> p + length n \<le> off + (idx + length n)"
    using ps occ by auto
  ultimately show ?thesis using cover len assms(2) by (auto simp: offsets_ok_def)
qed

lemma find_all_from_total:
  "n \<noteq> [] \<Longrightarrow> off \<le> length h \<Longrightarrow> offsets_ok h n off ps \<Longrightarrow>
   \<exists>qs. find_all_from h n off ps = Some qs \<and> offsets_ok h n (Suc (length h)) qs"
proof (induction "length h - off" arbitrary: off ps rule: less_induct)
  case less
  show ?case
  proof (cases "go_index (drop off h) n")
    case None
    have none: "\<not> occurs_at h n i" if "off \<le> i" for i
    proof
      assume o: "occurs_at h n i"
      then have "prefix n (drop (i - off) (drop off h))" "i - off \<le> length (drop off h)"
        using that by (auto simp: occurs_at_def)
      with None show False by (auto simp: go_index_None)
    qed
    have "offsets_ok h n (Suc (length h)) ps"
      using less.prems none by (auto simp: offsets_ok_def not_less intro: le_SucI order_trans) (meson not_less)
    with None show ?thesis by (simp add: find_all_from.simps)
  next
    case (Some idx)
    note st = offsets_ok_step [OF less.prems(3,2) Some less.prems(1)]
    have "length h - (off + (idx + length n)) < length h - off"
      using st less.prems(1) by (cases n) auto
    then obtain qs where "find_all_from h n (off + (idx + length n)) (ps @ [off + idx]) = Some qs"
        "offsets_ok h n (Suc (length h)) qs"
      using less.hyps [of "off + (idx + length n)"] less.prems(1) st by blast
    then show ?thesis by (subst find_all_from.simps) (simp add: Some)
  qed
qed

text \<open>
  For a non-empty needle the search loop ends, and it returns exactly a greedy left-to-right
  cover of the occurrences: the offsets are occurrences, they do not overlap, they ascend, and
  every occurrence of the needle starts inside one of them.
\<close>

theorem findAllOffsets_correct:
  assumes "needle \<noteq> []"
  shows "\<exists>ps. findAllOffsets haystack needle = Some ps
     \<and> sorted_wrt (\<lambda>p q. p + length needle \<le> q) ps
     \<and> (\<forall>p \<in> set ps. occurs_at haystack needle p)
     \<and> (\<forall>i. occurs_at haystack needle i \<longrightarrow> (\<exists>p \<in> set ps. p \<le> i \<and> i < p + length needle))"
proof -
  have "offsets_ok haystack needle 0 []" by (simp add: offsets_ok_def)
  with assms obtain ps where "findAllOffsets haystack needle = Some ps"
      "offsets_ok haystack needle (Suc (length haystack)) ps"
    unfolding findAllOffsets_def using find_all_from_total by blast
  then show ?thesis
    by (auto simp: offsets_ok_def occurs_at_def intro!: exI [of _ ps] dest: le_imp_less_Suc)
qed

theorem findAllOffsets_correct_witness:
  "\<exists>ps. findAllOffsets ''abcab'' ''ab'' = Some ps
     \<and> sorted_wrt (\<lambda>p q. p + length ''ab'' \<le> q) ps
     \<and> (\<forall>p \<in> set ps. occurs_at ''abcab'' ''ab'' p)
     \<and> (\<forall>i. occurs_at ''abcab'' ''ab'' i \<longrightarrow> (\<exists>p \<in> set ps. p \<le> i \<and> i < p + length ''ab''))"
  by (rule findAllOffsets_correct) simp

lemma find_all_from_empty: "find_all_from h [] off ps = Some qs \<Longrightarrow> False"
proof -
  assume ret: "find_all_from h [] off ps = Some qs"
  have "[] = ([] :: bytes) \<longrightarrow> False"
  proof (rule find_all_from.raw_induct [where P = "\<lambda>h n off ps qs. n = [] \<longrightarrow> False", OF _ ret])
    fix f h n off ps qs
    assume IH: "\<And>h n off ps qs. f h n off ps = Some qs \<Longrightarrow> n = [] \<longrightarrow> False"
      and eq: "(case go_index (drop off h) n of None \<Rightarrow> Some ps
          | Some idx \<Rightarrow> f h n (off + (idx + length n)) (ps @ [off + idx])) = Some qs"
    show "n = [] \<longrightarrow> False"
    proof
      assume "n = []"
      with eq have "f h n (off + (0 + length n)) (ps @ [off + 0]) = Some qs" by simp
      with IH \<open>n = []\<close> show False by blast
    qed
  qed
  then show False by simp
qed

lemma findAllOffsets_empty [simp]: "findAllOffsets h [] = None"
  unfolding findAllOffsets_def using find_all_from_empty by (cases "find_all_from h [] 0 []") auto

lemma find_all_from_prefix: "find_all_from h n off ps = Some qs \<Longrightarrow> prefix ps qs"
proof -
  assume ret: "find_all_from h n off ps = Some qs"
  show "prefix ps qs"
  proof (rule find_all_from.raw_induct [where P = "\<lambda>h n off ps qs. prefix ps qs", OF _ ret])
    fix f :: "bytes \<Rightarrow> bytes \<Rightarrow> nat \<Rightarrow> nat list \<Rightarrow> nat list option" and h n off ps y
    assume IH: "\<And>h n off ps y. f h n off ps = Some y \<Longrightarrow> prefix ps y"
      and step: "(case go_index (drop off h) n of None \<Rightarrow> Some ps
        | Some idx \<Rightarrow> f h n (off + (idx + length n)) (ps @ [off + idx])) = Some y"
    show "prefix ps y"
    proof (cases "go_index (drop off h) n")
      case None
      with step show ?thesis by simp
    next
      case (Some idx)
      with step have "f h n (off + (idx + length n)) (ps @ [off + idx]) = Some y" by simp
      from IH [OF this] show ?thesis by (rule append_prefixD)
    qed
  qed
qed

lemma findAllOffsets_nonempty: "n \<noteq> [] \<Longrightarrow> findAllOffsets h n \<noteq> None"
proof -
  assume "n \<noteq> []"
  moreover have "offsets_ok h n 0 []" by (simp add: offsets_ok_def)
  ultimately show ?thesis unfolding findAllOffsets_def using find_all_from_total by fastforce
qed

lemma findAllOffsets_hit: "sublist n h \<Longrightarrow> findAllOffsets h n \<noteq> Some []"
proof (cases "n = []")
  case False
  assume "sublist n h"
  then obtain i where "go_index h n = Some i" using go_contains_iff by (auto simp: go_contains_def)
  moreover obtain qs where "findAllOffsets h n = Some qs" using False findAllOffsets_nonempty by blast
  ultimately have "find_all_from h n (i + length n) [i] = Some qs"
    unfolding findAllOffsets_def by (subst (asm) find_all_from.simps) simp
  moreover have "find_all_from h n off ps = Some qs \<Longrightarrow> prefix ps qs" for off ps qs
    by (rule find_all_from_prefix)
  ultimately have "prefix [i] qs" by blast
  then show ?thesis using \<open>findAllOffsets h n = Some qs\<close> by auto
qed simp

lemma match_patterns_None: "match_patterns f c ps = None \<longleftrightarrow> (\<exists>p \<in> set ps. f p = [])"
proof (induction ps)
  case Nil
  then show ?case by simp
next
  case (Cons p ps)
  show ?case
  proof (cases "f p = []")
    case True
    then show ?thesis by simp
  next
    case False
    then obtain qs where "findAllOffsets c (f p) = Some qs" using findAllOffsets_nonempty by blast
    with Cons False show ?thesis by (auto split: option.splits)
  qed
qed

text \<open>
  C40: With an empty pattern the substring matcher does not return, whatever the content:
  \<^verbatim>\<open>bytes.Index\<close> finds the empty needle at once and the offset does not advance. Without an
  empty pattern it always returns. The rule file validation does not look at the patterns of a
  substring rule, so it accepts such a rule.
\<close>

theorem SubstringMatcher_hangs_iff:
  "(SubstringMatcher content patterns = Hangs \<longleftrightarrow> [] \<in> set patterns)
   \<and> validateRuleConfig rx
       \<lparr>rc_rules = [\<lparr>r_name = ''r'', r_patterns = [[]], r_weight = 1, r_match_type = MatchSubstring,
                     r_detector = [], r_behavior = [], r_boost_factor = 0\<rparr>],
        rc_threshold = 4/5\<rparr> = None"
  using match_patterns_None [of "\<lambda>p. p" content patterns]
  by (cases "match_patterns (\<lambda>p. p) content patterns")
    (auto simp: SubstringMatcher_def validateRuleConfig_def validate_rule_def validMatchTypes_def match_type_defs)

section \<open>Validation of the rule file\<close>

definition rule_ok :: "regexp \<Rightarrow> Rule \<Rightarrow> bool" where
  "rule_ok rx r \<longleftrightarrow>
     0 \<le> r_weight r \<and> r_weight r \<le> 1 \<and> validMatchTypes (r_match_type r)
     \<and> (r_match_type r = MatchCustomDetector \<longrightarrow> r_detector r \<noteq> [])
     \<and> (r_match_type r = MatchRegex \<longrightarrow> (\<forall>p \<in> set (r_patterns r). rx p \<noteq> None))
     \<and> (r_behavior r = ''weight_booster'' \<longrightarrow> 1 \<le> r_boost_factor r \<and> r_boost_factor r \<le> 3)"

lemma validate_regexes_None: "validate_regexes rx i name ps = None \<longleftrightarrow> (\<forall>p \<in> set ps. rx p \<noteq> None)"
  by (induction ps) auto

lemma validate_rule_None: "validate_rule rx i r = None \<longleftrightarrow> rule_ok rx r"
proof (cases "r_match_type r = MatchRegex")
  case True
  then show ?thesis
    using validate_regexes_None [of rx i "r_name r" "r_patterns r"]
    by (cases "validate_regexes rx i (r_name r) (r_patterns r)")
      (auto simp: validate_rule_def rule_ok_def split: if_splits)
next
  case False
  then show ?thesis by (auto simp: validate_rule_def rule_ok_def split: if_splits)
qed

lemma validate_rules_None: "validate_rules rx i rs = None \<longleftrightarrow> (\<forall>r \<in> set rs. rule_ok rx r)"
proof (induction rs arbitrary: i)
  case Nil
  then show ?case by simp
next
  case (Cons r rs)
  then show ?case using validate_rule_None [of rx i r] by (cases "validate_rule rx i r") auto
qed

text \<open>
  The rule file is accepted exactly when it holds at least one rule, the threshold lies in
  (0, 2] and every rule has its weight in [0, 1], a known match type, a detector name where one is
  needed, patterns that compile where they are regular expressions and, for a booster, a factor
  in [1, 3].
\<close>

theorem validateRuleConfig_iff:
  "validateRuleConfig rx rc = None \<longleftrightarrow>
     rc_rules rc \<noteq> [] \<and> 0 < rc_threshold rc \<and> rc_threshold rc \<le> 2 \<and> list_all (rule_ok rx) (rc_rules rc)"
  by (auto simp: validateRuleConfig_def validate_rules_None list_all_iff)

text \<open>
  The recorded score ceiling is not a ceiling. For the rule weights 0.1 and 0.5 with a booster
  of 1.5 and the threshold 0.9 (as doubles), \<^verbatim>\<open>MaxAchievableScore\<close> is below the threshold, so the
  provenance record says that this ruleset cannot quarantine anything, yet the three signals
  together score the threshold and are quarantined: the ceiling multiplies the sum, the score
  sums the products, and the two round differently.
\<close>

theorem MaxAchievableScore_not_a_ceiling:
  "\<exists>rc signals boosts.
     validateRuleConfig (\<lambda>_. None) rc = None
     \<and> map sig_weight signals = map r_weight (filter (\<lambda>r. r_behavior r \<noteq> ''weight_booster'') (rc_rules rc))
     \<and> map br_factor boosts = map r_boost_factor (filter (\<lambda>r. r_behavior r = ''weight_booster'') (rc_rules rc))
     \<and> MaxAchievableScore rc < rc_threshold rc
     \<and> sr_verdict (ScoreSignals signals boosts (rc_threshold rc)) = VerdictQuarantine"
proof -
  define w1 w2 b where "w1 = f64 (1/10)" and "w2 = f64 (1/2)" and "b = f64 (3/2)"
  define mk where "mk n w bh bf = \<lparr>r_name = n, r_patterns = [''x''], r_weight = w, r_match_type = MatchSubstring,
    r_detector = [], r_behavior = bh, r_boost_factor = bf\<rparr>" for n w bh bf
  define rc where "rc = \<lparr>rc_rules = [mk ''a'' w1 [] 0, mk ''b'' w2 [] 0, mk ''c'' 0 ''weight_booster'' b],
    rc_threshold = f64 (9/10)\<rparr>"
  define ss where "ss = [\<lparr>sig_name = ''a'', sig_weight = w1, sig_matched = ''x at 0''\<rparr>,
    \<lparr>sig_name = ''b'', sig_weight = w2, sig_matched = ''x at 0''\<rparr>]"
  define bs where "bs = [\<lparr>br_name = ''c'', br_factor = b\<rparr>]"
  have v: "w1 = 3602879701896397 / 36028797018963968" "w2 = 1/2" "b = 3/2"
      "f64 (9/10) = 8106479329266893 / 9007199254740992"
    unfolding w1_def w2_def b_def by code_simp+
  have lo: "fmul (fadd (fadd 0 w1) w2) (fmul 1 b) < f64 (9/10)"
    unfolding w1_def w2_def b_def by code_simp
  have hi: "fadd (fadd 0 (fmul w1 (fmul 1 b))) (fmul w2 (fmul 1 b)) \<ge> f64 (9/10)"
    unfolding w1_def w2_def b_def by code_simp
  have "validateRuleConfig (\<lambda>_. None) rc = None"
    by (simp add: rc_def mk_def v validateRuleConfig_iff rule_ok_def validMatchTypes_def match_type_defs)
  moreover have "MaxAchievableScore rc < rc_threshold rc"
    using lo by (simp add: rc_def mk_def MaxAchievableScore_def v(3))
  moreover have "sr_verdict (ScoreSignals ss bs (rc_threshold rc)) = VerdictQuarantine"
    using hi by (simp add: rc_def ss_def bs_def ScoreSignals_def Let_def)
  ultimately show ?thesis
    by (intro exI [of _ rc] exI [of _ ss] exI [of _ bs]) (simp add: rc_def mk_def ss_def bs_def)
qed

end
