(* ===== verification/Decode.thy ===== *)
theory Decode
  imports Invisible Unescape F64 Scoring
begin

text \<open>
  \<^verbatim>\<open>internal/engine/decode.go\<close> and \<^verbatim>\<open>internal/engine/structured.go\<close>: recovering text from embedded
  base64, hex and percent payloads into a bounded scan-only buffer, and stripping the structured
  (non-prose) regions of a document. The decoders are those of Go's \<^verbatim>\<open>encoding/base64\<close> and
  \<^verbatim>\<open>encoding/hex\<close>; the run patterns are matched by the greedy leftmost searches below.
\<close>

section \<open>encoding/base64 and encoding/hex\<close>

definition b64_val :: "bool \<Rightarrow> char \<Rightarrow> nat option" where
  "b64_val url c =
     (if is_upper_ascii c then Some (bv c - 65)
      else if is_lower_ascii c then Some (bv c - 71)
      else if is_digit_ascii c then Some (bv c + 4)
      else if c = (if url then CHR ''-'' else CHR ''+'') then Some 62
      else if c = (if url then CHR ''_'' else CHR ''/'') then Some 63
      else None)"

definition b64_two :: "nat \<Rightarrow> nat \<Rightarrow> bytes" where
  "b64_two v0 v1 = [char_of (v0 * 4 + v1 div 16)]"

definition b64_three :: "nat \<Rightarrow> nat \<Rightarrow> nat \<Rightarrow> bytes" where
  "b64_three v0 v1 v2 = b64_two v0 v1 @ [char_of (v1 mod 16 * 16 + v2 div 4)]"

definition b64_four :: "nat \<Rightarrow> nat \<Rightarrow> nat \<Rightarrow> nat \<Rightarrow> bytes" where
  "b64_four v0 v1 v2 v3 = b64_three v0 v1 v2 @ [char_of (v2 mod 4 * 64 + v3)]"

definition try2 :: "bool \<Rightarrow> char \<Rightarrow> char \<Rightarrow> bytes option" where
  "try2 url a b = Option.bind (b64_val url a) (\<lambda>v0. map_option (b64_two v0) (b64_val url b))"

definition try3 :: "bool \<Rightarrow> char \<Rightarrow> char \<Rightarrow> char \<Rightarrow> bytes option" where
  "try3 url a b c = Option.bind (b64_val url a) (\<lambda>v0. Option.bind (b64_val url b) (\<lambda>v1.
     map_option (b64_three v0 v1) (b64_val url c)))"

definition try4 :: "bool \<Rightarrow> char \<Rightarrow> char \<Rightarrow> char \<Rightarrow> char \<Rightarrow> bytes option" where
  "try4 url a b c d = Option.bind (b64_val url a) (\<lambda>v0. Option.bind (b64_val url b) (\<lambda>v1.
     Option.bind (b64_val url c) (\<lambda>v2. map_option (b64_four v0 v1 v2) (b64_val url d))))"

fun b64_quanta :: "bool \<Rightarrow> bool \<Rightarrow> bytes \<Rightarrow> bytes option" where
  "b64_quanta url padded [] = Some []"
| "b64_quanta url padded [a] = None"
| "b64_quanta url padded [a, b] = (if padded then None else try2 url a b)"
| "b64_quanta url padded [a, b, c] = (if padded then None else try3 url a b c)"
| "b64_quanta url padded (a # b # c # d # rest) =
     (if padded \<and> d = CHR ''='' then
        (if rest \<noteq> [] then None else if c = CHR ''='' then try2 url a b else try3 url a b c)
      else Option.bind (try4 url a b c d) (\<lambda>q. map_option ((@) q) (b64_quanta url padded rest)))"

text \<open>\<^verbatim>\<open>(*Encoding).Decode\<close>, not strict: line breaks are skipped, spare trailing bits are ignored.\<close>

definition b64_Decode :: "bool \<Rightarrow> bool \<Rightarrow> bytes \<Rightarrow> bytes option" where
  "b64_Decode url padded src =
     b64_quanta url padded (filter (\<lambda>c. c \<noteq> CHR 0x0A \<and> c \<noteq> CHR 0x0D) src)"

fun hex_Decode :: "bytes \<Rightarrow> bytes option" where
  "hex_Decode [] = Some []"
| "hex_Decode [a] = None"
| "hex_Decode (a # b # rest) =
     Option.bind (hexNibble a) (\<lambda>h. Option.bind (hexNibble b) (\<lambda>l.
       map_option ((#) (char_of (h * 16 + l))) (hex_Decode rest)))"

section \<open>The run patterns\<close>

definition is_std_b64 :: "char \<Rightarrow> bool" where
  "is_std_b64 c \<longleftrightarrow> is_upper_ascii c \<or> is_lower_ascii c \<or> is_digit_ascii c \<or> c = CHR ''+'' \<or> c = CHR ''/''"

definition is_url_b64 :: "char \<Rightarrow> bool" where
  "is_url_b64 c \<longleftrightarrow> is_upper_ascii c \<or> is_lower_ascii c \<or> is_digit_ascii c \<or> c = CHR ''_'' \<or> c = CHR ''-''"

text \<open>\<^verbatim>\<open>[class]{n,}={0,2}\<close>: the text between matches (left) and the matches (right), in order.\<close>

function find_runs :: "(char \<Rightarrow> bool) \<Rightarrow> nat \<Rightarrow> bytes \<Rightarrow> (bytes + bytes) list" where
  "find_runs P n [] = []"
| "find_runs P n (c # cs) =
     (if \<not> P c then Inl [c] # find_runs P n cs
      else let run = takeWhile P (c # cs); rest = dropWhile P (c # cs) in
           if length run < n then Inl run # find_runs P n rest
           else let pad = takeWhile (\<lambda>x. x = CHR ''='') (take 2 rest)
                in Inr (run @ pad) # find_runs P n (drop (length pad) rest))"
  by pat_completeness auto
termination
proof (relation "measure (\<lambda>(P, n, cs). length cs)", simp, simp)
  fix P :: "char \<Rightarrow> bool" and n :: nat and c cs run rest
  assume p: "\<not> \<not> P c" "rest = dropWhile P (c # cs)"
  then have r: "length rest \<le> length cs" using dropWhile_shorter [of P cs] by simp
  then show "((P, n, rest), (P, n, c # cs)) \<in> measure (\<lambda>(P, n, cs). length cs)" by simp
  fix pad :: bytes
  show "((P, n, drop (length pad) rest), (P, n, c # cs)) \<in> measure (\<lambda>(P, n, cs). length cs)"
    using r by simp
qed

declare find_runs.simps(2) [simp del]

text \<open>\<^verbatim>\<open>(?:[0-9a-fA-F]{2}){16,}\<close>.\<close>

function find_hex :: "bytes \<Rightarrow> (bytes + bytes) list" where
  "find_hex [] = []"
| "find_hex (c # cs) =
     (if \<not> is_hex_ascii c then Inl [c] # find_hex cs
      else let run = takeWhile is_hex_ascii (c # cs); rest = dropWhile is_hex_ascii (c # cs);
               m = length run - length run mod 2 in
           if length run < 32 then Inl run # find_hex rest
           else Inr (take m run) # Inl (drop m run) # find_hex rest)"
  by pat_completeness auto
termination
proof (relation "measure length", simp, simp)
  fix c cs run rest
  assume "\<not> \<not> is_hex_ascii c" "rest = dropWhile is_hex_ascii (c # cs)"
  then have r: "length rest \<le> length cs" using dropWhile_shorter [of is_hex_ascii cs] by simp
  then show "(rest, c # cs) \<in> measure length" by simp
  fix m :: nat
  show "(rest, c # cs) \<in> measure length" using r by simp
qed

declare find_hex.simps(2) [simp del]

text \<open>\<^verbatim>\<open>(?:%[0-9a-fA-F]{2})+\<close>: the run in progress is the accumulator, empty between runs.\<close>

fun find_percent :: "bytes \<Rightarrow> bytes \<Rightarrow> bytes list" where
  "find_percent acc (p # a # b # cs) =
     (if p = CHR ''%'' \<and> is_hex_ascii a \<and> is_hex_ascii b then find_percent (acc @ [p, a, b]) cs
      else (if acc = [] then [] else [acc]) @ find_percent [] (a # b # cs))"
| "find_percent acc cs = (if acc = [] then [] else [acc])"

definition matched :: "('a + 'b) list \<Rightarrow> 'b list" where
  "matched ps = List.map_filter (\<lambda>p. case p of Inl _ \<Rightarrow> None | Inr m \<Rightarrow> Some m) ps"

definition base64Run :: "bytes \<Rightarrow> bytes list" where
  "base64Run content = matched (find_runs is_std_b64 16 content)"

definition base64URL :: "bytes \<Rightarrow> bytes list" where
  "base64URL content = matched (find_runs is_url_b64 16 content)"

definition hexRun :: "bytes \<Rightarrow> bytes list" where
  "hexRun content = matched (find_hex content)"

definition percentRun :: "bytes \<Rightarrow> bytes list" where
  "percentRun content = find_percent [] content"

section \<open>Extracting decoded text (decode.go)\<close>

definition maxDecodedBytes :: nat where "maxDecodedBytes = 1048576"
definition maxDecodeDepth :: nat where "maxDecodeDepth = 2"
definition minDecodedLen :: nat where "minDecodedLen = 8"
definition printableRatio :: rat where "printableRatio = f64 (80 / 100)"

definition isLikelyText :: "unicode_data \<Rightarrow> bytes \<Rightarrow> bool" where
  "isLikelyText ud dat =
     (if length dat < minDecodedLen then False
      else if \<not> utf8_valid dat then False
      else let n = length (runes dat);
               printable = length (filter (\<lambda>r. r = 0x0A \<or> r = 0x0D \<or> r = 0x09 \<or> u_IsPrint ud r) (runes dat))
           in if n = 0 then False
              else fdiv (of_nat printable) (of_nat n) \<ge> printableRatio)"

fun tryBase64 :: "unicode_data \<Rightarrow> bytes \<Rightarrow> (bool \<times> bool) list \<Rightarrow> bytes option" where
  "tryBase64 ud run [] = None"
| "tryBase64 ud run ((url, padded) # encs) =
     (case b64_Decode url padded run of
        None \<Rightarrow> tryBase64 ud run encs
      | Some d \<Rightarrow> if isLikelyText ud d then Some d else tryBase64 ud run encs)"

fun percent_bytes :: "bytes \<Rightarrow> bytes option" where
  "percent_bytes (p # a # b # rest) =
     (case hex_Decode [a, b] of
        None \<Rightarrow> None
      | Some d \<Rightarrow> map_option ((@) d) (percent_bytes rest))"
| "percent_bytes rest = Some []"

definition tryPercent :: "unicode_data \<Rightarrow> bytes \<Rightarrow> bytes option" where
  "tryPercent ud run =
     (case percent_bytes run of None \<Rightarrow> None | Some d \<Rightarrow> if \<not> isLikelyText ud d then None else Some d)"

definition decodeCandidates :: "unicode_data \<Rightarrow> bytes \<Rightarrow> bytes list" where
  "decodeCandidates ud content =
     List.map_filter (\<lambda>m. tryBase64 ud m [(False, True), (False, False)]) (base64Run content)
     @ List.map_filter (\<lambda>m. if \<not> (CHR ''-'' \<in> set m \<or> CHR ''_'' \<in> set m) then None
                            else tryBase64 ud m [(True, True), (True, False)]) (base64URL content)
     @ List.map_filter (\<lambda>m. case hex_Decode m of
                              None \<Rightarrow> None
                            | Some d \<Rightarrow> if isLikelyText ud d then Some d else None) (hexRun content)
     @ List.map_filter (tryPercent ud) (percentRun content)"

text \<open>
  The loop of \<^verbatim>\<open>extractInto\<close> over the candidates of one level; \<open>recurse\<close> is the recursive call at
  the next depth. The buffer \<open>out\<close> is threaded through.
\<close>

fun extract_loop ::
  "(bytes \<Rightarrow> bytes) \<Rightarrow> unicode_data \<Rightarrow> (bytes \<Rightarrow> bytes \<Rightarrow> bytes) \<Rightarrow> bytes \<Rightarrow> bytes list \<Rightarrow> bytes" where
  "extract_loop nfkc ud recurse out [] = out"
| "extract_loop nfkc ud recurse out (d # ds) =
     (let decoded = fst (StripInvisible ud (nfkc d)) in
      if length decoded = 0 then extract_loop nfkc ud recurse out ds
      else if length out \<ge> maxDecodedBytes then out
      else let remaining = maxDecodedBytes - length out;
               decoded' = (if length decoded > remaining then take remaining decoded else decoded)
           in extract_loop nfkc ud recurse (recurse (out @ decoded' @ [CHR 0x0A]) decoded') ds)"

text \<open>\<open>levels\<close> is \<open>maxDecodeDepth - depth\<close>, so it is 0 exactly when \<^verbatim>\<open>depth >= maxDecodeDepth\<close>.\<close>

primrec extract_levels ::
  "(bytes \<Rightarrow> bytes) \<Rightarrow> unicode_data \<Rightarrow> nat \<Rightarrow> bytes \<Rightarrow> bytes \<Rightarrow> bytes" where
  "extract_levels nfkc ud 0 out content = out"
| "extract_levels nfkc ud (Suc levels) out content =
     (if length out \<ge> maxDecodedBytes then out
      else extract_loop nfkc ud (extract_levels nfkc ud levels) out (decodeCandidates ud content))"

definition extractInto ::
  "(bytes \<Rightarrow> bytes) \<Rightarrow> unicode_data \<Rightarrow> bytes \<Rightarrow> bytes \<Rightarrow> nat \<Rightarrow> bytes" where
  "extractInto nfkc ud out content depth = extract_levels nfkc ud (maxDecodeDepth - depth) out content"

definition ExtractDecoded :: "(bytes \<Rightarrow> bytes) \<Rightarrow> unicode_data \<Rightarrow> bytes \<Rightarrow> bytes option" where
  "ExtractDecoded nfkc ud content =
     (let out = extractInto nfkc ud [] content 0 in if length out = 0 then None else Some out)"

section \<open>Structured regions (structured.go)\<close>

definition looksEncoded :: "bytes \<Rightarrow> bool" where
  "looksEncoded run \<longleftrightarrow>
     length (filter is_digit_ascii run) > 0 \<or> length (filter is_upper_ascii (drop 1 run)) > 0"

text \<open>\<^verbatim>\<open>ReplaceAllFunc\<close>, on a text split into unmatched and matched parts.\<close>

definition replace_parts :: "(bytes \<Rightarrow> bytes) \<Rightarrow> (bytes + bytes) list \<Rightarrow> bytes" where
  "replace_parts f ps = concat (map (\<lambda>p. case p of Inl gap \<Rightarrow> gap | Inr m \<Rightarrow> f m) ps)"

definition stripRuns :: "(bytes \<Rightarrow> (bytes + bytes) list) \<Rightarrow> bytes \<Rightarrow> bytes" where
  "stripRuns re content = replace_parts (\<lambda>run. if \<not> looksEncoded run then run else '' '') (re content)"

text \<open>
  The armour and data-URI patterns are compiled by package regexp, so the split of a text at
  their matches is a parameter each.
\<close>

definition StripStructured ::
  "(bytes \<Rightarrow> (bytes + bytes) list) \<Rightarrow> (bytes \<Rightarrow> (bytes + bytes) list) \<Rightarrow> bytes \<Rightarrow> bytes" where
  "StripStructured armourBlock dataURI content =
     (let out = replace_parts (\<lambda>_. '' '') (armourBlock content);
          out = replace_parts (\<lambda>_. '' '') (dataURI out)
      in fold stripRuns [find_runs is_std_b64 40, find_runs is_url_b64 40, find_hex] out)"

definition NonSpaceLen :: "bytes \<Rightarrow> nat" where
  "NonSpaceLen content =
     length (filter (\<lambda>b. \<not> (b = CHR '' '' \<or> b = CHR 0x09 \<or> b = CHR 0x0A \<or> b = CHR 0x0D
                            \<or> b = CHR 0x0B \<or> b = CHR 0x0C)) content)"

section \<open>The buffer is bounded and append-only\<close>

text \<open>
  What the loop relies on in the recursive call: the buffer only grows at its end, and stays within
  the cap and one separator.
\<close>

locale bounded_writer =
  fixes recurse :: "bytes \<Rightarrow> bytes \<Rightarrow> bytes"
  assumes writer_bound: "length out \<le> Suc maxDecodedBytes \<Longrightarrow> length (recurse out c) \<le> Suc maxDecodedBytes"
    and writer_appends: "length out \<le> Suc maxDecodedBytes \<Longrightarrow> prefix out (recurse out c)"
begin

definition clip :: "bytes \<Rightarrow> bytes \<Rightarrow> bytes" where
  "clip out decoded = (if length decoded > maxDecodedBytes - length out
     then take (maxDecodedBytes - length out) decoded else decoded)"

lemma loop_step:
  assumes "decoded = fst (StripInvisible ud (nfkc d))" "decoded \<noteq> []" "length out < maxDecodedBytes"
    and "w = clip out decoded" "out2 = recurse (out @ w @ [CHR 0x0A]) w"
  shows "extract_loop nfkc ud recurse out (d # ds) = extract_loop nfkc ud recurse out2 ds"
    and "length out2 \<le> Suc maxDecodedBytes" and "prefix (out @ w @ [CHR 0x0A]) out2"
proof -
  show "extract_loop nfkc ud recurse out (d # ds) = extract_loop nfkc ud recurse out2 ds"
    using assms by (simp add: Let_def clip_def)
  have "length (out @ w @ [CHR 0x0A]) \<le> Suc maxDecodedBytes" using assms(3,4) by (auto simp: clip_def)
  then show "length out2 \<le> Suc maxDecodedBytes" "prefix (out @ w @ [CHR 0x0A]) out2"
    unfolding assms(5) by (rule writer_bound, rule writer_appends)
qed

lemma loop_bounds:
  "length out \<le> Suc maxDecodedBytes \<Longrightarrow>
    length (extract_loop nfkc ud recurse out ds) \<le> Suc maxDecodedBytes
    \<and> prefix out (extract_loop nfkc ud recurse out ds)"
proof (induction ds arbitrary: out)
  case Nil
  then show ?case by simp
next
  case (Cons d ds)
  define decoded where "decoded = fst (StripInvisible ud (nfkc d))"
  show ?case
  proof (cases "decoded = [] \<or> length out \<ge> maxDecodedBytes")
    case True
    then show ?thesis using Cons by (auto simp: decoded_def [symmetric] Let_def)
  next
    case False
    define w where "w = clip out decoded"
    define out2 where "out2 = recurse (out @ w @ [CHR 0x0A]) w"
    have ne: "decoded \<noteq> []" "length out < maxDecodedBytes" using False by auto
    note step = loop_step(1) [where ds = ds and nfkc = nfkc and ud = ud and d = d, OF decoded_def ne w_def out2_def]
      loop_step(2,3) [where nfkc = nfkc and ud = ud and d = d, OF decoded_def ne w_def out2_def]
    have "prefix out out2" using step(3) append_prefixD by blast
    then show ?thesis using Cons.IH [OF step(2)] step(1) by (auto intro: prefix_order.trans)
  qed
qed

lemma loop_covers:
  assumes "length out \<le> Suc maxDecodedBytes" "d \<in> set ds"
    "length (extract_loop nfkc ud recurse out ds) < maxDecodedBytes"
  shows "sublist (fst (StripInvisible ud (nfkc d))) (extract_loop nfkc ud recurse out ds)"
  using assms
proof (induction ds arbitrary: out)
  case Nil
  then show ?case by simp
next
  case (Cons e ds)
  have "prefix out (extract_loop nfkc ud recurse out (e # ds))" using loop_bounds Cons.prems(1) by blast
  then have len: "length out < maxDecodedBytes" using Cons.prems(3) prefix_length_le by fastforce
  define decoded where "decoded = fst (StripInvisible ud (nfkc e))"
  show ?case
  proof (cases "decoded = []")
    case True
    then have "extract_loop nfkc ud recurse out (e # ds) = extract_loop nfkc ud recurse out ds"
      by (simp add: decoded_def [symmetric])
    with True Cons.IH [OF Cons.prems(1)] Cons.prems(2,3) show ?thesis by (auto simp: decoded_def)
  next
    case False
    define w where "w = clip out decoded"
    define out2 where "out2 = recurse (out @ w @ [CHR 0x0A]) w"
    note step = loop_step(1) [where ds = ds and nfkc = nfkc and ud = ud and d = e, OF decoded_def False len w_def out2_def]
      loop_step(2,3) [where nfkc = nfkc and ud = ud and d = e, OF decoded_def False len w_def out2_def]
    have "prefix out2 (extract_loop nfkc ud recurse out2 ds)" using loop_bounds [OF step(2)] by blast
    with step(3) have chain: "prefix (out @ w @ [CHR 0x0A]) (extract_loop nfkc ud recurse out2 ds)"
      by (rule prefix_order.trans)
    then have "length (out @ w @ [CHR 0x0A]) < maxDecodedBytes"
      using Cons.prems(3) step(1) prefix_length_le by fastforce
    then have "w = decoded" by (auto simp: w_def clip_def split: if_splits)
    then have "d = e \<Longrightarrow> sublist (fst (StripInvisible ud (nfkc d))) (extract_loop nfkc ud recurse out2 ds)"
      using chain by (auto simp: decoded_def prefix_def)
    then show ?thesis using Cons.IH [OF step(2)] Cons.prems(2,3) step(1) by auto
  qed
qed

end

lemma extract_levels_bounds:
  "length out \<le> Suc maxDecodedBytes \<Longrightarrow>
   length (extract_levels nfkc ud levels out content) \<le> Suc maxDecodedBytes
   \<and> prefix out (extract_levels nfkc ud levels out content)"
proof (induction levels arbitrary: out content)
  case 0
  then show ?case by simp
next
  case (Suc levels)
  have "bounded_writer (extract_levels nfkc ud levels)" using Suc.IH by unfold_locales blast+
  from bounded_writer.loop_bounds [OF this] show ?case using Suc.prems by (simp del: extract_loop.simps)
qed

interpretation lev: bounded_writer "extract_levels nfkc ud levels" for nfkc ud levels
  using extract_levels_bounds by unfold_locales blast+


text \<open>Every candidate of the content is in the buffer whole, unless the buffer is full.\<close>

lemma ExtractDecoded_covers:
  assumes "d \<in> set (decodeCandidates ud content)" "s = fst (StripInvisible ud (nfkc d))" "s \<noteq> []"
    and "length (extractInto nfkc ud [] content 0) < maxDecodedBytes"
  shows "\<exists>out. ExtractDecoded nfkc ud content = Some out \<and> sublist s out"
proof -
  have out: "extractInto nfkc ud [] content 0 =
      extract_loop nfkc ud (extract_levels nfkc ud 1) [] (decodeCandidates ud content)"
    by (simp add: extractInto_def maxDecodeDepth_def maxDecodedBytes_def numeral_2_eq_2)
  have "sublist s (extractInto nfkc ud [] content 0)"
    using lev.loop_covers [OF _ assms(1)] assms(2,4) by (simp add: out)
  moreover from this assms(3) have "extractInto nfkc ud [] content 0 \<noteq> []" by auto
  ultimately show ?thesis by (simp add: ExtractDecoded_def)
qed

section \<open>Base64 payloads are recovered\<close>

definition b64_char :: "nat \<Rightarrow> char" where
  "b64_char n =
     (if n < 26 then char_of (65 + n) else if n < 52 then char_of (71 + n)
      else if n < 62 then char_of (n - 4) else if n = 62 then CHR ''+'' else CHR ''/'')"

text \<open>The standard encoding with padding, as RFC 4648 defines it.\<close>

fun b64_encode :: "bytes \<Rightarrow> bytes" where
  "b64_encode [] = []"
| "b64_encode [a] = [b64_char (bv a div 4), b64_char (bv a mod 4 * 16), CHR ''='', CHR ''='']"
| "b64_encode [a, b] =
     [b64_char (bv a div 4), b64_char (bv a mod 4 * 16 + bv b div 16), b64_char (bv b mod 16 * 4), CHR ''='']"
| "b64_encode (a # b # c # rest) =
     b64_char (bv a div 4) # b64_char (bv a mod 4 * 16 + bv b div 16)
     # b64_char (bv b mod 16 * 4 + bv c div 64) # b64_char (bv c mod 64) # b64_encode rest"

lemma b64_val_char: "n < 64 \<Longrightarrow> b64_val False (b64_char n) = Some n"
  by (auto simp: b64_val_def b64_char_def is_upper_ascii_def is_lower_ascii_def is_digit_ascii_def in_range_def)

lemma b64_char_class: "n < 64 \<Longrightarrow> is_std_b64 (b64_char n)"
  by (auto simp: is_std_b64_def b64_char_def is_upper_ascii_def is_lower_ascii_def is_digit_ascii_def in_range_def)

lemma std_b64_not [simp]: "\<not> is_std_b64 CHR ''=''" "\<not> is_std_b64 CHR 0x0A" "\<not> is_std_b64 CHR 0x0D"
  by (simp_all add: is_std_b64_def is_upper_ascii_def is_lower_ascii_def is_digit_ascii_def in_range_def)

lemma b64_char_neq [simp]: "n < 64 \<Longrightarrow> b64_char n \<noteq> CHR ''=''"
  "n < 64 \<Longrightarrow> b64_char n \<noteq> CHR 0x0A" "n < 64 \<Longrightarrow> b64_char n \<noteq> CHR 0x0D"
  using b64_char_class std_b64_not by metis+

lemma sextets [simp]:
  "bv a div 4 < 64" "bv a mod 4 * 16 < 64" "bv a mod 4 * 16 + bv b div 16 < 64"
  "bv b mod 16 * 4 < 64" "bv b mod 16 * 4 + bv c div 64 < 64" "bv c mod 64 < 64"
proof -
  have "bv a < 256" "bv b < 256" "bv c < 256" by (rule nat_of_char_less_256)+
  then show "bv a div 4 < 64" "bv a mod 4 * 16 < 64" "bv a mod 4 * 16 + bv b div 16 < 64"
    "bv b mod 16 * 4 < 64" "bv b mod 16 * 4 + bv c div 64 < 64" "bv c mod 64 < 64"
    by linarith+
qed

lemma b64_join:
  "b64_two (bv a div 4) (bv a mod 4 * 16) = [a]"
  "b64_two (bv a div 4) (bv a mod 4 * 16 + bv b div 16) = [a]"
  "b64_three (bv a div 4) (bv a mod 4 * 16 + bv b div 16) (bv b mod 16 * 4) = [a, b]"
  "b64_four (bv a div 4) (bv a mod 4 * 16 + bv b div 16) (bv b mod 16 * 4 + bv c div 64) (bv c mod 64) = [a, b, c]"
proof -
  have "bv a < 256" "bv b < 256" "bv c < 256" by (rule nat_of_char_less_256)+
  then have d: "bv b div 16 < 16" "bv c div 64 < 4" by linarith+
  have 1: "bv a div 4 * 4 + (bv a mod 4 * 16) div 16 = bv a" by simp
  have "(bv a mod 4 * 16 + bv b div 16) div 16 = bv a mod 4" using d by simp
  then have 2: "bv a div 4 * 4 + (bv a mod 4 * 16 + bv b div 16) div 16 = bv a" by simp
  show two: "b64_two (bv a div 4) (bv a mod 4 * 16) = [a]"
    "b64_two (bv a div 4) (bv a mod 4 * 16 + bv b div 16) = [a]"
    unfolding b64_two_def 1 2 by simp_all
  have 3: "(bv a mod 4 * 16 + bv b div 16) mod 16 = bv b div 16" using d by simp
  have 4: "(bv b mod 16 * 4 + bv c div 64) div 4 = bv b mod 16" using d by simp
  have 5: "(bv b mod 16 * 4 + bv c div 64) mod 4 = bv c div 64" using d by simp
  have 6: "bv b div 16 * 16 + bv b mod 16 * 4 div 4 = bv b" "bv b div 16 * 16 + bv b mod 16 = bv b"
    "bv c div 64 * 64 + bv c mod 64 = bv c" by simp_all
  show "b64_three (bv a div 4) (bv a mod 4 * 16 + bv b div 16) (bv b mod 16 * 4) = [a, b]"
    "b64_four (bv a div 4) (bv a mod 4 * 16 + bv b div 16) (bv b mod 16 * 4 + bv c div 64) (bv c mod 64) = [a, b, c]"
    unfolding b64_three_def b64_four_def two 3 4 5 6 by simp_all
qed

lemma b64_quanta_encode: "b64_quanta False True (b64_encode m) = Some m"
  by (induction m rule: b64_encode.induct)
    (simp_all add: try2_def try3_def try4_def b64_val_char b64_join)

lemma b64_encode_no_break: "filter (\<lambda>c. c \<noteq> CHR 0x0A \<and> c \<noteq> CHR 0x0D) (b64_encode m) = b64_encode m"
  by (induction m rule: b64_encode.induct) simp_all

lemma b64_Decode_encode: "b64_Decode False True (b64_encode m) = Some m"
  by (simp add: b64_Decode_def b64_encode_no_break b64_quanta_encode)

lemma b64_encode_shape:
  "\<exists>run k. b64_encode m = run @ replicate k CHR ''='' \<and> k \<le> 2 \<and> list_all is_std_b64 run
     \<and> 4 * length m \<le> 3 * length run"
proof (induction m rule: b64_encode.induct)
  case 1
  then show ?case by (intro exI [of _ "[]"] exI [of _ 0]) simp
next
  case (2 a)
  then show ?case
    by (intro exI [of _ "[b64_char (bv a div 4), b64_char (bv a mod 4 * 16)]"] exI [of _ 2])
      (simp add: b64_char_class numeral_2_eq_2)
next
  case (3 a b)
  then show ?case
    by (intro exI [of _ "[b64_char (bv a div 4), b64_char (bv a mod 4 * 16 + bv b div 16), b64_char (bv b mod 16 * 4)]"]
        exI [of _ 1]) (simp add: b64_char_class)
next
  case (4 a b c rest)
  then obtain run k where ih: "b64_encode rest = run @ replicate k CHR ''=''" "k \<le> 2" "list_all is_std_b64 run"
    "4 * length rest \<le> 3 * length run" by blast
  define q where "q = [b64_char (bv a div 4), b64_char (bv a mod 4 * 16 + bv b div 16),
    b64_char (bv b mod 16 * 4 + bv c div 64), b64_char (bv c mod 64)]"
  have "list_all is_std_b64 q" "length q = 4" by (simp_all add: q_def b64_char_class)
  then show ?case using ih by (intro exI [of _ "q @ run"] exI [of _ k]) (simp add: q_def)
qed

lemma find_runs_here:
  assumes "list_all P run" "n \<le> length run" "run \<noteq> []" "k \<le> 2" "\<not> P CHR ''=''"
    and "post = [] \<or> \<not> P (hd post) \<and> hd post \<noteq> CHR ''=''"
  shows "Inr (run @ replicate k CHR ''='') \<in> set (find_runs P n (run @ replicate k CHR ''='' @ post))"
proof -
  obtain c cs where run: "run = c # cs" using assms(3) by (cases run) auto
  define tl' where "tl' = replicate k CHR ''='' @ post"
  have hd: "tl' = [] \<or> \<not> P (hd tl')" using assms(5,6) by (cases k) (auto simp: tl'_def)
  have all: "\<forall>x \<in> set run. P x" using assms(1) by (simp add: list_all_iff)
  have tw: "takeWhile P (run @ tl') = run" and dw: "dropWhile P (run @ tl') = tl'"
    using all hd by (cases tl'; simp add: takeWhile_append2 dropWhile_append2)+
  have pad: "takeWhile (\<lambda>x. x = CHR ''='') (take 2 tl') = replicate k CHR ''=''"
  proof -
    have "take 2 tl' = replicate k CHR ''='' @ take (2 - k) post" using assms(4) by (simp add: tl'_def)
    moreover have "takeWhile (\<lambda>x. x = CHR ''='') (take j post) = []" for j
      using assms(6) by (cases post; cases j) auto
    ultimately show ?thesis by (simp add: takeWhile_append)
  qed
  have "P c" using all run by simp
  have "find_runs P n (run @ tl') = Inr (run @ replicate k CHR ''='') # find_runs P n (drop k tl')"
    unfolding run append_Cons
    by (subst find_runs.simps(2)) (use \<open>P c\<close> tw dw pad assms(2) run in \<open>simp add: Let_def\<close>)
  then show ?thesis by (simp add: tl'_def)
qed

lemma find_runs_skip:
  assumes "pre = [] \<or> \<not> P (last pre)" "body \<noteq> []" "P (hd body)" "\<not> P CHR ''=''" "x \<in> set (find_runs P n body)"
  shows "x \<in> set (find_runs P n (pre @ body))"
  using assms
proof (induction "length pre" arbitrary: pre rule: less_induct)
  case less
  show ?case
  proof (cases pre)
    case Nil
    with less.prems show ?thesis by simp
  next
    case (Cons c cs)
    define run rest where "run = takeWhile P pre" and "rest = dropWhile P pre"
    have np: "\<not> P (last pre)" using less.prems(1) Cons by simp
    then have "\<exists>y \<in> set pre. \<not> P y" using Cons last_in_set by blast
    then have tw: "takeWhile P (pre @ body) = run" and dw: "dropWhile P (pre @ body) = rest @ body"
      by (auto simp: run_def rest_def takeWhile_append1 dropWhile_append1)
    have suf: "suffix rest pre" by (simp add: rest_def suffix_dropWhile)
    have rl: "length rest \<le> length pre" using suf suffix_length_le by blast
    have last: "zs = [] \<or> \<not> P (last zs)" if "suffix zs pre" for zs
      using that np by (auto simp: suffix_def)
    show ?thesis
    proof (cases "P c")
      case False
      have "x \<in> set (find_runs P n (cs @ body))"
        using less.hyps [of cs] less.prems(2-) last [of cs] Cons by (simp add: suffix_ConsI)
      with False Cons show ?thesis by (simp add: find_runs.simps(2))
    next
      case True
      then have shorter: "length rest < length pre" using Cons dropWhile_shorter [of P cs] by (simp add: rest_def)
      define pad where "pad = takeWhile (\<lambda>x. x = CHR ''='') (take 2 (rest @ body))"
      have padlen: "length pad \<le> length rest"
      proof (rule ccontr)
        assume "\<not> ?thesis"
        then have lt: "length rest < length pad" by simp
        have "pad ! length rest = CHR ''=''" using nth_mem [OF lt] unfolding pad_def by (auto dest: set_takeWhileD)
        moreover have "pad ! length rest = (take 2 (rest @ body)) ! length rest"
          using lt unfolding pad_def by (rule takeWhile_nth)
        moreover have "length pad \<le> 2" using length_takeWhile_le unfolding pad_def by (rule order_trans) simp
        with lt have "length rest < 2" by simp
        ultimately have "hd body = CHR ''=''" using less.prems(2) by (simp add: nth_append hd_conv_nth)
        then show False using less.prems(3,4) by simp
      qed
      have dp: "drop (length pad) (rest @ body) = drop (length pad) rest @ body" using padlen by simp
      have rec: "x \<in> set (find_runs P n (drop (length pad) rest @ body))"
        using less.hyps [of "drop (length pad) rest"] less.prems(2-) shorter
          last [OF suffix_order.trans [OF suffix_drop suf]] by simp
      have rec': "x \<in> set (find_runs P n (rest @ body))"
        using less.hyps [of rest] less.prems(2-) shorter last [OF suf] by simp
      have "find_runs P n (pre @ body) =
          (if length run < n then Inl run # find_runs P n (rest @ body)
           else Inr (run @ pad) # find_runs P n (drop (length pad) (rest @ body)))"
        unfolding Cons append_Cons
        by (subst find_runs.simps(2)) (use True tw dw Cons in \<open>simp add: Let_def pad_def\<close>)
      then show ?thesis using rec rec' dp by auto
    qed
  qed
qed

lemma matched_iff: "m \<in> set (matched ps) \<longleftrightarrow> Inr m \<in> set ps"
  by (force simp: matched_def List.map_filter_def split: sum.splits)

lemma set_map_filter: "y \<in> set (List.map_filter f xs) \<longleftrightarrow> (\<exists>x \<in> set xs. f x = Some y)"
  by (force simp: List.map_filter_def)

lemma base64_candidate:
  assumes "12 \<le> length m" "isLikelyText ud m"
    and "pre = [] \<or> \<not> is_std_b64 (last pre)"
    and "post = [] \<or> \<not> is_std_b64 (hd post) \<and> hd post \<noteq> CHR ''=''"
  shows "m \<in> set (decodeCandidates ud (pre @ b64_encode m @ post))"
proof -
  obtain run k where enc: "b64_encode m = run @ replicate k CHR ''=''" "k \<le> 2" "list_all is_std_b64 run"
    "4 * length m \<le> 3 * length run" using b64_encode_shape by blast
  have run: "16 \<le> length run" "run \<noteq> []" using enc(4) assms(1) by auto
  have hd: "is_std_b64 (hd run)" using enc(3) run(2) by (simp add: list_all_iff)
  have here: "Inr (b64_encode m) \<in> set (find_runs is_std_b64 16 (b64_encode m @ post))"
    using find_runs_here [OF enc(3) run(1,2) enc(2) std_b64_not(1) assms(4)] by (simp add: enc(1))
  have "Inr (b64_encode m) \<in> set (find_runs is_std_b64 16 (pre @ b64_encode m @ post))"
    using run(2) hd by (intro find_runs_skip [OF assms(3) _ _ std_b64_not(1) here]) (auto simp: enc(1))
  then have "b64_encode m \<in> set (base64Run (pre @ b64_encode m @ post))"
    by (simp add: base64Run_def matched_iff)
  moreover have "tryBase64 ud (b64_encode m) [(False, True), (False, False)] = Some m"
    using assms(2) by (simp add: b64_Decode_encode)
  ultimately show ?thesis
    unfolding decodeCandidates_def set_append Un_iff set_map_filter by blast
qed

text \<open>
  C35: An injection hidden in base64 is read. Take any payload of at least 12 bytes that the
  text check accepts, base64-encoded anywhere in a document (between bytes that do not belong to
  the encoded run). Unless the decoded buffer is full, the decoded view exists and contains the
  payload, normalised and with its invisible characters removed.
\<close>

theorem ExtractDecoded_reads_base64:
  assumes "12 \<le> length m" "isLikelyText ud m"
    and "pre = [] \<or> \<not> is_std_b64 (last pre)"
    and "post = [] \<or> \<not> is_std_b64 (hd post) \<and> hd post \<noteq> CHR ''=''"
    and "s = fst (StripInvisible ud (nfkc m))" "s \<noteq> []"
    and "length (extractInto nfkc ud [] (pre @ b64_encode m @ post) 0) < maxDecodedBytes"
  shows "\<exists>out. ExtractDecoded nfkc ud (pre @ b64_encode m @ post) = Some out \<and> sublist s out"
  using ExtractDecoded_covers [OF base64_candidate [OF assms(1-4)] assms(5-7)] .

lemma StripInvisible_ascii: "all_ascii s \<Longrightarrow> StripInvisible ud s = (s, False)"
  by (rule StripInvisible_id)
    (auto simp: ascii_valid runes_ascii list_ex_iff IsInvisible_def all_ascii_def list_all_iff)

lemma isLikelyText_ascii:
  "all_ascii s \<Longrightarrow> 8 \<le> length s \<Longrightarrow> list_all (\<lambda>c. u_IsPrint ud (bv c)) s \<Longrightarrow> isLikelyText ud s"
proof -
  assume a: "all_ascii s" "8 \<le> length s" "list_all (\<lambda>c. u_IsPrint ud (bv c)) s"
  then have "filter (\<lambda>r. r = 0x0A \<or> r = 0x0D \<or> r = 0x09 \<or> u_IsPrint ud r) (runes s) = runes s"
    by (simp add: runes_ascii filter_id_conv list_all_iff)
  moreover have "printableRatio \<le> 1" unfolding printableRatio_def by (rule dbl.rnd_le_one) simp
  moreover have "length (runes s) = length s" using a(1) by (simp add: runes_ascii)
  ultimately show ?thesis
    using a by (auto simp: isLikelyText_def minDecodedLen_def ascii_valid fdiv_def)
qed

lemma sample_text: "all_ascii ''hello world!''" "isLikelyText sample_ud ''hello world!''"
proof -
  show a: "all_ascii ''hello world!''" by (simp add: all_ascii_def)
  show "isLikelyText sample_ud ''hello world!''" by (rule isLikelyText_ascii [OF a]) (simp_all add: sample_ud_def)
qed

lemmas run_eval = find_runs.simps(2) find_hex.simps(2) is_std_b64_def is_url_b64_def is_hex_ascii_def is_upper_ascii_def
  is_lower_ascii_def is_digit_ascii_def in_range_def matched_def List.map_filter_def

lemma sample_blob: "b64_encode ''hello world!'' = ''aGVsbG8gd29ybGQh''"
  by (simp add: b64_char_def) (simp add: char_of_def bit_0)

lemma sample_runs:
  "base64Run ''aGVsbG8gd29ybGQh'' = [''aGVsbG8gd29ybGQh'']"
  "base64URL ''aGVsbG8gd29ybGQh'' = [''aGVsbG8gd29ybGQh'']"
  "hexRun ''aGVsbG8gd29ybGQh'' = []" "percentRun ''aGVsbG8gd29ybGQh'' = []"
  "base64Run ''hello world!'' = []" "base64URL ''hello world!'' = []"
  "hexRun ''hello world!'' = []" "percentRun ''hello world!'' = []"
  by (simp_all add: base64Run_def base64URL_def hexRun_def percentRun_def run_eval Let_def)

lemma sample_candidates:
  "decodeCandidates sample_ud ''aGVsbG8gd29ybGQh'' = [''hello world!'']"
  "decodeCandidates sample_ud ''hello world!'' = []"
proof -
  have "tryBase64 sample_ud ''aGVsbG8gd29ybGQh'' [(False, True), (False, False)] = Some ''hello world!''"
    using b64_Decode_encode [of "''hello world!''"] sample_text(2) unfolding sample_blob by simp
  then show "decodeCandidates sample_ud ''aGVsbG8gd29ybGQh'' = [''hello world!'']"
    "decodeCandidates sample_ud ''hello world!'' = []"
    unfolding decodeCandidates_def sample_runs by (simp_all add: List.map_filter_def)
qed

lemma sample_buffer: "extractInto (\<lambda>x. x) sample_ud [] ''aGVsbG8gd29ybGQh'' 0 = ''hello world!'' @ [CHR 0x0A]"
  by (simp add: extractInto_def maxDecodeDepth_def numeral_2_eq_2 sample_candidates maxDecodedBytes_def
      StripInvisible_ascii [OF sample_text(1)] Let_def)

theorem ExtractDecoded_reads_base64_witness:
  "\<exists>out. ExtractDecoded (\<lambda>x. x) sample_ud ([] @ b64_encode ''hello world!'' @ []) = Some out
     \<and> sublist ''hello world!'' out"
  by (rule ExtractDecoded_reads_base64 [where pre = "[]" and post = "[]"])
    (use sample_text sample_buffer in
      \<open>simp_all add: StripInvisible_ascii [OF sample_text(1)] sample_blob maxDecodedBytes_def
        del: b64_encode.simps\<close>)

end
