(* ===== verification/Preprocess.thy ===== *)
theory Preprocess
  imports Bidi Decode
begin

text \<open>
  \<^verbatim>\<open>internal/engine/preprocess.go\<close>: the scan-only views of an item. The libraries the pipeline calls
  (golang.org/x/text normal forms, golang.org/x/net/html tokens, \<^verbatim>\<open>html.UnescapeString\<close> and the
  Unicode tables) are gathered in the record \<open>text_lib\<close>, a parameter of every operation.
\<close>

datatype html_token = TextToken bytes | OtherToken

record text_lib =
  tl_nfkc :: "bytes \<Rightarrow> bytes"
  tl_nfd :: "bytes \<Rightarrow> bytes"
  tl_unescape :: "bytes \<Rightarrow> bytes"
  tl_tokens :: "bytes \<Rightarrow> html_token list"
  tl_ud :: unicode_data

record PreprocessedContent =
  Original :: bytes
  Normalized :: bytes
  RawHTML :: "bytes option"
  PreScrub :: "bytes option"
  Folded :: "bytes option"
  Decoded :: "bytes option"
  Unescaped :: "bytes option"
  UnescapedHTML :: "bytes option"
  Reordered :: "bytes option"

section \<open>Operations\<close>

text \<open>
  The token loop of \<^verbatim>\<open>stripHTML\<close>: the tokens end with the error token, after which the buffer is
  returned whatever the error was. A buffer nothing was written to is the nil slice.
\<close>

fun token_text :: "html_token list \<Rightarrow> bytes" where
  "token_text [] = []"
| "token_text (TextToken t # ts) = t @ token_text ts"
| "token_text (OtherToken # ts) = token_text ts"

definition stripHTML :: "text_lib \<Rightarrow> bytes \<Rightarrow> bytes" where
  "stripHTML lib dat = token_text (tl_tokens lib dat)"

definition nil_if_empty :: "bytes \<Rightarrow> bytes option" where
  "nil_if_empty b = (if b = [] then None else Some b)"

definition derivedView :: "text_lib \<Rightarrow> bytes \<Rightarrow> bytes" where
  "derivedView lib view =
     (let view = tl_nfkc lib view;
          view = fst (StripInvisible (tl_ud lib) view)
      in case FoldConfusables (tl_nfd lib) (tl_ud lib) view of Some folded \<Rightarrow> folded | None \<Rightarrow> view)"

definition Preprocess :: "text_lib \<Rightarrow> bytes \<Rightarrow> string \<Rightarrow> PreprocessedContent" where
  "Preprocess lib content contentType =
     (let ud = tl_ud lib;
          nfkc = tl_nfkc lib content;
          tagPayload = DecodeTagChars nfkc;
          (scrubbed, removed0) = StripInvisible ud nfkc;
          html = prefix ''text/html'' contentType;
          rawHTML = (if html then Some scrubbed else None);
          (normalized, htmlRemoved) =
            (if html then StripInvisible ud (stripHTML lib scrubbed) else (scrubbed, False));
          removed = (removed0 \<or> htmlRemoved);
          preScrub = (if html then nil_if_empty (stripHTML lib nfkc) else Some nfkc);
          preScrubBytes = (case preScrub of None \<Rightarrow> [] | Some b \<Rightarrow> b);
          decoded = ExtractDecoded (tl_nfkc lib) ud normalized
      in \<lparr>Original = content,
          Normalized = normalized,
          RawHTML = rawHTML,
          PreScrub = (if removed then preScrub else None),
          Folded = FoldConfusables (tl_nfd lib) ud normalized,
          Decoded = (case tagPayload of
                       None \<Rightarrow> decoded
                     | Some payload \<Rightarrow>
                         Some (payload @ [CHR 0x0A] @ (case decoded of None \<Rightarrow> [] | Some d \<Rightarrow> d))),
          Unescaped = map_option (derivedView lib) (UnescapeInPlace (tl_unescape lib) normalized),
          UnescapedHTML = (case rawHTML of
                             None \<Rightarrow> None
                           | Some raw \<Rightarrow> map_option (derivedView lib) (UnescapeInPlace (tl_unescape lib) raw)),
          Reordered = (case ReorderBidi ud preScrubBytes of
                         None \<Rightarrow> None
                       | Some reordered \<Rightarrow>
                           let clean = fst (StripInvisible ud reordered)
                           in if clean \<noteq> normalized then Some (derivedView lib clean) else None)\<rparr>)"

text \<open>
  The views the matchers run on, in scanning order: the normalized text always, the optional views
  when they are present.
\<close>

definition extra_views :: "PreprocessedContent \<Rightarrow> (string \<times> bytes option) list" where
  "extra_views pp =
     [(''folded'', Folded pp), (''decoded'', Decoded pp), (''unescaped'', Unescaped pp),
      (''unescaped-html'', UnescapedHTML pp), (''reordered'', Reordered pp), (''pre-scrub'', PreScrub pp)]"

definition all_views :: "PreprocessedContent \<Rightarrow> bytes list" where
  "all_views pp = Normalized pp # List.map_filter (\<lambda>v. v) (RawHTML pp # map snd (extra_views pp))"

section \<open>What the views are\<close>

lemma Preprocess_Original [simp]: "Original (Preprocess lib content ct) = content"
  by (simp add: Preprocess_def Let_def split: prod.splits)

lemma Normalized_plain:
  "\<not> prefix ''text/html'' ct \<Longrightarrow> Normalized (Preprocess lib c ct) = fst (StripInvisible (tl_ud lib) (tl_nfkc lib c))"
  by (simp add: Preprocess_def Let_def split: prod.splits)

lemma Normalized_html:
  "prefix ''text/html'' ct \<Longrightarrow> Normalized (Preprocess lib c ct) =
     fst (StripInvisible (tl_ud lib) (stripHTML lib (fst (StripInvisible (tl_ud lib) (tl_nfkc lib c)))))"
  by (simp add: Preprocess_def Let_def split: prod.splits)

lemma derivedView_invisible_free:
  assumes "FoldConfusables (tl_nfd lib) (tl_ud lib) (fst (StripInvisible (tl_ud lib) (tl_nfkc lib v))) = None"
  shows "\<forall>r \<in> set (runes (derivedView lib v)). \<not> IsInvisible (tl_ud lib) r"
  using assms by (simp add: derivedView_def StripInvisible_runes)

lemma all_views_iff:
  "v \<in> set (all_views pp) \<longleftrightarrow>
     v = Normalized pp \<or> Some v \<in> {RawHTML pp, Folded pp, Decoded pp, Unescaped pp, UnescapedHTML pp,
       Reordered pp, PreScrub pp}"
proof -
  have "v \<in> set (all_views pp) \<longleftrightarrow> v = Normalized pp \<or> Some v \<in> set (RawHTML pp # map snd (extra_views pp))"
    unfolding all_views_def set_simps insert_iff set_map_filter by auto
  then show ?thesis by (simp add: extra_views_def)
qed

lemma tag_loop_ascii: "list_all (\<lambda>r. r < 0x80) rs \<Longrightarrow> tag_loop rs = []"
  by (induction rs) (auto simp: IsTagChar_def tagRangeLo_def)

lemma DecodeTagChars_ascii: "all_ascii c \<Longrightarrow> DecodeTagChars c = None"
proof -
  assume a: "all_ascii c"
  then have "tag_loop (runes c) = []"
    by (intro tag_loop_ascii) (simp add: runes_ascii list.pred_map comp_def, simp add: all_ascii_def)
  then show ?thesis by (simp add: DecodeTagChars_def)
qed

lemma contains_rune_ascii: "all_ascii c \<Longrightarrow> 0x80 \<le> r \<Longrightarrow> scalar r \<Longrightarrow> \<not> contains_rune c r"
proof
  assume a: "all_ascii c" "0x80 \<le> r" "scalar r" and "contains_rune c r"
  then have "sublist (encode_rune r) c" by (simp add: contains_rune_def go_contains_iff)
  then have "set (encode_rune r) \<subseteq> set c" by (rule set_mono_sublist)
  moreover have "\<exists>b \<in> set (encode_rune r). 0x80 \<le> bv b"
    using a(2,3) by (auto simp: encode_rune_def encode_scalar_def scalar_def)
  ultimately show False using a(1) by (force simp: all_ascii_def list_all_iff)
qed

lemma ReorderBidi_ascii: "all_ascii c \<Longrightarrow> ReorderBidi ud c = None"
  by (simp add: ReorderBidi_def bidi_runes contains_rune_ascii scalar_def)

text \<open>
  What preprocessing gives the scanner. The original is the content byte for byte, whatever
  the type. The normalized view never holds an invisible character. Plain ASCII text that needs no
  normalization and holds no escape is scanned as it stands, in one pass plus at most the decoded
  view: no other view exists for it.
\<close>

theorem Preprocess_views:
  "Original (Preprocess lib content ct) = content
   \<and> filter (IsInvisible (tl_ud lib)) (runes (Normalized (Preprocess lib content ct))) = []
   \<and> (let pp = Preprocess lib content ct in
      all_ascii content \<and> tl_nfkc lib content = content \<and> \<not> prefix ''text/html'' ct
        \<and> UnescapeInPlace (tl_unescape lib) content = None
      \<longrightarrow> Normalized pp = content \<and> RawHTML pp = None \<and> PreScrub pp = None \<and> Folded pp = None
        \<and> Unescaped pp = None \<and> UnescapedHTML pp = None \<and> Reordered pp = None
        \<and> Decoded pp = ExtractDecoded (tl_nfkc lib) (tl_ud lib) content)"
proof (intro conjI)
  show "Original (Preprocess lib content ct) = content" by simp
  show "filter (IsInvisible (tl_ud lib)) (runes (Normalized (Preprocess lib content ct))) = []"
    by (cases "prefix ''text/html'' ct")
      (auto simp: Normalized_plain Normalized_html StripInvisible_runes filter_empty_conv)
  show "let pp = Preprocess lib content ct in
      all_ascii content \<and> tl_nfkc lib content = content \<and> \<not> prefix ''text/html'' ct
        \<and> UnescapeInPlace (tl_unescape lib) content = None
      \<longrightarrow> Normalized pp = content \<and> RawHTML pp = None \<and> PreScrub pp = None \<and> Folded pp = None
        \<and> Unescaped pp = None \<and> UnescapedHTML pp = None \<and> Reordered pp = None
        \<and> Decoded pp = ExtractDecoded (tl_nfkc lib) (tl_ud lib) content"
    unfolding Let_def
  proof
    assume a: "all_ascii content \<and> tl_nfkc lib content = content \<and> \<not> prefix ''text/html'' ct
        \<and> UnescapeInPlace (tl_unescape lib) content = None"
    have fold: "FoldConfusables (tl_nfd lib) (tl_ud lib) content = None"
      using a by (simp add: FoldConfusables_def isASCII_def all_ascii_def not_le)
    have tags: "DecodeTagChars content = None"
      using a by (simp add: DecodeTagChars_ascii)
    have bidi: "ReorderBidi (tl_ud lib) content = None"
      using a by (simp add: ReorderBidi_ascii)
    show "Normalized (Preprocess lib content ct) = content \<and> RawHTML (Preprocess lib content ct) = None
        \<and> PreScrub (Preprocess lib content ct) = None \<and> Folded (Preprocess lib content ct) = None
        \<and> Unescaped (Preprocess lib content ct) = None \<and> UnescapedHTML (Preprocess lib content ct) = None
        \<and> Reordered (Preprocess lib content ct) = None
        \<and> Decoded (Preprocess lib content ct) = ExtractDecoded (tl_nfkc lib) (tl_ud lib) content"
      using a fold tags bidi by (simp add: Preprocess_def Let_def StripInvisible_ascii)
  qed
qed

definition sample_lib :: text_lib where
  "sample_lib = \<lparr>tl_nfkc = (\<lambda>b. b), tl_nfd = (\<lambda>b. b), tl_unescape = (\<lambda>b. b),
     tl_tokens = (\<lambda>b. [TextToken b]), tl_ud = sample_ud\<rparr>"

theorem Preprocess_views_witness:
  "(let pp = Preprocess sample_lib ''hi'' ''text/plain'' in
      Normalized pp = ''hi'' \<and> Reordered pp = None \<and> Decoded pp = ExtractDecoded (\<lambda>b. b) sample_ud ''hi'')"
proof -
  have "UnescapeInPlace (\<lambda>b. b) ''hi'' = None" by code_simp
  then show ?thesis
    using Preprocess_views [of sample_lib "''hi''" "''text/plain''"]
    by (simp add: sample_lib_def all_ascii_def Let_def)
qed

end
