(* ===== verification/Fmt.thy ===== *)
theory Fmt
  imports Invisible F64
begin

text \<open>
  The verbs of Go's \<^verbatim>\<open>fmt\<close> that need more than decimal digits: \<^verbatim>\<open>%q\<close> (\<^verbatim>\<open>strconv.Quote\<close>) and \<^verbatim>\<open>%.2f\<close>.
\<close>

definition esc :: "char \<Rightarrow> bytes" where
  "esc c = [CHR 0x5C, c]"

definition quote_rune :: "unicode_data \<Rightarrow> rune \<times> bytes \<Rightarrow> bytes" where
  "quote_rune ud rc =
     (let r = fst rc in
      if r = RuneError \<and> length (snd rc) = 1 then esc CHR ''x'' @ hex_fixed 2 (bv (hd (snd rc)))
      else if r = 0x22 then esc CHR 0x22
      else if r = 0x5C then esc CHR 0x5C
      else if u_IsPrint ud r then encode_rune r
      else if r = 0x07 then esc CHR ''a''
      else if r = 0x08 then esc CHR ''b''
      else if r = 0x0C then esc CHR ''f''
      else if r = 0x0A then esc CHR ''n''
      else if r = 0x0D then esc CHR ''r''
      else if r = 0x09 then esc CHR ''t''
      else if r = 0x0B then esc CHR ''v''
      else if r < 0x20 \<or> r = 0x7F then esc CHR ''x'' @ hex_fixed 2 r
      else if r < 0x10000 then esc CHR ''u'' @ hex_fixed 4 r
      else esc CHR ''U'' @ hex_fixed 8 r)"

definition go_quote :: "unicode_data \<Rightarrow> bytes \<Rightarrow> bytes" where
  "go_quote ud s = [CHR 0x22] @ concat (map (quote_rune ud) (rune_chunks s)) @ [CHR 0x22]"

text \<open>\<^verbatim>\<open>%.2f\<close> of a non-negative double: the exact value rounded to two places, ties to even.\<close>

definition show_fixed2 :: "rat \<Rightarrow> string" where
  "show_fixed2 x =
     (let n = nat (rne (x * 100))
      in show_nat (n div 100) @ ''.'' @ show_nat (n div 10 mod 10) @ show_nat (n mod 10))"

end
