(* ===== verification/Detector.thy ===== *)
theory Detector
  imports Preprocess Fmt
begin

text \<open>
  \<^verbatim>\<open>internal/detector\<close>: the custom detectors and their registry. A detector value is the record of
  its \<^verbatim>\<open>Detect\<close> method and, for those that implement \<^verbatim>\<open>SampledDetector\<close>, what \<^verbatim>\<open>AllowSampling\<close>
  answers. The lingua language model and compiled regular expressions are parameters.
\<close>

section \<open>Registry (registry.go)\<close>

record Detector =
  Detect :: ScanFunc
  AllowSampling :: bool

type_synonym Registry = "string \<rightharpoonup> Detector"

definition NewRegistry :: Registry where
  "NewRegistry = Map.empty"

definition Register :: "Registry \<Rightarrow> string \<Rightarrow> Detector \<Rightarrow> Registry" where
  "Register r name d = r(name \<mapsto> d)"

definition Get :: "Registry \<Rightarrow> string \<Rightarrow> Detector option" where
  "Get r name = r name"

section \<open>Encoding anomalies (encoding.go)\<close>

fun run_locs :: "nat \<Rightarrow> (bytes + bytes) list \<Rightarrow> (nat \<times> nat) list" where
  "run_locs off [] = []"
| "run_locs off (Inl gap # ps) = run_locs (off + length gap) ps"
| "run_locs off (Inr m # ps) = (off, off + length m) # run_locs (off + length m) ps"

definition base64Pattern :: "bytes \<Rightarrow> (nat \<times> nat) list" where
  "base64Pattern content = run_locs 0 (find_runs is_std_b64 50 content)"

fun anomaly_loop :: "unicode_data \<Rightarrow> rune list \<Rightarrow> nat \<Rightarrow> nat \<Rightarrow> nat \<times> nat" where
  "anomaly_loop ud [] zw unusual = (zw, unusual)"
| "anomaly_loop ud (r # rs) zw unusual =
     (if IsBidiControl r then anomaly_loop ud rs zw unusual
      else if IsSuspiciousInvisible ud r then anomaly_loop ud rs (Suc zw) unusual
      else if r > 0x7E \<and> \<not> u_IsLetter ud r \<and> \<not> u_IsPunct ud r \<and> \<not> u_IsSpace ud r
        then anomaly_loop ud rs zw (Suc unusual)
      else anomaly_loop ud rs zw unusual)"

definition EncodingAnomalyDetector :: "unicode_data \<Rightarrow> ScanFunc" where
  "EncodingAnomalyDetector ud content =
     (let (zwCount, unusualUnicodeCount) = anomaly_loop ud (runes content) 0 0;
          bidiCount = snd (CountInvisible content);
          findings =
            map (\<lambda>m. ''base64 block at offset '' @ show_nat (fst m) @ '', length '' @ show_nat (snd m - fst m))
              (base64Pattern content)
            @ (if zwCount > 0 then [''zero-width characters found: '' @ show_nat zwCount] else [])
            @ (if bidiCount > 0 then [''bidi control characters found: '' @ show_nat bidiCount] else [])
            @ (if unusualUnicodeCount > 10
               then [''excessive unusual unicode: '' @ show_nat unusualUnicodeCount @ '' characters''] else [])
      in if findings = [] then Returns []
         else Returns [\<lparr>sig_name = ''suspicious_encoding'', sig_weight = f64 (7 / 10),
                        sig_matched = go_join ''; '' findings\<rparr>])"

section \<open>Prompt templates (template.go)\<close>

record templatePattern =
  tp_re :: string
  conversationallyAmbiguous :: bool

definition templatePatterns :: "templatePattern list" where
  "templatePatterns =
     [\<lparr>tp_re = ''(?i)^you'' @ esc CHR ''s'' @ ''+are'' @ esc CHR ''s'' @ ''+a'' @ esc CHR ''s'' @ ''+'',
        conversationallyAmbiguous = True\<rparr>,
      \<lparr>tp_re = ''(?i)your'' @ esc CHR ''s'' @ ''+instructions'' @ esc CHR ''s'' @ ''+are'',
        conversationallyAmbiguous = False\<rparr>,
      \<lparr>tp_re = ''(?i)<system>'', conversationallyAmbiguous = False\<rparr>,
      \<lparr>tp_re = ''(?i)<instructions>'', conversationallyAmbiguous = False\<rparr>,
      \<lparr>tp_re = ''(?i)<prompt>'', conversationallyAmbiguous = False\<rparr>,
      \<lparr>tp_re = ''(?i)##'' @ esc CHR ''s'' @ ''*(system|instructions|prompt)'' @ esc CHR ''b'',
        conversationallyAmbiguous = False\<rparr>,
      \<lparr>tp_re = ''(?i)---'' @ esc CHR ''s'' @ ''*BEGIN'' @ esc CHR ''s'' @ ''+INSTRUCTIONS'' @ esc CHR ''s'' @ ''*---'',
        conversationallyAmbiguous = False\<rparr>,
      \<lparr>tp_re = ''(?i)you'' @ esc CHR ''s'' @ ''+are'' @ esc CHR ''s'' @ ''+a'' @ esc CHR ''s'' @ ''+helpful''
          @ esc CHR ''s'' @ ''+assistant'',
        conversationallyAmbiguous = False\<rparr>]"

definition conversationalPatterns :: "string list" where
  "conversationalPatterns =
     [''(?i)you'' @ esc CHR ''s'' @ ''+are'' @ esc CHR ''s'' @ ''+invited'',
      ''(?i)you'' @ esc CHR ''s'' @ ''+are'' @ esc CHR ''s'' @ ''+welcome'',
      ''(?i)you'' @ esc CHR ''s'' @ ''+are'' @ esc CHR ''s'' @ ''+correct'',
      ''(?i)you'' @ esc CHR ''s'' @ ''+are'' @ esc CHR ''s'' @ ''+right'',
      ''(?i)you'' @ esc CHR ''s'' @ ''+are'' @ esc CHR ''s'' @ ''+the'' @ esc CHR ''s'' @ ''+best'',
      ''(?i)hope'' @ esc CHR ''s'' @ ''+you'' @ esc CHR ''s'' @ ''+are'',
      ''(?i)you'' @ esc CHR ''s'' @ ''+are'' @ esc CHR ''s'' @ ''+receiving'']"

text \<open>\<^verbatim>\<open>MatchString\<close> on a pattern compiled by \<^verbatim>\<open>regexp.MustCompile\<close>.\<close>

definition MatchString :: "regexp \<Rightarrow> string \<Rightarrow> bytes \<Rightarrow> bool" where
  "MatchString rx pat content = (case rx pat of None \<Rightarrow> False | Some findAll \<Rightarrow> findAll content \<noteq> [])"

definition isFullyConversational :: "regexp \<Rightarrow> bytes \<Rightarrow> bool" where
  "isFullyConversational rx content =
     (if \<not> list_ex (\<lambda>cp. MatchString rx cp content) conversationalPatterns then False
      else list_all (\<lambda>tp. MatchString rx (tp_re tp) content \<longrightarrow> conversationallyAmbiguous tp) templatePatterns)"

definition TemplateStructureDetector :: "regexp \<Rightarrow> ScanFunc" where
  "TemplateStructureDetector rx content =
     (let hits = map tp_re (filter (\<lambda>tp. MatchString rx (tp_re tp) content) templatePatterns)
      in if hits = [] then Returns []
         else if isFullyConversational rx content then Returns []
         else Returns [\<lparr>sig_name = ''prompt_template_structure'', sig_weight = f64 (6 / 10),
                        sig_matched = ''template patterns detected: '' @ go_join '', '' hits\<rparr>])"

section \<open>Language (language.go)\<close>

record 'lang lingua =
  lg_detect :: "bytes \<Rightarrow> 'lang option"
  lg_english :: 'lang
  lg_show :: "'lang \<Rightarrow> string"
  lg_confidence :: "bytes \<Rightarrow> 'lang \<Rightarrow> rat"

definition minContentLength :: nat where "minContentLength = 20"
definition minProseLength :: nat where "minProseLength = minContentLength"

definition LanguageDetectionDetector ::
  "(bytes \<Rightarrow> (bytes + bytes) list) \<Rightarrow> (bytes \<Rightarrow> (bytes + bytes) list) \<Rightarrow> 'lang lingua \<Rightarrow> ScanFunc" where
  "LanguageDetectionDetector armourBlock dataURI lg content =
     (if length content < minContentLength then Returns []
      else
        let prose = StripStructured armourBlock dataURI content in
        if NonSpaceLen prose < minProseLength then Returns []
        else (case lg_detect lg prose of
                None \<Rightarrow> Returns []
              | Some lang \<Rightarrow>
                  if lang = lg_english lg then Returns []
                  else Returns [\<lparr>sig_name = ''non_english_content'', sig_weight = 0,
                         sig_matched = ''detected language: '' @ lg_show lg lang @ '' (confidence: ''
                           @ show_fixed2 (lg_confidence lg prose lang) @ '')''\<rparr>]))"

section \<open>Smuggling in the Tags block (invisible.go)\<close>

definition maxPreview :: nat where "maxPreview = 120"

definition InvisibleSmugglingDetector :: "unicode_data \<Rightarrow> ScanFunc" where
  "InvisibleSmugglingDetector ud content =
     (let tags = fst (CountInvisible content) in
      if tags = 0 then Returns []
      else
        let base = show_nat tags @ '' Unicode Tags-block characters'';
            detail = (case DecodeTagChars content of
                None \<Rightarrow> base
              | Some payload \<Rightarrow>
                  let preview = (if length payload > maxPreview then take maxPreview payload @ ''...'' else payload);
                      preview = map (\<lambda>c. if c = CHR 0x0A then CHR '' '' else c) preview
                  in base @ ''; decoded hidden text: '' @ go_quote ud preview)
        in Returns [\<lparr>sig_name = ''invisible_smuggling'', sig_weight = 1, sig_matched = detail\<rparr>])"

section \<open>The default registry (defaults.go)\<close>

record 'lang detector_lib =
  dl_ud :: unicode_data
  dl_rx :: regexp
  dl_armour :: "bytes \<Rightarrow> (bytes + bytes) list"
  dl_dataURI :: "bytes \<Rightarrow> (bytes + bytes) list"
  dl_lingua :: "'lang lingua"

definition NewDefaultRegistry :: "'lang detector_lib \<Rightarrow> Registry" where
  "NewDefaultRegistry dl =
     (let r = NewRegistry;
          r = Register r ''encoding_anomaly'' \<lparr>Detect = EncodingAnomalyDetector (dl_ud dl), AllowSampling = False\<rparr>;
          r = Register r ''invisible_smuggling'' \<lparr>Detect = InvisibleSmugglingDetector (dl_ud dl), AllowSampling = False\<rparr>;
          r = Register r ''template_structure'' \<lparr>Detect = TemplateStructureDetector (dl_rx dl), AllowSampling = False\<rparr>;
          r = Register r ''language_detection''
                \<lparr>Detect = LanguageDetectionDetector (dl_armour dl) (dl_dataURI dl) (dl_lingua dl), AllowSampling = True\<rparr>
      in r)"

section \<open>Detectors answer\<close>

text \<open>
  The contract of the Detector interface: \<^verbatim>\<open>Detect\<close> returns, without an error, at most one signal.
\<close>

locale detector_contract =
  fixes detect :: ScanFunc
  assumes returns: "\<exists>sigs. detect content = Returns sigs \<and> length sigs \<le> 1"

interpretation encoding: detector_contract "EncodingAnomalyDetector ud" for ud
  by unfold_locales (auto simp: EncodingAnomalyDetector_def Let_def split: prod.splits)

interpretation smuggling: detector_contract "InvisibleSmugglingDetector ud" for ud
  by unfold_locales (auto simp: InvisibleSmugglingDetector_def Let_def)

interpretation template: detector_contract "TemplateStructureDetector rx" for rx
  by unfold_locales (auto simp: TemplateStructureDetector_def Let_def)

interpretation language: detector_contract "LanguageDetectionDetector ab du lg" for ab du lg
  by unfold_locales (auto simp: LanguageDetectionDetector_def Let_def split: option.splits)

definition registry_contract :: "Registry \<Rightarrow> bool" where
  "registry_contract r \<longleftrightarrow> (\<forall>name d. Get r name = Some d \<longrightarrow> detector_contract (Detect d))"

lemma NewDefaultRegistry_contract: "registry_contract (NewDefaultRegistry dl)"
  by (auto simp: registry_contract_def Get_def NewDefaultRegistry_def Register_def NewRegistry_def Let_def
      encoding.detector_contract_axioms smuggling.detector_contract_axioms
      template.detector_contract_axioms language.detector_contract_axioms split: if_splits)

lemma count_loop_spec:
  "count_loop rs t b = (t + length (filter IsTagChar rs),
     b + length (filter (\<lambda>r. \<not> IsTagChar r \<and> IsBidiControl r) rs))"
  by (induction rs t b rule: count_loop.induct) auto

text \<open>
  The smuggling detector fires exactly on Tags-block characters, with weight 1 and one
  signal, and the template detector cannot be talked out of an unambiguous match: whatever other
  phrases the text holds, a match of any pattern but the first yields a signal.
\<close>

theorem detectors_fire:
  "((\<exists>s. InvisibleSmugglingDetector ud content = Returns [s] \<and> sig_weight s = 1) \<longleftrightarrow>
      (\<exists>r. r \<in> set (runes content) \<and> IsTagChar r))
   \<and> ((\<exists>tp. tp \<in> set (tl templatePatterns) \<and> MatchString rx (tp_re tp) content) \<longrightarrow>
      (\<exists>s. TemplateStructureDetector rx content = Returns [s]))"
proof
  have "fst (CountInvisible content) = 0 \<longleftrightarrow> \<not> (\<exists>r. r \<in> set (runes content) \<and> IsTagChar r)"
    by (auto simp: CountInvisible_def count_loop_spec filter_empty_conv)
  then show "(\<exists>s. InvisibleSmugglingDetector ud content = Returns [s] \<and> sig_weight s = 1) \<longleftrightarrow>
      (\<exists>r. r \<in> set (runes content) \<and> IsTagChar r)"
    by (auto simp: InvisibleSmugglingDetector_def Let_def)
  show "(\<exists>tp. tp \<in> set (tl templatePatterns) \<and> MatchString rx (tp_re tp) content) \<longrightarrow>
      (\<exists>s. TemplateStructureDetector rx content = Returns [s])"
  proof
    assume "\<exists>tp. tp \<in> set (tl templatePatterns) \<and> MatchString rx (tp_re tp) content"
    then obtain tp where tp: "tp \<in> set (tl templatePatterns)" "MatchString rx (tp_re tp) content" by blast
    have "\<forall>t \<in> set (tl templatePatterns). \<not> conversationallyAmbiguous t" by (simp add: templatePatterns_def)
    moreover have sub: "tp \<in> set templatePatterns" using tp(1) by (simp add: templatePatterns_def)
    ultimately have "\<not> isFullyConversational rx content"
      using tp by (auto simp: isFullyConversational_def list_all_iff)
    moreover have "filter (\<lambda>tp. MatchString rx (tp_re tp) content) templatePatterns \<noteq> []"
      using sub tp(2) by (auto simp: filter_empty_conv)
    ultimately show "\<exists>s. TemplateStructureDetector rx content = Returns [s]"
      by (simp add: TemplateStructureDetector_def)
  qed
qed

theorem detectors_fire_witness:
  "\<exists>s. TemplateStructureDetector (\<lambda>p. Some (\<lambda>_. [(0, 8)])) ''<system>'' = Returns [s]"
  using detectors_fire [of sample_ud "''<system>''" "\<lambda>p. Some (\<lambda>_. [(0, 8)])"]
  by (simp add: MatchString_def templatePatterns_def) blast

end
