(* ===== verification/Scan.thy ===== *)
theory Scan
  imports Detector
begin

text \<open>
  \<^verbatim>\<open>internal/scan/scan.go\<close>: the compiled scan path that the daemon and the sanitize gate share.
  Rules become matcher and detector functions once; a scan runs them over every view of the
  content and over the views of the metadata, and scores what fired.
\<close>

section \<open>Definitions\<close>

record scan_lib =
  sl_text :: text_lib
  sl_rx :: regexp
  sl_lower :: "bytes \<Rightarrow> bytes"

abbreviation sl_ud :: "scan_lib \<Rightarrow> unicode_data" where
  "sl_ud lib \<equiv> tl_ud (sl_text lib)"

record Scanner =
  sc_matchers :: "ScanFunc list"
  sc_detectors :: "ScanFunc list"
  sc_boostConfig :: "string \<rightharpoonup> rat"
  sc_threshold :: rat

text \<open>\<^verbatim>\<open>fmt.Errorf("context: %w", err)\<close> on the error path of a call.\<close>

definition owrap :: "string \<Rightarrow> (err, 'a) outcome \<Rightarrow> (err, 'a) outcome" where
  "owrap msg m = (case m of Fails e \<Rightarrow> Fails (Wrap msg e) | _ \<Rightarrow> m)"

definition makeMatcherScanFunc :: "matcher \<Rightarrow> Rule \<Rightarrow> ScanFunc" where
  "makeMatcherScanFunc m rule content =
     obind (m content (r_patterns rule)) (\<lambda>results.
       if results = [] then Returns []
       else Returns [\<lparr>sig_name = r_name rule, sig_weight = r_weight rule,
                      sig_matched = go_join ''; ''
                        (map (\<lambda>r. m_pattern r @ '' at '' @ show_nat (m_position r)) results)\<rparr>])"

text \<open>The closure built for a custom detector: sampled on request, its signals renamed to the rule.\<close>

definition detector_func :: "Detector \<Rightarrow> Rule \<Rightarrow> ScanFunc" where
  "detector_func d rule content =
     obind (Detect d (if AllowSampling d then SampleContent content DefaultSampleSize else content)) (\<lambda>signals.
       Returns (map (\<lambda>s. s\<lparr>sig_name := r_name rule, sig_weight := r_weight rule\<rparr>) signals))"

fun build_loop ::
  "scan_lib \<Rightarrow> Registry \<Rightarrow> Rule list \<Rightarrow> ScanFunc list \<Rightarrow> ScanFunc list
   \<Rightarrow> (err, ScanFunc list \<times> ScanFunc list) outcome" where
  "build_loop lib registry [] matchers detectors = Returns (matchers, detectors)"
| "build_loop lib registry (rule # rules) matchers detectors =
     (if r_match_type rule = MatchSubstring then
        build_loop lib registry rules (matchers @ [makeMatcherScanFunc SubstringMatcher rule]) detectors
      else if r_match_type rule = MatchSubstringCaseInsensitive then
        build_loop lib registry rules
          (matchers @ [makeMatcherScanFunc (CaseInsensitiveMatcher (sl_lower lib)) rule]) detectors
      else if r_match_type rule = MatchRegex then
        obind (owrap (''compile regex for rule '' @ r_name rule) (NewRegexMatcher (sl_rx lib) (r_patterns rule))) (\<lambda>m.
          build_loop lib registry rules (matchers @ [makeMatcherScanFunc (RegexMatcher_Match m) rule]) detectors)
      else if r_match_type rule = MatchCustomDetector then
        (case Get registry (r_detector rule) of
           None \<Rightarrow> Fails (Err (''unknown detector '' @ go_quote (sl_ud lib) (r_detector rule)
                     @ '' for rule '' @ r_name rule))
         | Some d \<Rightarrow> build_loop lib registry rules matchers (detectors @ [detector_func d rule]))
      else build_loop lib registry rules matchers detectors)"

definition buildScanFuncs ::
  "scan_lib \<Rightarrow> Registry \<Rightarrow> RuleConfig \<Rightarrow> (err, ScanFunc list \<times> ScanFunc list) outcome" where
  "buildScanFuncs lib registry rules = build_loop lib registry (rc_rules rules) [] []"

definition boost_config :: "Rule list \<Rightarrow> string \<rightharpoonup> rat" where
  "boost_config rules =
     fold (\<lambda>rule m. if r_behavior rule = ''weight_booster'' then m(r_name rule \<mapsto> r_boost_factor rule) else m)
       rules Map.empty"

definition New :: "scan_lib \<Rightarrow> Registry \<Rightarrow> RuleConfig \<Rightarrow> (err, Scanner) outcome" where
  "New lib registry rules =
     obind (buildScanFuncs lib registry rules) (\<lambda>(matchers, detectors).
       Returns \<lparr>sc_matchers = matchers, sc_detectors = detectors,
                sc_boostConfig = boost_config (rc_rules rules), sc_threshold = rc_threshold rules\<rparr>)"

definition appendDeduped :: "Signal list \<Rightarrow> Signal list \<Rightarrow> Signal list" where
  "appendDeduped dst src =
     (if src = [] then dst
      else let seen = sig_name ` set dst in dst @ filter (\<lambda>s. sig_name s \<notin> seen) src)"

fun views_loop ::
  "string \<Rightarrow> (string \<times> bytes option \<times> ScanFunc list) list \<Rightarrow> ScanFunc list \<Rightarrow> Signal list
   \<Rightarrow> (err, Signal list) outcome" where
  "views_loop ctx [] matchers signals = Returns signals"
| "views_loop ctx ((name, None, detectors) # vs) matchers signals = views_loop ctx vs matchers signals"
| "views_loop ctx ((name, Some content, detectors) # vs) matchers signals =
     obind (owrap (ctx @ name) (ScanContent content matchers detectors)) (\<lambda>extraSignals.
       views_loop ctx vs matchers (appendDeduped signals extraSignals))"

definition blank :: "unicode_data \<Rightarrow> bytes \<Rightarrow> bool" where
  "blank ud f = list_all (u_IsSpace ud) (runes f)"

definition metadata_views :: "PreprocessedContent \<Rightarrow> (string \<times> bytes option \<times> ScanFunc list) list" where
  "metadata_views pp =
     [('''', Some (Normalized pp), []), ('''', Folded pp, []), ('''', Decoded pp, []),
      ('''', Unescaped pp, []), ('''', Reordered pp, [])]"

definition metadata_text :: "scan_lib \<Rightarrow> string list \<Rightarrow> bytes option" where
  "metadata_text lib flds =
     (let present = filter (\<lambda>f. \<not> blank (sl_ud lib) f) flds
      in if present = [] then None else Some (go_join [CHR 0x0A] present))"

definition scanMetadata :: "scan_lib \<Rightarrow> Scanner \<Rightarrow> string list \<Rightarrow> (err, Signal list) outcome" where
  "scanMetadata lib s flds =
     (case metadata_text lib flds of
        None \<Rightarrow> Returns []
      | Some joined \<Rightarrow>
          views_loop ''scan metadata'' (metadata_views (Preprocess (sl_text lib) joined ''text/plain''))
            (sc_matchers s) [])"

text \<open>The views of the content after the normalized one, with the detectors that run on each.\<close>

definition content_views :: "Scanner \<Rightarrow> PreprocessedContent \<Rightarrow> (string \<times> bytes option \<times> ScanFunc list) list" where
  "content_views s pp =
     (''raw html'', RawHTML pp, []) #
     map (\<lambda>(name, v). (name, v, if name = ''pre-scrub'' then sc_detectors s else [])) (extra_views pp)"

definition score_signals :: "Scanner \<Rightarrow> Signal list \<Rightarrow> ScanResult" where
  "score_signals s signals =
     (let scored = filter (\<lambda>sig. sc_boostConfig s (sig_name sig) = None) signals;
          boosts = List.map_filter (\<lambda>sig. map_option (\<lambda>factor. \<lparr>br_name = sig_name sig, br_factor = factor\<rparr>)
                     (sc_boostConfig s (sig_name sig))) signals
      in (ScoreSignals scored boosts (sc_threshold s))\<lparr>sr_signals := signals\<rparr>)"

definition ScanWithMetadata ::
  "scan_lib \<Rightarrow> Scanner \<Rightarrow> bytes \<Rightarrow> string \<Rightarrow> string list \<Rightarrow> (err, ScanResult) outcome" where
  "ScanWithMetadata lib s content contentType metadata =
     (let pp = Preprocess (sl_text lib) content contentType in
      obind (owrap ''scan normalized'' (ScanContent (Normalized pp) (sc_matchers s) (sc_detectors s))) (\<lambda>signals.
      obind (views_loop ''scan '' (content_views s pp) (sc_matchers s) signals) (\<lambda>signals.
      obind (scanMetadata lib s metadata) (\<lambda>metaSignals.
        Returns (score_signals s (appendDeduped signals metaSignals))))))"

definition Scan :: "scan_lib \<Rightarrow> Scanner \<Rightarrow> bytes \<Rightarrow> string \<Rightarrow> (err, ScanResult) outcome" where
  "Scan lib s content contentType = ScanWithMetadata lib s content contentType []"

section \<open>Which rules fire on a view\<close>

definition rule_matches :: "scan_lib \<Rightarrow> Rule \<Rightarrow> bytes \<Rightarrow> bool" where
  "rule_matches lib r v \<longleftrightarrow>
     (if r_match_type r = MatchSubstring then list_ex (\<lambda>p. sublist p v) (r_patterns r)
      else if r_match_type r = MatchSubstringCaseInsensitive then
        list_ex (\<lambda>p. sublist (sl_lower lib p) (sl_lower lib v)) (r_patterns r)
      else if r_match_type r = MatchRegex then list_ex (\<lambda>p. MatchString (sl_rx lib) p v) (r_patterns r)
      else False)"

definition no_empty_patterns :: "scan_lib \<Rightarrow> Rule list \<Rightarrow> bool" where
  "no_empty_patterns lib rules \<longleftrightarrow>
     list_all (\<lambda>r. (r_match_type r = MatchSubstring \<longrightarrow> [] \<notin> set (r_patterns r))
       \<and> (r_match_type r = MatchSubstringCaseInsensitive \<longrightarrow> list_all (\<lambda>p. sl_lower lib p \<noteq> []) (r_patterns r))) rules"

section \<open>Contracts of the compiled functions\<close>

definition from_rules :: "Rule list \<Rightarrow> Signal \<Rightarrow> bool" where
  "from_rules rules s \<longleftrightarrow> (\<exists>r \<in> set rules. sig_name s = r_name r \<and> sig_weight s = r_weight r)"

text \<open>
  What a compiled function of one rule promises: it returns, at most one signal, and the signal
  carries the rule's name and weight.
\<close>

definition func_of :: "Rule \<Rightarrow> ScanFunc \<Rightarrow> bool" where
  "func_of r f \<longleftrightarrow> (\<forall>c. \<exists>ss. f c = Returns ss \<and> length ss \<le> 1
     \<and> (\<forall>s \<in> set ss. sig_name s = r_name r \<and> sig_weight s = r_weight r))"

definition matcher_of :: "scan_lib \<Rightarrow> Rule \<Rightarrow> ScanFunc \<Rightarrow> bool" where
  "matcher_of lib r f \<longleftrightarrow> func_of r f \<and> (\<forall>c. rule_matches lib r c \<longrightarrow> f c \<noteq> Returns [])"

lemma match_patterns_hit:
  "p \<in> set ps \<Longrightarrow> sublist (f p) c \<Longrightarrow> match_patterns f c ps \<noteq> Some []"
proof (induction ps)
  case Nil
  then show ?case by simp
next
  case (Cons q ps)
  have "findAllOffsets c (f p) \<noteq> Some []" using Cons.prems(2) by (rule findAllOffsets_hit)
  with Cons show ?case by (auto split: option.splits)
qed

lemma makeMatcher_func: "(\<And>c. \<exists>rs. m c (r_patterns r) = Returns rs) \<Longrightarrow> func_of r (makeMatcherScanFunc m r)"
proof -
  assume tot: "\<And>c. \<exists>rs. m c (r_patterns r) = Returns rs"
  show ?thesis unfolding func_of_def
  proof
    fix c
    obtain rs where "m c (r_patterns r) = Returns rs" using tot by blast
    then show "\<exists>ss. makeMatcherScanFunc m r c = Returns ss \<and> length ss \<le> 1
        \<and> (\<forall>s \<in> set ss. sig_name s = r_name r \<and> sig_weight s = r_weight r)"
      by (simp add: makeMatcherScanFunc_def)
  qed
qed

lemma makeMatcher_hit: "m c (r_patterns r) \<noteq> Returns [] \<Longrightarrow> makeMatcherScanFunc m r c \<noteq> Returns []"
  by (cases "m c (r_patterns r)") (auto simp: makeMatcherScanFunc_def)

lemma of_loop_total: "m \<noteq> None \<Longrightarrow> \<exists>rs. of_loop m = Returns rs"
  by (cases m) auto

lemma substring_matcher_of:
  assumes "r_match_type r = MatchSubstring" "[] \<notin> set (r_patterns r)"
  shows "matcher_of lib r (makeMatcherScanFunc SubstringMatcher r)"
  unfolding matcher_of_def
proof (intro conjI allI impI)
  have "match_patterns (\<lambda>p. p) c (r_patterns r) \<noteq> None" for c
    unfolding match_patterns_None [where f = "\<lambda>p. p"] using assms(2) by blast
  then show "func_of r (makeMatcherScanFunc SubstringMatcher r)"
    by (intro makeMatcher_func) (simp add: SubstringMatcher_def of_loop_total)
  fix c assume "rule_matches lib r c"
  then obtain p where "p \<in> set (r_patterns r)" "sublist p c"
    using assms(1) by (auto simp: rule_matches_def list_ex_iff)
  then have "match_patterns (\<lambda>p. p) c (r_patterns r) \<noteq> Some []" using match_patterns_hit [where f = "\<lambda>p. p"] by blast
  then show "makeMatcherScanFunc SubstringMatcher r c \<noteq> Returns []"
    by (intro makeMatcher_hit) (auto simp: SubstringMatcher_def of_loop_def split: option.splits)
qed

lemma case_insensitive_matcher_of:
  assumes "r_match_type r = MatchSubstringCaseInsensitive" "list_all (\<lambda>p. sl_lower lib p \<noteq> []) (r_patterns r)"
  shows "matcher_of lib r (makeMatcherScanFunc (CaseInsensitiveMatcher (sl_lower lib)) r)"
  unfolding matcher_of_def
proof (intro conjI allI impI)
  let ?m = "CaseInsensitiveMatcher (sl_lower lib)"
  have "match_patterns (sl_lower lib) (sl_lower lib c) (r_patterns r) \<noteq> None" for c
    using match_patterns_None assms(2) by (auto simp: list_all_iff)
  then show "func_of r (makeMatcherScanFunc ?m r)"
    by (intro makeMatcher_func) (simp add: CaseInsensitiveMatcher_def of_loop_total)
  fix c assume "rule_matches lib r c"
  then obtain p where "p \<in> set (r_patterns r)" "sublist (sl_lower lib p) (sl_lower lib c)"
    using assms(1) by (auto simp: rule_matches_def list_ex_iff match_type_defs)
  then have "match_patterns (sl_lower lib) (sl_lower lib c) (r_patterns r) \<noteq> Some []" by (rule match_patterns_hit)
  then show "makeMatcherScanFunc ?m r c \<noteq> Returns []"
    by (intro makeMatcher_hit) (auto simp: CaseInsensitiveMatcher_def of_loop_def split: option.splits)
qed

lemma NewRegexMatcher_shape:
  "NewRegexMatcher rx ps = Returns m \<Longrightarrow> p \<in> set ps \<Longrightarrow> \<exists>re. rx p = Some re \<and> (p, re) \<in> set m"
  by (induction ps arbitrary: m) (auto simp: outcome_simps split: option.splits)

lemma regex_matcher_of:
  assumes "r_match_type r = MatchRegex" "NewRegexMatcher (sl_rx lib) (r_patterns r) = Returns m"
  shows "matcher_of lib r (makeMatcherScanFunc (RegexMatcher_Match m) r)"
  unfolding matcher_of_def
proof (intro conjI allI impI)
  show "func_of r (makeMatcherScanFunc (RegexMatcher_Match m) r)"
    by (rule makeMatcher_func) (simp add: RegexMatcher_Match_def)
  fix c assume "rule_matches lib r c"
  then obtain p where p: "p \<in> set (r_patterns r)" "MatchString (sl_rx lib) p c"
    using assms(1) by (auto simp: rule_matches_def list_ex_iff match_type_defs)
  then obtain re where "sl_rx lib p = Some re" "(p, re) \<in> set m" using NewRegexMatcher_shape [OF assms(2)] by blast
  with p(2) show "makeMatcherScanFunc (RegexMatcher_Match m) r c \<noteq> Returns []"
    by (intro makeMatcher_hit) (force simp: RegexMatcher_Match_def MatchString_def)
qed

context detector_contract
begin

lemma detector_func_of:
  assumes "Detect d = detect"
  shows "func_of r (detector_func d r)"
  unfolding func_of_def
proof
  fix c
  let ?c = "if AllowSampling d then SampleContent c DefaultSampleSize else c"
  obtain sigs where "detect ?c = Returns sigs" "length sigs \<le> 1" using returns by blast
  then show "\<exists>ss. detector_func d r c = Returns ss \<and> length ss \<le> 1
      \<and> (\<forall>s \<in> set ss. sig_name s = r_name r \<and> sig_weight s = r_weight r)"
    using assms by (auto simp: detector_func_def)
qed

end

section \<open>The compiled scanner\<close>

text \<open>
  One compiled function per rule, in the order of the rules: \<open>mrs\<close> are the matcher rules, \<open>drs\<close> the
  detector rules.
\<close>

definition scanner_ok :: "scan_lib \<Rightarrow> Rule list \<Rightarrow> ScanFunc list \<Rightarrow> ScanFunc list \<Rightarrow> bool" where
  "scanner_ok lib rules ms ds \<longleftrightarrow>
     list_all2 (matcher_of lib) (filter (\<lambda>r. r_match_type r \<noteq> MatchCustomDetector) rules) ms
     \<and> list_all2 func_of (filter (\<lambda>r. r_match_type r = MatchCustomDetector) rules) ds"

lemma build_loop_ok:
  assumes "registry_contract reg" "no_empty_patterns lib rules" "list_all (\<lambda>r. validMatchTypes (r_match_type r)) rules"
    "build_loop lib reg rules ms ds = Returns (ms', ds')"
  shows "\<exists>ms1 ds1. ms' = ms @ ms1 \<and> ds' = ds @ ds1 \<and> scanner_ok lib rules ms1 ds1"
  using assms
proof (induction rules arbitrary: ms ds)
  case Nil
  then show ?case by (simp add: scanner_ok_def)
next
  case (Cons r rules)
  have tail: "no_empty_patterns lib rules" "list_all (\<lambda>r. validMatchTypes (r_match_type r)) rules"
    using Cons.prems(2,3) by (auto simp: no_empty_patterns_def)
  have matcher: ?case
    if f: "matcher_of lib r f" "r_match_type r \<noteq> MatchCustomDetector"
      and b: "build_loop lib reg rules (ms @ [f]) ds = Returns (ms', ds')" for f
  proof -
    obtain ms1 ds1 where "ms' = (ms @ [f]) @ ms1" "ds' = ds @ ds1" "scanner_ok lib rules ms1 ds1"
      using Cons.IH [OF Cons.prems(1) tail b] by blast
    then show ?thesis using f by (intro exI [of _ "f # ms1"] exI [of _ ds1]) (simp add: scanner_ok_def)
  qed
  consider "r_match_type r = MatchSubstring" | "r_match_type r = MatchSubstringCaseInsensitive"
    | "r_match_type r = MatchRegex" | "r_match_type r = MatchCustomDetector"
    using Cons.prems(3) by (auto simp: validMatchTypes_def)
  then show ?case
  proof cases
    case 1
    then have "[] \<notin> set (r_patterns r)" using Cons.prems(2) by (simp add: no_empty_patterns_def)
    then show ?thesis
      using matcher [OF substring_matcher_of [OF 1]] 1 Cons.prems(4) by (simp add: match_type_defs)
  next
    case 2
    then have "list_all (\<lambda>p. sl_lower lib p \<noteq> []) (r_patterns r)"
      using Cons.prems(2) by (simp add: no_empty_patterns_def)
    then show ?thesis
      using matcher [OF case_insensitive_matcher_of [OF 2]] 2 Cons.prems(4) by (simp add: match_type_defs)
  next
    case 3
    then obtain m where m: "NewRegexMatcher (sl_rx lib) (r_patterns r) = Returns m"
      using Cons.prems(4)
      by (cases "NewRegexMatcher (sl_rx lib) (r_patterns r)") (auto simp: owrap_def match_type_defs)
    with 3 Cons.prems(4) show ?thesis
      by (intro matcher [OF regex_matcher_of [OF 3 m]]) (auto simp: owrap_def match_type_defs)
  next
    case 4
    then obtain d where d: "Get reg (r_detector r) = Some d"
      and b: "build_loop lib reg rules ms (ds @ [detector_func d r]) = Returns (ms', ds')"
      using Cons.prems(4) by (auto simp: match_type_defs split: option.splits)
    have "detector_contract (Detect d)" using d Cons.prems(1) by (simp add: registry_contract_def)
    then have f: "func_of r (detector_func d r)" by (rule detector_contract.detector_func_of) simp
    obtain ms1 ds1 where "ms' = ms @ ms1" "ds' = (ds @ [detector_func d r]) @ ds1" "scanner_ok lib rules ms1 ds1"
      using Cons.IH [OF Cons.prems(1) tail b] by blast
    then show ?thesis using f 4
      by (intro exI [of _ ms1] exI [of _ "detector_func d r # ds1"]) (simp add: scanner_ok_def)
  qed
qed

section \<open>A pass over one view\<close>

definition fired :: "ScanFunc \<Rightarrow> bytes \<Rightarrow> Signal list" where
  "fired f c = (case f c of Returns ss \<Rightarrow> ss | _ \<Rightarrow> [])"

lemma func_of_fired:
  assumes "func_of r f"
  shows "f c = Returns (fired f c)" "map sig_name (fired f c) = [] \<or> map sig_name (fired f c) = [r_name r]"
    "s \<in> set (fired f c) \<Longrightarrow> sig_name s = r_name r \<and> sig_weight s = r_weight r"
proof -
  obtain ss where ss: "f c = Returns ss" "length ss \<le> 1"
    "\<forall>s \<in> set ss. sig_name s = r_name r \<and> sig_weight s = r_weight r"
    using assms unfolding func_of_def by blast
  then have "ss = [] \<or> (\<exists>s. ss = [s])" by (cases ss) auto
  with ss show "f c = Returns (fired f c)" "map sig_name (fired f c) = [] \<or> map sig_name (fired f c) = [r_name r]"
    "s \<in> set (fired f c) \<Longrightarrow> sig_name s = r_name r \<and> sig_weight s = r_weight r"
    by (auto simp: fired_def)
qed

lemma scan_loop_fired:
  "list_all2 func_of rs fs \<Longrightarrow> scan_loop fs c acc = Returns (acc @ concat (map (\<lambda>f. fired f c) fs))"
proof (induction fs arbitrary: acc rs)
  case Nil
  then show ?case by simp
next
  case (Cons f fs)
  then obtain r rs' where "func_of r f" "list_all2 func_of rs' fs" by (auto simp: list_all2_Cons2)
  with Cons.IH show ?case by (simp add: func_of_fired(1) [of r f c])
qed

lemma fired_names:
  "list_all2 func_of rs fs \<Longrightarrow> subseq (map sig_name (concat (map (\<lambda>f. fired f c) fs))) (map r_name rs)"
proof (induction rs fs rule: list_all2_induct)
  case (Cons r rs f fs)
  then show ?case using func_of_fired(2) [of r f c] by (auto intro: subseq_Cons')
qed simp

lemma fired_from:
  "list_all2 func_of rs fs \<Longrightarrow> set rs \<subseteq> set rules \<Longrightarrow> s \<in> set (concat (map (\<lambda>f. fired f c) fs)) \<Longrightarrow> from_rules rules s"
proof (induction rs fs rule: list_all2_induct)
  case (Cons r rs f fs)
  then show ?case using func_of_fired(3) [of r f s c] by (auto simp: from_rules_def)
qed simp

lemma matcher_fired:
  "list_all2 (matcher_of lib) rs fs \<Longrightarrow> r \<in> set rs \<Longrightarrow> rule_matches lib r c \<Longrightarrow>
   r_name r \<in> sig_name ` set (concat (map (\<lambda>f. fired f c) fs))"
proof (induction rs fs rule: list_all2_induct)
  case (Cons r' rs f fs)
  show ?case
  proof (cases "r = r'")
    case True
    then have f: "func_of r f" "f c \<noteq> Returns []" using Cons by (auto simp: matcher_of_def)
    then have "fired f c \<noteq> []" using func_of_fired(1) [OF f(1), of c] by auto
    then have "map sig_name (fired f c) = [r_name r]" using func_of_fired(2) [OF f(1), of c] by simp
    then have "r_name r \<in> sig_name ` set (fired f c)" by (metis image_set list.set_intros(1))
    then show ?thesis by auto
  next
    case False
    with Cons show ?thesis by auto
  qed
qed simp

lemma matcher_list_func: "list_all2 (matcher_of lib) rs fs \<Longrightarrow> list_all2 func_of rs fs"
  by (auto simp: matcher_of_def elim: list_all2_mono)

text \<open>
  The state a scan threads through its passes: signals of the configured rules, each name once
  when the rule names are distinct.
\<close>

definition signals_ok :: "Rule list \<Rightarrow> Signal list \<Rightarrow> bool" where
  "signals_ok rules ss \<longleftrightarrow>
     (\<forall>s \<in> set ss. from_rules rules s) \<and> (distinct (map r_name rules) \<longrightarrow> distinct (map sig_name ss))"

definition detectors_ok :: "Rule list \<Rightarrow> Rule list \<Rightarrow> ScanFunc list \<Rightarrow> bool" where
  "detectors_ok rules mrs ds \<longleftrightarrow>
     (\<exists>drs. list_all2 func_of drs ds \<and> set (mrs @ drs) \<subseteq> set rules
        \<and> (distinct (map r_name rules) \<longrightarrow> distinct (map r_name (mrs @ drs))))"

lemma ScanContent_ok:
  assumes "list_all2 (matcher_of lib) mrs ms" "detectors_ok rules mrs ds"
  shows "\<exists>ss. ScanContent c ms ds = Returns ss \<and> signals_ok rules ss
    \<and> (\<forall>r \<in> set mrs. rule_matches lib r c \<longrightarrow> r_name r \<in> sig_name ` set ss)"
proof -
  obtain drs where d: "list_all2 func_of drs ds" "set (mrs @ drs) \<subseteq> set rules"
    "distinct (map r_name rules) \<longrightarrow> distinct (map r_name (mrs @ drs))"
    using assms(2) by (auto simp: detectors_ok_def)
  note m = matcher_list_func [OF assms(1)]
  define ss where "ss = concat (map (\<lambda>f. fired f c) ms) @ concat (map (\<lambda>f. fired f c) ds)"
  have "ScanContent c ms ds = Returns ss"
    by (simp add: ScanContent_def scan_loop_fired [OF m] scan_loop_fired [OF d(1)] ss_def)
  moreover have "subseq (map sig_name ss) (map r_name (mrs @ drs))"
    using list_emb_append_mono [OF fired_names [OF m, of c] fired_names [OF d(1), of c]] by (simp add: ss_def)
  then have "distinct (map r_name rules) \<longrightarrow> distinct (map sig_name ss)"
    using d(3) distinct_subseq by blast
  then have "signals_ok rules ss"
    using fired_from [OF m, of rules] fired_from [OF d(1), of rules] d(2)
    by (auto simp: signals_ok_def ss_def simp del: set_concat)
  moreover have "\<forall>r \<in> set mrs. rule_matches lib r c \<longrightarrow> r_name r \<in> sig_name ` set ss"
    using matcher_fired [OF assms(1), of _ c] unfolding ss_def set_append image_Un by blast
  ultimately show ?thesis by blast
qed

section \<open>Deduplication across views\<close>

lemma appendDeduped_names: "sig_name ` set (appendDeduped a b) = sig_name ` set a \<union> sig_name ` set b"
  by (auto simp: appendDeduped_def Let_def)

lemma appendDeduped_prefix: "prefix a (appendDeduped a b)"
  by (simp add: appendDeduped_def Let_def)

lemma appendDeduped_ok: "signals_ok rules a \<Longrightarrow> signals_ok rules b \<Longrightarrow> signals_ok rules (appendDeduped a b)"
  by (auto simp: signals_ok_def appendDeduped_def Let_def distinct_map_filter) (metis imageI)

lemma views_loop_ok:
  assumes "list_all2 (matcher_of lib) mrs ms" "\<forall>v \<in> set vs. detectors_ok rules mrs (snd (snd v))" "signals_ok rules ss"
  shows "\<exists>ss'. views_loop ctx vs ms ss = Returns ss' \<and> signals_ok rules ss' \<and> prefix ss ss'
    \<and> (\<forall>r \<in> set mrs. \<forall>v \<in> set vs. \<forall>c. fst (snd v) = Some c \<and> rule_matches lib r c \<longrightarrow> r_name r \<in> sig_name ` set ss')"
  using assms(2,3)
proof (induction vs arbitrary: ss)
  case Nil
  then show ?case by simp
next
  case (Cons v vs)
  obtain name vo ds where v: "v = (name, vo, ds)" by (cases v)
  show ?case
  proof (cases vo)
    case None
    then show ?thesis using Cons v by simp
  next
    case (Some c)
    have "detectors_ok rules mrs ds" using Cons.prems(1) v by simp
    then obtain es where es: "ScanContent c ms ds = Returns es" "signals_ok rules es"
      "\<forall>r \<in> set mrs. rule_matches lib r c \<longrightarrow> r_name r \<in> sig_name ` set es"
      using ScanContent_ok [OF assms(1)] by blast
    define mid where "mid = appendDeduped ss es"
    have mid: "signals_ok rules mid" "prefix ss mid" "sig_name ` set es \<subseteq> sig_name ` set mid"
      using appendDeduped_ok [OF Cons.prems(2) es(2)]
      by (simp_all add: mid_def appendDeduped_prefix appendDeduped_names)
    obtain ss' where ss': "views_loop ctx vs ms mid = Returns ss'" "signals_ok rules ss'" "prefix mid ss'"
      "\<forall>r \<in> set mrs. \<forall>v \<in> set vs. \<forall>c. fst (snd v) = Some c \<and> rule_matches lib r c \<longrightarrow> r_name r \<in> sig_name ` set ss'"
      using Cons.IH [OF _ mid(1)] Cons.prems(1) by auto
    have "sig_name ` set es \<subseteq> sig_name ` set ss'" using mid(3) set_mono_prefix [OF ss'(3)] by blast
    then show ?thesis
      using ss' es v Some prefix_order.trans [OF mid(2) ss'(3)]
      by (intro exI [of _ ss']) (auto simp: owrap_def mid_def)
  qed
qed

text \<open>Both phases of a scan: the passes over the content, and those over the metadata.\<close>

definition compiled :: "scan_lib \<Rightarrow> Registry \<Rightarrow> RuleConfig \<Rightarrow> Scanner \<Rightarrow> bool" where
  "compiled lib reg rc sc \<longleftrightarrow>
     New lib reg rc = Returns sc \<and> validateRuleConfig (sl_rx lib) rc = None \<and> registry_contract reg
     \<and> no_empty_patterns lib (rc_rules rc)"

definition matcher_rules :: "RuleConfig \<Rightarrow> Rule list" where
  "matcher_rules rc = filter (\<lambda>r. r_match_type r \<noteq> MatchCustomDetector) (rc_rules rc)"

lemma compiled_funcs:
  assumes "compiled lib reg rc sc"
  shows "list_all2 (matcher_of lib) (matcher_rules rc) (sc_matchers sc)"
    "detectors_ok (rc_rules rc) (matcher_rules rc) (sc_detectors sc)" "detectors_ok (rc_rules rc) (matcher_rules rc) []"
    "sc_threshold sc = rc_threshold rc" "sc_boostConfig sc = boost_config (rc_rules rc)"
proof -
  obtain ms ds where b: "build_loop lib reg (rc_rules rc) [] [] = Returns (ms, ds)"
    and sc: "sc = \<lparr>sc_matchers = ms, sc_detectors = ds, sc_boostConfig = boost_config (rc_rules rc),
      sc_threshold = rc_threshold rc\<rparr>"
    using assms by (auto simp: compiled_def New_def buildScanFuncs_def outcome_simps split: prod.splits)
  have "list_all (\<lambda>r. validMatchTypes (r_match_type r)) (rc_rules rc)"
    using assms by (auto simp: compiled_def validateRuleConfig_def validate_rules_None rule_ok_def list_all_iff
        split: if_splits)
  then have ok: "scanner_ok lib (rc_rules rc) ms ds"
    using build_loop_ok [OF _ _ _ b] assms by (auto simp: compiled_def)
  let ?drs = "filter (\<lambda>r. r_match_type r = MatchCustomDetector) (rc_rules rc)"
  show "list_all2 (matcher_of lib) (matcher_rules rc) (sc_matchers sc)"
    using ok by (simp add: scanner_ok_def matcher_rules_def sc)
  have dist: "distinct (map r_name (rc_rules rc)) \<Longrightarrow> distinct (map r_name (matcher_rules rc @ ?drs))"
    by (auto simp: matcher_rules_def distinct_map_filter distinct_map inj_on_def)
  have sub: "set (matcher_rules rc @ ?drs) \<subseteq> set (rc_rules rc)" by (auto simp: matcher_rules_def)
  have ds: "list_all2 func_of ?drs (sc_detectors sc)" using ok by (simp add: scanner_ok_def sc)
  show "detectors_ok (rc_rules rc) (matcher_rules rc) (sc_detectors sc)"
    unfolding detectors_ok_def using ds sub dist by blast
  have "distinct (map r_name (rc_rules rc)) \<Longrightarrow> distinct (map r_name (matcher_rules rc @ []))"
    using dist by simp
  then show "detectors_ok (rc_rules rc) (matcher_rules rc) []"
    unfolding detectors_ok_def using sub by (intro exI [of _ "[]"]) auto
  show "sc_threshold sc = rc_threshold rc" "sc_boostConfig sc = boost_config (rc_rules rc)" by (simp_all add: sc)
qed

text \<open>The views of an item that the matchers see: those of its content and those of its metadata.\<close>

definition item_views :: "scan_lib \<Rightarrow> bytes \<Rightarrow> string \<Rightarrow> string list \<Rightarrow> bytes set" where
  "item_views lib content ct md =
     set (all_views (Preprocess (sl_text lib) content ct)) \<union>
     (case metadata_text lib md of
        None \<Rightarrow> {}
      | Some joined \<Rightarrow> {c. \<exists>v \<in> set (metadata_views (Preprocess (sl_text lib) joined ''text/plain'')). fst (snd v) = Some c})"

lemma scanMetadata_ok:
  assumes "compiled lib reg rc sc"
  shows "\<exists>ss. scanMetadata lib sc md = Returns ss \<and> signals_ok (rc_rules rc) ss
    \<and> (\<forall>r \<in> set (matcher_rules rc). \<forall>joined v c. metadata_text lib md = Some joined
         \<and> v \<in> set (metadata_views (Preprocess (sl_text lib) joined ''text/plain'')) \<and> fst (snd v) = Some c
         \<and> rule_matches lib r c \<longrightarrow> r_name r \<in> sig_name ` set ss)"
proof (cases "metadata_text lib md")
  case None
  then show ?thesis by (simp add: scanMetadata_def signals_ok_def)
next
  case (Some joined)
  let ?vs = "metadata_views (Preprocess (sl_text lib) joined ''text/plain'')"
  have "\<forall>v \<in> set ?vs. detectors_ok (rc_rules rc) (matcher_rules rc) (snd (snd v))"
    using compiled_funcs(3) [OF assms] by (simp add: metadata_views_def)
  moreover have "signals_ok (rc_rules rc) []" by (simp add: signals_ok_def)
  ultimately obtain ss where "views_loop ''scan metadata'' ?vs (sc_matchers sc) [] = Returns ss" "signals_ok (rc_rules rc) ss"
    "\<forall>r \<in> set (matcher_rules rc). \<forall>v \<in> set ?vs. \<forall>c. fst (snd v) = Some c \<and> rule_matches lib r c \<longrightarrow>
       r_name r \<in> sig_name ` set ss"
    using views_loop_ok [OF compiled_funcs(1) [OF assms]] by blast
  moreover from this(1) have "scanMetadata lib sc md = Returns ss" using Some by (simp add: scanMetadata_def)
  ultimately show ?thesis using Some by (metis option.inject)
qed

lemma ScanWithMetadata_ok:
  assumes "compiled lib reg rc sc"
  shows "\<exists>cs ss. (\<forall>md'. metadata_text lib md' = None \<longrightarrow>
        ScanWithMetadata lib sc content ct md' = Returns (score_signals sc cs))
    \<and> ScanWithMetadata lib sc content ct md = Returns (score_signals sc ss)
    \<and> prefix cs ss \<and> signals_ok (rc_rules rc) ss
    \<and> (\<forall>r \<in> set (matcher_rules rc). \<forall>c \<in> item_views lib content ct md. rule_matches lib r c \<longrightarrow> r_name r \<in> sig_name ` set ss)"
proof -
  let ?pp = "Preprocess (sl_text lib) content ct" and ?rules = "rc_rules rc" and ?mrs = "matcher_rules rc"
  note cf = compiled_funcs [OF assms]
  obtain s0 where s0: "ScanContent (Normalized ?pp) (sc_matchers sc) (sc_detectors sc) = Returns s0" "signals_ok ?rules s0"
    "\<forall>r \<in> set ?mrs. rule_matches lib r (Normalized ?pp) \<longrightarrow> r_name r \<in> sig_name ` set s0"
    using ScanContent_ok [OF cf(1,2)] by blast
  have "\<forall>v \<in> set (content_views sc ?pp). detectors_ok ?rules ?mrs (snd (snd v))"
    using cf(2,3) by (simp add: content_views_def extra_views_def)
  from views_loop_ok [OF cf(1) this s0(2)] obtain cs where
    cs: "views_loop ''scan '' (content_views sc ?pp) (sc_matchers sc) s0 = Returns cs" "signals_ok ?rules cs" "prefix s0 cs"
      "\<forall>r \<in> set ?mrs. \<forall>v \<in> set (content_views sc ?pp). \<forall>c. fst (snd v) = Some c \<and> rule_matches lib r c \<longrightarrow>
        r_name r \<in> sig_name ` set cs" by blast
  obtain mss where mss: "scanMetadata lib sc md = Returns mss" "signals_ok ?rules mss"
    "\<forall>r \<in> set ?mrs. \<forall>joined v c. metadata_text lib md = Some joined
         \<and> v \<in> set (metadata_views (Preprocess (sl_text lib) joined ''text/plain'')) \<and> fst (snd v) = Some c
         \<and> rule_matches lib r c \<longrightarrow> r_name r \<in> sig_name ` set mss"
    using scanMetadata_ok [OF assms] by blast
  define ss where "ss = appendDeduped cs mss"
  have run: "ScanWithMetadata lib sc content ct md = Returns (score_signals sc ss)"
    by (simp add: ScanWithMetadata_def s0(1) cs(1) mss(1) owrap_def ss_def)
  have run0: "ScanWithMetadata lib sc content ct md' = Returns (score_signals sc cs)"
    if "metadata_text lib md' = None" for md'
    by (simp add: ScanWithMetadata_def s0(1) cs(1) scanMetadata_def that owrap_def appendDeduped_def)
  have names: "sig_name ` set s0 \<subseteq> sig_name ` set ss" "sig_name ` set cs \<subseteq> sig_name ` set ss"
    "sig_name ` set mss \<subseteq> sig_name ` set ss"
    using set_mono_prefix [OF cs(3)] by (auto simp: ss_def appendDeduped_names)
  have "r_name r \<in> sig_name ` set ss"
    if r: "r \<in> set ?mrs" "c \<in> item_views lib content ct md" "rule_matches lib r c" for r c
  proof -
    consider "c = Normalized ?pp" | v where "v \<in> set (content_views sc ?pp)" "fst (snd v) = Some c"
      | joined v where "metadata_text lib md = Some joined"
        "v \<in> set (metadata_views (Preprocess (sl_text lib) joined ''text/plain''))" "fst (snd v) = Some c"
      using r(2) unfolding item_views_def all_views_iff Un_iff
      by (fastforce simp: content_views_def extra_views_def all_views_iff split: option.splits)
    then show ?thesis using r(1,3) s0(3) cs(4) mss(3) names by cases blast+
  qed
  then show ?thesis
    using run run0 appendDeduped_ok [OF cs(2) mss(2)] appendDeduped_prefix
    by (intro exI [of _ cs] exI [of _ ss]) (auto simp: ss_def)
qed

section \<open>Scores of a compiled scan\<close>

lemma boost_config_from:
  "boost_config rules name = Some factor \<Longrightarrow>
   \<exists>r \<in> set rules. r_name r = name \<and> r_behavior r = ''weight_booster'' \<and> r_boost_factor r = factor"
proof -
  have "fold (\<lambda>rule m. if r_behavior rule = ''weight_booster'' then m(r_name rule \<mapsto> r_boost_factor rule) else m)
      rules m name = Some factor \<Longrightarrow>
    (\<exists>r \<in> set rules. r_name r = name \<and> r_behavior r = ''weight_booster'' \<and> r_boost_factor r = factor)
      \<or> m name = Some factor" for m :: "string \<rightharpoonup> rat"
    by (induction rules arbitrary: m) (fastforce split: if_splits)+
  then show "boost_config rules name = Some factor \<Longrightarrow> ?thesis" unfolding boost_config_def by fastforce
qed

definition boosts_of :: "Scanner \<Rightarrow> Signal list \<Rightarrow> BoostRule list" where
  "boosts_of s signals = List.map_filter (\<lambda>sig. map_option (\<lambda>factor. \<lparr>br_name = sig_name sig, br_factor = factor\<rparr>)
                     (sc_boostConfig s (sig_name sig))) signals"

lemma score_signals_simps:
  "sr_total (score_signals s ss) =
     sr_total (ScoreSignals (filter (\<lambda>sig. sc_boostConfig s (sig_name sig) = None) ss) (boosts_of s ss) (sc_threshold s))"
  "sr_verdict (score_signals s ss) = VerdictQuarantine \<longleftrightarrow> sc_threshold s \<le> sr_total (score_signals s ss)"
  "sr_signals (score_signals s ss) = ss"
  by (simp_all add: score_signals_def boosts_of_def Let_def score_verdict [symmetric])

lemma compiled_weights:
  assumes "compiled lib reg rc sc" "\<forall>s \<in> set ss. from_rules (rc_rules rc) s"
  shows "\<forall>s \<in> set ss. 0 \<le> sig_weight s" "\<forall>b \<in> set (boosts_of sc ss). 1 \<le> br_factor b"
proof -
  have ok: "\<forall>r \<in> set (rc_rules rc). rule_ok (sl_rx lib) r"
    using assms(1) by (auto simp: compiled_def validateRuleConfig_def validate_rules_None split: if_splits)
  then show "\<forall>s \<in> set ss. 0 \<le> sig_weight s" using assms(2) by (force simp: from_rules_def rule_ok_def)
  show "\<forall>b \<in> set (boosts_of sc ss). 1 \<le> br_factor b"
  proof
    fix b assume "b \<in> set (boosts_of sc ss)"
    then obtain sig :: Signal and factor
      where f: "sc_boostConfig sc (sig_name sig) = Some factor" "br_factor b = factor"
      unfolding boosts_of_def set_map_filter by auto
    then obtain r where "r \<in> set (rc_rules rc)" "r_behavior r = ''weight_booster''" "r_boost_factor r = factor"
      using compiled_funcs(5) [OF assms(1)] boost_config_from by metis
    with ok f show "1 \<le> br_factor b" by (auto simp: rule_ok_def)
  qed
qed

lemma score_signals_mono:
  assumes "compiled lib reg rc sc" "subseq as bs" "\<forall>s \<in> set bs. from_rules (rc_rules rc) s"
  shows "sr_total (score_signals sc as) \<le> sr_total (score_signals sc bs)"
  unfolding score_signals_simps(1)
proof (rule score_total_mono)
  show "subseq (filter (\<lambda>sig. sc_boostConfig sc (sig_name sig) = None) as)
      (filter (\<lambda>sig. sc_boostConfig sc (sig_name sig) = None) bs)" using assms(2) by (rule subseq_filter)
  show "subseq (boosts_of sc as) (boosts_of sc bs)"
    unfolding boosts_of_def List.map_filter_def comp_def
    by (intro subseq_map subseq_filter assms(2))
  show "\<forall>s \<in> set (filter (\<lambda>sig. sc_boostConfig sc (sig_name sig) = None) bs). 0 \<le> sig_weight s"
    "\<forall>b \<in> set (boosts_of sc bs). 1 \<le> br_factor b"
    using compiled_weights [OF assms(1,3)] by auto
qed

lemma score_signals_member:
  assumes "compiled lib reg rc sc" "\<forall>s \<in> set ss. from_rules (rc_rules rc) s"
    and "s \<in> set ss" "sc_boostConfig sc (sig_name s) = None" "f64 (sig_weight s) = sig_weight s"
  shows "sig_weight s \<le> sr_total (score_signals sc ss)"
proof -
  note w = compiled_weights [OF assms(1,2)]
  have "1 \<le> boost_loop 1 (boosts_of sc ss)" using w(2) by (intro boost_loop_ge) auto
  then have "sig_weight s \<le> total_loop (boost_loop 1 (boosts_of sc ss)) 0
      (filter (\<lambda>sig. sc_boostConfig sc (sig_name sig) = None) ss)"
    using assms(3-5) w(1) by (intro total_loop_member) auto
  then show ?thesis by (simp add: score_signals_simps(1) ScoreSignals_def Let_def)
qed

section \<open>A concrete scanner\<close>

definition sample_slib :: scan_lib where
  "sample_slib = \<lparr>sl_text = sample_lib, sl_rx = (\<lambda>p. Some (\<lambda>_. [])), sl_lower = (\<lambda>b. b)\<rparr>"

definition sample_rule :: Rule where
  "sample_rule = \<lparr>r_name = ''instruction_override'', r_patterns = [''ignore''], r_weight = 1,
     r_match_type = MatchSubstring, r_detector = [], r_behavior = [], r_boost_factor = 0\<rparr>"

definition sample_rc :: RuleConfig where
  "sample_rc = \<lparr>rc_rules = [sample_rule], rc_threshold = 4 / 5\<rparr>"

definition sample_sc :: Scanner where
  "sample_sc = \<lparr>sc_matchers = [makeMatcherScanFunc SubstringMatcher sample_rule], sc_detectors = [],
     sc_boostConfig = Map.empty, sc_threshold = 4 / 5\<rparr>"

lemma sample_compiled: "compiled sample_slib NewRegistry sample_rc sample_sc"
  by (simp add: compiled_def New_def buildScanFuncs_def sample_rc_def sample_rule_def sample_sc_def boost_config_def
      validateRuleConfig_def validate_rule_def validMatchTypes_def match_type_defs registry_contract_def Get_def
      NewRegistry_def no_empty_patterns_def)

lemma sample_view: "''please ignore this'' \<in> item_views sample_slib ''please ignore this'' ''text/plain'' []"
proof -
  have "all_ascii ''please ignore this''" by (simp add: all_ascii_def)
  then have "Normalized (Preprocess sample_lib ''please ignore this'' ''text/plain'') = ''please ignore this''"
    by (simp add: Normalized_plain sample_lib_def StripInvisible_ascii)
  then show ?thesis by (simp add: item_views_def sample_slib_def all_views_def)
qed

lemma sample_rule_hit: "rule_matches sample_slib sample_rule ''please ignore this''"
  by (simp add: rule_matches_def sample_rule_def match_type_defs sublist_code)

lemma rule_hit_quarantines:
  assumes "compiled lib reg rc sc"
    and "r \<in> set (rc_rules rc)" "r_match_type r \<noteq> MatchCustomDetector"
    and "v \<in> item_views lib content ct md" "rule_matches lib r v"
    and "\<forall>r' \<in> set (rc_rules rc). r_name r' = r_name r \<longrightarrow>
           r_behavior r' \<noteq> ''weight_booster'' \<and> rc_threshold rc \<le> r_weight r' \<and> f64 (r_weight r') = r_weight r'"
  shows "\<exists>res. ScanWithMetadata lib sc content ct md = Returns res \<and> sr_verdict res = VerdictQuarantine"
proof -
  have r: "r \<in> set (matcher_rules rc)" using assms(2,3) by (simp add: matcher_rules_def)
  obtain ss where ss: "ScanWithMetadata lib sc content ct md = Returns (score_signals sc ss)"
    "signals_ok (rc_rules rc) ss" "r_name r \<in> sig_name ` set ss"
    using ScanWithMetadata_ok [OF assms(1)] r assms(4,5) by blast
  then obtain s where s: "s \<in> set ss" "sig_name s = r_name r" by auto
  have frm: "\<forall>s \<in> set ss. from_rules (rc_rules rc) s" using ss(2) by (simp add: signals_ok_def)
  then obtain r' where r': "r' \<in> set (rc_rules rc)" "sig_name s = r_name r'" "sig_weight s = r_weight r'"
    using s(1) by (auto simp: from_rules_def)
  have "boost_config (rc_rules rc) (r_name r) = None"
    using boost_config_from assms(6) by (cases "boost_config (rc_rules rc) (r_name r)") blast+
  then have "sig_weight s \<le> sr_total (score_signals sc ss)"
    using assms(6) r' s compiled_funcs(5) [OF assms(1)]
    by (intro score_signals_member [OF assms(1) frm s(1)]) auto
  moreover have "rc_threshold rc \<le> sig_weight s" using assms(6) r' s by auto
  ultimately have "sr_verdict (score_signals sc ss) = VerdictQuarantine"
    using compiled_funcs(4) [OF assms(1)] by (simp add: score_signals_simps)
  with ss(1) show ?thesis by blast
qed

text \<open>
  C2: A heavy rule quarantines wherever its pattern surfaces. For a validated rule file compiled
  into a scanner, without empty substring patterns: if a matcher rule matches in any view of the
  content (normalized, raw HTML, folded, decoded, unescaped, reordered, pre-scrub) or of the
  metadata, and every rule of that name is no booster and weighs at least the threshold (weights
  being doubles), then the scan returns and its verdict is quarantine.
\<close>

theorem heavy_rule_quarantines:
  assumes "compiled lib reg rc sc"
    and "r \<in> set (rc_rules rc)" "r_match_type r \<noteq> MatchCustomDetector"
    and "v \<in> item_views lib content ct md" "rule_matches lib r v"
    and "\<forall>r' \<in> set (rc_rules rc). r_name r' = r_name r \<longrightarrow>
           r_behavior r' \<noteq> ''weight_booster'' \<and> rc_threshold rc \<le> r_weight r' \<and> f64 (r_weight r') = r_weight r'"
  shows "\<exists>res. ScanWithMetadata lib sc content ct md = Returns res \<and> sr_verdict res = VerdictQuarantine"
  using rule_hit_quarantines [OF assms] .

theorem heavy_rule_quarantines_witness:
  "\<exists>res. ScanWithMetadata sample_slib sample_sc ''please ignore this'' ''text/plain'' [] = Returns res
     \<and> sr_verdict res = VerdictQuarantine"
  by (rule heavy_rule_quarantines [OF sample_compiled _ _ sample_view sample_rule_hit])
    (simp_all add: sample_rc_def sample_rule_def match_type_defs)

text \<open>
  C13: A compiled scanner always answers, and counts no rule twice. Whatever the content, its type
  and the metadata, the scan of a validated rule file without empty patterns returns a result;
  every signal names a configured rule and carries its weight; with distinct rule names no rule
  appears twice although up to a dozen views were scanned; and the verdict is quarantine exactly
  when the total reaches the configured threshold.
\<close>

theorem ScanWithMetadata_answers:
  assumes "compiled lib reg rc sc"
  shows "\<exists>res. ScanWithMetadata lib sc content ct md = Returns res
    \<and> (\<forall>s \<in> set (sr_signals res). from_rules (rc_rules rc) s)
    \<and> (distinct (map r_name (rc_rules rc)) \<longrightarrow> distinct (map sig_name (sr_signals res)))
    \<and> (sr_verdict res = VerdictQuarantine \<longleftrightarrow> rc_threshold rc \<le> sr_total res)"
proof -
  obtain ss where "ScanWithMetadata lib sc content ct md = Returns (score_signals sc ss)" "signals_ok (rc_rules rc) ss"
    using ScanWithMetadata_ok [OF assms] by blast
  then show ?thesis
    by (intro exI [of _ "score_signals sc ss"])
      (simp add: score_signals_simps signals_ok_def compiled_funcs(4) [OF assms])
qed

theorem ScanWithMetadata_answers_witness:
  "\<exists>res. ScanWithMetadata sample_slib sample_sc ''hi'' ''text/plain'' [''re: hi''] = Returns res
    \<and> (\<forall>s \<in> set (sr_signals res). from_rules (rc_rules sample_rc) s)
    \<and> (distinct (map r_name (rc_rules sample_rc)) \<longrightarrow> distinct (map sig_name (sr_signals res)))
    \<and> (sr_verdict res = VerdictQuarantine \<longleftrightarrow> rc_threshold sample_rc \<le> sr_total res)"
  by (rule ScanWithMetadata_answers [OF sample_compiled])

text \<open>
  C34: Scanning the metadata too is never weaker: if the content alone is quarantined, so is the
  item with any metadata, and the total does not drop.
\<close>

theorem metadata_never_weakens:
  assumes "compiled lib reg rc sc" "Scan lib sc content ct = Returns res0"
    "ScanWithMetadata lib sc content ct md = Returns res"
  shows "sr_total res0 \<le> sr_total res
    \<and> (sr_verdict res0 = VerdictQuarantine \<longrightarrow> sr_verdict res = VerdictQuarantine)"
proof -
  obtain cs ss where *: "ScanWithMetadata lib sc content ct [] = Returns (score_signals sc cs)"
    "ScanWithMetadata lib sc content ct md = Returns (score_signals sc ss)" "prefix cs ss" "signals_ok (rc_rules rc) ss"
    using ScanWithMetadata_ok [OF assms(1), of content ct md] by (auto simp: metadata_text_def)
  have "subseq cs ss" using *(3) by (auto simp: prefix_def)
  then have "sr_total (score_signals sc cs) \<le> sr_total (score_signals sc ss)"
    using *(4) by (intro score_signals_mono [OF assms(1)]) (auto simp: signals_ok_def)
  then show ?thesis using * assms(2,3) by (auto simp: Scan_def score_signals_simps)
qed

theorem metadata_never_weakens_witness:
  "\<exists>res0 res. Scan sample_slib sample_sc ''hi'' ''text/plain'' = Returns res0
    \<and> ScanWithMetadata sample_slib sample_sc ''hi'' ''text/plain'' [''ignore''] = Returns res
    \<and> sr_total res0 \<le> sr_total res
    \<and> (sr_verdict res0 = VerdictQuarantine \<longrightarrow> sr_verdict res = VerdictQuarantine)"
proof -
  obtain res0 res where *: "Scan sample_slib sample_sc ''hi'' ''text/plain'' = Returns res0"
    "ScanWithMetadata sample_slib sample_sc ''hi'' ''text/plain'' [''ignore''] = Returns res"
    unfolding Scan_def using ScanWithMetadata_ok [OF sample_compiled, of "''hi''" "''text/plain''" "[]"]
      ScanWithMetadata_ok [OF sample_compiled, of "''hi''" "''text/plain''" "[''ignore'']"] by (elim exE conjE) blast
  then show ?thesis using metadata_never_weakens [OF sample_compiled *] by blast
qed

end
