(* ===== verification/Staging.thy ===== *)
theory Staging
  imports Fmt
begin

text \<open>
  \<^verbatim>\<open>internal/staging\<close>: the metadata of a staged item, the audience rules, the validation of an item
  before it is scanned, and the mapping of its errors to reject reasons. Error texts are modelled as
  they are printed, because \<^verbatim>\<open>RejectReasonFromError\<close> decides by searching them.
\<close>

section \<open>Data (types.go)\<close>

record ItemIdentity =
  id_accountID :: string
  id_provider :: string
  id_authMethod :: string
  id_scopes :: "string list"
  id_tenant :: string

text \<open>
  A time is its distance in nanoseconds from Go's zero time. The tags are listed in the order in
  which the range loop meets them, which Go leaves open. A nil audience is \<open>None\<close>. The enrichment
  records and the tier are not read by the code modelled here.
\<close>

record ItemMetadata =
  im_source :: string
  im_sender :: string
  im_subject :: string
  im_timestamp :: int
  im_destinationAgent :: string
  im_contentType :: string
  im_ordered :: bool
  im_authFailure :: bool
  im_identity :: "ItemIdentity option"
  im_tags :: "(string \<times> string) list"
  im_dataSubject :: string
  im_audience :: "string list option"

record StagingItem =
  si_dirPath :: string
  si_contentPath :: string
  si_metadata :: ItemMetadata

section \<open>Audience (audience.go)\<close>

definition AudienceSubject :: string where "AudienceSubject = ''subject''"
definition AudienceGuardians :: string where "AudienceGuardians = ''guardians''"
definition AudienceSiblings :: string where "AudienceSiblings = ''siblings''"
definition AudienceHousehold :: string where "AudienceHousehold = ''household''"
definition AudienceCaregivers :: string where "AudienceCaregivers = ''caregivers''"
definition AudiencePublic :: string where "AudiencePublic = ''public''"
definition AudienceOperator :: string where "AudienceOperator = ''operator''"

lemmas audience_defs = AudienceSubject_def AudienceGuardians_def AudienceSiblings_def AudienceHousehold_def
  AudienceCaregivers_def AudiencePublic_def AudienceOperator_def

definition maxAudienceEntries :: nat where "maxAudienceEntries = 16"

definition validAudienceTokens :: "string list" where
  "validAudienceTokens = [AudienceSubject, AudienceGuardians, AudienceSiblings, AudienceHousehold,
     AudienceCaregivers, AudiencePublic, AudienceOperator]"

definition householdSubsetTokens :: "string list" where
  "householdSubsetTokens = [AudienceSubject, AudienceGuardians, AudienceSiblings]"

definition subjectRelativeTokens :: "string list" where
  "subjectRelativeTokens = [AudienceSubject, AudienceSiblings]"

text \<open>The loop over the tokens: the first unknown or repeated token is the error.\<close>

fun token_loop :: "unicode_data \<Rightarrow> string list \<Rightarrow> string list \<Rightarrow> string option" where
  "token_loop ud seen [] = None"
| "token_loop ud seen (tok # toks) =
     (if tok \<notin> set validAudienceTokens then Some (''unknown audience token '' @ go_quote ud tok)
      else if tok \<in> set seen then Some (''duplicate audience token '' @ go_quote ud tok)
      else token_loop ud (tok # seen) toks)"

definition ValidateAudience :: "unicode_data \<Rightarrow> string list option \<Rightarrow> bool \<Rightarrow> string option" where
  "ValidateAudience ud audience hasDataSubject =
     (case audience of
        None \<Rightarrow> None
      | Some auds \<Rightarrow>
          if length auds = 0 then Some ''audience must be omitted entirely, not empty''
          else if length auds > maxAudienceEntries then
            Some (''audience has too many entries (max '' @ show_nat maxAudienceEntries @ '')'')
          else (case token_loop ud [] auds of
                  Some e \<Rightarrow> Some e
                | None \<Rightarrow>
                    let hasPublic = AudiencePublic \<in> set auds;
                        hasHousehold = AudienceHousehold \<in> set auds;
                        hasOperator = AudienceOperator \<in> set auds;
                        hasHouseholdSubset = list_ex (\<lambda>t. t \<in> set householdSubsetTokens) auds;
                        hasSubjectRelative = list_ex (\<lambda>t. t \<in> set subjectRelativeTokens) auds
                    in if hasPublic \<and> length auds > 1 then Some ''public must appear alone in audience''
                       else if hasOperator \<and> length auds > 1 then Some ''operator must appear alone in audience''
                       else if hasHousehold \<and> hasHouseholdSubset then
                         Some ''household must appear alone with its subsets (subject/guardians/siblings); only caregivers may coexist''
                       else if \<not> hasDataSubject \<and> hasSubjectRelative then
                         Some ''audience token requires data_subject to be set (subject/siblings)''
                       else None))"

definition EffectiveAudience :: "ItemMetadata \<Rightarrow> string list" where
  "EffectiveAudience m = (case im_audience m of None \<Rightarrow> [AudienceHousehold] | Some auds \<Rightarrow> auds)"

section \<open>Validation (metadata.go)\<close>

record ValidationError =
  ve_field :: string
  ve_message :: string

definition VErr :: "string \<Rightarrow> string \<Rightarrow> ValidationError" where
  "VErr f m = \<lparr>ve_field = f, ve_message = m\<rparr>"

definition ve_Error :: "ValidationError \<Rightarrow> string" where
  "ve_Error e = ve_field e @ '': '' @ ve_message e"

text \<open>\<^verbatim>\<open>unicode.IsControl\<close> is the category Cc: the C0 and C1 ranges and DEL.\<close>

definition IsUnsafeControl :: "rune \<Rightarrow> bool" where
  "IsUnsafeControl r \<longleftrightarrow> (r < 0x20 \<or> (0x7F \<le> r \<and> r < 0xA0)) \<and> r \<noteq> 0x0A \<and> r \<noteq> 0x0D \<and> r \<noteq> 0x09"

definition StripSubjectControlChars :: "string \<Rightarrow> string" where
  "StripSubjectControlChars subj = go_map (\<lambda>r. if IsUnsafeControl r then None else Some r) subj"

definition hasControlChars :: "string \<Rightarrow> bool" where
  "hasControlChars s = list_ex IsUnsafeControl (runes s)"

definition validTagKey :: "string \<Rightarrow> bool" where
  "validTagKey k \<longleftrightarrow> k \<noteq> [] \<and>
     list_all (\<lambda>c. is_lower_ascii c \<or> is_upper_ascii c \<or> is_digit_ascii c
       \<or> c = CHR ''-'' \<or> c = CHR ''_'' \<or> c = CHR ''.'') k"

definition check :: "bool \<Rightarrow> string \<Rightarrow> string \<Rightarrow> ValidationError list" where
  "check bad f m = (if bad then [VErr f m] else [])"

fun scope_loop :: "nat \<Rightarrow> string list \<Rightarrow> ValidationError list" where
  "scope_loop i [] = []"
| "scope_loop i (scope # scopes) =
     check (length scope > 64) ''identity.scopes'' (''scope['' @ show_nat i @ ''] exceeds 64 characters'')
     @ scope_loop (Suc i) scopes"

definition validateIdentity :: "ItemIdentity \<Rightarrow> ValidationError list" where
  "validateIdentity idn =
     check (length (id_provider idn) > 64) ''identity.provider'' ''exceeds 64 characters''
     @ check (hasControlChars (id_provider idn)) ''identity.provider'' ''contains control characters''
     @ check (length (id_authMethod idn) > 64) ''identity.auth_method'' ''exceeds 64 characters''
     @ check (hasControlChars (id_authMethod idn)) ''identity.auth_method'' ''contains control characters''
     @ check (length (id_accountID idn) > 1024) ''identity.account_id'' ''exceeds 1024 characters''
     @ check (hasControlChars (id_accountID idn)) ''identity.account_id'' ''contains control characters''
     @ check (length (id_tenant idn) > 256) ''identity.tenant'' ''exceeds 256 characters''
     @ check (hasControlChars (id_tenant idn)) ''identity.tenant'' ''contains control characters''
     @ check (length (id_scopes idn) > 32) ''identity.scopes'' ''exceeds 32 entries''
     @ scope_loop 0 (id_scopes idn)"

definition validate_tag :: "unicode_data \<Rightarrow> string \<times> string \<Rightarrow> ValidationError list" where
  "validate_tag ud kv =
     (let k = fst kv; v = snd kv in
      check (length k > 64) ''tags'' (''key '' @ go_quote ud k @ '' exceeds 64 characters'')
      @ check (\<not> validTagKey k) ''tags''
          (''key '' @ go_quote ud k @ '' contains invalid characters (allowed: alphanumeric, -, _, .)'')
      @ check (length v > 1024) ''tags'' (''value for key '' @ go_quote ud k @ '' exceeds 1024 characters'')
      @ check (hasControlChars v) ''tags'' (''value for key '' @ go_quote ud k @ '' contains control characters''))"

definition validateTags :: "unicode_data \<Rightarrow> (string \<times> string) list \<Rightarrow> ValidationError list" where
  "validateTags ud tags =
     check (length tags > 32) ''tags'' (''exceeds 32 tags (has '' @ show_nat (length tags) @ '')'')
     @ concat (map (validate_tag ud) tags)"

definition Validate :: "unicode_data \<Rightarrow> ItemMetadata \<Rightarrow> string list \<Rightarrow> ValidationError list" where
  "Validate ud meta allowlist =
     check (im_source meta = '''') ''source'' ''required''
     @ check (im_sender meta = '''') ''sender'' ''required''
     @ check (im_timestamp meta = 0) ''timestamp'' ''required''
     @ check (im_destinationAgent meta = '''') ''destination_agent'' ''required''
     @ check (im_contentType meta = '''') ''content_type'' ''required''
     @ check (im_destinationAgent meta \<noteq> '''' \<and> im_destinationAgent meta \<notin> set allowlist) ''destination_agent''
         (''not in allowlist: '' @ go_quote ud (im_destinationAgent meta))
     @ check (length (im_source meta) > 1024) ''source'' ''exceeds 1024 characters''
     @ check (length (im_sender meta) > 1024) ''sender'' ''exceeds 1024 characters''
     @ check (length (im_subject meta) > 1024) ''subject'' ''exceeds 1024 characters''
     @ check (length (im_destinationAgent meta) > 64) ''destination_agent'' ''exceeds 64 characters''
     @ check (length (im_contentType meta) > 64) ''content_type'' ''exceeds 64 characters''
     @ check (hasControlChars (im_source meta)) ''source'' ''contains control characters''
     @ check (hasControlChars (im_sender meta)) ''sender'' ''contains control characters''
     @ check (hasControlChars (im_destinationAgent meta)) ''destination_agent'' ''contains control characters''
     @ check (hasControlChars (im_contentType meta)) ''content_type'' ''contains control characters''
     @ (case im_identity meta of None \<Rightarrow> [] | Some idn \<Rightarrow> validateIdentity idn)
     @ (if length (im_tags meta) > 0 then validateTags ud (im_tags meta) else [])
     @ (if im_dataSubject meta \<noteq> '''' then
          check (length (im_dataSubject meta) > 256) ''data_subject'' ''exceeds 256 characters''
          @ check (hasControlChars (im_dataSubject meta)) ''data_subject'' ''contains control characters''
        else [])
     @ (case ValidateAudience ud (im_audience meta) (im_dataSubject meta \<noteq> '''') of
          None \<Rightarrow> [] | Some e \<Rightarrow> [VErr ''audience'' e])
     @ check (im_authFailure meta) ''auth_failure'' ''source authentication failed''"

definition RejectReason :: "ValidationError list \<Rightarrow> string" where
  "RejectReason errs =
     (if list_ex (\<lambda>e. ve_field e = ''auth_failure'') errs then ''source_auth_failure''
      else if list_ex (\<lambda>e. ve_field e = ''destination_agent'' \<and> ve_message e \<noteq> ''required'') errs
        then ''unknown_destination''
      else ''malformed_metadata'')"

definition RejectReasonFromError :: "string \<Rightarrow> string" where
  "RejectReasonFromError msg =
     (if go_contains msg ''auth_failure'' then ''source_auth_failure''
      else if go_contains msg ''not in allowlist'' then ''unknown_destination''
      else if go_contains msg ''metadata.json'' then ''malformed_metadata''
      else if go_contains msg ''content'' then ''content_unreadable''
      else ''malformed_metadata'')"

section \<open>Reading an item (scanner.go)\<close>

text \<open>
  Opening and reading a file and decoding its JSON are parameters; their errors are the texts the
  library prints.
\<close>

text \<open>\<^verbatim>\<open>%v\<close> of a slice of validation errors.\<close>

definition show_errs :: "ValidationError list \<Rightarrow> string" where
  "show_errs errs = ''['' @ go_join '' '' (map ve_Error errs) @ '']''"

definition ReadStagingItem ::
  "unicode_data \<Rightarrow> (string \<Rightarrow> string + bytes) \<Rightarrow> (bytes \<Rightarrow> string + ItemMetadata) \<Rightarrow> string \<Rightarrow> string list
   \<Rightarrow> string + StagingItem" where
  "ReadStagingItem ud read parse dirPath allowlist =
     (case read (go_Join [dirPath, ''metadata.json'']) of
        Inl e \<Rightarrow> Inl (''metadata.json: '' @ e)
      | Inr raw \<Rightarrow>
          (case parse raw of
             Inl e \<Rightarrow> Inl (''parse metadata: '' @ e)
           | Inr meta0 \<Rightarrow>
               let meta = meta0\<lparr>im_subject := StripSubjectControlChars (im_subject meta0)\<rparr>;
                   errs = Validate ud meta allowlist
               in if length errs > 0 then Inl (''validation failed: '' @ show_errs errs)
                  else Inr \<lparr>si_dirPath = dirPath, si_contentPath = go_Join [dirPath, ''content.raw''],
                            si_metadata = meta\<rparr>))"

section \<open>The audience rules\<close>

lemma token_loop_None:
  "token_loop ud seen toks = None \<longleftrightarrow>
     set toks \<subseteq> set validAudienceTokens \<and> distinct toks \<and> set toks \<inter> set seen = {}"
  by (induction toks arbitrary: seen) auto

text \<open>
  Which audiences are accepted, in closed form: none at all, or a non-empty list of different
  known tokens in which public and operator stand alone, household does not stand beside one of its
  own subsets, and the tokens relative to a subject (subject, siblings) occur only when the item
  names one. The cap of 16 entries never decides: at most seven different tokens exist.
\<close>

theorem ValidateAudience_iff:
  "ValidateAudience ud audience hasDS = None \<longleftrightarrow>
     (case audience of
        None \<Rightarrow> True
      | Some auds \<Rightarrow>
          auds \<noteq> [] \<and> set auds \<subseteq> set validAudienceTokens \<and> distinct auds
          \<and> (AudiencePublic \<in> set auds \<longrightarrow> auds = [AudiencePublic])
          \<and> (AudienceOperator \<in> set auds \<longrightarrow> auds = [AudienceOperator])
          \<and> (AudienceHousehold \<in> set auds \<longrightarrow> set auds \<inter> set householdSubsetTokens = {})
          \<and> (set auds \<inter> set subjectRelativeTokens \<noteq> {} \<longrightarrow> hasDS))"
proof (cases audience)
  case None
  then show ?thesis by (simp add: ValidateAudience_def)
next
  case (Some auds)
  have cap: "length auds \<le> maxAudienceEntries" if "set auds \<subseteq> set validAudienceTokens" "distinct auds"
  proof -
    have "length auds = card (set auds)" using that(2) by (simp add: distinct_card)
    also have "\<dots> \<le> card (set validAudienceTokens)" using that(1) by (rule card_mono [rotated]) simp
    also have "\<dots> \<le> length validAudienceTokens" by (rule card_length)
    finally show ?thesis by (simp add: validAudienceTokens_def maxAudienceEntries_def)
  qed
  have alone: "x \<in> set auds \<Longrightarrow> \<not> length auds > 1 \<longleftrightarrow> auds = [x]" for x
    by (cases auds; cases "tl auds") auto
  show ?thesis
  proof (cases "set auds \<subseteq> set validAudienceTokens \<and> distinct auds")
    case True
    then have tok: "token_loop ud [] auds = None" by (simp add: token_loop_None)
    have ex: "list_ex (\<lambda>t. t \<in> set xs) auds \<longleftrightarrow> set auds \<inter> set xs \<noteq> {}" for xs
      by (auto simp: list_ex_iff)
    have cap': "\<not> maxAudienceEntries < length auds" using cap True by simp
    show ?thesis
      unfolding Some ValidateAudience_def option.case Let_def tok ex
      using True cap' alone [of AudiencePublic] alone [of AudienceOperator] by auto
  next
    case False
    then obtain e where "token_loop ud [] auds = Some e"
      by (cases "token_loop ud [] auds") (auto simp: token_loop_None)
    then show ?thesis using False by (auto simp: Some ValidateAudience_def)
  qed
qed

theorem ValidateAudience_iff_witness:
  "ValidateAudience sample_ud (Some [AudienceSubject, AudienceGuardians]) True = None
   \<and> ValidateAudience sample_ud (Some [AudienceHousehold, AudienceGuardians]) True \<noteq> None
   \<and> ValidateAudience sample_ud (Some [AudienceSubject]) False \<noteq> None"
  unfolding ValidateAudience_iff
  by (simp add: validAudienceTokens_def householdSubsetTokens_def subjectRelativeTokens_def audience_defs)

section \<open>What a staged item guarantees\<close>

lemma check_Nil [simp]: "check bad f m = [] \<longleftrightarrow> \<not> bad"
  by (simp add: check_def)

lemma StripSubject_clean: "\<not> hasControlChars (StripSubjectControlChars s)"
  unfolding StripSubjectControlChars_def hasControlChars_def
  by (subst runes_go_map) (auto simp: List.map_filter_def list_ex_iff split: if_splits)

text \<open>A concrete item.\<close>

definition sample_meta :: ItemMetadata where
  "sample_meta = \<lparr>im_source = ''imap'', im_sender = ''a@b'', im_subject = ''hi'', im_timestamp = 1,
     im_destinationAgent = ''mail'', im_contentType = ''text/plain'', im_ordered = False, im_authFailure = False,
     im_identity = None, im_tags = [], im_dataSubject = [], im_audience = None\<rparr>"

lemma StripSubject_ascii: "StripSubjectControlChars ''hi'' = ''hi''"
  unfolding StripSubjectControlChars_def by (rule go_map_id) (auto simp: ascii_valid all_ascii_def runes_ascii_Cons IsUnsafeControl_def)

lemma sample_valid: "Validate sample_ud sample_meta [''mail''] = []"
proof -
  have c: "\<not> hasControlChars ''imap''" "\<not> hasControlChars ''a@b''" "\<not> hasControlChars ''mail''"
    "\<not> hasControlChars ''text/plain''"
    by (simp_all add: hasControlChars_def runes_ascii_Cons IsUnsafeControl_def)
  then show ?thesis by (simp add: Validate_def sample_meta_def ValidateAudience_def)
qed

lemma sample_read:
  "ReadStagingItem sample_ud (\<lambda>_. Inr ''{}'') (\<lambda>_. Inr sample_meta) ''/staging/i1'' [''mail''] =
     Inr \<lparr>si_dirPath = ''/staging/i1'', si_contentPath = ''/staging/i1/content.raw'', si_metadata = sample_meta\<rparr>"
proof -
  have "sample_meta\<lparr>im_subject := StripSubjectControlChars (im_subject sample_meta)\<rparr> = sample_meta"
    by (simp add: sample_meta_def StripSubject_ascii)
  then show ?thesis by (simp add: ReadStagingItem_def sample_valid go_Join_def go_Clean_def clean_step_def Let_def)
qed

text \<open>
  What a staged item that was read without an error guarantees, whatever its metadata file
  said: the destination is one of the allowlist, source, sender, destination and content type are
  present, bounded and free of control characters, the subject line is free of them too, the
  source did not report an authentication failure, and the audience is a valid one.
\<close>

theorem ReadStagingItem_valid:
  assumes "ReadStagingItem ud read parse dir allowlist = Inr item"
  shows "let m = si_metadata item in
    im_destinationAgent m \<in> set allowlist \<and> im_destinationAgent m \<noteq> [] \<and> length (im_destinationAgent m) \<le> 64
    \<and> im_source m \<noteq> [] \<and> length (im_source m) \<le> 1024 \<and> im_sender m \<noteq> [] \<and> length (im_sender m) \<le> 1024
    \<and> im_contentType m \<noteq> [] \<and> length (im_contentType m) \<le> 64
    \<and> \<not> list_ex hasControlChars [im_source m, im_sender m, im_destinationAgent m, im_contentType m, im_subject m]
    \<and> \<not> im_authFailure m \<and> ValidateAudience ud (im_audience m) (im_dataSubject m \<noteq> []) = None
    \<and> si_dirPath item = dir \<and> si_contentPath item = go_Join [dir, ''content.raw'']"
proof -
  obtain meta0 where "Validate ud (meta0\<lparr>im_subject := StripSubjectControlChars (im_subject meta0)\<rparr>) allowlist = []"
    and item: "item = \<lparr>si_dirPath = dir, si_contentPath = go_Join [dir, ''content.raw''],
      si_metadata = meta0\<lparr>im_subject := StripSubjectControlChars (im_subject meta0)\<rparr>\<rparr>"
    using assms by (auto simp: ReadStagingItem_def Let_def split: sum.splits if_splits)
  then show ?thesis
    by (auto simp: Validate_def Let_def StripSubject_clean not_less split: option.splits)
qed

theorem ReadStagingItem_valid_witness:
  "im_destinationAgent sample_meta \<in> set [''mail''] \<and> \<not> im_authFailure sample_meta"
  using ReadStagingItem_valid [OF sample_read] by (simp add: Let_def)

section \<open>Reject reasons\<close>

lemma sublist_join: "x \<in> set xs \<Longrightarrow> sublist x (go_join sep xs)"
proof (induction sep xs rule: go_join.induct)
  case (3 sep y z zs)
  then have "x = y \<or> sublist x (go_join sep (z # zs))" by auto
  then show ?case using sublist_right [of x _ "y @ sep"] by auto
qed auto

lemma show_errs_contains: "e \<in> set errs \<Longrightarrow> sublist (ve_field e) (show_errs errs)"
proof -
  assume "e \<in> set errs"
  then have "sublist (ve_Error e) (go_join '' '' (map ve_Error errs))" by (intro sublist_join) auto
  moreover have "sublist (ve_field e) (ve_Error e)" by (simp add: ve_Error_def)
  ultimately show ?thesis unfolding show_errs_def using sublist_order.order_trans sublist_middle by blast
qed

text \<open>
  An item whose source failed to authenticate is never read as a staged item: whatever else is
  wrong with it, the error is mapped to the reject reason \<^verbatim>\<open>source_auth_failure\<close>. The other reasons
  are less reliable: for an item that only lacks its content type, the reason derived from the error
  text is \<^verbatim>\<open>content_unreadable\<close>, where the classification of the validation errors themselves says
  \<^verbatim>\<open>malformed_metadata\<close>.
\<close>

theorem reject_reasons:
  "(read (go_Join [dir, ''metadata.json'']) = Inr raw \<and> parse raw = Inr meta \<and> im_authFailure meta \<longrightarrow>
      (\<exists>e. ReadStagingItem ud read parse dir allowlist = Inl e \<and> RejectReasonFromError e = ''source_auth_failure''))
   \<and> RejectReasonFromError (''validation failed: '' @ show_errs [VErr ''content_type'' ''required'']) = ''content_unreadable''
   \<and> RejectReason [VErr ''content_type'' ''required''] = ''malformed_metadata''"
proof (intro conjI impI)
  assume a: "read (go_Join [dir, ''metadata.json'']) = Inr raw \<and> parse raw = Inr meta \<and> im_authFailure meta"
  define meta' where "meta' = meta\<lparr>im_subject := StripSubjectControlChars (im_subject meta)\<rparr>"
  define errs where "errs = Validate ud meta' allowlist"
  have mem: "VErr ''auth_failure'' ''source authentication failed'' \<in> set errs"
    using a by (simp add: errs_def Validate_def check_def meta'_def)
  then have "ReadStagingItem ud read parse dir allowlist = Inl (''validation failed: '' @ show_errs errs)"
    using a by (auto simp: ReadStagingItem_def Let_def meta'_def [symmetric] errs_def [symmetric])
  moreover have "sublist ''auth_failure'' (''validation failed: '' @ show_errs errs)"
    using show_errs_contains [OF mem] by (intro sublist_right) (simp add: VErr_def)
  ultimately show "\<exists>e. ReadStagingItem ud read parse dir allowlist = Inl e
      \<and> RejectReasonFromError e = ''source_auth_failure''"
    by (auto simp: RejectReasonFromError_def go_contains_iff)
qed (simp_all add: RejectReasonFromError_def RejectReason_def show_errs_def VErr_def ve_Error_def go_contains_def)

theorem reject_reasons_witness:
  "\<exists>e. ReadStagingItem sample_ud (\<lambda>_. Inr ''{}'') (\<lambda>_. Inr (sample_meta\<lparr>im_authFailure := True\<rparr>)) ''/s'' [''mail''] = Inl e
     \<and> RejectReasonFromError e = ''source_auth_failure''"
  using reject_reasons [where read = "\<lambda>_. Inr ''{}''" and parse = "\<lambda>_. Inr (sample_meta\<lparr>im_authFailure := True\<rparr>)"
      and dir = "''/s''" and raw = "''{}''" and meta = "sample_meta\<lparr>im_authFailure := True\<rparr>"
      and ud = sample_ud and allowlist = "[''mail'']"]
  by simp

end
