(* ===== verification/Subject.thy ===== *)
theory Subject
  imports Staging
begin

text \<open>
  \<^verbatim>\<open>internal/subject\<close>: the registry that maps principals and entity ids to canonical entity ids, its
  loading with the checks on duplicates, and the resolution of the data subject of an item. Pointers
  to an entry are the entry itself, since entries are never changed after loading.
\<close>

section \<open>The registry (registry.go)\<close>

record subjectEntry =
  se_entityID :: string
  se_display :: string
  se_principals :: "string list"
  se_defaultAudience :: "string list option"

record SubjectRegistry =
  sg_enforce :: bool
  sg_entities :: "string \<rightharpoonup> subjectEntry"
  sg_byPrinc :: "string \<rightharpoonup> subjectEntry"

record wireRegistry =
  wr_enforce :: bool
  wr_subjects :: "subjectEntry list"

text \<open>A nil registry is \<open>None\<close>.\<close>

definition Enforce :: "SubjectRegistry option \<Rightarrow> bool" where
  "Enforce r = (case r of None \<Rightarrow> False | Some reg \<Rightarrow> sg_enforce reg)"

definition Resolve :: "SubjectRegistry option \<Rightarrow> string \<Rightarrow> string option" where
  "Resolve r s =
     (case r of
        None \<Rightarrow> None
      | Some reg \<Rightarrow>
          (case sg_byPrinc reg s of
             Some e \<Rightarrow> Some (se_entityID e)
           | None \<Rightarrow> (case sg_entities reg s of Some e \<Rightarrow> Some (se_entityID e) | None \<Rightarrow> None)))"

definition DefaultAudience :: "SubjectRegistry option \<Rightarrow> string \<Rightarrow> string list option" where
  "DefaultAudience r entityID =
     (case r of
        None \<Rightarrow> None
      | Some reg \<Rightarrow> (case sg_entities reg entityID of Some e \<Rightarrow> se_defaultAudience e | None \<Rightarrow> None))"

datatype registry_error =
    RegOpen string
  | RegDecode string
  | RegEmptyID nat
  | RegDuplicateID string
  | RegAudience string string
  | RegPrincipalClaimed string string string
  | RegPrincipalIsID string

fun princ_loop :: "subjectEntry \<Rightarrow> string list \<Rightarrow> (string \<rightharpoonup> subjectEntry) \<Rightarrow> registry_error + (string \<rightharpoonup> subjectEntry)" where
  "princ_loop entry [] byPrinc = Inr byPrinc"
| "princ_loop entry (p # ps) byPrinc =
     (case byPrinc p of
        Some existing \<Rightarrow> Inl (RegPrincipalClaimed p (se_entityID existing) (se_entityID entry))
      | None \<Rightarrow> princ_loop entry ps (byPrinc(p \<mapsto> entry)))"

fun subject_loop :: "unicode_data \<Rightarrow> nat \<Rightarrow> subjectEntry list \<Rightarrow> SubjectRegistry \<Rightarrow> registry_error + SubjectRegistry" where
  "subject_loop ud i [] reg = Inr reg"
| "subject_loop ud i (ws # wss) reg =
     (if se_entityID ws = '''' then Inl (RegEmptyID i)
      else if sg_entities reg (se_entityID ws) \<noteq> None then Inl (RegDuplicateID (se_entityID ws))
      else (case ValidateAudience ud (se_defaultAudience ws) True of
              Some e \<Rightarrow> Inl (RegAudience (se_entityID ws) e)
            | None \<Rightarrow>
                (case princ_loop ws (se_principals ws) (sg_byPrinc reg) of
                   Inl e \<Rightarrow> Inl e
                 | Inr byPrinc \<Rightarrow>
                     subject_loop ud (Suc i) wss
                       (reg\<lparr>sg_entities := (sg_entities reg)(se_entityID ws \<mapsto> ws), sg_byPrinc := byPrinc\<rparr>))))"

definition clash :: "SubjectRegistry \<Rightarrow> subjectEntry list \<Rightarrow> string option" where
  "clash reg wss = find (\<lambda>p. sg_entities reg p \<noteq> None) (concat (map se_principals wss))"

definition empty_registry :: "bool \<Rightarrow> SubjectRegistry" where
  "empty_registry enf = \<lparr>sg_enforce = enf, sg_entities = Map.empty, sg_byPrinc = Map.empty\<rparr>"

text \<open>Opening the file and decoding its JSON are parameters.\<close>

definition Load ::
  "unicode_data \<Rightarrow> (string \<Rightarrow> bytes option) \<Rightarrow> (bytes \<Rightarrow> wireRegistry option) \<Rightarrow> string
   \<Rightarrow> registry_error + SubjectRegistry" where
  "Load ud open_file decode path =
     (if path = '''' then Inr (empty_registry False)
      else (case open_file path of
              None \<Rightarrow> Inl (RegOpen path)
            | Some raw \<Rightarrow>
                (case decode raw of
                   None \<Rightarrow> Inl (RegDecode path)
                 | Some wire \<Rightarrow>
                     (case subject_loop ud 0 (wr_subjects wire) (empty_registry (wr_enforce wire)) of
                        Inl e \<Rightarrow> Inl e
                      | Inr reg \<Rightarrow>
                          (case clash reg (wr_subjects wire) of
                             Some p \<Rightarrow> Inl (RegPrincipalIsID p)
                           | None \<Rightarrow> Inr reg)))))"

section \<open>Resolution (resolve.go)\<close>

datatype Outcome = OutcomeSubjectless | OutcomeResolved | OutcomeUnresolved

text \<open>The pointer to the metadata is never nil at its callers; the rewritten metadata is returned.\<close>

definition ResolveItem :: "ItemMetadata \<Rightarrow> SubjectRegistry option \<Rightarrow> ItemMetadata \<times> Outcome" where
  "ResolveItem meta reg =
     (if im_dataSubject meta = '''' then (meta, OutcomeSubjectless)
      else (case Resolve reg (im_dataSubject meta) of
              None \<Rightarrow> (meta, OutcomeUnresolved)
            | Some entityID \<Rightarrow>
                let meta = meta\<lparr>im_dataSubject := entityID\<rparr> in
                ((if im_audience meta = None \<or> im_audience meta = Some []
                  then meta\<lparr>im_audience := DefaultAudience reg entityID\<rparr> else meta),
                 OutcomeResolved)))"

section \<open>Loaded registries\<close>

definition registry_ok :: "unicode_data \<Rightarrow> SubjectRegistry \<Rightarrow> bool" where
  "registry_ok ud reg \<longleftrightarrow>
     (\<forall>i e. sg_entities reg i = Some e \<longrightarrow>
        se_entityID e = i \<and> i \<noteq> [] \<and> ValidateAudience ud (se_defaultAudience e) True = None)
     \<and> (\<forall>p e. sg_byPrinc reg p = Some e \<longrightarrow> p \<in> set (se_principals e) \<and> sg_entities reg (se_entityID e) = Some e)"

lemma princ_loop_spec:
  "princ_loop e ps m = Inr m' \<Longrightarrow>
   (\<forall>p. m' p = (if p \<in> set ps then Some e else m p)) \<and> (\<forall>p \<in> set ps. m p = None)"
  by (induction ps arbitrary: m) (fastforce split: option.splits if_splits)+

lemma registry_ok_add:
  assumes "registry_ok ud reg" "se_entityID ws \<noteq> []" "sg_entities reg (se_entityID ws) = None"
    "ValidateAudience ud (se_defaultAudience ws) True = None" "princ_loop ws (se_principals ws) (sg_byPrinc reg) = Inr bp"
  shows "registry_ok ud (reg\<lparr>sg_entities := (sg_entities reg)(se_entityID ws \<mapsto> ws), sg_byPrinc := bp\<rparr>)"
proof -
  note pl = princ_loop_spec [OF assms(5)]
  have ent: "\<And>i e. sg_entities reg i = Some e \<Longrightarrow>
      se_entityID e = i \<and> i \<noteq> [] \<and> ValidateAudience ud (se_defaultAudience e) True = None"
    and pri: "\<And>p e. sg_byPrinc reg p = Some e \<Longrightarrow> p \<in> set (se_principals e) \<and> sg_entities reg (se_entityID e) = Some e"
    using assms(1) by (auto simp: registry_ok_def)
  have "p \<in> set (se_principals e) \<and> ((sg_entities reg)(se_entityID ws \<mapsto> ws)) (se_entityID e) = Some e"
    if "bp p = Some e" for p e
  proof (cases "p \<in> set (se_principals ws)")
    case True
    then show ?thesis using that pl by auto
  next
    case False
    then have "sg_byPrinc reg p = Some e" using that pl by simp
    from pri [OF this] assms(3) show ?thesis by auto
  qed
  then show ?thesis using ent assms(2,4) unfolding registry_ok_def by auto
qed

lemma subject_loop_ok:
  "registry_ok ud reg \<Longrightarrow> subject_loop ud i wss reg = Inr reg' \<Longrightarrow>
   registry_ok ud reg' \<and> sg_enforce reg' = sg_enforce reg
   \<and> (\<forall>e \<in> set wss. sg_entities reg' (se_entityID e) = Some e \<and> (\<forall>p \<in> set (se_principals e). sg_byPrinc reg' p = Some e))
   \<and> (\<forall>i e. sg_entities reg i = Some e \<longrightarrow> sg_entities reg' i = Some e)
   \<and> (\<forall>p e. sg_byPrinc reg p = Some e \<longrightarrow> sg_byPrinc reg' p = Some e)
   \<and> (\<forall>p e. sg_byPrinc reg' p = Some e \<longrightarrow> sg_byPrinc reg p = Some e \<or> e \<in> set wss)"
proof (induction ud i wss reg rule: subject_loop.induct)
  case (1 ud i reg)
  then show ?case by simp
next
  case (2 ud i ws wss reg)
  obtain bp where g: "se_entityID ws \<noteq> []" "sg_entities reg (se_entityID ws) = None"
    "ValidateAudience ud (se_defaultAudience ws) True = None" "princ_loop ws (se_principals ws) (sg_byPrinc reg) = Inr bp"
    and rec: "subject_loop ud (Suc i) wss
      (reg\<lparr>sg_entities := (sg_entities reg)(se_entityID ws \<mapsto> ws), sg_byPrinc := bp\<rparr>) = Inr reg'"
    using "2.prems"(2) by (auto split: if_splits option.splits sum.splits)
  let ?reg1 = "reg\<lparr>sg_entities := (sg_entities reg)(se_entityID ws \<mapsto> ws), sg_byPrinc := bp\<rparr>"
  note ok = registry_ok_add [OF "2.prems"(1) g]
  note IH = "2.IH" [OF _ _ g(3,4) ok rec]
  have ih: "registry_ok ud reg'" "sg_enforce reg' = sg_enforce reg"
    "\<forall>e \<in> set wss. sg_entities reg' (se_entityID e) = Some e \<and> (\<forall>p \<in> set (se_principals e). sg_byPrinc reg' p = Some e)"
    "\<forall>i e. sg_entities ?reg1 i = Some e \<longrightarrow> sg_entities reg' i = Some e"
    "\<forall>p e. sg_byPrinc ?reg1 p = Some e \<longrightarrow> sg_byPrinc reg' p = Some e"
    "\<forall>p e. sg_byPrinc reg' p = Some e \<longrightarrow> sg_byPrinc ?reg1 p = Some e \<or> e \<in> set wss"
    using IH g(1,2) by auto
  note pl = princ_loop_spec [OF g(4)]
  have "sg_entities reg' (se_entityID ws) = Some ws" using ih(4) by simp
  moreover have "\<forall>p \<in> set (se_principals ws). sg_byPrinc reg' p = Some ws" using ih(5) pl by auto
  moreover have "sg_entities reg' i = Some e" if "sg_entities reg i = Some e" for i e
    using ih(4) g(2) that by (cases "i = se_entityID ws") auto
  moreover have "sg_byPrinc reg' p = Some e" if "sg_byPrinc reg p = Some e" for p e
    using ih(5) pl that by (cases "p \<in> set (se_principals ws)") auto
  moreover have "\<forall>p e. sg_byPrinc reg' p = Some e \<longrightarrow> sg_byPrinc reg p = Some e \<or> e \<in> set (ws # wss)"
    using ih(6) pl by (fastforce split: if_splits)
  ultimately show ?case using ih(1-3) by simp
qed

lemma Load_registry:
  assumes "Load ud open_file decode path = Inr reg"
  shows "registry_ok ud reg \<and> (\<forall>p e. sg_byPrinc reg p = Some e \<longrightarrow> sg_entities reg p = None)"
proof (cases "path = []")
  case True
  with assms have "reg = empty_registry False" by (simp add: Load_def)
  then show ?thesis by (simp add: registry_ok_def empty_registry_def)
next
  case False
  obtain wire :: wireRegistry where w: "subject_loop ud 0 (wr_subjects wire) (empty_registry (wr_enforce wire)) = Inr reg"
    "clash reg (wr_subjects wire) = None"
    using assms False by (auto simp: Load_def split: option.splits sum.splits)
  have init: "registry_ok ud (empty_registry enf)" "sg_byPrinc (empty_registry enf) = Map.empty" for enf
    by (simp_all add: registry_ok_def empty_registry_def)
  note sl = subject_loop_ok [OF init(1) w(1)]
  have ok: "registry_ok ud reg" using sl by (rule conjunct1)
  have "\<forall>p e. sg_byPrinc reg p = Some e \<longrightarrow>
      sg_byPrinc (empty_registry (wr_enforce wire)) p = Some e \<or> e \<in> set (wr_subjects wire)"
    using sl by (elim conjE)
  then have ok': "e \<in> set (wr_subjects wire)" if "sg_byPrinc reg p = Some e" for p e
    using that by (simp add: init(2))
  have "sg_entities reg p = None" if p: "sg_byPrinc reg p = Some e" for p e
  proof -
    have "p \<in> set (se_principals e)" using p ok by (simp add: registry_ok_def)
    then have "p \<in> set (concat (map se_principals (wr_subjects wire)))" using ok' [OF p] by auto
    then show ?thesis using w(2) unfolding clash_def find_None_iff by blast
  qed
  then show ?thesis using ok by blast
qed

lemma Resolve_registered:
  assumes "registry_ok ud reg" "Resolve (Some reg) s = Some i"
  shows "\<exists>e. sg_entities reg i = Some e \<and> se_entityID e = i"
  using assms by (fastforce simp: registry_ok_def Resolve_def split: option.splits)

text \<open>
  A registry that loads resolves without ambiguity. Whatever a token resolves to is a registered
  entity id, which in turn resolves to itself; no token is both a principal and an entity id; every
  principal of an entry of the file resolves to that entry's id; and every default audience is valid
  for an item with a subject.
\<close>

theorem Load_unambiguous:
  assumes "Load ud open_file decode path = Inr reg"
  shows "(\<forall>s i. Resolve (Some reg) s = Some i \<longrightarrow> sg_entities reg i \<noteq> None \<and> Resolve (Some reg) i = Some i)
    \<and> (\<forall>s. sg_byPrinc reg s = None \<or> sg_entities reg s = None)
    \<and> (\<forall>i e p. sg_entities reg i = Some e \<and> sg_byPrinc reg p = Some e \<longrightarrow> Resolve (Some reg) p = Some i)
    \<and> (\<forall>i. ValidateAudience ud (DefaultAudience (Some reg) i) True = None)"
proof -
  have ok: "registry_ok ud reg" and dis: "\<And>p e. sg_byPrinc reg p = Some e \<Longrightarrow> sg_entities reg p = None"
    using Load_registry [OF assms] by blast+
  have ent: "se_entityID e = i \<and> ValidateAudience ud (se_defaultAudience e) True = None" if "sg_entities reg i = Some e" for i e
    using ok that by (simp add: registry_ok_def)
  have self: "Resolve (Some reg) i = Some i" if "sg_entities reg i = Some e" for i e
    using that ent [OF that] dis [of i] by (auto simp: Resolve_def split: option.splits)
  have "sg_entities reg i \<noteq> None \<and> Resolve (Some reg) i = Some i" if "Resolve (Some reg) s = Some i" for s i
    using Resolve_registered [OF ok that] self by auto
  moreover have "sg_byPrinc reg s = None \<or> sg_entities reg s = None" for s
    using dis [of s] by (cases "sg_byPrinc reg s") auto
  moreover have "Resolve (Some reg) p = Some i" if "sg_entities reg i = Some e" "sg_byPrinc reg p = Some e" for i e p
    using that ent [OF that(1)] by (simp add: Resolve_def)
  moreover have "ValidateAudience ud (DefaultAudience (Some reg) i) True = None" for i
    using ent [of i] by (cases "sg_entities reg i") (auto simp: DefaultAudience_def ValidateAudience_def)
  ultimately show ?thesis by blast
qed

text \<open>
  C15: Resolution fails closed and is stable. An item that names a subject resolves only to a
  registered entity id, with an audience that is valid for it whenever the declared one was;
  resolving the result again changes nothing. An unresolved or subjectless item keeps its metadata,
  and without a registry every item that names a subject stays unresolved.
\<close>

theorem ResolveItem_safe:
  assumes "Load ud open_file decode path = Inr reg" "ResolveItem meta (Some reg) = (meta', out)"
    and "ValidateAudience ud (im_audience meta) (im_dataSubject meta \<noteq> []) = None"
  shows "(out = OutcomeResolved \<longrightarrow> sg_entities reg (im_dataSubject meta') \<noteq> None
        \<and> ValidateAudience ud (im_audience meta') True = None
        \<and> ResolveItem meta' (Some reg) = (meta', OutcomeResolved))
    \<and> (out \<noteq> OutcomeResolved \<longrightarrow> meta' = meta)
    \<and> (out = OutcomeSubjectless \<longleftrightarrow> im_dataSubject meta = [])
    \<and> (im_dataSubject meta \<noteq> [] \<longrightarrow> ResolveItem meta None = (meta, OutcomeUnresolved))"
proof -
  have ok: "registry_ok ud reg" and dis: "\<And>p e. sg_byPrinc reg p = Some e \<Longrightarrow> sg_entities reg p = None"
    using Load_registry [OF assms(1)] by blast+
  have "sg_entities reg (im_dataSubject meta') \<noteq> None \<and> ValidateAudience ud (im_audience meta') True = None
      \<and> ResolveItem meta' (Some reg) = (meta', OutcomeResolved)" if out: "out = OutcomeResolved"
  proof -
    obtain i where ds: "im_dataSubject meta \<noteq> []" and i: "Resolve (Some reg) (im_dataSubject meta) = Some i"
      and ds': "im_dataSubject meta' = i"
      and aud: "im_audience meta' = (if im_audience meta = None \<or> im_audience meta = Some []
        then DefaultAudience (Some reg) i else im_audience meta)"
      using assms(2) out by (auto simp: ResolveItem_def Let_def split: if_splits option.splits)
    obtain e where e: "sg_entities reg i = Some e" "se_entityID e = i" using Resolve_registered [OF ok i] by blast
    have props: "i \<noteq> []" "ValidateAudience ud (se_defaultAudience e) True = None"
      using ok e(1) by (auto simp: registry_ok_def)
    have self: "Resolve (Some reg) i = Some i" using e dis [of i] by (auto simp: Resolve_def split: option.splits)
    have da: "DefaultAudience (Some reg) i = se_defaultAudience e" using e by (simp add: DefaultAudience_def)
    have "se_defaultAudience e \<noteq> Some []" using props(2) by (auto simp: ValidateAudience_def)
    then have "ResolveItem meta' (Some reg) = (meta', OutcomeResolved)"
      using self props(1) aud da ds' by (auto simp: ResolveItem_def Let_def)
    moreover have "ValidateAudience ud (im_audience meta') True = None"
      using aud da props(2) assms(3) ds by auto
    ultimately show ?thesis using e ds' by auto
  qed
  moreover have "out \<noteq> OutcomeResolved \<longrightarrow> meta' = meta" "out = OutcomeSubjectless \<longleftrightarrow> im_dataSubject meta = []"
    using assms(2) by (auto simp: ResolveItem_def Let_def split: if_splits option.splits)
  moreover have "im_dataSubject meta \<noteq> [] \<longrightarrow> ResolveItem meta None = (meta, OutcomeUnresolved)"
    by (simp add: ResolveItem_def Resolve_def)
  ultimately show ?thesis by blast
qed

section \<open>A concrete registry\<close>

definition sample_entry :: subjectEntry where
  "sample_entry = \<lparr>se_entityID = ''e_1'', se_display = ''x'', se_principals = [''w:9''], se_defaultAudience = Some [AudienceSubject]\<rparr>"

definition sample_registry :: SubjectRegistry where
  "sample_registry = \<lparr>sg_enforce = True, sg_entities = [''e_1'' \<mapsto> sample_entry], sg_byPrinc = [''w:9'' \<mapsto> sample_entry]\<rparr>"

lemma sample_Load:
  "Load sample_ud (\<lambda>_. Some []) (\<lambda>_. Some \<lparr>wr_enforce = True, wr_subjects = [sample_entry]\<rparr>) ''s.json'' = Inr sample_registry"
  by (simp add: Load_def sample_entry_def empty_registry_def clash_def sample_registry_def ValidateAudience_def
      audience_defs validAudienceTokens_def householdSubsetTokens_def subjectRelativeTokens_def maxAudienceEntries_def Let_def)

theorem Load_unambiguous_witness:
  "Resolve (Some sample_registry) ''w:9'' = Some ''e_1'' \<and> Resolve (Some sample_registry) ''e_1'' = Some ''e_1''"
proof -
  have r: "Resolve (Some sample_registry) ''w:9'' = Some ''e_1''"
    by (simp add: Resolve_def sample_registry_def sample_entry_def)
  then show ?thesis using Load_unambiguous [OF sample_Load] by blast
qed

theorem ResolveItem_safe_witness:
  "\<exists>meta'. ResolveItem (sample_meta\<lparr>im_dataSubject := ''w:9''\<rparr>) (Some sample_registry) = (meta', OutcomeResolved)
     \<and> sg_entities sample_registry (im_dataSubject meta') \<noteq> None"
proof -
  obtain meta' where m: "ResolveItem (sample_meta\<lparr>im_dataSubject := ''w:9''\<rparr>) (Some sample_registry) = (meta', OutcomeResolved)"
    by (simp add: ResolveItem_def Resolve_def sample_registry_def sample_entry_def Let_def)
  have "ValidateAudience sample_ud (im_audience (sample_meta\<lparr>im_dataSubject := ''w:9''\<rparr>))
      (im_dataSubject (sample_meta\<lparr>im_dataSubject := ''w:9''\<rparr>) \<noteq> []) = None"
    by (simp add: sample_meta_def ValidateAudience_def)
  from ResolveItem_safe [OF sample_Load m this] m show ?thesis by blast
qed

end
