(* ===== verification/Routing.thy ===== *)
theory Routing
  imports Subject Scoring
begin

text \<open>
  \<^verbatim>\<open>internal/routing\<close>, the audit logger of \<^verbatim>\<open>internal/audit\<close> and \<^verbatim>\<open>deliverResult\<close> of \<^verbatim>\<open>main.go\<close>: what happens
  to an item once its scan has answered. The world is the file tree, the audit log and the logger's
  degraded flag; every file operation may fail, as the parameter \<open>io_ok\<close> decides, and a write that
  fails may leave a torn file behind.
\<close>

section \<open>Sanitizing (sanitize.go)\<close>

definition maxSanitizedChars :: nat where "maxSanitizedChars = 4096"
definition maxSanitizedFieldChars :: nat where "maxSanitizedFieldChars = 256"

definition sanitizeHeader :: string where
  "sanitizeHeader = ''--- UNTRUSTED QUARANTINED CONTENT (first '' @ show_nat maxSanitizedChars @ '' chars) ---'' @ [CHR 0x0A]"

definition sanitizeFooter :: string where
  "sanitizeFooter = [CHR 0x0A] @ ''--- END UNTRUSTED CONTENT ---'' @ [CHR 0x0A]"

text \<open>The text written for one decoded rune; the second component is the bytes it was read from.\<close>

definition sanitize_rune :: "rune \<times> bytes \<Rightarrow> bytes" where
  "sanitize_rune rc =
     (let r = fst rc in
      if r = RuneError \<and> length (snd rc) \<le> 1 then esc CHR ''x'' @ hex_fixed 2 (bv (hd (snd rc)))
      else if r < 0x20 \<and> r \<noteq> 0x0A \<and> r \<noteq> 0x0D \<and> r \<noteq> 0x09 then esc CHR ''u'' @ hex_fixed 4 r
      else if r > 0x7E then
        (if r > 0xFFFF then esc CHR ''U'' @ hex_fixed 8 r else esc CHR ''u'' @ hex_fixed 4 r)
      else encode_rune r)"

definition SanitizeContent :: "bytes \<Rightarrow> bytes" where
  "SanitizeContent content =
     sanitizeHeader @ concat (map sanitize_rune (take maxSanitizedChars (rune_chunks content))) @ sanitizeFooter"

definition sanitize_field_rune :: "rune \<Rightarrow> bytes" where
  "sanitize_field_rune r =
     (if r = 0x0A \<or> r = 0x0D \<or> r = 0x09 then '' ''
      else if r < 0x20 then esc CHR ''u'' @ hex_fixed 4 r
      else if r > 0x7E then
        (if r > 0xFFFF then esc CHR ''U'' @ hex_fixed 8 r else esc CHR ''u'' @ hex_fixed 4 r)
      else encode_rune r)"

definition SanitizeField :: "string \<Rightarrow> string" where
  "SanitizeField v =
     concat (map sanitize_field_rune (take maxSanitizedFieldChars (runes v)))
     @ (if length (runes v) > maxSanitizedFieldChars then ''...'' else [])"

section \<open>The world\<close>

datatype io_op =
    OpMkdir string
  | OpRead string
  | OpWrite string
  | OpCreate string
  | OpSync string
  | OpClose string
  | OpRename string string
  | OpRemove string
  | OpRemoveAll string
  | OpReadDir string
  | OpAudit string

record AuditEntry =
  ae_source :: string
  ae_sender :: string
  ae_contentHash :: string
  ae_contentLength :: nat
  ae_signals :: "Signal list"
  ae_totalScore :: rat
  ae_verdict :: string
  ae_destination :: string
  ae_dataSubject :: string
  ae_audience :: "string list option"

record world =
  w_files :: "string \<rightharpoonup> bytes"
  w_passLog :: "AuditEntry list"
  w_rejectLog :: "(AuditEntry \<times> string) list"
  w_degraded :: bool

record QuarantineMetadata =
  qm_item :: ItemMetadata
  qm_contentHash :: string
  qm_signals :: "Signal list"
  qm_totalScore :: rat
  qm_threshold :: rat
  qm_reason :: string

record QuarantineNotification =
  qn_quarantineID :: string
  qn_source :: string
  qn_sender :: string
  qn_subject :: string
  qn_timestamp :: string
  qn_contentLength :: nat
  qn_signals :: "string list"
  qn_totalScore :: rat

text \<open>
  The libraries: SHA-256, JSON encoding (\<open>None\<close>: it fails), the clock, the working directory, what
  exists on disk and where symbolic links lead, directory listings, and which operations succeed.
\<close>

record route_lib =
  rl_sha256 :: "bytes \<Rightarrow> bytes"
  rl_json_meta :: "ItemMetadata \<Rightarrow> bytes option"
  rl_json_quarantine :: "QuarantineMetadata \<Rightarrow> bytes option"
  rl_json_notification :: "QuarantineNotification \<Rightarrow> bytes option"
  rl_json_pending :: "ItemMetadata \<Rightarrow> bytes option"
  rl_stamp :: string
  rl_rfc3339 :: "int \<Rightarrow> string"
  rl_cwd :: string
  rl_stat :: "string \<Rightarrow> bool"
  rl_evalSymlinks :: "string \<Rightarrow> string + string"
  rl_readdir :: "string \<Rightarrow> string list"
  rl_torn :: "string \<Rightarrow> bytes option"
  io_ok :: "io_op \<Rightarrow> bool"

definition under :: "string \<Rightarrow> string \<Rightarrow> bool" where
  "under dir p \<longleftrightarrow> p = dir \<or> prefix (dir @ ''/'') p"

type_synonym 'a io = "world \<Rightarrow> world \<times> (err + 'a)"

definition io_bind :: "'a io \<Rightarrow> ('a \<Rightarrow> 'b io) \<Rightarrow> 'b io" where
  "io_bind m f w = (case m w of (w', Inl e) \<Rightarrow> (w', Inl e) | (w', Inr x) \<Rightarrow> f x w')"

definition io_return :: "'a \<Rightarrow> 'a io" where
  "io_return x w = (w, Inr x)"

definition io_wrap :: "string \<Rightarrow> 'a io \<Rightarrow> 'a io" where
  "io_wrap msg m w = (case m w of (w', Inl e) \<Rightarrow> (w', Inl (Wrap msg e)) | r \<Rightarrow> r)"

definition io_ignore :: "'a io \<Rightarrow> unit io" where
  "io_ignore m w = (fst (m w), Inr ())"

definition io_fail :: "err \<Rightarrow> 'a io" where
  "io_fail e w = (w, Inl e)"

definition os_MkdirAll :: "route_lib \<Rightarrow> string \<Rightarrow> unit io" where
  "os_MkdirAll lib dir w = (w, if io_ok lib (OpMkdir dir) then Inr () else Inl (Lib ''os.MkdirAll''))"

definition os_ReadFile :: "route_lib \<Rightarrow> string \<Rightarrow> bytes io" where
  "os_ReadFile lib p w =
     (w, case w_files w p of
           Some b \<Rightarrow> if io_ok lib (OpRead p) then Inr b else Inl (Lib ''os.ReadFile'')
         | None \<Rightarrow> Inl (Lib ''os.ReadFile''))"

definition os_WriteFile :: "route_lib \<Rightarrow> string \<Rightarrow> bytes \<Rightarrow> unit io" where
  "os_WriteFile lib p b w =
     (if io_ok lib (OpWrite p) then (w\<lparr>w_files := (w_files w)(p \<mapsto> b)\<rparr>, Inr ())
      else (case rl_torn lib p of
              None \<Rightarrow> (w, Inl (Lib ''os.WriteFile''))
            | Some t \<Rightarrow> (w\<lparr>w_files := (w_files w)(p \<mapsto> t)\<rparr>, Inl (Lib ''os.WriteFile''))))"

definition os_Remove :: "route_lib \<Rightarrow> string \<Rightarrow> unit io" where
  "os_Remove lib p w =
     (if io_ok lib (OpRemove p) then (w\<lparr>w_files := (w_files w)(p := None)\<rparr>, Inr ()) else (w, Inl (Lib ''os.Remove'')))"

definition os_RemoveAll :: "route_lib \<Rightarrow> string \<Rightarrow> unit io" where
  "os_RemoveAll lib dir w =
     (if io_ok lib (OpRemoveAll dir)
      then (w\<lparr>w_files := (\<lambda>p. if under dir p then None else w_files w p)\<rparr>, Inr ()) else (w, Inl (Lib ''os.RemoveAll'')))"

text \<open>\<^verbatim>\<open>os.Rename\<close> of a file, and of a directory with everything below it.\<close>

definition os_RenameFile :: "route_lib \<Rightarrow> string \<Rightarrow> string \<Rightarrow> unit io" where
  "os_RenameFile lib src dst w =
     (if io_ok lib (OpRename src dst)
      then (w\<lparr>w_files := (w_files w)(dst := w_files w src, src := None)\<rparr>, Inr ()) else (w, Inl (Lib ''os.Rename'')))"

definition os_RenameDir :: "route_lib \<Rightarrow> string \<Rightarrow> string \<Rightarrow> unit io" where
  "os_RenameDir lib src dst w =
     (if io_ok lib (OpRename src dst)
      then (w\<lparr>w_files := (\<lambda>p. if under dst p then w_files w (src @ drop (length dst) p)
                              else if under src p then None else w_files w p)\<rparr>, Inr ())
      else (w, Inl (Lib ''os.Rename'')))"

section \<open>The audit logger (logger.go)\<close>

text \<open>
  Appending one line to a log file: a failed marshal or write leaves the logger degraded, a
  successful one clears the flag.
\<close>

definition LogPass :: "route_lib \<Rightarrow> AuditEntry \<Rightarrow> unit io" where
  "LogPass lib entry w =
     (if io_ok lib (OpAudit ''pass'') then (w\<lparr>w_passLog := w_passLog w @ [entry], w_degraded := False\<rparr>, Inr ())
      else (w\<lparr>w_degraded := True\<rparr>, Inl (Lib ''audit'')))"

definition LogReject :: "route_lib \<Rightarrow> AuditEntry \<Rightarrow> string \<Rightarrow> unit io" where
  "LogReject lib entry reason w =
     (if io_ok lib (OpAudit ''rejected'')
      then (w\<lparr>w_rejectLog := w_rejectLog w @ [(entry, reason)], w_degraded := False\<rparr>, Inr ())
      else (w\<lparr>w_degraded := True\<rparr>, Inl (Lib ''audit'')))"

section \<open>Destinations (safety.go)\<close>

definition go_Abs :: "route_lib \<Rightarrow> string \<Rightarrow> string" where
  "go_Abs lib p = (if prefix ''/'' p then go_Clean p else go_Join [rl_cwd lib, p])"

definition resolve_links :: "route_lib \<Rightarrow> string \<Rightarrow> string + string" where
  "resolve_links lib p = (if rl_stat lib p then rl_evalSymlinks lib p else Inr p)"

definition ValidateDestination :: "unicode_data \<Rightarrow> route_lib \<Rightarrow> string \<Rightarrow> string \<Rightarrow> string list \<Rightarrow> string + string" where
  "ValidateDestination ud lib agent agentsDir allowlist =
     (if agent \<notin> set allowlist then Inl (''unknown_destination: '' @ go_quote ud agent @ '' not in allowlist'')
      else
        let destPath = go_Join [agentsDir, agent, ''workspace'', ''inbox''] in
        (case resolve_links lib (go_Abs lib destPath) of
           Inl e \<Rightarrow> Inl (''path_traversal: cannot eval symlinks '' @ go_quote ud [] @ '': '' @ e)
         | Inr resolved \<Rightarrow>
             (case resolve_links lib (go_Abs lib agentsDir) of
                Inl e \<Rightarrow> Inl (''path_traversal: cannot eval symlinks on agents dir: '' @ e)
              | Inr absAgentsDir \<Rightarrow>
                  if \<not> prefix (absAgentsDir @ ''/'') resolved \<and> resolved \<noteq> absAgentsDir then
                    Inl (''path_traversal: resolved path '' @ go_quote ud resolved @ '' escapes agents dir ''
                      @ go_quote ud absAgentsDir)
                  else Inr resolved)))"

section \<open>The subject gate (subject_gate.go)\<close>

datatype GateAction = GatePass | GateQuarantine | GatePassUnresolved

definition persistMetadata :: "route_lib \<Rightarrow> StagingItem \<Rightarrow> unit io" where
  "persistMetadata lib item w =
     (case rl_json_meta lib (si_metadata item) of
        None \<Rightarrow> (w, Inl (Wrap ''marshal metadata'' (Lib ''json.Marshal'')))
      | Some dat \<Rightarrow>
          let path = go_Join [si_dirPath item, ''metadata.json''];
              tmpPath = path @ ''.tmp'';
              cleanup = (\<lambda>w msg. (fst (os_Remove lib tmpPath w), Inl (Wrap msg (Lib ''os.File''))))
          in if w_files w tmpPath \<noteq> None \<or> \<not> io_ok lib (OpCreate tmpPath) then
               (w, Inl (Wrap ''create temp metadata'' (Lib ''os.OpenFile'')))
             else
               let w = w\<lparr>w_files := (w_files w)(tmpPath \<mapsto> [])\<rparr> in
               (case os_WriteFile lib tmpPath dat w of
                  (w, Inl _) \<Rightarrow> cleanup w ''write temp metadata''
                | (w, Inr _) \<Rightarrow>
                    if \<not> io_ok lib (OpSync tmpPath) then cleanup w ''sync temp metadata''
                    else if \<not> io_ok lib (OpClose tmpPath) then cleanup w ''close temp metadata''
                    else (case os_RenameFile lib tmpPath path w of
                            (w, Inl _) \<Rightarrow> cleanup w ''rename temp metadata''
                          | (w, Inr _) \<Rightarrow> (w, Inr ()))))"

definition SubjectGate ::
  "route_lib \<Rightarrow> StagingItem \<Rightarrow> SubjectRegistry option \<Rightarrow> world \<Rightarrow> world \<times> StagingItem \<times> GateAction \<times> err option" where
  "SubjectGate lib item reg w =
     (case ResolveItem (si_metadata item) reg of
        (meta, OutcomeResolved) \<Rightarrow>
          let item = item\<lparr>si_metadata := meta\<rparr> in
          (case persistMetadata lib item w of
             (w, Inl e) \<Rightarrow> (w, item, GateQuarantine, Some (Wrap ''persist resolved metadata'' e))
           | (w, Inr _) \<Rightarrow> (w, item, GatePass, None))
      | (meta, OutcomeUnresolved) \<Rightarrow>
          if Enforce reg then (w, item, GateQuarantine, None) else (w, item, GatePassUnresolved, None)
      | (meta, OutcomeSubjectless) \<Rightarrow> (w, item, GatePass, None))"

section \<open>Routes (pass.go, notify.go, quarantine.go, reject.go, failed.go, pending.go)\<close>

definition contentHash :: "route_lib \<Rightarrow> bytes \<Rightarrow> string" where
  "contentHash lib dat = hex_encode (rl_sha256 lib dat)"

definition verdict_string :: "Verdict \<Rightarrow> string" where
  "verdict_string v =
     (case v of VerdictPass \<Rightarrow> ''pass'' | VerdictQuarantine \<Rightarrow> ''quarantine'' | VerdictReject \<Rightarrow> ''reject'')"

definition audit_entry :: "StagingItem \<Rightarrow> ScanResult \<Rightarrow> string \<Rightarrow> string \<Rightarrow> nat \<Rightarrow> AuditEntry" where
  "audit_entry item res verdict hash len =
     \<lparr>ae_source = im_source (si_metadata item), ae_sender = im_sender (si_metadata item), ae_contentHash = hash,
      ae_contentLength = len, ae_signals = sr_signals res, ae_totalScore = sr_total res, ae_verdict = verdict,
      ae_destination = im_destinationAgent (si_metadata item), ae_dataSubject = im_dataSubject (si_metadata item),
      ae_audience = im_audience (si_metadata item)\<rparr>"

definition RoutePass :: "route_lib \<Rightarrow> StagingItem \<Rightarrow> ScanResult \<Rightarrow> string \<Rightarrow> unit io" where
  "RoutePass lib item scanResult destDir =
     (let deliveryDir = go_Join [destDir, go_Base (si_dirPath item)] in
      io_bind (io_wrap ''create delivery dir'' (os_MkdirAll lib deliveryDir)) (\<lambda>_.
      io_bind (io_wrap ''read content'' (os_ReadFile lib (si_contentPath item))) (\<lambda>content.
      io_bind (io_wrap ''write content to inbox'' (os_WriteFile lib (go_Join [deliveryDir, ''content.raw'']) content)) (\<lambda>_.
      io_bind (io_wrap ''read metadata'' (os_ReadFile lib (go_Join [si_dirPath item, ''metadata.json'']))) (\<lambda>metaData.
      io_bind (io_wrap ''write metadata to inbox'' (os_WriteFile lib (go_Join [deliveryDir, ''metadata.json'']) metaData)) (\<lambda>_.
      io_bind (io_wrap ''audit log'' (LogPass lib (audit_entry item scanResult (verdict_string (sr_verdict scanResult))
                 (contentHash lib content) (length content)))) (\<lambda>_.
      io_ignore (os_RemoveAll lib (si_dirPath item)))))))))"

definition WriteQuarantineNotification ::
  "route_lib \<Rightarrow> string \<Rightarrow> StagingItem \<Rightarrow> ScanResult \<Rightarrow> nat \<Rightarrow> string \<Rightarrow> unit io" where
  "WriteQuarantineNotification lib quarantineID item scanResult contentLength notifyDir =
     io_bind (io_wrap ''create notification dir'' (os_MkdirAll lib notifyDir)) (\<lambda>_.
       let notification = \<lparr>qn_quarantineID = quarantineID, qn_source = SanitizeField (im_source (si_metadata item)),
              qn_sender = SanitizeField (im_sender (si_metadata item)),
              qn_subject = SanitizeField (im_subject (si_metadata item)),
              qn_timestamp = rl_rfc3339 lib (im_timestamp (si_metadata item)),
              qn_contentLength = contentLength, qn_signals = map sig_name (sr_signals scanResult),
              qn_totalScore = sr_total scanResult\<rparr>
       in case rl_json_notification lib notification of
            None \<Rightarrow> io_fail (Wrap ''marshal notification'' (Lib ''json.Marshal''))
          | Some dat \<Rightarrow> os_WriteFile lib (go_Join [notifyDir, quarantineID @ ''.json'']) dat)"

text \<open>Tags are a map; \<^verbatim>\<open>meta.Tags["parse_status"]\<close> of an absent key is the empty string.\<close>

definition ShouldForceQuarantineFromTag :: "ItemMetadata \<Rightarrow> bool" where
  "ShouldForceQuarantineFromTag meta =
     (let status = (case map_of (im_tags meta) ''parse_status'' of None \<Rightarrow> [] | Some v \<Rightarrow> v)
      in status = ''degraded'' \<or> status = ''failure_receipt'')"

definition RouteQuarantine ::
  "route_lib \<Rightarrow> StagingItem \<Rightarrow> ScanResult \<Rightarrow> string \<Rightarrow> string \<Rightarrow> rat \<Rightarrow> string \<Rightarrow> unit io" where
  "RouteQuarantine lib item scanResult quarantineDir notifyDir threshold reason =
     io_bind (io_wrap ''read content'' (os_ReadFile lib (si_contentPath item))) (\<lambda>content.
       let hash = contentHash lib content;
           qID = rl_stamp lib @ ''-'' @ take 12 hash;
           qDir = go_Join [quarantineDir, qID]
       in io_bind (io_wrap ''create quarantine dir'' (os_MkdirAll lib qDir)) (\<lambda>_.
          io_bind (io_wrap ''write sanitized content''
             (os_WriteFile lib (go_Join [qDir, ''content.sanitized'']) (SanitizeContent content))) (\<lambda>_.
          case rl_json_quarantine lib \<lparr>qm_item = si_metadata item, qm_contentHash = hash, qm_signals = sr_signals scanResult,
                 qm_totalScore = sr_total scanResult, qm_threshold = threshold, qm_reason = reason\<rparr> of
            None \<Rightarrow> io_fail (Wrap ''marshal quarantine metadata'' (Lib ''json.MarshalIndent''))
          | Some metaData \<Rightarrow>
              io_bind (io_wrap ''write quarantine metadata'' (os_WriteFile lib (go_Join [qDir, ''metadata.json'']) metaData)) (\<lambda>_.
              io_bind (io_wrap ''write notification''
                 (WriteQuarantineNotification lib qID item scanResult (length content) notifyDir)) (\<lambda>_.
              io_bind (io_wrap ''audit log'' (LogReject lib
                 (audit_entry item scanResult (verdict_string VerdictQuarantine) hash (length content)) reason)) (\<lambda>_.
              io_ignore (os_RemoveAll lib (si_dirPath item))))))))"

definition RouteReject :: "route_lib \<Rightarrow> string \<Rightarrow> string \<Rightarrow> ItemMetadata option \<Rightarrow> unit io" where
  "RouteReject lib itemPath reason metadata =
     (let entry = (case metadata of
          None \<Rightarrow> \<lparr>ae_source = ''unknown'', ae_sender = ''unknown'', ae_contentHash = [], ae_contentLength = 0,
                   ae_signals = [], ae_totalScore = 0, ae_verdict = verdict_string VerdictReject,
                   ae_destination = ''unknown'', ae_dataSubject = [], ae_audience = None\<rparr>
        | Some m \<Rightarrow> \<lparr>ae_source = im_source m, ae_sender = im_sender m, ae_contentHash = [], ae_contentLength = 0,
                   ae_signals = [], ae_totalScore = 0, ae_verdict = verdict_string VerdictReject,
                   ae_destination = im_destinationAgent m, ae_dataSubject = im_dataSubject m, ae_audience = im_audience m\<rparr>)
      in io_bind (io_wrap ''audit log'' (LogReject lib entry reason)) (\<lambda>_.
         io_ignore (os_RemoveAll lib itemPath)))"

fun copy_loop :: "route_lib \<Rightarrow> string \<Rightarrow> string \<Rightarrow> string list \<Rightarrow> unit io" where
  "copy_loop lib src dst [] = io_return ()"
| "copy_loop lib src dst (e # es) =
     io_bind (os_ReadFile lib (go_Join [src, e])) (\<lambda>dat.
     io_bind (os_WriteFile lib (go_Join [dst, e]) dat) (\<lambda>_. copy_loop lib src dst es))"

definition copyDir :: "route_lib \<Rightarrow> string \<Rightarrow> string \<Rightarrow> unit io" where
  "copyDir lib src dst =
     io_bind (os_MkdirAll lib dst) (\<lambda>_.
     if \<not> io_ok lib (OpReadDir src) then io_fail (Lib ''os.ReadDir'')
     else io_bind (copy_loop lib src dst (rl_readdir lib src)) (\<lambda>_. io_ignore (os_RemoveAll lib src)))"

definition RouteToFailed :: "route_lib \<Rightarrow> string \<Rightarrow> string \<Rightarrow> string \<Rightarrow> unit io" where
  "RouteToFailed lib itemPath failedDir reason =
     io_bind (io_wrap ''create failed dir'' (os_MkdirAll lib failedDir)) (\<lambda>_.
       let destPath = go_Join [failedDir, go_Base itemPath] in
       io_bind (\<lambda>w. case os_RenameDir lib itemPath destPath w of
                      (w, Inr _) \<Rightarrow> (w, Inr ())
                    | (w, Inl _) \<Rightarrow> copyDir lib itemPath destPath w) (\<lambda>_.
         io_ignore (os_WriteFile lib (go_Join [destPath, ''failed_reason.txt'']) reason)))"

definition PendingFilename :: "string \<Rightarrow> string" where
  "PendingFilename itemID = itemID @ ''.pending.json''"

definition WritePending :: "route_lib \<Rightarrow> StagingItem \<Rightarrow> string \<Rightarrow> unit io" where
  "WritePending lib item agentInboxDir =
     (if \<not> im_ordered (si_metadata item) then io_return ()
      else case rl_json_pending lib (si_metadata item) of
             None \<Rightarrow> io_fail (Wrap ''marshal pending info'' (Lib ''json.Marshal''))
           | Some dat \<Rightarrow>
               io_bind (io_wrap ''create inbox dir'' (os_MkdirAll lib agentInboxDir)) (\<lambda>_.
                 os_WriteFile lib (go_Join [agentInboxDir, PendingFilename (go_Base (si_dirPath item))]) dat))"

definition RemovePending :: "route_lib \<Rightarrow> string \<Rightarrow> string \<Rightarrow> unit io" where
  "RemovePending lib itemID agentInboxDir = io_ignore (os_Remove lib (go_Join [agentInboxDir, PendingFilename itemID]))"

section \<open>Delivery (main.go)\<close>

record ScanResponse =
  sp_item :: StagingItem
  sp_signals :: "Signal list"
  sp_timedOut :: bool
  sp_err :: "err option"
  sp_result :: "ScanResult option"

record route_cfg =
  cf_agentsDir :: string
  cf_quarantineDir :: string
  cf_failedDir :: string
  cf_sharedDir :: string
  cf_allowlist :: "string list"

definition removePendingForItem :: "route_lib \<Rightarrow> StagingItem \<Rightarrow> route_cfg \<Rightarrow> unit io" where
  "removePendingForItem lib item cfg =
     (if im_ordered (si_metadata item) then
        RemovePending lib (go_Base (si_dirPath item))
          (go_Join [cf_agentsDir cfg, im_destinationAgent (si_metadata item), ''workspace'', ''inbox''])
      else io_return ())"

definition forced_result :: "ScanResponse \<Rightarrow> ScanResult" where
  "forced_result resp = \<lparr>sr_signals = sp_signals resp, sr_total = 0, sr_verdict = VerdictQuarantine\<rparr>"

definition quarantine_item ::
  "route_lib \<Rightarrow> route_cfg \<Rightarrow> rat \<Rightarrow> StagingItem \<Rightarrow> ScanResult \<Rightarrow> string \<Rightarrow> unit io" where
  "quarantine_item lib cfg threshold item res reason =
     io_bind (removePendingForItem lib item cfg) (\<lambda>_.
       RouteQuarantine lib item res (cf_quarantineDir cfg) (go_Join [cf_sharedDir cfg, ''glovebox-notifications''])
         threshold reason)"

definition fail_item :: "route_lib \<Rightarrow> route_cfg \<Rightarrow> StagingItem \<Rightarrow> string \<Rightarrow> unit io" where
  "fail_item lib cfg item reason =
     io_bind (removePendingForItem lib item cfg) (\<lambda>_. RouteToFailed lib (si_dirPath item) (cf_failedDir cfg) reason)"

definition pass_or_reject ::
  "unicode_data \<Rightarrow> route_lib \<Rightarrow> route_cfg \<Rightarrow> StagingItem \<Rightarrow> ScanResult \<Rightarrow> unit io" where
  "pass_or_reject ud lib cfg item result =
     (case ValidateDestination ud lib (im_destinationAgent (si_metadata item)) (cf_agentsDir cfg) (cf_allowlist cfg) of
        Inl e \<Rightarrow>
          io_bind (removePendingForItem lib item cfg) (\<lambda>_.
            RouteReject lib (si_dirPath item) e (Some (si_metadata item)))
      | Inr destDir \<Rightarrow>
          io_bind (RoutePass lib item result destDir) (\<lambda>_. removePendingForItem lib item cfg))"

definition deliverResult ::
  "unicode_data \<Rightarrow> route_lib \<Rightarrow> ScanResponse \<Rightarrow> route_cfg \<Rightarrow> SubjectRegistry option \<Rightarrow> rat \<Rightarrow> unit io" where
  "deliverResult ud lib resp cfg reg threshold w =
     (if sp_timedOut resp then quarantine_item lib cfg threshold (sp_item resp) (forced_result resp) ''scan_timeout'' w
      else if sp_err resp \<noteq> None then fail_item lib cfg (sp_item resp) ''scan_error'' w
      else if w_degraded w then
        quarantine_item lib cfg threshold (sp_item resp) (forced_result resp) ''audit_failure'' w
      else if ShouldForceQuarantineFromTag (si_metadata (sp_item resp)) then
        quarantine_item lib cfg threshold (sp_item resp) (forced_result resp) ''parse_status_tag'' w
      else (case sp_result resp of
        None \<Rightarrow> quarantine_item lib cfg threshold (sp_item resp) (forced_result resp) ''missing_scan_result'' w
      | Some result \<Rightarrow>
          (case SubjectGate lib (sp_item resp) reg w of
             (w, item, action, Some e) \<Rightarrow> fail_item lib cfg item ''subject_gate_error'' w
           | (w, item, action, None) \<Rightarrow>
               if action = GateQuarantine then
                 quarantine_item lib cfg threshold item result ''subject_unresolved'' w
               else if sr_verdict result = VerdictQuarantine then
                 quarantine_item lib cfg threshold item result ''threshold_exceeded'' w
               else pass_or_reject ud lib cfg item result w)))"

section \<open>A concrete delivery\<close>

definition sample_rlib :: route_lib where
  "sample_rlib = \<lparr>rl_sha256 = (\<lambda>_. [CHR 0x00, CHR 0x00, CHR 0x00, CHR 0x00, CHR 0x00, CHR 0x00]), rl_json_meta = (\<lambda>_. Some ''{}''),
     rl_json_quarantine = (\<lambda>_. Some ''{}''), rl_json_notification = (\<lambda>_. Some ''{}''), rl_json_pending = (\<lambda>_. Some ''{}''),
     rl_stamp = ''20260101-000000'', rl_rfc3339 = (\<lambda>_. ''t''), rl_cwd = ''/'', rl_stat = (\<lambda>_. False),
     rl_evalSymlinks = Inr, rl_readdir = (\<lambda>_. []), rl_torn = (\<lambda>_. None), io_ok = (\<lambda>_. True)\<rparr>"

definition sample_cfg :: route_cfg where
  "sample_cfg = \<lparr>cf_agentsDir = ''/agents'', cf_quarantineDir = ''/quarantine'', cf_failedDir = ''/failed'',
     cf_sharedDir = ''/shared'', cf_allowlist = [''mail'']\<rparr>"

definition sample_item :: StagingItem where
  "sample_item = \<lparr>si_dirPath = ''/s/i1'', si_contentPath = ''/s/i1/content.raw'', si_metadata = sample_meta\<rparr>"

definition sample_resp :: ScanResponse where
  "sample_resp = \<lparr>sp_item = sample_item, sp_signals = [], sp_timedOut = False, sp_err = None,
     sp_result = Some \<lparr>sr_signals = [], sr_total = 0, sr_verdict = VerdictPass\<rparr>\<rparr>"

definition sample_world :: world where
  "sample_world = \<lparr>w_files = [''/s/i1/content.raw'' \<mapsto> ''hello'', ''/s/i1/metadata.json'' \<mapsto> ''{}''],
     w_passLog = [], w_rejectLog = [], w_degraded = False\<rparr>"

lemmas path_eval = go_Join_def go_Clean_def clean_step_def go_Base_def go_Abs_def under_def

lemma sample_paths:
  "go_Join [''/agents'', ''mail'', ''workspace'', ''inbox''] = ''/agents/mail/workspace/inbox''"
  "go_Base ''/s/i1'' = ''i1''" "go_Join [''/agents/mail/workspace/inbox'', ''i1''] = ''/agents/mail/workspace/inbox/i1''"
  "go_Join [''/agents/mail/workspace/inbox/i1'', ''content.raw''] = ''/agents/mail/workspace/inbox/i1/content.raw''"
  "go_Join [''/agents/mail/workspace/inbox/i1'', ''metadata.json''] = ''/agents/mail/workspace/inbox/i1/metadata.json''"
  "go_Join [''/s/i1'', ''metadata.json''] = ''/s/i1/metadata.json''" "go_Join [''/s/i1'', ''content.raw''] = ''/s/i1/content.raw''"
  "go_Clean ''/agents/mail/workspace/inbox'' = ''/agents/mail/workspace/inbox''" "go_Clean ''/agents'' = ''/agents''"
  "go_Join [''/failed'', ''i1''] = ''/failed/i1''" "go_Join [''/shared'', ''glovebox-notifications''] = ''/shared/glovebox-notifications''"
  "go_Join [''/failed/i1'', ''failed_reason.txt''] = ''/failed/i1/failed_reason.txt''"
  "go_Join [''/agents/mail/workspace/inbox'', ''i1.pending.json''] = ''/agents/mail/workspace/inbox/i1.pending.json''"
  by (simp_all add: path_eval)

lemma sample_delivery:
  "\<exists>w'. deliverResult sample_ud sample_rlib sample_resp sample_cfg None (4 / 5) sample_world = (w', Inr ())
     \<and> w_files w' ''/agents/mail/workspace/inbox/i1/content.raw'' = Some ''hello''"
proof -
  have gate: "SubjectGate sample_rlib sample_item None sample_world = (sample_world, sample_item, GatePass, None)"
    by (simp add: SubjectGate_def ResolveItem_def sample_item_def sample_meta_def)
  have dest: "ValidateDestination sample_ud sample_rlib ''mail'' ''/agents'' [''mail''] = Inr ''/agents/mail/workspace/inbox''"
  proof -
    have "resolve_links sample_rlib p = Inr p" for p by (simp add: resolve_links_def sample_rlib_def)
    moreover have "go_Abs sample_rlib ''/agents'' = ''/agents''"
      "go_Abs sample_rlib ''/agents/mail/workspace/inbox'' = ''/agents/mail/workspace/inbox''"
      by (simp_all add: go_Abs_def sample_paths)
    ultimately show ?thesis by (simp add: ValidateDestination_def sample_paths)
  qed
  have ok: "io_ok sample_rlib op" for op by (simp add: sample_rlib_def)
  have pass: "\<exists>w'. RoutePass sample_rlib sample_item \<lparr>sr_signals = [], sr_total = 0, sr_verdict = VerdictPass\<rparr>
      ''/agents/mail/workspace/inbox'' sample_world = (w', Inr ())
      \<and> w_files w' ''/agents/mail/workspace/inbox/i1/content.raw'' = Some ''hello''"
    by (simp add: RoutePass_def io_bind_def io_wrap_def os_MkdirAll_def ok os_ReadFile_def os_WriteFile_def
        sample_item_def sample_world_def sample_paths LogPass_def io_ignore_def os_RemoveAll_def under_def)
  then show ?thesis
    using gate dest by (auto simp: deliverResult_def sample_resp_def pass_or_reject_def io_bind_def sample_cfg_def
        sample_world_def ShouldForceQuarantineFromTag_def sample_item_def sample_meta_def removePendingForItem_def io_return_def)
qed

section \<open>Frames: which files an operation may change\<close>

text \<open>
  \<open>frame P m\<close>: running \<open>m\<close> changes no file outside \<open>P\<close>. \<open>quiet m\<close>: it writes no audit entry.
\<close>

definition frame :: "string set \<Rightarrow> 'a io \<Rightarrow> bool" where
  "frame P m \<longleftrightarrow> (\<forall>w p. p \<notin> P \<longrightarrow> w_files (fst (m w)) p = w_files w p)"

definition quiet :: "'a io \<Rightarrow> bool" where
  "quiet m \<longleftrightarrow> (\<forall>w. w_passLog (fst (m w)) = w_passLog w \<and> w_rejectLog (fst (m w)) = w_rejectLog w)"

named_theorems frames \<open>frame rules of the operations\<close>
named_theorems quiets \<open>operations that write no audit entry\<close>

lemma frame_bind [frames]: "frame P m \<Longrightarrow> (\<And>x. frame P (f x)) \<Longrightarrow> frame P (io_bind m f)"
proof -
  assume m: "frame P m" and f: "\<And>x. frame P (f x)"
  show "frame P (io_bind m f)" unfolding frame_def
  proof (intro allI impI)
    fix w p assume "p \<notin> P"
    then have "w_files (fst (m w)) p = w_files w p" "\<And>x w. w_files (fst (f x w)) p = w_files w p"
      using m f by (auto simp: frame_def)
    then show "w_files (fst (io_bind m f w)) p = w_files w p"
      by (cases "m w"; cases "snd (m w)") (auto simp: io_bind_def)
  qed
qed

lemma quiet_bind [quiets]: "quiet m \<Longrightarrow> (\<And>x. quiet (f x)) \<Longrightarrow> quiet (io_bind m f)"
proof -
  assume m: "quiet m" and f: "\<And>x. quiet (f x)"
  show "quiet (io_bind m f)" unfolding quiet_def
  proof
    fix w
    show "w_passLog (fst (io_bind m f w)) = w_passLog w \<and> w_rejectLog (fst (io_bind m f w)) = w_rejectLog w"
      using m [unfolded quiet_def, rule_format, of w] f
      by (cases "m w"; cases "snd (m w)") (auto simp: io_bind_def quiet_def)
  qed
qed

lemma frame_cases [frames]:
  "frame P a \<Longrightarrow> (\<And>x. frame P (b x)) \<Longrightarrow> frame P (case v of None \<Rightarrow> a | Some x \<Rightarrow> b x)"
  "frame P a \<Longrightarrow> frame P c \<Longrightarrow> frame P (if cond then a else c)"
  by (cases v) auto

lemma quiet_cases [quiets]:
  "quiet a \<Longrightarrow> (\<And>x. quiet (b x)) \<Longrightarrow> quiet (case v of None \<Rightarrow> a | Some x \<Rightarrow> b x)"
  "quiet a \<Longrightarrow> quiet c \<Longrightarrow> quiet (if cond then a else c)"
  by (cases v) auto

lemma fst_io_wrap [simp]: "fst (io_wrap msg m w) = fst (m w)"
  by (cases "m w"; cases "snd (m w)") (auto simp: io_wrap_def)

lemma frame_wrap [frames]: "frame P m \<Longrightarrow> frame P (io_wrap msg m)"
  by (simp add: frame_def)

lemma frame_ignore [frames]: "frame P m \<Longrightarrow> frame P (io_ignore m)"
  by (simp add: frame_def io_ignore_def)

lemma quiet_wrap [quiets]: "quiet m \<Longrightarrow> quiet (io_wrap msg m)"
  by (simp add: quiet_def)

lemma quiet_ignore [quiets]: "quiet m \<Longrightarrow> quiet (io_ignore m)"
  by (simp add: quiet_def io_ignore_def)

lemma frame_ops [frames]:
  "frame P (io_return x)" "frame P (io_fail e)" "frame P (os_MkdirAll lib d)" "frame P (os_ReadFile lib q)"
  "frame P (LogPass lib ae)" "frame P (LogReject lib ae reason)"
  "q \<in> P \<Longrightarrow> frame P (os_WriteFile lib q b)" "q \<in> P \<Longrightarrow> frame P (os_Remove lib q)"
  "Collect (under d) \<subseteq> P \<Longrightarrow> frame P (os_RemoveAll lib d)"
  "q \<in> P \<Longrightarrow> q2 \<in> P \<Longrightarrow> frame P (os_RenameFile lib q q2)"
  "Collect (under d) \<subseteq> P \<Longrightarrow> Collect (under d2) \<subseteq> P \<Longrightarrow> frame P (os_RenameDir lib d d2)"
  by (auto simp: frame_def io_return_def io_fail_def os_MkdirAll_def os_ReadFile_def LogPass_def LogReject_def
      os_WriteFile_def os_Remove_def os_RemoveAll_def os_RenameFile_def os_RenameDir_def split: option.splits)

lemma quiet_ops [quiets]:
  "quiet (io_return x)" "quiet (io_fail e)" "quiet (os_MkdirAll lib d)" "quiet (os_ReadFile lib q)"
  "quiet (os_WriteFile lib q b)" "quiet (os_Remove lib q)" "quiet (os_RemoveAll lib d)"
  "quiet (os_RenameFile lib q q2)" "quiet (os_RenameDir lib d d2)"
  by (auto simp: quiet_def io_return_def io_fail_def os_MkdirAll_def os_ReadFile_def
      os_WriteFile_def os_Remove_def os_RemoveAll_def os_RenameFile_def os_RenameDir_def split: option.splits)

definition pending_path :: "route_cfg \<Rightarrow> StagingItem \<Rightarrow> string" where
  "pending_path cfg item =
     go_Join [go_Join [cf_agentsDir cfg, im_destinationAgent (si_metadata item), ''workspace'', ''inbox''],
              PendingFilename (go_Base (si_dirPath item))]"

definition own_paths :: "StagingItem \<Rightarrow> string set" where
  "own_paths item = Collect (under (si_dirPath item)) \<union>
     {go_Join [si_dirPath item, ''metadata.json''], go_Join [si_dirPath item, ''metadata.json''] @ ''.tmp''}"

definition quarantine_id :: "route_lib \<Rightarrow> bytes \<Rightarrow> string" where
  "quarantine_id lib content = rl_stamp lib @ ''-'' @ take 12 (contentHash lib content)"

definition quarantine_paths :: "route_lib \<Rightarrow> route_cfg \<Rightarrow> string set" where
  "quarantine_paths lib cfg =
     {p. \<exists>c. p \<in> {go_Join [go_Join [cf_quarantineDir cfg, quarantine_id lib c], ''content.sanitized''],
                 go_Join [go_Join [cf_quarantineDir cfg, quarantine_id lib c], ''metadata.json''],
                 go_Join [go_Join [cf_sharedDir cfg, ''glovebox-notifications''], quarantine_id lib c @ ''.json'']}}"

definition failed_paths :: "route_lib \<Rightarrow> route_cfg \<Rightarrow> StagingItem \<Rightarrow> string set" where
  "failed_paths lib cfg item =
     (let dest = go_Join [cf_failedDir cfg, go_Base (si_dirPath item)]
      in Collect (under dest) \<union>
         (\<lambda>e. go_Join [dest, e]) ` set (''failed_reason.txt'' # rl_readdir lib (si_dirPath item)))"

lemma removePending_frame: "pending_path cfg item \<in> P \<Longrightarrow> frame P (removePendingForItem lib item cfg)"
  by (auto simp: removePendingForItem_def RemovePending_def pending_path_def intro!: frames)

lemma removePending_quiet [quiets]: "quiet (removePendingForItem lib item cfg)"
  by (auto simp: removePendingForItem_def RemovePending_def intro!: quiets)

lemma quarantine_item_frame:
  assumes "pending_path cfg item \<in> P" "own_paths item \<subseteq> P" "quarantine_paths lib cfg \<subseteq> P"
  shows "frame P (quarantine_item lib cfg th item res reason)"
proof -
  have q: "go_Join [go_Join [cf_quarantineDir cfg, quarantine_id lib c], ''content.sanitized''] \<in> P"
    "go_Join [go_Join [cf_quarantineDir cfg, quarantine_id lib c], ''metadata.json''] \<in> P"
    "go_Join [go_Join [cf_sharedDir cfg, ''glovebox-notifications''], quarantine_id lib c @ ''.json''] \<in> P" for c
    using assms(3) by (auto simp: quarantine_paths_def)
  have own: "Collect (under (si_dirPath item)) \<subseteq> P" using assms(2) by (auto simp: own_paths_def)
  show ?thesis
    unfolding quarantine_item_def RouteQuarantine_def WriteQuarantineNotification_def Let_def quarantine_id_def [symmetric]
    by (intro frames removePending_frame assms(1) q own)
qed

lemma fail_item_frame:
  assumes "pending_path cfg item \<in> P" "own_paths item \<subseteq> P" "failed_paths lib cfg item \<subseteq> P"
  shows "frame P (fail_item lib cfg item reason)"
proof -
  define dest where "dest = go_Join [cf_failedDir cfg, go_Base (si_dirPath item)]"
  have d: "Collect (under dest) \<subseteq> P" "go_Join [dest, ''failed_reason.txt''] \<in> P"
    "\<And>e. e \<in> set (rl_readdir lib (si_dirPath item)) \<Longrightarrow> go_Join [dest, e] \<in> P"
    using assms(3) by (auto simp: failed_paths_def dest_def [symmetric] Let_def)
  have own: "Collect (under (si_dirPath item)) \<subseteq> P" using assms(2) by (auto simp: own_paths_def)
  have loop: "set es \<subseteq> set (rl_readdir lib (si_dirPath item)) \<Longrightarrow> frame P (copy_loop lib src dest es)" for src es
    by (induction es) (auto intro!: frames d(3))
  have copy: "frame P (copyDir lib (si_dirPath item) dest)"
    unfolding copyDir_def by (intro frames loop own order_refl)
  have ren: "frame P (os_RenameDir lib (si_dirPath item) dest)" by (intro frames own d(1))
  have mv: "frame P (\<lambda>w. case os_RenameDir lib (si_dirPath item) dest w of
      (w, Inr _) \<Rightarrow> (w, Inr ()) | (w, Inl _) \<Rightarrow> copyDir lib (si_dirPath item) dest w)"
    unfolding frame_def
  proof (intro allI impI)
    fix w p assume "p \<notin> P"
    with ren copy show "w_files (fst (case os_RenameDir lib (si_dirPath item) dest w of
        (w, Inr _) \<Rightarrow> (w, Inr ()) | (w, Inl _) \<Rightarrow> copyDir lib (si_dirPath item) dest w)) p = w_files w p"
      by (cases "os_RenameDir lib (si_dirPath item) dest w"; cases "snd (os_RenameDir lib (si_dirPath item) dest w)")
        (auto simp: frame_def, metis fst_conv, metis fst_conv)
  qed
  show ?thesis
    unfolding fail_item_def RouteToFailed_def Let_def dest_def [symmetric]
    by (intro frames removePending_frame assms(1) mv d)
qed

lemma persistMetadata_frame: "own_paths item \<subseteq> P \<Longrightarrow> frame P (persistMetadata lib item)"
  unfolding frame_def own_paths_def
  by (auto simp: persistMetadata_def Let_def os_WriteFile_def os_Remove_def os_RenameFile_def
      split: option.splits)

lemma persistMetadata_quiet: "quiet (persistMetadata lib item)"
  unfolding quiet_def
  by (auto simp: persistMetadata_def Let_def os_WriteFile_def os_Remove_def os_RenameFile_def
      split: option.splits)

section \<open>Only a pass reaches an inbox\<close>

lemma ResolveItem_keeps:
  "ResolveItem meta reg = (meta', out) \<Longrightarrow>
   im_destinationAgent meta' = im_destinationAgent meta \<and> im_ordered meta' = im_ordered meta \<and> im_tags meta' = im_tags meta"
  by (auto simp: ResolveItem_def Let_def split: if_splits option.splits)

lemma SubjectGate_keeps:
  assumes "SubjectGate lib item reg w = (w', item', act, e)"
  shows "si_dirPath item' = si_dirPath item \<and> si_contentPath item' = si_contentPath item
    \<and> im_destinationAgent (si_metadata item') = im_destinationAgent (si_metadata item)
    \<and> im_ordered (si_metadata item') = im_ordered (si_metadata item)
    \<and> (\<forall>p. p \<notin> own_paths item \<longrightarrow> w_files w' p = w_files w p)
    \<and> w_passLog w' = w_passLog w \<and> w_rejectLog w' = w_rejectLog w"
proof -
  obtain meta out where r: "ResolveItem (si_metadata item) reg = (meta, out)" by fastforce
  show ?thesis
  proof (cases out)
    case OutcomeResolved
    define it where "it = item\<lparr>si_metadata := meta\<rparr>"
    have res: "w' = fst (persistMetadata lib it w)" "item' = it"
      using assms r OutcomeResolved
      by (auto simp: SubjectGate_def it_def Let_def split: prod.splits sum.splits)
    have "own_paths it = own_paths item" by (simp add: own_paths_def it_def)
    then show ?thesis
      using persistMetadata_frame [of it "own_paths item" lib] persistMetadata_quiet [of lib it] ResolveItem_keeps [OF r] res
      by (auto simp: frame_def quiet_def it_def)
  qed (use assms r in \<open>auto simp: SubjectGate_def split: if_splits\<close>)
qed

definition delivery_dir :: "StagingItem \<Rightarrow> string \<Rightarrow> string" where
  "delivery_dir item destDir = go_Join [destDir, go_Base (si_dirPath item)]"

definition inbox_paths :: "StagingItem \<Rightarrow> string \<Rightarrow> string set" where
  "inbox_paths item destDir =
     {go_Join [delivery_dir item destDir, ''content.raw''], go_Join [delivery_dir item destDir, ''metadata.json'']}"

lemma RoutePass_frame:
  assumes "own_paths item \<subseteq> P" "inbox_paths item destDir \<subseteq> P"
  shows "frame P (RoutePass lib item res destDir)"
proof -
  have q: "go_Join [delivery_dir item destDir, ''content.raw''] \<in> P" "go_Join [delivery_dir item destDir, ''metadata.json''] \<in> P"
    using assms(2) by (auto simp: inbox_paths_def)
  have own: "Collect (under (si_dirPath item)) \<subseteq> P" using assms(1) by (auto simp: own_paths_def)
  show ?thesis unfolding RoutePass_def Let_def delivery_dir_def [symmetric] by (intro frames q own)
qed

lemma RouteReject_frame: "own_paths item \<subseteq> P \<Longrightarrow> frame P (RouteReject lib (si_dirPath item) e md)"
  unfolding RouteReject_def Let_def by (intro frames) (auto simp: own_paths_def)

definition gate_passes :: "route_lib \<Rightarrow> StagingItem \<Rightarrow> SubjectRegistry option \<Rightarrow> world \<Rightarrow> bool" where
  "gate_passes lib item reg w \<longleftrightarrow>
     (case SubjectGate lib item reg w of (_, _, act, e) \<Rightarrow> e = None \<and> act \<noteq> GateQuarantine)"

text \<open>
  The decision of \<^verbatim>\<open>deliverResult\<close> in one place: the six early exits, and otherwise a pass or a reject
  of the item the gate returned.
\<close>

lemma deliverResult_cases:
  fixes ud lib resp cfg reg th w
  defines "run \<equiv> deliverResult ud lib resp cfg reg th w"
  obtains (quarantined) item res reason w0 where
      "run = quarantine_item lib cfg th item res reason w0"
      "w0 = w \<and> item = sp_item resp \<or> (\<exists>act. SubjectGate lib (sp_item resp) reg w = (w0, item, act, None))"
  | (failed) item reason w0 where "run = fail_item lib cfg item reason w0"
      "w0 = w \<and> item = sp_item resp \<and> sp_err resp \<noteq> None \<or> (\<exists>act e. SubjectGate lib (sp_item resp) reg w = (w0, item, act, Some e))"
  | (delivered) item result w0 act where "run = pass_or_reject ud lib cfg item result w0"
      "SubjectGate lib (sp_item resp) reg w = (w0, item, act, None)" "act \<noteq> GateQuarantine"
      "sp_result resp = Some result" "sr_verdict result \<noteq> VerdictQuarantine"
      "\<not> sp_timedOut resp" "sp_err resp = None" "\<not> w_degraded w" "\<not> ShouldForceQuarantineFromTag (si_metadata (sp_item resp))"
proof -
  consider "sp_timedOut resp \<or> sp_err resp \<noteq> None \<or> w_degraded w \<or> ShouldForceQuarantineFromTag (si_metadata (sp_item resp))
      \<or> sp_result resp = None"
    | result where "\<not> sp_timedOut resp" "sp_err resp = None" "\<not> w_degraded w"
      "\<not> ShouldForceQuarantineFromTag (si_metadata (sp_item resp))" "sp_result resp = Some result" by blast
  then show ?thesis
  proof cases
    case 1
    then have "(\<exists>reason. run = quarantine_item lib cfg th (sp_item resp) (forced_result resp) reason w)
        \<or> (\<exists>reason. run = fail_item lib cfg (sp_item resp) reason w) \<and> sp_err resp \<noteq> None"
      by (auto simp: run_def deliverResult_def)
    then show ?thesis using quarantined failed by blast
  next
    case 2
    obtain w0 item act e where g: "SubjectGate lib (sp_item resp) reg w = (w0, item, act, e)" by (metis prod_cases4)
    show ?thesis
    proof (cases e)
      case (Some x)
      then show ?thesis using 2 g failed [of item "''subject_gate_error''" w0] by (simp add: run_def deliverResult_def)
    next
      case None
      consider "act = GateQuarantine" | "act \<noteq> GateQuarantine" "sr_verdict result = VerdictQuarantine"
        | "act \<noteq> GateQuarantine" "sr_verdict result \<noteq> VerdictQuarantine" by blast
      then show ?thesis
      proof cases
        case 1
        then show ?thesis using 2 g None quarantined [of item result "''subject_unresolved''" w0]
          by (simp add: run_def deliverResult_def)
      next
        case b: 2
        then show ?thesis using 2 g None quarantined [of item result "''threshold_exceeded''" w0]
          by (simp add: run_def deliverResult_def)
      next
        case 3
        then show ?thesis using 2 g None delivered [of item result w0 act] by (simp add: run_def deliverResult_def)
      qed
    qed
  qed
qed

lemma foreign_change_is_pass:
  assumes "w_files (fst (deliverResult ud lib resp cfg reg th w)) p \<noteq> w_files w p"
    and "p \<notin> own_paths (sp_item resp) \<union> quarantine_paths lib cfg \<union> failed_paths lib cfg (sp_item resp)
           \<union> {pending_path cfg (sp_item resp)}"
  shows "\<not> sp_timedOut resp \<and> sp_err resp = None \<and> \<not> w_degraded w
    \<and> \<not> ShouldForceQuarantineFromTag (si_metadata (sp_item resp))
    \<and> (\<exists>result. sp_result resp = Some result \<and> sr_verdict result \<noteq> VerdictQuarantine)
    \<and> gate_passes lib (sp_item resp) reg w
    \<and> im_destinationAgent (si_metadata (sp_item resp)) \<in> set (cf_allowlist cfg)
    \<and> (\<exists>destDir. ValidateDestination ud lib (im_destinationAgent (si_metadata (sp_item resp))) (cf_agentsDir cfg)
          (cf_allowlist cfg) = Inr destDir \<and> p \<in> inbox_paths (sp_item resp) destDir)"
proof -
  let ?item = "sp_item resp"
  let ?P = "own_paths ?item \<union> quarantine_paths lib cfg \<union> failed_paths lib cfg ?item \<union> {pending_path cfg ?item}"
  have same: "own_paths item = own_paths ?item" "failed_paths lib cfg item = failed_paths lib cfg ?item"
    "pending_path cfg item = pending_path cfg ?item" "inbox_paths item d = inbox_paths ?item d"
    if "SubjectGate lib ?item reg w = (w0, item, act, e)" for w0 item act e d
    using SubjectGate_keeps [OF that]
    by (auto simp: own_paths_def failed_paths_def pending_path_def inbox_paths_def delivery_dir_def)
  have pre: "w_files w0 p = w_files w p" if "SubjectGate lib ?item reg w = (w0, item, act, e)" for w0 item act e
    using SubjectGate_keeps [OF that] assms(2) by auto
  show ?thesis
  proof (rule deliverResult_cases [of ud lib resp cfg reg th w])
    fix item res reason w0
    assume run: "deliverResult ud lib resp cfg reg th w = quarantine_item lib cfg th item res reason w0"
      and w0: "w0 = w \<and> item = ?item \<or> (\<exists>act. SubjectGate lib ?item reg w = (w0, item, act, None))"
    have "frame ?P (quarantine_item lib cfg th item res reason)"
      using w0 same by (intro quarantine_item_frame) auto
    then have "w_files (fst (quarantine_item lib cfg th item res reason w0)) p = w_files w0 p"
      using assms(2) by (auto simp: frame_def)
    then show ?thesis using run assms(1) w0 pre by auto
  next
    fix item reason w0
    assume run: "deliverResult ud lib resp cfg reg th w = fail_item lib cfg item reason w0"
      and w0: "w0 = w \<and> item = ?item \<and> sp_err resp \<noteq> None \<or> (\<exists>act e. SubjectGate lib ?item reg w = (w0, item, act, Some e))"
    have "frame ?P (fail_item lib cfg item reason)" using w0 same by (intro fail_item_frame) auto
    then have "w_files (fst (fail_item lib cfg item reason w0)) p = w_files w0 p"
      using assms(2) by (auto simp: frame_def)
    then show ?thesis using run assms(1) w0 pre by auto
  next
    fix item result w0 act
    assume run: "deliverResult ud lib resp cfg reg th w = pass_or_reject ud lib cfg item result w0"
      and g: "SubjectGate lib ?item reg w = (w0, item, act, None)" "act \<noteq> GateQuarantine"
      and c: "sp_result resp = Some result" "sr_verdict result \<noteq> VerdictQuarantine" "\<not> sp_timedOut resp"
        "sp_err resp = None" "\<not> w_degraded w" "\<not> ShouldForceQuarantineFromTag (si_metadata ?item)"
    note s = same [OF g(1)] and k = SubjectGate_keeps [OF g(1)]
    have changed: "w_files (fst (pass_or_reject ud lib cfg item result w0)) p \<noteq> w_files w0 p"
      using run assms(1) pre [OF g(1)] by simp
    have pend: "frame Q (removePendingForItem lib item cfg)" if "pending_path cfg ?item \<in> Q" for Q
      using that s by (intro removePending_frame) simp
    have rej: "frame ?P (io_bind (removePendingForItem lib item cfg)
        (\<lambda>_. RouteReject lib (si_dirPath item) e (Some (si_metadata item))))" for e
      using s by (intro frames pend RouteReject_frame) auto
    obtain destDir where d: "ValidateDestination ud lib (im_destinationAgent (si_metadata item)) (cf_agentsDir cfg)
        (cf_allowlist cfg) = Inr destDir"
      using changed rej assms(2) by (auto simp: pass_or_reject_def frame_def split: sum.splits)
    have "frame (?P \<union> inbox_paths ?item destDir)
        (io_bind (RoutePass lib item result destDir) (\<lambda>_. removePendingForItem lib item cfg))"
      using s by (intro frames pend RoutePass_frame) auto
    then have "p \<in> inbox_paths ?item destDir"
      using changed assms(2) d by (auto simp: pass_or_reject_def frame_def)
    moreover have "im_destinationAgent (si_metadata ?item) \<in> set (cf_allowlist cfg)"
      using d k by (auto simp: ValidateDestination_def split: if_splits)
    ultimately show ?thesis using c g d k by (simp add: gate_passes_def)
  qed
qed

abbreviation sample_inbox_file :: string where
  "sample_inbox_file \<equiv> ''/agents/mail/workspace/inbox/i1/content.raw''"

lemma sample_inbox_changed:
  "w_files (fst (deliverResult sample_ud sample_rlib sample_resp sample_cfg None (4 / 5) sample_world)) sample_inbox_file
    \<noteq> w_files sample_world sample_inbox_file"
  using sample_delivery by (auto simp: sample_world_def)

lemma sample_inbox_foreign:
  "sample_inbox_file \<notin> own_paths sample_item \<union> quarantine_paths sample_rlib sample_cfg
     \<union> failed_paths sample_rlib sample_cfg sample_item \<union> {pending_path sample_cfg sample_item}"
proof -
  have q: "quarantine_id sample_rlib c = ''20260101-000000-000000000000''" for c
  proof -
    have "hex_digit 0 = CHR ''0''" by (simp add: hex_digit_def char_of_def bit_0)
    then have "hex_fixed 2 0 = ''00''" by (simp add: numeral_2_eq_2)
    then have "contentHash sample_rlib c = ''000000000000''" by (simp add: contentHash_def sample_rlib_def hex_encode_def)
    then show ?thesis by (simp add: quarantine_id_def) (simp add: sample_rlib_def)
  qed
  have "sample_inbox_file \<notin> own_paths sample_item" by (simp add: own_paths_def sample_item_def under_def sample_paths)
  moreover have "sample_inbox_file \<notin> quarantine_paths sample_rlib sample_cfg"
    by (simp add: quarantine_paths_def q sample_cfg_def path_eval)
  moreover have "sample_inbox_file \<notin> failed_paths sample_rlib sample_cfg sample_item"
    by (simp add: failed_paths_def sample_cfg_def sample_item_def sample_paths under_def sample_rlib_def)
  moreover have "sample_inbox_file \<noteq> pending_path sample_cfg sample_item"
    by (simp add: pending_path_def sample_cfg_def sample_item_def sample_meta_def sample_paths PendingFilename_def)
  ultimately show ?thesis by simp
qed

text \<open>
  C3: Nothing but a passed scan reaches an inbox, whichever file operations fail. If delivering a
  result changes any file outside the item's own directory, the quarantine and notification
  files, the failed directory and the item's pending marker, then the scan neither timed out nor
  failed, the audit log was not degraded, no tag forced quarantine, the scan result exists and is
  not a quarantine, the subject gate let the item through, the destination agent is on the
  allowlist, and the file is the delivered content or metadata in that agent's validated inbox.
\<close>

theorem inbox_only_on_pass:
  assumes "w_files (fst (deliverResult ud lib resp cfg reg th w)) p \<noteq> w_files w p"
    and "p \<notin> own_paths (sp_item resp) \<union> quarantine_paths lib cfg \<union> failed_paths lib cfg (sp_item resp)
           \<union> {pending_path cfg (sp_item resp)}"
  shows "\<not> sp_timedOut resp \<and> sp_err resp = None \<and> \<not> w_degraded w
    \<and> \<not> ShouldForceQuarantineFromTag (si_metadata (sp_item resp))
    \<and> (\<exists>result. sp_result resp = Some result \<and> sr_verdict result \<noteq> VerdictQuarantine)
    \<and> gate_passes lib (sp_item resp) reg w
    \<and> im_destinationAgent (si_metadata (sp_item resp)) \<in> set (cf_allowlist cfg)
    \<and> (\<exists>destDir. ValidateDestination ud lib (im_destinationAgent (si_metadata (sp_item resp))) (cf_agentsDir cfg)
          (cf_allowlist cfg) = Inr destDir \<and> p \<in> inbox_paths (sp_item resp) destDir)"
  using foreign_change_is_pass [OF assms] .

theorem inbox_only_on_pass_witness:
  "gate_passes sample_rlib sample_item None sample_world \<and> im_destinationAgent (si_metadata sample_item) \<in> set (cf_allowlist sample_cfg)"
proof -
  have "sample_inbox_file \<notin> own_paths (sp_item sample_resp) \<union> quarantine_paths sample_rlib sample_cfg
      \<union> failed_paths sample_rlib sample_cfg (sp_item sample_resp) \<union> {pending_path sample_cfg (sp_item sample_resp)}"
    using sample_inbox_foreign by (simp add: sample_resp_def)
  from inbox_only_on_pass [OF sample_inbox_changed this] show ?thesis by (simp add: sample_resp_def)
qed

section \<open>Every disposal is accounted for\<close>

lemma io_bind_Inr: "io_bind m f w = (w', Inr y) \<longleftrightarrow> (\<exists>w1 x. m w = (w1, Inr x) \<and> f x w1 = (w', Inr y))"
  by (cases "m w"; cases "snd (m w)") (auto simp: io_bind_def)

lemma io_wrap_Inr: "io_wrap msg m w = (w', Inr x) \<longleftrightarrow> m w = (w', Inr x)"
  by (cases "m w"; cases "snd (m w)") (auto simp: io_wrap_def)

lemma quietD: "quiet m \<Longrightarrow> m w = (w', r) \<Longrightarrow> w_passLog w' = w_passLog w \<and> w_rejectLog w' = w_rejectLog w"
  by (metis fst_conv quiet_def)

lemma os_ReadFile_Inr: "os_ReadFile lib p w = (w', Inr b) \<Longrightarrow> w' = w \<and> w_files w p = Some b"
  by (auto simp: os_ReadFile_def split: option.splits if_splits)

lemma os_WriteFile_Inr: "os_WriteFile lib p b w = (w', Inr x) \<Longrightarrow> w' = w\<lparr>w_files := (w_files w)(p \<mapsto> b)\<rparr>"
  by (auto simp: os_WriteFile_def split: option.splits if_splits)

lemma LogReject_Inr: "LogReject lib e reason w = (w', Inr x) \<Longrightarrow>
    w_passLog w' = w_passLog w \<and> w_rejectLog w' = w_rejectLog w @ [(e, reason)]"
  by (auto simp: LogReject_def split: if_splits)

lemma notification_quiet [quiets]: "quiet (WriteQuarantineNotification lib q item res n d)"
  unfolding WriteQuarantineNotification_def Let_def by (intro quiets)

lemma RouteQuarantine_logs:
  assumes "RouteQuarantine lib item res qd nd th reason w = (w', Inr x)"
  shows "w_passLog w' = w_passLog w \<and> (\<exists>e. w_rejectLog w' = w_rejectLog w @ [(e, reason)])"
proof -
  obtain content w1 where r: "os_ReadFile lib (si_contentPath item) w = (w1, Inr content)"
    using assms unfolding RouteQuarantine_def io_bind_Inr io_wrap_Inr by blast
  define qID where "qID = rl_stamp lib @ ''-'' @ take 12 (contentHash lib content)"
  define e where "e = audit_entry item res (verdict_string VerdictQuarantine) (contentHash lib content) (length content)"
  define qm where "qm = \<lparr>qm_item = si_metadata item, qm_contentHash = contentHash lib content, qm_signals = sr_signals res,
    qm_totalScore = sr_total res, qm_threshold = th, qm_reason = reason\<rparr>"
  have "w1 = w" using os_ReadFile_Inr [OF r] by simp
  with r assms obtain u2 w2 u3 w3 where
    s: "os_MkdirAll lib (go_Join [qd, qID]) w = (w2, Inr u2)"
      "os_WriteFile lib (go_Join [go_Join [qd, qID], ''content.sanitized'']) (SanitizeContent content) w2 = (w3, Inr u3)"
    and rest: "(case rl_json_quarantine lib qm of
        None \<Rightarrow> io_fail (Wrap ''marshal quarantine metadata'' (Lib ''json.MarshalIndent''))
      | Some metaData \<Rightarrow>
          io_bind (io_wrap ''write quarantine metadata'' (os_WriteFile lib (go_Join [go_Join [qd, qID], ''metadata.json'']) metaData)) (\<lambda>_.
          io_bind (io_wrap ''write notification'' (WriteQuarantineNotification lib qID item res (length content) nd)) (\<lambda>_.
          io_bind (io_wrap ''audit log'' (LogReject lib e reason)) (\<lambda>_.
          io_ignore (os_RemoveAll lib (si_dirPath item)))))) w3 = (w', Inr x)"
    unfolding RouteQuarantine_def Let_def qID_def e_def qm_def by (auto simp: io_bind_Inr io_wrap_Inr)
  obtain md where "rl_json_quarantine lib qm = Some md"
    using rest by (cases "rl_json_quarantine lib qm") (auto simp: io_fail_def)
  with rest obtain w4 u4 w5 u5 w6 u6 where
    t: "os_WriteFile lib (go_Join [go_Join [qd, qID], ''metadata.json'']) md w3 = (w4, Inr u4)"
      "WriteQuarantineNotification lib qID item res (length content) nd w4 = (w5, Inr u5)"
      "LogReject lib e reason w5 = (w6, Inr u6)" "io_ignore (os_RemoveAll lib (si_dirPath item)) w6 = (w', Inr x)"
    by (auto simp: io_bind_Inr io_wrap_Inr)
  have q: "quiet (io_ignore (os_RemoveAll lib (si_dirPath item)))" by (intro quiets)
  show ?thesis
    using quietD [OF quiet_ops(3) s(1)] quietD [OF quiet_ops(5) s(2)] quietD [OF quiet_ops(5) t(1)]
      quietD [OF notification_quiet t(2)] LogReject_Inr [OF t(3)] quietD [OF q t(4)] by simp
qed

lemma quarantine_item_logs:
  assumes "quarantine_item lib cfg th item res reason w = (w', Inr x)"
  shows "w_passLog w' = w_passLog w \<and> (\<exists>e. w_rejectLog w' = w_rejectLog w @ [(e, reason)])"
  using assms RouteQuarantine_logs quietD [OF removePending_quiet]
  unfolding quarantine_item_def io_bind_Inr by metis

lemma RouteReject_logs:
  assumes "RouteReject lib path reason md w = (w', Inr x)"
  shows "w_passLog w' = w_passLog w \<and> (\<exists>e. w_rejectLog w' = w_rejectLog w @ [(e, reason)])"
proof -
  have "quiet (io_ignore (os_RemoveAll lib path))" by (intro quiets)
  moreover obtain e w1 u where "LogReject lib e reason w = (w1, Inr u)" "io_ignore (os_RemoveAll lib path) w1 = (w', Inr x)"
    using assms unfolding RouteReject_def Let_def io_bind_Inr io_wrap_Inr by blast
  ultimately show ?thesis using LogReject_Inr [of lib e reason w w1 u] quietD [of _ w1 w'] by auto
qed

lemma content_path_distinct:
  "go_Join [d, ''content.raw''] \<noteq> go_Join [d', ''metadata.json'']"
  "go_Join [d, ''content.raw''] \<noteq> go_Join [d', ''metadata.json''] @ ''.tmp''"
proof -
  have c: "suffix ''content.raw'' (go_Join [d, ''content.raw''])" "suffix ''metadata.json'' (go_Join [d', ''metadata.json''])"
    by (rule go_Join_suffix; simp)+
  then have "last (go_Join [d, ''content.raw'']) = CHR ''w''" "last (go_Join [d', ''metadata.json'']) = CHR ''n''"
    by (auto simp: suffix_def)
  then show "go_Join [d, ''content.raw''] \<noteq> go_Join [d', ''metadata.json'']"
    "go_Join [d, ''content.raw''] \<noteq> go_Join [d', ''metadata.json''] @ ''.tmp''" by auto
qed

lemma RoutePass_Inr:
  assumes "RoutePass lib item res destDir w = (w', Inr x)"
  defines "c \<equiv> go_Join [delivery_dir item destDir, ''content.raw'']"
  shows "\<exists>content. w_files w (si_contentPath item) = Some content
    \<and> w_passLog w' = w_passLog w @ [audit_entry item res (verdict_string (sr_verdict res)) (contentHash lib content) (length content)]
    \<and> w_rejectLog w' = w_rejectLog w
    \<and> (\<not> under (si_dirPath item) c \<longrightarrow> w_files w' c = Some content)
    \<and> (io_ok lib (OpRemoveAll (si_dirPath item)) \<longrightarrow> (\<forall>p. under (si_dirPath item) p \<longrightarrow> w_files w' p = None))"
proof -
  define m where "m = go_Join [delivery_dir item destDir, ''metadata.json'']"
  obtain content w1 w2 md w3 w4 where
    s: "os_MkdirAll lib (delivery_dir item destDir) w = (w1, Inr ())" "os_ReadFile lib (si_contentPath item) w1 = (w1, Inr content)"
      "os_WriteFile lib c content w1 = (w2, Inr ())" "os_WriteFile lib m md w2 = (w3, Inr ())"
      "LogPass lib (audit_entry item res (verdict_string (sr_verdict res)) (contentHash lib content) (length content)) w3 = (w4, Inr ())"
      "io_ignore (os_RemoveAll lib (si_dirPath item)) w4 = (w', Inr x)"
  proof -
    have "\<exists>w1 u1. os_MkdirAll lib (delivery_dir item destDir) w = (w1, Inr u1) \<and>
      (\<exists>w1' content. os_ReadFile lib (si_contentPath item) w1 = (w1', Inr content) \<and>
      (\<exists>w2 u2. os_WriteFile lib c content w1' = (w2, Inr u2) \<and>
      (\<exists>w2' md. os_ReadFile lib (go_Join [si_dirPath item, ''metadata.json'']) w2 = (w2', Inr md) \<and>
      (\<exists>w3 u3. os_WriteFile lib m md w2' = (w3, Inr u3) \<and>
      (\<exists>w4 u4. LogPass lib (audit_entry item res (verdict_string (sr_verdict res)) (contentHash lib content) (length content)) w3
          = (w4, Inr u4) \<and> io_ignore (os_RemoveAll lib (si_dirPath item)) w4 = (w', Inr x))))))"
      using assms(1) unfolding RoutePass_def Let_def delivery_dir_def [symmetric] io_bind_Inr io_wrap_Inr c_def m_def by auto
    then obtain w1 u1 w1' content w2 u2 w2' md w3 u3 w4 u4
      where *: "os_MkdirAll lib (delivery_dir item destDir) w = (w1, Inr u1)"
        "os_ReadFile lib (si_contentPath item) w1 = (w1', Inr content)" "os_WriteFile lib c content w1' = (w2, Inr u2)"
        "os_ReadFile lib (go_Join [si_dirPath item, ''metadata.json'']) w2 = (w2', Inr md)"
        "os_WriteFile lib m md w2' = (w3, Inr u3)"
        "LogPass lib (audit_entry item res (verdict_string (sr_verdict res)) (contentHash lib content) (length content)) w3 = (w4, Inr u4)"
        "io_ignore (os_RemoveAll lib (si_dirPath item)) w4 = (w', Inr x)" by blast
    moreover have "w1' = w1" "w2' = w2" using os_ReadFile_Inr [OF *(2)] os_ReadFile_Inr [OF *(4)] by simp_all
    ultimately show ?thesis by (intro that) simp_all
  qed
  have w1: "w1 = w" using s(1) by (auto simp: os_MkdirAll_def)
  have files: "w_files w4 = (w_files w)(c \<mapsto> content, m \<mapsto> md)"
    using os_WriteFile_Inr [OF s(3)] os_WriteFile_Inr [OF s(4)] s(5) w1 by (auto simp: LogPass_def split: if_splits)
  have log: "w_passLog w4 = w_passLog w @ [audit_entry item res (verdict_string (sr_verdict res)) (contentHash lib content) (length content)]"
    "w_rejectLog w4 = w_rejectLog w"
    using os_WriteFile_Inr [OF s(3)] os_WriteFile_Inr [OF s(4)] s(5) w1 by (auto simp: LogPass_def split: if_splits)
  have fin: "w_passLog w' = w_passLog w4" "w_rejectLog w' = w_rejectLog w4"
    "w_files w' = (\<lambda>p. if io_ok lib (OpRemoveAll (si_dirPath item)) \<and> under (si_dirPath item) p then None else w_files w4 p)"
    using s(6) by (auto simp: io_ignore_def os_RemoveAll_def split: if_splits)
  have "c \<noteq> m" unfolding c_def m_def by (rule content_path_distinct)
  then show ?thesis using os_ReadFile_Inr [OF s(2)] w1 files log fin by auto
qed

lemma fail_item_quiet: "quiet (fail_item lib cfg item reason)"
proof -
  have loop: "quiet (copy_loop lib src dst es)" for src dst es by (induction es) (auto intro!: quiets)
  have copy: "quiet (copyDir lib src dst)" for src dst unfolding copyDir_def by (intro quiets loop)
  have "quiet (\<lambda>w. case os_RenameDir lib src dst w of (w, Inr _) \<Rightarrow> (w, Inr ()) | (w, Inl _) \<Rightarrow> copyDir lib src dst w)" for src dst
    using copy unfolding quiet_def os_RenameDir_def by auto
  then show ?thesis unfolding fail_item_def RouteToFailed_def Let_def by (intro quiets)
qed

lemma SubjectGate_content:
  assumes "SubjectGate lib item reg w = (w', item', act, e)"
    "p \<noteq> go_Join [si_dirPath item, ''metadata.json'']" "p \<noteq> go_Join [si_dirPath item, ''metadata.json''] @ ''.tmp''"
  shows "w_files w' p = w_files w p"
proof -
  have "w_files (fst (persistMetadata lib it w)) p = w_files w p" if "si_dirPath it = si_dirPath item" for it
    using assms(2,3) that
    by (auto simp: persistMetadata_def Let_def os_WriteFile_def os_Remove_def os_RenameFile_def split: option.splits)
  note persist = this
  obtain meta out where r: "ResolveItem (si_metadata item) reg = (meta, out)" by fastforce
  show ?thesis
  proof (cases out)
    case OutcomeResolved
    then have "w' = fst (persistMetadata lib (item\<lparr>si_metadata := meta\<rparr>) w)"
      using assms(1) r by (auto simp: SubjectGate_def Let_def split: prod.splits sum.splits)
    then show ?thesis using persist [of "item\<lparr>si_metadata := meta\<rparr>"] by simp
  qed (use assms(1) r in \<open>auto simp: SubjectGate_def split: if_splits\<close>)
qed



section \<open>Quarantined text is inert\<close>

definition inert :: "char \<Rightarrow> bool" where
  "inert c \<longleftrightarrow> (0x20 \<le> bv c \<and> bv c \<le> 0x7E) \<or> bv c \<in> {0x0A, 0x0D, 0x09}"

definition printable :: "char \<Rightarrow> bool" where
  "printable c \<longleftrightarrow> 0x20 \<le> bv c \<and> bv c \<le> 0x7E"

lemma hex_printable: "c \<in> set (hex_fixed w n) \<Longrightarrow> printable c"
proof (induction w arbitrary: n)
  case (Suc w)
  have "n mod 16 < 16" by simp
  then have "printable (hex_digit (n mod 16))" by (auto simp: hex_digit_def printable_def)
  with Suc show ?case by auto
qed simp

lemma ascii_rune: "r < 0x80 \<Longrightarrow> encode_rune r = [char_of r]"
  by (simp add: encode_rune_def to_scalar_def scalar_def encode_scalar_def)

lemma escape_printable: "k \<in> {CHR ''x'', CHR ''u'', CHR ''U''} \<Longrightarrow> c \<in> set (esc k @ hex_fixed w n) \<Longrightarrow> printable c"
  using hex_printable by (auto simp: esc_def printable_def)

lemma sanitize_rune_inert: "c \<in> set (sanitize_rune rc) \<Longrightarrow> inert c"
proof -
  assume c: "c \<in> set (sanitize_rune rc)"
  consider "c \<in> set (esc CHR ''x'' @ hex_fixed 2 (bv (hd (snd rc))))" | "c \<in> set (esc CHR ''u'' @ hex_fixed 4 (fst rc))"
    | "c \<in> set (esc CHR ''U'' @ hex_fixed 8 (fst rc))"
    | "c \<in> set (encode_rune (fst rc))" "fst rc \<le> 0x7E" "\<not> fst rc < 0x20 \<or> fst rc \<in> {0x0A, 0x0D, 0x09}"
    using c by (auto simp: sanitize_rune_def Let_def split: if_splits)
  then have "printable c \<or> inert c"
  proof cases
    case 1
    then show ?thesis using escape_printable [of "CHR ''x''"] by blast
  next
    case 2
    then show ?thesis using escape_printable [of "CHR ''u''"] by blast
  next
    case 3
    then show ?thesis using escape_printable [of "CHR ''U''"] by blast
  next
    case 4
    then have "c = char_of (fst rc)" by (simp add: ascii_rune)
    then have "bv c = fst rc" using 4(2) by simp
    then show ?thesis using 4(2,3) by (auto simp: inert_def)
  qed
  then show ?thesis by (auto simp: inert_def printable_def)
qed

lemma sanitize_rune_length: "length (sanitize_rune rc) \<le> 10"
  by (auto simp: sanitize_rune_def Let_def esc_def ascii_rune)

text \<open>
  C38: The quarantine copy and the notification are inert. Whatever the content, every byte of
  \<^verbatim>\<open>content.sanitized\<close> is printable ASCII, a tab or a line break, the text is framed by the header and
  the footer, and its length is bounded by ten bytes for each of at most 4096 characters plus the
  frame. Every byte of a sanitized metadata field is printable ASCII, so a field cannot break a line,
  and at most 256 characters of it are shown.
\<close>

theorem SanitizeContent_inert:
  "list_all inert (SanitizeContent content)
   \<and> prefix sanitizeHeader (SanitizeContent content) \<and> suffix sanitizeFooter (SanitizeContent content)
   \<and> length (SanitizeContent content) \<le> length sanitizeHeader + 40960 + length sanitizeFooter
   \<and> list_all printable (SanitizeField v) \<and> length (SanitizeField v) \<le> 2563"
proof (intro conjI)
  have hd: "list_all inert sanitizeHeader" "list_all inert sanitizeFooter"
    by (simp_all add: sanitizeHeader_def sanitizeFooter_def maxSanitizedChars_def show_nat.simps inert_def)
  have "list_all inert (concat (map sanitize_rune rcs))" for rcs
    using sanitize_rune_inert by (auto simp: list_all_iff)
  then show "list_all inert (SanitizeContent content)" using hd by (simp add: SanitizeContent_def)
  show "prefix sanitizeHeader (SanitizeContent content)" by (simp add: SanitizeContent_def)
  show "suffix sanitizeFooter (SanitizeContent content)" by (simp add: SanitizeContent_def suffix_def)
  have len: "length (concat (map f xs)) \<le> 10 * length xs" if "\<And>x. length (f x) \<le> 10" for f :: "'a \<Rightarrow> bytes" and xs
    by (induction xs) (use that in \<open>auto intro: add_mono\<close>)
  have "length (concat (map sanitize_rune (take maxSanitizedChars (rune_chunks content)))) \<le> 40960"
    using len [of sanitize_rune "take maxSanitizedChars (rune_chunks content)"] sanitize_rune_length
    by (simp add: maxSanitizedChars_def)
  then show "length (SanitizeContent content) \<le> length sanitizeHeader + 40960 + length sanitizeFooter"
    by (simp add: SanitizeContent_def)
  have p: "printable c" if "c \<in> set (sanitize_field_rune r)" for c r
    using that escape_printable [of "CHR ''u''" c 4 r] escape_printable [of "CHR ''U''" c 8 r]
    by (auto simp: sanitize_field_rune_def ascii_rune printable_def split: if_splits)
  then show "list_all printable (SanitizeField v)"
    by (auto simp: SanitizeField_def list_all_iff printable_def)
  have "length (sanitize_field_rune r) \<le> 10" for r by (auto simp: sanitize_field_rune_def esc_def ascii_rune)
  then have "length (concat (map sanitize_field_rune (take maxSanitizedFieldChars (runes v)))) \<le> 2560"
    using len [of sanitize_field_rune "take maxSanitizedFieldChars (runes v)"] by (simp add: maxSanitizedFieldChars_def)
  then show "length (SanitizeField v) \<le> 2563" by (auto simp: SanitizeField_def)
qed

end
