(* ===== verification/Pipeline.thy ===== *)
theory Pipeline
  imports Scan Routing "HOL-Library.Multiset"
begin

text \<open>
  \<^verbatim>\<open>internal/pipeline\<close>: the worker that scans one item under a timeout, the router that delivers
  unordered results at once and holds ordered ones back, and the consumer loop that drives it. The
  delivery function is a parameter of the router, as in the code; the loop is a step relation, since
  Go chooses between its channels and visits the pending map in an order it leaves open.
\<close>

section \<open>The worker (worker.go)\<close>

definition error_response :: "StagingItem \<Rightarrow> err \<Rightarrow> ScanResponse" where
  "error_response item e =
     \<lparr>sp_item = item, sp_signals = [], sp_timedOut = False, sp_err = Some e, sp_result = None\<rparr>"

definition timeout_response :: "StagingItem \<Rightarrow> ScanResponse" where
  "timeout_response item =
     \<lparr>sp_item = item, sp_signals = [], sp_timedOut = True, sp_err = None, sp_result = None\<rparr>"

text \<open>What the scanning goroutine sends, \<open>None\<close> when it never does.\<close>

definition scan_goroutine :: "scan_lib \<Rightarrow> Scanner \<Rightarrow> (string \<Rightarrow> bytes option) \<Rightarrow> StagingItem \<Rightarrow> ScanResponse option" where
  "scan_goroutine lib sc read item =
     (case read (si_contentPath item) of
        None \<Rightarrow> Some (error_response item (Lib ''os.ReadFile''))
      | Some rawContent \<Rightarrow>
          let meta = si_metadata item in
          (case ScanWithMetadata lib sc rawContent (im_contentType meta) [im_subject meta, im_sender meta, im_source meta] of
             Hangs \<Rightarrow> None
           | Fails e \<Rightarrow> Some (error_response item e)
           | Returns res \<Rightarrow>
               Some \<lparr>sp_item = item, sp_signals = sr_signals res, sp_timedOut = False, sp_err = None, sp_result = Some res\<rparr>))"

text \<open>\<open>expired\<close>: the deadline passed before the goroutine's answer was received.\<close>

definition worker_scan :: "scan_lib \<Rightarrow> Scanner \<Rightarrow> (string \<Rightarrow> bytes option) \<Rightarrow> bool \<Rightarrow> StagingItem \<Rightarrow> ScanResponse" where
  "worker_scan lib sc read expired item =
     (if expired then timeout_response item
      else (case scan_goroutine lib sc read item of None \<Rightarrow> timeout_response item | Some resp \<Rightarrow> resp))"

section \<open>The router (router.go)\<close>

type_synonym 'w delivery = "ScanResponse \<Rightarrow> 'w \<Rightarrow> 'w \<times> err option"

text \<open>The pending map as an association list, each destination once, in the order it is visited.\<close>

record Router =
  ro_pending :: "(string \<times> ScanResponse list) list"

definition NewRouter :: Router where
  "NewRouter = \<lparr>ro_pending = []\<rparr>"

fun add_pending :: "string \<Rightarrow> ScanResponse \<Rightarrow> (string \<times> ScanResponse list) list \<Rightarrow> (string \<times> ScanResponse list) list" where
  "add_pending dest resp [] = [(dest, [resp])]"
| "add_pending dest resp ((d, rs) # ps) =
     (if d = dest then (d, rs @ [resp]) # ps else (d, rs) # add_pending dest resp ps)"

definition Route :: "'w delivery \<Rightarrow> ScanResponse \<Rightarrow> Router \<Rightarrow> 'w \<Rightarrow> Router \<times> 'w \<times> err option" where
  "Route deliver resp r w =
     (if \<not> im_ordered (si_metadata (sp_item resp)) then (r, deliver resp w)
      else (r\<lparr>ro_pending := add_pending (im_destinationAgent (si_metadata (sp_item resp))) resp (ro_pending r)\<rparr>, w, None))"

text \<open>
  The key an ordered response is sorted by. The keys of the items of one staging directory differ, so
  that the sort need not be stable.
\<close>

definition sort_name :: "ScanResponse \<Rightarrow> string" where
  "sort_name resp = go_Base (si_dirPath (sp_item resp))"

fun deliver_all :: "'w delivery \<Rightarrow> ScanResponse list \<Rightarrow> 'w \<Rightarrow> 'w \<times> err option" where
  "deliver_all deliver [] w = (w, None)"
| "deliver_all deliver (r # rs) w =
     (case deliver r w of
        (w', Some e) \<Rightarrow> (w', Some e)
      | (w', None) \<Rightarrow> deliver_all deliver rs w')"

fun flush_loop :: "'w delivery \<Rightarrow> (string \<times> ScanResponse list) list \<Rightarrow> 'w \<Rightarrow> 'w \<times> err option" where
  "flush_loop deliver [] w = (w, None)"
| "flush_loop deliver ((dest, items) # ps) w =
     (case deliver_all deliver (sort_key sort_name items) w of
        (w', Some e) \<Rightarrow> (w', Some e)
      | (w', None) \<Rightarrow> flush_loop deliver ps w')"

definition Flush :: "'w delivery \<Rightarrow> Router \<Rightarrow> 'w \<Rightarrow> Router \<times> 'w \<times> err option" where
  "Flush deliver r w =
     (case flush_loop deliver (ro_pending r) w of
        (w', Some e) \<Rightarrow> (r, w', Some e)
      | (w', None) \<Rightarrow> (r\<lparr>ro_pending := []\<rparr>, w', None))"

section \<open>The consumer (consumer.go)\<close>

text \<open>
  One turn of \<^verbatim>\<open>ConsumeResults\<close>: a response is routed, or the ticker flushes, the pending map being
  visited in any order. The label holds what happened (a response, or \<open>None\<close> for a tick) and the
  error that was reported; the loop goes on whatever it was.
\<close>

type_synonym turn = "ScanResponse option \<times> err option"

inductive consume :: "'w delivery \<Rightarrow> Router \<times> 'w \<Rightarrow> turn \<Rightarrow> Router \<times> 'w \<Rightarrow> bool"
  for deliver :: "'w delivery" where
  consume_route: "Route deliver resp r w = (r', w', e) \<Longrightarrow> consume deliver (r, w) (Some resp, e) (r', w')"
| consume_flush: "mset ps = mset (ro_pending r) \<Longrightarrow> Flush deliver (r\<lparr>ro_pending := ps\<rparr>) w = (r', w', e) \<Longrightarrow>
    consume deliver (r, w) (None, e) (r', w')"

inductive consume_steps :: "'w delivery \<Rightarrow> Router \<times> 'w \<Rightarrow> turn list \<Rightarrow> Router \<times> 'w \<Rightarrow> bool"
  for deliver :: "'w delivery" where
  steps_refl: "consume_steps deliver s [] s"
| steps_snoc: "consume_steps deliver s es s1 \<Longrightarrow> consume deliver s1 e s2 \<Longrightarrow> consume_steps deliver s (es @ [e]) s2"

text \<open>
  \<^verbatim>\<open>WithTimeout\<close>: \<open>late\<close> says whether the timer fires before the delivery has answered, and if
  so what the abandoned delivery has done to the world by then.
\<close>

definition WithTimeout :: "'w delivery \<Rightarrow> nat \<Rightarrow> (ScanResponse \<Rightarrow> 'w \<Rightarrow> 'w option) \<Rightarrow> 'w delivery" where
  "WithTimeout deliver timeout late =
     (if timeout = 0 then deliver
      else (\<lambda>resp w. case late resp w of
              Some w' \<Rightarrow> (w', Some (Wrap (si_dirPath (sp_item resp)) (Err ''delivery timed out'')))
            | None \<Rightarrow> deliver resp w))"

section \<open>Nothing is delivered twice or forgotten\<close>

lemma mset_concat_perm: "mset xs = mset ys \<Longrightarrow> mset (concat (map f xs)) = mset (concat (map f ys))"
proof -
  have as_sum: "mset (concat (map f zs)) = \<Sum>\<^sub># (image_mset (\<lambda>z. mset (f z)) (mset zs))" for zs
    by (induction zs) auto
  show "mset xs = mset ys \<Longrightarrow> mset (concat (map f xs)) = mset (concat (map f ys))"
    by (simp add: as_sum)
qed

text \<open>
  Which responses are where: those waiting in the router, those a list of turns routed.
\<close>

definition waiting :: "Router \<Rightarrow> ScanResponse multiset" where
  "waiting r = mset (concat (map snd (ro_pending r)))"

definition routed :: "turn list \<Rightarrow> ScanResponse multiset" where
  "routed es = mset (List.map_filter fst es)"

lemma routed_simps [simp]: "routed [] = {#}"
  "routed (es @ [(Some resp, e)]) = add_mset resp (routed es)" "routed (es @ [(None, e)]) = routed es"
  by (simp_all add: routed_def List.map_filter_def)

lemma waiting_add: "waiting (r\<lparr>ro_pending := add_pending d x (ro_pending r)\<rparr>) = add_mset x (waiting r)"
proof -
  have "mset (concat (map snd (add_pending d x ps))) = add_mset x (mset (concat (map snd ps)))" for ps
    by (induction ps) auto
  then show ?thesis by (simp add: waiting_def)
qed

lemma waiting_perm: "mset ps = mset (ro_pending r) \<Longrightarrow> waiting (r\<lparr>ro_pending := ps\<rparr>) = waiting r"
  by (auto simp: waiting_def intro: mset_concat_perm)

abbreviation flush_order :: "(string \<times> ScanResponse list) list \<Rightarrow> ScanResponse list" where
  "flush_order ps \<equiv> concat (map (\<lambda>p. sort_key sort_name (snd p)) ps)"

lemma flush_order_mset: "mset (flush_order ps) = mset (concat (map snd ps))"
  by (induction ps) auto

text \<open>
  The contract: \<open>log\<close> tells which deliveries have been attempted, in order, whether they succeeded or
  not.
\<close>

locale logged_delivery =
  fixes deliver :: "'w delivery" and log :: "'w \<Rightarrow> ScanResponse list"
  assumes deliver_log: "log (fst (deliver resp w)) = log w @ [resp]"
begin

lemma deliver_all_log:
  "deliver_all deliver rs w = (w', e) \<Longrightarrow> \<exists>done. log w' = log w @ done \<and> prefix done rs \<and> (e = None \<longrightarrow> done = rs)"
proof (induction rs arbitrary: w)
  case (Cons r rs)
  obtain w1 e1 where d: "deliver r w = (w1, e1)" by fastforce
  then have l: "log w1 = log w @ [r]" using deliver_log [of r w] by simp
  show ?case
  proof (cases e1)
    case None
    then have "deliver_all deliver rs w1 = (w', e)" using Cons.prems d by simp
    from Cons.IH [OF this] obtain dn where "log w' = log w1 @ dn" "prefix dn rs" "e = None \<longrightarrow> dn = rs" by blast
    then show ?thesis using l by (intro exI [of _ "r # dn"]) simp
  next
    case (Some x)
    then show ?thesis using Cons.prems d l by (intro exI [of _ "[r]"]) auto
  qed
qed simp

lemma flush_loop_log:
  "flush_loop deliver ps w = (w', e) \<Longrightarrow>
     \<exists>done. log w' = log w @ done \<and> prefix done (flush_order ps) \<and> (e = None \<longrightarrow> done = flush_order ps)"
proof (induction ps arbitrary: w)
  case (Cons p ps)
  obtain w1 e1 where d: "deliver_all deliver (sort_key sort_name (snd p)) w = (w1, e1)" by fastforce
  obtain dn where dn: "log w1 = log w @ dn" "prefix dn (sort_key sort_name (snd p))" "e1 = None \<longrightarrow> dn = sort_key sort_name (snd p)"
    using deliver_all_log [OF d] by blast
  show ?case
  proof (cases e1)
    case None
    then have "flush_loop deliver ps w1 = (w', e)" using Cons.prems d by (cases p) simp
    from Cons.IH [OF this] obtain dn' where "log w' = log w1 @ dn'" "prefix dn' (flush_order ps)"
      "e = None \<longrightarrow> dn' = flush_order ps" by blast
    then show ?thesis using dn None by (intro exI [of _ "dn @ dn'"]) simp
  next
    case (Some x)
    then show ?thesis using Cons.prems d dn by (cases p) (auto intro!: exI [of _ dn])
  qed
qed simp

lemma flush_log:
  assumes "Flush deliver r w = (r', w', e)"
  shows "\<exists>done. log w' = log w @ done \<and> prefix done (flush_order (ro_pending r))
    \<and> (e = None \<longrightarrow> done = flush_order (ro_pending r) \<and> ro_pending r' = []) \<and> (e \<noteq> None \<longrightarrow> r' = r)"
  using assms flush_loop_log [of "ro_pending r" w] by (auto simp: Flush_def split: prod.splits option.splits)

lemma consume_accounts:
  assumes "consume deliver (r, w) t (r', w')"
  shows "waiting r + routed [t] \<subseteq># mset (drop (length (log w)) (log w')) + waiting r'" (is ?sub)
    and "snd t = None \<Longrightarrow> waiting r + routed [t] = mset (drop (length (log w)) (log w')) + waiting r'"
    and "prefix (log w) (log w')"
proof -
  consider (route) resp e where "t = (Some resp, e)" "Route deliver resp r w = (r', w', e)"
    | (flush) ps e where "t = (None, e)" "mset ps = mset (ro_pending r)" "Flush deliver (r\<lparr>ro_pending := ps\<rparr>) w = (r', w', e)"
    using assms by (cases rule: consume.cases) auto
  then have "?sub \<and> (snd t = None \<longrightarrow> waiting r + routed [t] = mset (drop (length (log w)) (log w')) + waiting r')
      \<and> prefix (log w) (log w')"
  proof cases
    case route
    show ?thesis
    proof (cases "im_ordered (si_metadata (sp_item resp))")
      case True
      then show ?thesis using route routed_simps(2) [of "[]"] by (auto simp: Route_def waiting_add)
    next
      case False
      then have "log w' = log w @ [resp]" "r' = r" using route deliver_log [of resp w] by (auto simp: Route_def)
      then show ?thesis using route routed_simps(2) [of "[]"] by auto
    qed
  next
    case flush
    from flush_log [OF flush(3)] obtain dn where dn: "log w' = log w @ dn"
      "e = None \<longrightarrow> dn = flush_order ps \<and> ro_pending r' = []" "e \<noteq> None \<longrightarrow> r' = r\<lparr>ro_pending := ps\<rparr>" by auto
    have w: "waiting r = mset (flush_order ps)"
      using waiting_perm [OF flush(2)] by (simp add: waiting_def flush_order_mset)
    have none: "routed [t] = {#}" using flush(1) routed_simps(3) [of "[]" e] by simp
    show ?thesis
    proof (cases e)
      case None
      then show ?thesis using dn w none by (simp add: waiting_def)
    next
      case (Some x)
      then have "waiting r' = waiting r" using dn(3) waiting_perm [OF flush(2)] by simp
      then show ?thesis using dn(1) none flush(1) Some by simp
    qed
  qed
  then show ?sub "snd t = None \<Longrightarrow> waiting r + routed [t] = mset (drop (length (log w)) (log w')) + waiting r'"
    "prefix (log w) (log w')" by blast+
qed

lemma steps_account:
  assumes "consume_steps deliver (r, w) es (r', w')"
  shows "prefix (log w) (log w') \<and> waiting r + routed es \<subseteq># mset (drop (length (log w)) (log w')) + waiting r'
    \<and> ((\<forall>t \<in> set es. snd t = None) \<longrightarrow> waiting r + routed es = mset (drop (length (log w)) (log w')) + waiting r')"
  using assms
proof (induction "(r, w)" es "(r', w')" arbitrary: r' w' rule: consume_steps.induct)
  case (steps_snoc es s1 t)
  obtain r1 w1 where s1: "s1 = (r1, w1)" by (cases s1)
  note ih = steps_snoc.hyps(2) [OF s1] and step = consume_accounts [OF steps_snoc.hyps(3) [unfolded s1]]
  obtain d1 where d1: "log w1 = log w @ d1" using ih by (auto simp: prefix_def)
  obtain d2 where d2: "log w' = log w1 @ d2" using step(3) by (auto simp: prefix_def)
  have r: "routed (es @ [t]) = routed es + routed [t]" by (simp add: routed_def List.map_filter_def)
  have "waiting r + routed (es @ [t]) \<subseteq># mset d1 + (waiting r1 + routed [t])"
  proof -
    have "waiting r + routed es + routed [t] \<subseteq># mset d1 + waiting r1 + routed [t]"
      using ih d1 by (intro subset_mset.add_right_mono) simp
    then show ?thesis by (simp only: r add.assoc)
  qed
  also have "\<dots> \<subseteq># mset d1 + (mset d2 + waiting r')" using step(1) d2 by simp
  finally have "waiting r + routed (es @ [t]) \<subseteq># mset (d1 @ d2) + waiting r'" by (simp only: mset_append add.assoc)
  moreover have "waiting r + routed (es @ [t]) = mset (d1 @ d2) + waiting r'" if "\<forall>u \<in> set (es @ [t]). snd u = None"
  proof -
    have "waiting r + routed es = mset d1 + waiting r1" "waiting r1 + routed [t] = mset d2 + waiting r'"
      using ih step(2) d1 d2 that by simp_all
    then show ?thesis by (simp only: r mset_append add.assoc) (metis add.assoc)
  qed
  ultimately show ?case using d1 d2 by simp
qed simp

end

text \<open>
  Every delivery function fits the contract once its calls are recorded; that is all the instance
  adds to it.
\<close>

definition with_history :: "'w delivery \<Rightarrow> ('w \<times> ScanResponse list) delivery" where
  "with_history deliver resp st = (case deliver resp (fst st) of (w', e) \<Rightarrow> ((w', snd st @ [resp]), e))"

interpretation history: logged_delivery "with_history deliver" snd for deliver :: "'w delivery"
  by unfold_locales (auto simp: with_history_def split: prod.splits)

text \<open>
  C18: The consumer loses nothing. Let any delivery function be driven by the consumer loop from an
  empty router, through any interleaving of results and flush ticks, with the pending map visited in
  any order. Then every response that was routed has been given to the delivery function or is still
  waiting in the router; and if no turn reported an error, each was given to it exactly once or is
  waiting, never both.
\<close>

theorem ConsumeResults_conserves:
  assumes "consume_steps (with_history deliver) (NewRouter, (w, [])) es (r, (w', hist))"
  shows "routed es \<subseteq># mset hist + waiting r
    \<and> ((\<forall>t \<in> set es. snd t = None) \<longrightarrow> routed es = mset hist + waiting r)"
  using history.steps_account [OF assms] by (simp add: NewRouter_def waiting_def)

section \<open>Ordered items are delivered in order\<close>

abbreviation dest_of :: "ScanResponse \<Rightarrow> string" where
  "dest_of resp \<equiv> im_destinationAgent (si_metadata (sp_item resp))"

definition pending_ok :: "(string \<times> ScanResponse list) list \<Rightarrow> bool" where
  "pending_ok ps \<longleftrightarrow> distinct (map fst ps) \<and> (\<forall>(d, rs) \<in> set ps. \<forall>x \<in> set rs. dest_of x = d)"

lemma add_pending_ok: "pending_ok ps \<Longrightarrow> pending_ok (add_pending (dest_of x) x ps)"
proof -
  have k: "set (map fst (add_pending d x ps)) = insert d (set (map fst ps))" for d ps
    by (induction d x ps rule: add_pending.induct) auto
  show "pending_ok ps \<Longrightarrow> pending_ok (add_pending (dest_of x) x ps)"
  proof (induction ps)
    case (Cons p ps)
    then show ?case using k [of "dest_of x" ps] by (cases p) (auto simp: pending_ok_def)
  qed (simp add: pending_ok_def)
qed

lemma consume_pending_ok: "consume deliver s t s' \<Longrightarrow> pending_ok (ro_pending (fst s)) \<Longrightarrow> pending_ok (ro_pending (fst s'))"
proof (induction rule: consume.induct)
  case (consume_route resp r w r' w' e)
  then show ?case by (auto simp: Route_def add_pending_ok split: if_splits)
next
  case (consume_flush ps r w r' w' e)
  have "pending_ok ps"
    using consume_flush mset_eq_setD [of ps "ro_pending r"] mset_eq_imp_distinct_iff [of "map fst ps" "map fst (ro_pending r)"]
    by (simp add: pending_ok_def)
  then show ?case using consume_flush(2) by (auto simp: Flush_def pending_ok_def split: prod.splits option.splits)
qed

lemma steps_pending_ok: "consume_steps deliver s es s' \<Longrightarrow> pending_ok (ro_pending (fst s)) \<Longrightarrow> pending_ok (ro_pending (fst s'))"
  by (induction rule: consume_steps.induct) (auto dest: consume_pending_ok)

lemma flush_order_dest:
  "pending_ok ps \<Longrightarrow> filter (\<lambda>x. dest_of x = d) (flush_order ps) = (case map_of ps d of None \<Rightarrow> [] | Some rs \<Rightarrow> sort_key sort_name rs)"
proof (induction ps)
  case (Cons p ps)
  obtain d' rs where p: "p = (d', rs)" by (cases p)
  have ps: "pending_ok ps" using Cons.prems p by (auto simp: pending_ok_def)
  have rs: "filter (\<lambda>x. dest_of x = d) (sort_key sort_name rs) = (if d' = d then sort_key sort_name rs else [])"
    using Cons.prems p by (auto simp: pending_ok_def intro!: filter_True filter_False)
  have "d' = d \<Longrightarrow> map_of ps d = None" using Cons.prems p by (auto simp: pending_ok_def map_of_eq_None_iff)
  then show ?case using Cons.IH [OF ps] rs p by auto
qed simp

text \<open>
  Ordered items reach each agent in the order of their names. Whatever the consumer did before,
  when a flush reports no error, the responses it hands over for any one destination are exactly
  those that were waiting for it, sorted by the base name of their staging directory, and nothing is
  left waiting; a flush that reports an error has handed over a prefix of that sequence and keeps
  everything waiting.
\<close>

theorem Flush_orders:
  assumes "consume_steps (with_history deliver) (NewRouter, (w, [])) es (r, (w1, hist))"
    and "mset ps = mset (ro_pending r)" "Flush (with_history deliver) (r\<lparr>ro_pending := ps\<rparr>) (w1, hist) = (r', (w2, hist'), e)"
  shows "(e = None \<longrightarrow> ro_pending r' = []
        \<and> filter (\<lambda>x. dest_of x = d) (drop (length hist) hist') =
            (case map_of ps d of None \<Rightarrow> [] | Some rs \<Rightarrow> sort_key sort_name rs))
    \<and> (e \<noteq> None \<longrightarrow> waiting r' = waiting r \<and> prefix (drop (length hist) hist') (flush_order ps))"
proof -
  have "pending_ok (ro_pending r)"
    using steps_pending_ok [OF assms(1)] by (simp add: NewRouter_def pending_ok_def)
  then have ok: "pending_ok ps"
    using mset_eq_setD [OF assms(2)] mset_eq_imp_distinct_iff [of "map fst ps" "map fst (ro_pending r)"] assms(2)
    by (simp add: pending_ok_def)
  from history.flush_log [OF assms(3)] obtain dn where "hist' = hist @ dn" "prefix dn (flush_order ps)"
    "e = None \<longrightarrow> dn = flush_order ps \<and> ro_pending r' = []" "e \<noteq> None \<longrightarrow> r' = r\<lparr>ro_pending := ps\<rparr>" by auto
  then show ?thesis using flush_order_dest [OF ok, of d] waiting_perm [OF assms(2)] by auto
qed

section \<open>The daemon's delivery function (main.go)\<close>

definition deliver_daemon ::
  "unicode_data \<Rightarrow> route_lib \<Rightarrow> route_cfg \<Rightarrow> SubjectRegistry option \<Rightarrow> rat \<Rightarrow> world delivery" where
  "deliver_daemon ud lib cfg reg th resp w =
     (case deliverResult ud lib resp cfg reg th w of (w', Inl e) \<Rightarrow> (w', Some e) | (w', Inr _) \<Rightarrow> (w', None))"

lemma removePending_missing:
  assumes "w_files w p = None" "removePendingForItem lib item cfg w = (w', x)"
  shows "w_files w' p = None \<and> w_passLog w' = w_passLog w"
  using assms by (auto simp: removePendingForItem_def RemovePending_def os_Remove_def io_return_def io_ignore_def
      split: if_splits)

lemma quarantine_item_missing:
  assumes "w_files w (si_contentPath item) = None"
  shows "\<exists>w' e. quarantine_item lib cfg th item res reason w = (w', Inl e) \<and> w_passLog w' = w_passLog w"
proof -
  obtain w1 x where r: "removePendingForItem lib item cfg w = (w1, x)" by fastforce
  note k = removePending_missing [OF assms r]
  show ?thesis
  proof (cases x)
    case (Inr u)
    then show ?thesis using r k by (simp add: quarantine_item_def io_bind_def RouteQuarantine_def io_wrap_def os_ReadFile_def)
  qed (use r k in \<open>simp add: quarantine_item_def io_bind_def\<close>)
qed

text \<open>An item whose content is gone and whose destination is valid cannot be delivered any more.\<close>

lemma missing_content_fails:
  assumes "w_files w (si_contentPath (sp_item x)) = None" "sp_err x = None" "im_dataSubject (si_metadata (sp_item x)) = []"
    "ValidateDestination ud lib (dest_of x) (cf_agentsDir cfg) (cf_allowlist cfg) = Inr dir"
  shows "\<exists>w' e. deliver_daemon ud lib cfg reg th x w = (w', Some e) \<and> w_passLog w' = w_passLog w"
proof -
  have gate: "SubjectGate lib (sp_item x) reg w = (w, sp_item x, GatePass, None)"
    using assms(3) by (simp add: SubjectGate_def ResolveItem_def)
  have "\<exists>w' e. pass_or_reject ud lib cfg (sp_item x) res w = (w', Inl e) \<and> w_passLog w' = w_passLog w" for res
    using assms(1,4) by (simp add: pass_or_reject_def io_bind_def RoutePass_def io_wrap_def os_MkdirAll_def os_ReadFile_def Let_def)
  then have "\<exists>w' e. deliverResult ud lib x cfg reg th w = (w', Inl e) \<and> w_passLog w' = w_passLog w"
    using assms(2) gate quarantine_item_missing [OF assms(1)] by (simp add: deliverResult_def split: option.split)
  then show ?thesis by (auto simp: deliver_daemon_def)
qed


section \<open>A concrete run\<close>

definition ordered_item :: "string \<Rightarrow> StagingItem" where
  "ordered_item dir = \<lparr>si_dirPath = dir, si_contentPath = dir @ ''/content.raw'', si_metadata = sample_meta\<lparr>im_ordered := True\<rparr>\<rparr>"

definition ordered_resp :: "string \<Rightarrow> ScanResponse" where
  "ordered_resp dir = sample_resp\<lparr>sp_item := ordered_item dir\<rparr>"

definition sample_daemon :: "world delivery" where
  "sample_daemon = deliver_daemon sample_ud sample_rlib sample_cfg None (4 / 5)"

lemma ordered_resp_simps [simp]:
  "sp_item (ordered_resp d) = ordered_item d" "si_dirPath (ordered_item d) = d" "si_contentPath (ordered_item d) = d @ ''/content.raw''"
  "sp_err (ordered_resp d) = None" "sp_timedOut (ordered_resp d) = False"
  "im_dataSubject (si_metadata (ordered_item d)) = []" "im_destinationAgent (si_metadata (ordered_item d)) = ''mail''"
  "im_ordered (si_metadata (ordered_item d))"
  by (simp_all add: ordered_resp_def ordered_item_def sample_resp_def sample_meta_def)

lemma sample_destination:
  "ValidateDestination sample_ud sample_rlib ''mail'' (cf_agentsDir sample_cfg) (cf_allowlist sample_cfg) = Inr ''/agents/mail/workspace/inbox''"
proof -
  have "resolve_links sample_rlib p = Inr p" for p by (simp add: resolve_links_def sample_rlib_def)
  moreover have "go_Abs sample_rlib ''/agents'' = ''/agents''"
    "go_Abs sample_rlib ''/agents/mail/workspace/inbox'' = ''/agents/mail/workspace/inbox''"
    by (simp_all add: go_Abs_def sample_paths)
  ultimately show ?thesis by (simp add: ValidateDestination_def sample_paths sample_cfg_def)
qed

lemma ordered_delivered: "\<exists>w'. sample_daemon (ordered_resp ''/s/i1'') sample_world = (w', None)
    \<and> w_files w' ''/s/i2/content.raw'' = None"
proof -
  let ?res = "\<lparr>sr_signals = [], sr_total = 0, sr_verdict = VerdictPass\<rparr>"
  have ok: "io_ok sample_rlib op" for op by (simp add: sample_rlib_def)
  have gate: "SubjectGate sample_rlib (ordered_item ''/s/i1'') None sample_world = (sample_world, ordered_item ''/s/i1'', GatePass, None)"
    by (simp add: SubjectGate_def ResolveItem_def)
  have pass: "\<exists>w'. RoutePass sample_rlib (ordered_item ''/s/i1'') ?res ''/agents/mail/workspace/inbox'' sample_world = (w', Inr ())
      \<and> w_files w' ''/s/i2/content.raw'' = None"
    by (simp add: RoutePass_def io_bind_def io_wrap_def os_MkdirAll_def ok os_ReadFile_def os_WriteFile_def
        sample_world_def sample_paths LogPass_def io_ignore_def os_RemoveAll_def under_def)
  have pend: "removePendingForItem sample_rlib (ordered_item d) sample_cfg w =
      (w\<lparr>w_files := (w_files w)(go_Join [go_Join [''/agents'', ''mail'', ''workspace'', ''inbox''], PendingFilename (go_Base d)] := None)\<rparr>, Inr ())" for d w
    by (simp add: removePendingForItem_def RemovePending_def io_ignore_def os_Remove_def ok sample_cfg_def)
  have tag: "\<not> ShouldForceQuarantineFromTag (si_metadata (ordered_item d))" for d
    by (simp add: ShouldForceQuarantineFromTag_def ordered_item_def sample_meta_def)
  have res: "sp_result (ordered_resp d) = Some ?res" for d by (simp add: ordered_resp_def sample_resp_def)
  show ?thesis
    using gate pass sample_destination
    by (auto simp: sample_daemon_def deliver_daemon_def deliverResult_def pass_or_reject_def io_bind_def pend tag res)
      (simp_all add: sample_world_def)
qed

lemma undelivered: "w_files w ''/s/i2/content.raw'' = None \<Longrightarrow> \<exists>w' e. sample_daemon (ordered_resp ''/s/i2'') w = (w', Some e)"
  using missing_content_fails [of w "ordered_resp ''/s/i2''" sample_ud sample_rlib sample_cfg "''/agents/mail/workspace/inbox''" None "4 / 5"]
    sample_destination by (auto simp: sample_daemon_def)

lemma sample_order: "sort_key sort_name [ordered_resp ''/s/i2'', ordered_resp ''/s/i1''] = [ordered_resp ''/s/i1'', ordered_resp ''/s/i2'']"
  by (simp add: sort_name_def path_eval)


lemma sample_steps:
  "\<exists>w. consume_steps (with_history sample_daemon) (NewRouter, (sample_world, [])) [(Some (ordered_resp ''/s/i1''), None), (None, None)]
      (\<lparr>ro_pending = []\<rparr>, (w, [ordered_resp ''/s/i1'']))"
proof -
  let ?d = "with_history sample_daemon" and ?x = "ordered_resp ''/s/i1''"
  obtain w1 where w1: "sample_daemon ?x sample_world = (w1, None)" using ordered_delivered by blast
  have "Route ?d ?x NewRouter (sample_world, []) = (\<lparr>ro_pending = [(''mail'', [?x])]\<rparr>, (sample_world, []), None)"
    by (simp add: Route_def NewRouter_def)
  then have 1: "consume ?d (NewRouter, (sample_world, [])) (Some ?x, None) (\<lparr>ro_pending = [(''mail'', [?x])]\<rparr>, (sample_world, []))"
    by (rule consume_route)
  have 2: "consume ?d (\<lparr>ro_pending = [(''mail'', [?x])]\<rparr>, (sample_world, [])) (None, None) (\<lparr>ro_pending = []\<rparr>, (w1, [?x]))"
    by (rule consume_flush [where ps = "[(''mail'', [?x])]"]) (simp_all add: Flush_def with_history_def w1)
  show ?thesis using steps_snoc [OF steps_snoc [OF steps_refl 1] 2] by auto
qed

theorem ConsumeResults_conserves_witness:
  "\<exists>r. routed [(Some (ordered_resp ''/s/i1''), None), (None, None)] = mset [ordered_resp ''/s/i1''] + waiting r"
  using sample_steps ConsumeResults_conserves [of sample_daemon sample_world] by fastforce

theorem Flush_orders_witness:
  "\<exists>w2 hist. filter (\<lambda>x. dest_of x = ''mail'') (drop 0 hist) = sort_key sort_name [ordered_resp ''/s/i1'']
     \<and> Flush (with_history sample_daemon) \<lparr>ro_pending = [(''mail'', [ordered_resp ''/s/i1''])]\<rparr> (sample_world, [])
        = (\<lparr>ro_pending = []\<rparr>, (w2, hist), None)"
proof -
  let ?d = "with_history sample_daemon" and ?x = "ordered_resp ''/s/i1''"
  obtain w1 where w1: "sample_daemon ?x sample_world = (w1, None)" using ordered_delivered by blast
  have "consume ?d (NewRouter, (sample_world, [])) (Some ?x, None) (\<lparr>ro_pending = [(''mail'', [?x])]\<rparr>, (sample_world, []))"
    by (rule consume_route) (simp add: Route_def NewRouter_def)
  from steps_snoc [OF steps_refl this]
  have s: "consume_steps ?d (NewRouter, (sample_world, [])) [(Some ?x, None)] (\<lparr>ro_pending = [(''mail'', [?x])]\<rparr>, (sample_world, []))"
    by simp
  have f: "Flush ?d \<lparr>ro_pending = [(''mail'', [?x])]\<rparr> (sample_world, []) = (\<lparr>ro_pending = []\<rparr>, (w1, [?x]), None)"
    by (simp add: Flush_def with_history_def w1)
  show ?thesis
    using Flush_orders [OF s, of "[(''mail'', [?x])]" "\<lparr>ro_pending = []\<rparr>" w1 "[?x]" None "''mail''"] f by auto
qed

end
