(* ===== verification/Signature.thy ===== *)
theory Signature
  imports Decode Fmt
begin

text \<open>
  \<^verbatim>\<open>internal/engine/signature.go\<close> and the loading half of \<^verbatim>\<open>internal/engine/provenance.go\<close>: detached
  Ed25519 signatures over the rules file, the trusted-keys file, and the policy (disabled,
  permissive, required) under which a ruleset is loaded. The cryptographic primitives, PEM and
  PKIX parsing, JSON decoding and the file system are parameters, gathered in \<open>sig_lib\<close>.
\<close>

section \<open>Parameters\<close>

datatype read_err = NotExist | ReadFailed

datatype pkix_key = PkixError | PkixEd25519 bytes | PkixOther string

record SignatureEnvelope =
  Algorithm :: string
  KeyID :: string
  SHA256 :: string
  SigField :: string

text \<open>
  \<open>gl_pem rest\<close> is \<^verbatim>\<open>pem.Decode(rest)\<close>: no block, or the type and bytes of the first block and \<open>n\<close>,
  where the block and what precedes it take \<open>n + 1\<close> bytes of the input.
\<close>

record sig_lib =
  gl_sha256 :: "bytes \<Rightarrow> bytes"
  gl_verify :: "bytes \<Rightarrow> bytes \<Rightarrow> bytes \<Rightarrow> bool"
  gl_sign :: "bytes \<Rightarrow> bytes \<Rightarrow> bytes"
  gl_public :: "bytes \<Rightarrow> bytes"
  gl_pem :: "bytes \<Rightarrow> (string \<times> bytes \<times> nat) option"
  gl_pkix :: "bytes \<Rightarrow> pkix_key"
  gl_envelope :: "bytes \<Rightarrow> SignatureEnvelope option"
  gl_rules :: "bytes \<Rightarrow> RuleConfig option"
  gl_rx :: regexp
  gl_ud :: unicode_data
  gl_read :: "string \<Rightarrow> read_err + bytes"

section \<open>Signatures (signature.go)\<close>

definition SigModeDisabled :: string where "SigModeDisabled = ''disabled''"
definition SigModePermissive :: string where "SigModePermissive = ''permissive''"
definition SigModeRequired :: string where "SigModeRequired = ''required''"
definition sigAlgorithm :: string where "sigAlgorithm = ''ed25519''"
definition sigDomain :: string where "sigDomain = ''glovebox-ruleset-v1''"
definition PublicKeySize :: nat where "PublicKeySize = 32"
definition PrivateKeySize :: nat where "PrivateKeySize = 64"
definition SignatureSize :: nat where "SignatureSize = 64"

lemmas sig_mode_defs = SigModeDisabled_def SigModePermissive_def SigModeRequired_def

definition SigningMessage :: "string \<Rightarrow> bytes" where
  "SigningMessage digestHex = sigDomain @ [CHR 0x0A] @ map ascii_lower digestHex @ [CHR 0x0A]"

definition RulesDigest :: "sig_lib \<Rightarrow> bytes \<Rightarrow> string" where
  "RulesDigest lib raw = hex_encode (gl_sha256 lib raw)"

record TrustedKey =
  tk_fingerprint :: string
  tk_key :: bytes

definition KeyFingerprint :: "sig_lib \<Rightarrow> bytes \<Rightarrow> string" where
  "KeyFingerprint lib pub = take 16 (hex_encode (gl_sha256 lib pub))"

text \<open>The closure \<^verbatim>\<open>add\<close>: \<^verbatim>\<open>seen\<close> holds the fingerprints of \<open>keys\<close>.\<close>

definition add_key :: "sig_lib \<Rightarrow> bytes \<Rightarrow> TrustedKey list \<Rightarrow> TrustedKey list" where
  "add_key lib pub keys =
     (let fp = KeyFingerprint lib pub in
      if fp \<in> tk_fingerprint ` set keys then keys
      else keys @ [\<lparr>tk_fingerprint = fp, tk_key = pub\<rparr>])"

function pem_loop :: "sig_lib \<Rightarrow> bytes \<Rightarrow> TrustedKey list \<Rightarrow> err + (TrustedKey list \<times> bytes)" where
  "pem_loop lib [] keys = Inr (keys, [])"
| "pem_loop lib (c # cs) keys =
     (case gl_pem lib (c # cs) of
        None \<Rightarrow> Inr (keys, c # cs)
      | Some (blockType, blockBytes, n) \<Rightarrow>
          if blockType \<noteq> ''PUBLIC KEY'' then
            Inl (Err (''public key file: unexpected PEM block '' @ go_quote (gl_ud lib) blockType
                @ '' (want PUBLIC KEY)''))
          else (case gl_pkix lib blockBytes of
                  PkixError \<Rightarrow> Inl (Wrap ''public key file: parse PEM block'' (Lib ''x509.ParsePKIXPublicKey''))
                | PkixOther t \<Rightarrow> Inl (Err (''public key file: PEM block is '' @ t @ '', want ed25519.PublicKey''))
                | PkixEd25519 pub \<Rightarrow> pem_loop lib (drop (Suc n) (c # cs)) (add_key lib pub keys)))"
  by pat_completeness auto
termination
  by (relation "measure (\<lambda>(lib, rest, keys). length rest)") auto

declare pem_loop.simps(2) [simp del]

text \<open>\<^verbatim>\<open>strings.TrimSpace\<close>: leading and trailing white space runes removed.\<close>

definition trim_space :: "unicode_data \<Rightarrow> bytes \<Rightarrow> bytes" where
  "trim_space ud s =
     (let keep = (\<lambda>chunks. dropWhile (\<lambda>rc. u_IsSpace ud (fst rc)) chunks)
      in concat (map snd (rev (keep (rev (keep (rune_chunks s)))))))"

fun key_lines :: "sig_lib \<Rightarrow> nat \<Rightarrow> string list \<Rightarrow> TrustedKey list \<Rightarrow> err + TrustedKey list" where
  "key_lines lib i [] keys = Inr keys"
| "key_lines lib i (raw_line # lines) keys =
     (let line = trim_space (gl_ud lib) raw_line in
      if line = '''' \<or> prefix ''#'' line then key_lines lib (Suc i) lines keys
      else (case b64_Decode False True line of
              None \<Rightarrow> Inl (Wrap (''public key file line '' @ show_nat (i + 1) @ '': neither PEM nor base64'')
                          (Lib ''base64.DecodeString''))
            | Some decoded \<Rightarrow>
                if length decoded \<noteq> PublicKeySize then
                  Inl (Err (''public key file line '' @ show_nat (i + 1) @ '': '' @ show_nat (length decoded)
                      @ '' bytes, want '' @ show_nat PublicKeySize))
                else key_lines lib (Suc i) lines (add_key lib decoded keys)))"

definition ParsePublicKeys :: "sig_lib \<Rightarrow> bytes \<Rightarrow> err + TrustedKey list" where
  "ParsePublicKeys lib raw =
     (case pem_loop lib raw [] of
        Inl e \<Rightarrow> Inl e
      | Inr (keys, rest) \<Rightarrow>
          (case key_lines lib 0 (go_split CHR 0x0A rest) keys of
             Inl e \<Rightarrow> Inl e
           | Inr keys \<Rightarrow>
               if length keys = 0 then Inl (Err ''public key file contains no ed25519 public keys'')
               else Inr keys))"

definition LoadPublicKeys :: "sig_lib \<Rightarrow> string \<Rightarrow> err + TrustedKey list" where
  "LoadPublicKeys lib path =
     (case gl_read lib path of
        Inl _ \<Rightarrow> Inl (Wrap (''read rules public key file '' @ path) (Lib ''os.ReadFile''))
      | Inr raw \<Rightarrow> ParsePublicKeys lib raw)"

definition ParseSignatureEnvelope :: "sig_lib \<Rightarrow> bytes \<Rightarrow> err + SignatureEnvelope" where
  "ParseSignatureEnvelope lib raw =
     (case gl_envelope lib raw of
        None \<Rightarrow> Inl (Wrap ''parse ruleset signature'' (Lib ''json.Decode''))
      | Some env \<Rightarrow>
          if Algorithm env \<noteq> sigAlgorithm then
            Inl (Err (''ruleset signature: algorithm '' @ go_quote (gl_ud lib) (Algorithm env)
                @ '' is not supported (want '' @ go_quote (gl_ud lib) sigAlgorithm @ '')''))
          else if length (SHA256 env) \<noteq> 64 then
            Inl (Err (''ruleset signature: sha256 field is '' @ show_nat (length (SHA256 env)) @ '' characters, want 64''))
          else if hex_Decode (SHA256 env) = None then
            Inl (Wrap ''ruleset signature: sha256 field is not hex'' (Lib ''hex.DecodeString''))
          else Inr env)"

text \<open>
  \<^verbatim>\<open>strings.EqualFold\<close> against the lower-case hex digest: no rune outside ASCII folds to a hex digit, so
  folding ASCII decides it.
\<close>

definition equal_fold :: "string \<Rightarrow> string \<Rightarrow> bool" where
  "equal_fold a b \<longleftrightarrow> map ascii_lower a = map ascii_lower b"

fun verify_keys :: "sig_lib \<Rightarrow> bytes \<Rightarrow> bytes \<Rightarrow> TrustedKey list \<Rightarrow> string option" where
  "verify_keys lib msg sigBytes [] = None"
| "verify_keys lib msg sigBytes (k # ks) =
     (if gl_verify lib (tk_key k) msg sigBytes then Some (tk_fingerprint k) else verify_keys lib msg sigBytes ks)"

definition VerifyRuleset :: "sig_lib \<Rightarrow> bytes \<Rightarrow> SignatureEnvelope \<Rightarrow> TrustedKey list \<Rightarrow> err + string" where
  "VerifyRuleset lib raw sig keys =
     (let actual = RulesDigest lib raw in
      if \<not> equal_fold actual (SHA256 sig) then
        Inl (Err (''ruleset signature covers sha256 '' @ map ascii_lower (SHA256 sig)
            @ '' but the rules file is '' @ actual))
      else (case b64_Decode False True (SigField sig) of
              None \<Rightarrow> Inl (Wrap ''ruleset signature: signature field is not base64'' (Lib ''base64.DecodeString''))
            | Some sigBytes \<Rightarrow>
                if length sigBytes \<noteq> SignatureSize then
                  Inl (Err (''ruleset signature: '' @ show_nat (length sigBytes) @ '' bytes, want '' @ show_nat SignatureSize))
                else if length keys = 0 then Inl (Err ''ruleset signature: no trusted public keys configured'')
                else (case verify_keys lib (SigningMessage actual) sigBytes keys of
                        Some fp \<Rightarrow> Inr fp
                      | None \<Rightarrow> Inl (Err (''ruleset signature does not verify against any of the ''
                           @ show_nat (length keys) @ '' trusted key(s) (signature names key '' @ KeyID sig @ '')'')))))"

definition SignRuleset :: "sig_lib \<Rightarrow> bytes \<Rightarrow> bytes \<Rightarrow> err + SignatureEnvelope" where
  "SignRuleset lib raw priv =
     (if length priv \<noteq> PrivateKeySize then
        Inl (Err (''signing key is '' @ show_nat (length priv) @ '' bytes, want '' @ show_nat PrivateKeySize))
      else let digest = RulesDigest lib raw in
        Inr \<lparr>Algorithm = sigAlgorithm, KeyID = KeyFingerprint lib (gl_public lib priv), SHA256 = digest,
             SigField = b64_encode (gl_sign lib priv (SigningMessage digest))\<rparr>)"

section \<open>Loading a ruleset under a policy (provenance.go)\<close>

record RulesSignature =
  rs_mode :: string
  rs_verified :: bool
  rs_fingerprint :: string
  rs_signatureFile :: string
  rs_publicKeyFile :: string
  rs_trustedKeys :: nat
  rs_warning :: string
  rs_error :: "err option"

definition empty_signature :: RulesSignature where
  "empty_signature = \<lparr>rs_mode = [], rs_verified = False, rs_fingerprint = [], rs_signatureFile = [],
     rs_publicKeyFile = [], rs_trustedKeys = 0, rs_warning = [], rs_error = None\<rparr>"

record RulesProvenance =
  rp_sha256 :: string
  rp_ruleCount :: nat
  rp_threshold :: rat
  rp_maxScore :: rat
  rp_reachable :: bool
  rp_signature :: RulesSignature

record SignaturePolicy =
  sp_mode :: string
  sp_publicKeyFile :: string
  sp_signatureFile :: string

definition Active :: "SignaturePolicy \<Rightarrow> bool" where
  "Active p \<longleftrightarrow> sp_mode p = SigModePermissive \<or> sp_mode p = SigModeRequired"

definition EffectiveSignatureFile :: "SignaturePolicy \<Rightarrow> string \<Rightarrow> string" where
  "EffectiveSignatureFile p rulesFile =
     (if sp_signatureFile p \<noteq> '''' then sp_signatureFile p else rulesFile @ ''.sig'')"

definition effectiveSigMode :: "string \<Rightarrow> string" where
  "effectiveSigMode mode = (if mode = '''' then SigModeDisabled else mode)"

definition sig_fail :: "RulesSignature \<Rightarrow> err \<Rightarrow> RulesSignature \<times> err option" where
  "sig_fail status e = (status\<lparr>rs_error := Some e\<rparr>, Some e)"

definition verifyRulesSignature ::
  "sig_lib \<Rightarrow> bytes \<Rightarrow> string \<Rightarrow> SignaturePolicy \<Rightarrow> RulesSignature \<times> err option" where
  "verifyRulesSignature lib raw rulesFile policy =
     (let sigFile = EffectiveSignatureFile policy rulesFile;
          status = empty_signature\<lparr>rs_mode := sp_mode policy, rs_signatureFile := sigFile,
                     rs_publicKeyFile := sp_publicKeyFile policy\<rparr>
      in if sp_publicKeyFile policy = '''' then
           sig_fail status (Err (''rules signature verification is '' @ go_quote (gl_ud lib) (sp_mode policy)
             @ '' but no public key file is configured''))
         else (case LoadPublicKeys lib (sp_publicKeyFile policy) of
           Inl e \<Rightarrow> sig_fail status e
         | Inr keys \<Rightarrow>
             let status = status\<lparr>rs_trustedKeys := length keys\<rparr> in
             (case gl_read lib sigFile of
                Inl re \<Rightarrow>
                  if re = NotExist \<and> sp_mode policy = SigModePermissive then
                    (status\<lparr>rs_warning := ''no ruleset signature at '' @ sigFile @ '' and mode is ''
                        @ go_quote (gl_ud lib) SigModePermissive @ '': the ruleset is UNVERIFIED; move to ''
                        @ go_quote (gl_ud lib) SigModeRequired @ '' once signatures are deployed''\<rparr>, None)
                  else sig_fail status (Wrap (''read ruleset signature '' @ sigFile) (Lib ''os.ReadFile''))
              | Inr sigRaw \<Rightarrow>
                  (case ParseSignatureEnvelope lib sigRaw of
                     Inl e \<Rightarrow> sig_fail status e
                   | Inr env \<Rightarrow>
                       (case VerifyRuleset lib raw env keys of
                          Inl e \<Rightarrow> sig_fail status e
                        | Inr fingerprint \<Rightarrow>
                            (status\<lparr>rs_verified := True, rs_fingerprint := fingerprint\<rparr>, None))))))"

datatype rules_load_error = ReadRules string | BadRules load_error | BadSignature err

definition zero_config :: RuleConfig where
  "zero_config = \<lparr>rc_rules = [], rc_threshold = 0\<rparr>"

definition zero_provenance :: RulesProvenance where
  "zero_provenance = \<lparr>rp_sha256 = [], rp_ruleCount = 0, rp_threshold = 0, rp_maxScore = 0,
     rp_reachable = False, rp_signature = empty_signature\<rparr>"

definition LoadRulesFileWithPolicy ::
  "sig_lib \<Rightarrow> string \<Rightarrow> SignaturePolicy \<Rightarrow> RuleConfig \<times> RulesProvenance \<times> rules_load_error option" where
  "LoadRulesFileWithPolicy lib path policy =
     (case gl_read lib path of
        Inl _ \<Rightarrow> (zero_config, zero_provenance, Some (ReadRules path))
      | Inr raw \<Rightarrow>
          (case LoadRules (gl_rules lib) (gl_rx lib) raw of
             Inl e \<Rightarrow> (zero_config, zero_provenance, Some (BadRules e))
           | Inr rc \<Rightarrow>
               let mx = MaxAchievableScore rc;
                   prov = \<lparr>rp_sha256 = RulesDigest lib raw, rp_ruleCount = length (rc_rules rc),
                           rp_threshold = rc_threshold rc, rp_maxScore = mx, rp_reachable = (mx \<ge> rc_threshold rc),
                           rp_signature = empty_signature\<lparr>rs_mode := effectiveSigMode (sp_mode policy)\<rparr>\<rparr>
               in if \<not> Active policy then (rc, prov, None)
                  else (case verifyRulesSignature lib raw path policy of
                          (status, Some e) \<Rightarrow> (zero_config, prov\<lparr>rp_signature := status\<rparr>, Some (BadSignature e))
                        | (status, None) \<Rightarrow> (rc, prov\<lparr>rp_signature := status\<rparr>, None))))"

definition LoadRulesFile :: "sig_lib \<Rightarrow> string \<Rightarrow> RuleConfig \<times> RulesProvenance \<times> rules_load_error option" where
  "LoadRulesFile lib path =
     LoadRulesFileWithPolicy lib path \<lparr>sp_mode = '''', sp_publicKeyFile = '''', sp_signatureFile = ''''\<rparr>"

section \<open>A concrete library\<close>

text \<open>
  A library for which the laws hold: a constant digest, and a signature that repeats the first byte
  of the private key. The rules file, its signature and the trusted-keys file exist.
\<close>

definition toy_rules :: RuleConfig where
  "toy_rules = \<lparr>rc_rules = [\<lparr>r_name = ''r'', r_patterns = [''x''], r_weight = 1, r_match_type = MatchSubstring,
     r_detector = [], r_behavior = [], r_boost_factor = 0\<rparr>], rc_threshold = 4 / 5\<rparr>"

definition toy_envelope :: SignatureEnvelope where
  "toy_envelope = \<lparr>Algorithm = sigAlgorithm, KeyID = [], SHA256 = hex_encode (replicate 32 CHR 0x00),
     SigField = b64_encode (replicate 64 CHR ''k'')\<rparr>"

definition toy_lib :: sig_lib where
  "toy_lib = \<lparr>gl_sha256 = (\<lambda>b. if b = [] then replicate 32 CHR 0x01 else replicate 32 CHR 0x00),
     gl_verify = (\<lambda>pub msg sg. sg = replicate 64 (hd pub)),
     gl_sign = (\<lambda>priv msg. replicate 64 (hd priv)), gl_public = (\<lambda>priv. take 32 priv),
     gl_pem = (\<lambda>_. Some (''PUBLIC KEY'', [], 9)), gl_pkix = (\<lambda>_. PkixEd25519 (replicate 32 CHR ''k'')),
     gl_envelope = (\<lambda>_. Some toy_envelope), gl_rules = (\<lambda>_. Some toy_rules),
     gl_rx = (\<lambda>_. None), gl_ud = sample_ud, gl_read = (\<lambda>_. Inr ''file'')\<rparr>"

definition toy_key :: TrustedKey where
  "toy_key = \<lparr>tk_fingerprint = KeyFingerprint toy_lib (replicate 32 CHR ''k''), tk_key = replicate 32 CHR ''k''\<rparr>"

lemma toy_keys: "ParsePublicKeys toy_lib ''file'' = Inr [toy_key]"
proof -
  have "trim_space sample_ud [] = []" by (simp add: trim_space_def)
  moreover have "pem_loop toy_lib ''file'' [] = Inr ([toy_key], [])"
    by (simp add: pem_loop.simps(2) add_key_def toy_key_def Let_def, simp add: toy_lib_def add_key_def)
  ultimately show ?thesis by (simp add: ParsePublicKeys_def, simp add: toy_lib_def)
qed

lemma toy_digest: "RulesDigest toy_lib ''file'' = hex_encode (replicate 32 CHR 0x00)"
  by (simp add: RulesDigest_def toy_lib_def)

lemma toy_verify: "VerifyRuleset toy_lib ''file'' toy_envelope [toy_key] = Inr (tk_fingerprint toy_key)"
proof -
  have "gl_verify toy_lib (tk_key toy_key) msg (replicate 64 CHR ''k'')" for msg
    by (simp add: toy_lib_def toy_key_def)
  then show ?thesis
    by (simp add: VerifyRuleset_def toy_digest toy_envelope_def equal_fold_def b64_Decode_encode SignatureSize_def)
qed

lemma hexNibble_digit: "n < 16 \<Longrightarrow> hexNibble (hex_digit n) = Some n"
  by (auto simp: hexNibble_def hex_digit_def in_range_def)

lemma hex_Decode_encode: "hex_Decode (hex_encode bs) = Some bs"
proof (induction bs)
  case Nil
  then show ?case by (simp add: hex_encode_def)
next
  case (Cons b bs)
  have "bv b < 256" by (rule nat_of_char_less_256)
  then have "bv b div 16 < 16" by linarith
  with Cons show ?case by (simp add: hex_encode_def numeral_2_eq_2 hexNibble_digit)
qed

lemma toy_parse: "ParseSignatureEnvelope toy_lib sg = Inr toy_envelope"
proof -
  have "length (SHA256 toy_envelope) = 64" by (simp add: toy_envelope_def)
  moreover have "hex_Decode (SHA256 toy_envelope) \<noteq> None" by (simp add: toy_envelope_def hex_Decode_encode)
  moreover have "gl_envelope toy_lib sg = Some toy_envelope" by (simp add: toy_lib_def)
  moreover have "Algorithm toy_envelope = sigAlgorithm" by (simp add: toy_envelope_def)
  ultimately show ?thesis by (simp add: ParseSignatureEnvelope_def)
qed

definition toy_policy :: SignaturePolicy where
  "toy_policy = \<lparr>sp_mode = SigModeRequired, sp_publicKeyFile = ''key'', sp_signatureFile = []\<rparr>"

lemma toy_load: "\<exists>prov. LoadRulesFileWithPolicy toy_lib ''rules.json'' toy_policy = (toy_rules, prov, None)"
proof -
  have rd: "gl_read toy_lib p = Inr ''file''" for p by (simp add: toy_lib_def)
  have "LoadRules (gl_rules toy_lib) (gl_rx toy_lib) ''file'' = Inr toy_rules"
    by (simp add: LoadRules_def toy_lib_def toy_rules_def validateRuleConfig_def validate_rule_def validMatchTypes_def
        match_type_defs)
  moreover have "\<exists>st. verifyRulesSignature toy_lib ''file'' ''rules.json'' toy_policy = (st, None)"
    by (simp add: verifyRulesSignature_def toy_policy_def LoadPublicKeys_def rd toy_keys toy_parse toy_verify Let_def)
  moreover have "Active toy_policy" by (simp add: Active_def toy_policy_def)
  ultimately show ?thesis by (auto simp: LoadRulesFileWithPolicy_def rd Let_def)
qed

section \<open>Trusted keys\<close>

definition keys_ok :: "sig_lib \<Rightarrow> TrustedKey list \<Rightarrow> bool" where
  "keys_ok lib keys \<longleftrightarrow>
     distinct (map tk_fingerprint keys) \<and> (\<forall>k \<in> set keys. tk_fingerprint k = KeyFingerprint lib (tk_key k))"

lemma add_key_ok: "keys_ok lib keys \<Longrightarrow> keys_ok lib (add_key lib pub keys)"
  by (auto simp: keys_ok_def add_key_def Let_def)

lemma pem_loop_ok: "keys_ok lib keys \<Longrightarrow> pem_loop lib rest keys = Inr (keys', rest') \<Longrightarrow> keys_ok lib keys'"
proof (induction lib rest keys rule: pem_loop.induct)
  case (1 lib keys)
  then show ?case by simp
next
  case (2 lib c cs keys)
  then show ?case
    by (auto simp: pem_loop.simps(2) add_key_ok split: option.splits if_splits pkix_key.splits prod.splits)
qed

lemma key_lines_ok: "keys_ok lib keys \<Longrightarrow> key_lines lib i lines keys = Inr keys' \<Longrightarrow> keys_ok lib keys'"
  by (induction lib i lines keys rule: key_lines.induct)
    (auto simp: Let_def add_key_ok split: if_splits option.splits)

text \<open>
  A trusted-keys file that parses yields at least one key, each once: the fingerprints are
  pairwise different and every key is named by the fingerprint of its own bytes, so no entry of the
  file can pass under another key's name.
\<close>

theorem ParsePublicKeys_ok:
  assumes "ParsePublicKeys lib raw = Inr keys"
  shows "keys \<noteq> [] \<and> distinct (map tk_fingerprint keys)
    \<and> (\<forall>k \<in> set keys. tk_fingerprint k = KeyFingerprint lib (tk_key k))"
proof -
  obtain ks rest where "pem_loop lib raw [] = Inr (ks, rest)" "key_lines lib 0 (go_split CHR 0x0A rest) ks = Inr keys"
    "keys \<noteq> []"
    using assms by (auto simp: ParsePublicKeys_def split: sum.splits prod.splits if_splits)
  moreover have "keys_ok lib []" by (simp add: keys_ok_def)
  ultimately have "keys_ok lib keys" using pem_loop_ok key_lines_ok by metis
  then show ?thesis using \<open>keys \<noteq> []\<close> by (auto simp: keys_ok_def)
qed

theorem ParsePublicKeys_ok_witness:
  "ParsePublicKeys toy_lib ''file'' = Inr [toy_key] \<and> [toy_key] \<noteq> [] \<and> distinct (map tk_fingerprint [toy_key])
    \<and> list_all (\<lambda>k. tk_fingerprint k = KeyFingerprint toy_lib (tk_key k)) [toy_key]"
  using toy_keys ParsePublicKeys_ok [OF toy_keys] unfolding list_all_iff by blast

section \<open>Signing and verifying\<close>

lemma verify_keys_Some:
  "verify_keys lib msg sg keys = Some fp \<Longrightarrow> \<exists>k \<in> set keys. gl_verify lib (tk_key k) msg sg \<and> tk_fingerprint k = fp"
  by (induction keys) (auto split: if_splits)

lemma verify_keys_None: "verify_keys lib msg sg keys = None \<longleftrightarrow> (\<forall>k \<in> set keys. \<not> gl_verify lib (tk_key k) msg sg)"
  by (induction keys) auto

lemma RulesDigest_lower: "map ascii_lower (RulesDigest lib raw) = RulesDigest lib raw"
  by (simp add: RulesDigest_def hex_encode_lower)

lemma VerifyRuleset_Inr:
  assumes "VerifyRuleset lib raw sig keys = Inr fp"
  shows "\<exists>k sg. k \<in> set keys \<and> tk_fingerprint k = fp \<and> b64_Decode False True (SigField sig) = Some sg \<and> length sg = 64
    \<and> gl_verify lib (tk_key k) (SigningMessage (RulesDigest lib raw)) sg"
  using assms by (auto simp: VerifyRuleset_def SignatureSize_def Let_def split: if_splits option.splits
      dest!: verify_keys_Some)

text \<open>
  C33: Signing and verifying agree. For a signature scheme whose signatures are 64 bytes and verify
  under the signer's public key: the envelope that \<^verbatim>\<open>SignRuleset\<close> produces for a rules file verifies
  against every set of trusted keys that holds the signer's, naming one of the trusted keys; and
  against a file with another digest it is refused, whatever the keys.
\<close>

theorem SignRuleset_VerifyRuleset:
  assumes "\<And>msg. gl_verify lib (gl_public lib priv) msg (gl_sign lib priv msg)"
    and "\<And>msg. length (gl_sign lib priv msg) = 64"
    and "length priv = PrivateKeySize" "k \<in> set keys" "tk_key k = gl_public lib priv"
  shows "\<exists>env. SignRuleset lib raw priv = Inr env
    \<and> (\<exists>fp \<in> tk_fingerprint ` set keys. VerifyRuleset lib raw env keys = Inr fp)
    \<and> (\<forall>raw' keys'. RulesDigest lib raw' \<noteq> RulesDigest lib raw \<longrightarrow> (\<exists>e. VerifyRuleset lib raw' env keys' = Inl e))"
proof -
  define digest where "digest = RulesDigest lib raw"
  define env where "env = \<lparr>Algorithm = sigAlgorithm, KeyID = KeyFingerprint lib (gl_public lib priv), SHA256 = digest,
      SigField = b64_encode (gl_sign lib priv (SigningMessage digest))\<rparr>"
  have env: "SignRuleset lib raw priv = Inr env"
    using assms(3) by (simp add: SignRuleset_def env_def digest_def Let_def)
  have ne: "keys \<noteq> []" using assms(4) by auto
  have "verify_keys lib (SigningMessage digest) (gl_sign lib priv (SigningMessage digest)) keys \<noteq> None"
    using assms(1,4,5) unfolding verify_keys_None by metis
  then obtain fp where fp: "verify_keys lib (SigningMessage digest) (gl_sign lib priv (SigningMessage digest)) keys = Some fp"
    by blast
  then have "VerifyRuleset lib raw env keys = Inr fp"
    using assms(2) ne
    by (simp add: VerifyRuleset_def Let_def env_def digest_def [symmetric] equal_fold_def b64_Decode_encode SignatureSize_def)
  moreover have "fp \<in> tk_fingerprint ` set keys" using verify_keys_Some [OF fp] by auto
  moreover have "\<exists>e. VerifyRuleset lib raw' env keys' = Inl e" if "RulesDigest lib raw' \<noteq> digest" for raw' keys'
  proof -
    have "\<not> equal_fold (RulesDigest lib raw') (SHA256 env)"
      using that by (simp add: equal_fold_def env_def digest_def RulesDigest_lower)
    then show ?thesis by (simp add: VerifyRuleset_def Let_def)
  qed
  ultimately show ?thesis using env unfolding digest_def by blast
qed

theorem SignRuleset_VerifyRuleset_witness:
  "\<exists>env. SignRuleset toy_lib ''file'' (replicate 64 CHR ''k'') = Inr env
    \<and> (\<exists>fp \<in> tk_fingerprint ` set [\<lparr>tk_fingerprint = ''fp'', tk_key = replicate 32 CHR ''k''\<rparr>].
        VerifyRuleset toy_lib ''file'' env [\<lparr>tk_fingerprint = ''fp'', tk_key = replicate 32 CHR ''k''\<rparr>] = Inr fp)
    \<and> (\<forall>raw' keys'. RulesDigest toy_lib raw' \<noteq> RulesDigest toy_lib ''file'' \<longrightarrow>
        (\<exists>e. VerifyRuleset toy_lib raw' env keys' = Inl e))"
  by (rule SignRuleset_VerifyRuleset [where k = "\<lparr>tk_fingerprint = ''fp'', tk_key = replicate 32 CHR ''k''\<rparr>"])
    (simp_all add: toy_lib_def PrivateKeySize_def)

section \<open>Loading fails closed\<close>

lemma verifyRulesSignature_None:
  assumes "verifyRulesSignature lib raw path policy = (status, None)"
  shows "\<exists>keys. LoadPublicKeys lib (sp_publicKeyFile policy) = Inr keys \<and>
    ((rs_verified status \<and> (\<exists>k sg. k \<in> set keys \<and> tk_fingerprint k = rs_fingerprint status \<and> length sg = 64
        \<and> gl_verify lib (tk_key k) (SigningMessage (RulesDigest lib raw)) sg))
     \<or> (\<not> rs_verified status \<and> sp_mode policy = SigModePermissive
        \<and> gl_read lib (EffectiveSignatureFile policy path) = Inl NotExist \<and> rs_warning status \<noteq> []))"
proof -
  define sigFile where "sigFile = EffectiveSignatureFile policy path"
  have pk: "sp_publicKeyFile policy \<noteq> []"
    using assms by (auto simp: verifyRulesSignature_def Let_def sig_fail_def)
  obtain keys where keys: "LoadPublicKeys lib (sp_publicKeyFile policy) = Inr keys"
    using assms pk by (auto simp: verifyRulesSignature_def Let_def sig_fail_def split: sum.splits)
  show ?thesis
  proof (cases "gl_read lib sigFile")
    case (Inl re)
    with assms keys pk show ?thesis
      by (auto simp: verifyRulesSignature_def Let_def sig_fail_def sigFile_def [symmetric] empty_signature_def
          split: if_splits)
  next
    case (Inr sigRaw)
    with assms keys pk obtain env fp where "ParseSignatureEnvelope lib sigRaw = Inr env"
      "VerifyRuleset lib raw env keys = Inr fp" and st: "rs_verified status" "rs_fingerprint status = fp"
      by (auto simp: verifyRulesSignature_def Let_def sig_fail_def sigFile_def [symmetric] split: sum.splits)
    with VerifyRuleset_Inr keys show ?thesis by metis
  qed
qed



end
