(* ===== verification/JRecord.thy ===== *)
theory JRecord
  imports Utf8 F64
begin

text \<open>
  \<^verbatim>\<open>internal/journal/record\<close>: the data model of the record journal. Field values in one canonical
  encoding (value.go), scopes (scope.go), fields (fields.go), record types with their schema versions
  (types.go) and the validation of snapshots and notes (validate.go). A Go map that is only looked up
  is a HOL map; one that is also ranged over is an association list, in the order in which the loop
  happens to visit it. Decoding and encoding of JSON, floating-point syntax and RFC 3339 are
  parameters.
\<close>

section \<open>Names and rejections (value.go)\<close>

type_synonym FieldType = string

definition String_t :: FieldType where "String_t = ''string''"
definition Text_t :: FieldType where "Text_t = ''text''"
definition Int_t :: FieldType where "Int_t = ''int''"
definition Number_t :: FieldType where "Number_t = ''number''"
definition Bool_t :: FieldType where "Bool_t = ''bool''"
definition Date_t :: FieldType where "Date_t = ''date''"
definition Timestamp_t :: FieldType where "Timestamp_t = ''timestamp''"
definition StringList_t :: FieldType where "StringList_t = ''string_list''"

lemmas field_types = String_t_def Text_t_def Int_t_def Number_t_def Bool_t_def Date_t_def Timestamp_t_def StringList_t_def

definition FieldType_Valid :: "FieldType \<Rightarrow> bool" where
  "FieldType_Valid t \<longleftrightarrow> t \<in> {String_t, Text_t, Int_t, Number_t, Bool_t, Date_t, Timestamp_t, StringList_t}"

definition MaxStringBytes :: nat where "MaxStringBytes = 1024"
definition MaxTextBytes :: nat where "MaxTextBytes = 64 * 1024"
definition MaxListItems :: nat where "MaxListItems = 256"

record Rejection =
  rj_status :: nat
  rj_reason :: string
  rj_detail :: string

definition schemaErr :: "string \<Rightarrow> Rejection" where
  "schemaErr detail = \<lparr>rj_status = 422, rj_reason = ''schema'', rj_detail = detail\<rparr>"

definition tooLarge :: "string \<Rightarrow> Rejection" where
  "tooLarge detail = \<lparr>rj_status = 413, rj_reason = ''too_large'', rj_detail = detail\<rparr>"

definition prefixed :: "Rejection \<Rightarrow> string \<Rightarrow> Rejection" where
  "prefixed r p = r\<lparr>rj_detail := p @ rj_detail r\<rparr>"

definition name_char :: "char \<Rightarrow> bool" where
  "name_char c \<longleftrightarrow> is_lower_ascii c \<or> is_digit_ascii c \<or> c = CHR ''_''"

definition name_of :: "nat \<Rightarrow> string \<Rightarrow> bool" where
  "name_of limit s = (case s of [] \<Rightarrow> False | c # cs \<Rightarrow> is_lower_ascii c \<and> length cs \<le> limit \<and> list_all name_char cs)"

definition ValidName :: "string \<Rightarrow> bool" where
  "ValidName s = name_of 63 s"

definition ValidToken :: "string \<Rightarrow> bool" where
  "ValidToken s = name_of 31 s"

text \<open>\<^verbatim>\<open>%q\<close> of a name, which holds nothing to escape.\<close>

definition quoted :: "string \<Rightarrow> string" where
  "quoted s = [CHR 0x22] @ s @ [CHR 0x22]"

section \<open>Values (value.go)\<close>

definition suspicious :: "rune \<Rightarrow> bool" where
  "suspicious r \<longleftrightarrow> (0x80 \<le> r \<and> r \<le> 0x9f) \<or> (0x202a \<le> r \<and> r \<le> 0x202e) \<or> (0x2066 \<le> r \<and> r \<le> 0x2069)
     \<or> r \<in> {0x200e, 0x200f, 0x061c, 0x200b, 0xfeff, 0x2028, 0x2029}"

definition C0_or_DEL :: "rune \<Rightarrow> bool" where
  "C0_or_DEL r \<longleftrightarrow> r < 0x20 \<or> r = 0x7f"

definition char_fault :: "FieldType \<Rightarrow> rune \<Rightarrow> Rejection option" where
  "char_fault t r =
     (if r = 0 then Some (schemaErr ''NUL character in a value'')
      else if t \<noteq> Text_t \<and> C0_or_DEL r then
        Some (schemaErr (''control character in a '' @ t @ '' value: free text belongs in text fields''))
      else None)"

text \<open>The first element a check refuses decides.\<close>

fun first_fault :: "('a \<Rightarrow> 'e option) \<Rightarrow> 'a list \<Rightarrow> 'e option" where
  "first_fault f [] = None"
| "first_fault f (x # xs) = (case f x of Some e \<Rightarrow> Some e | None \<Rightarrow> first_fault f xs)"

lemma first_fault_None [simp]: "first_fault f xs = None \<longleftrightarrow> (\<forall>x \<in> set xs. f x = None)"
  by (induction xs) (auto split: option.splits)

definition checkString :: "FieldType \<Rightarrow> string \<Rightarrow> Rejection + string" where
  "checkString t s =
     (case first_fault (char_fault t) (runes s) of
        Some rej \<Rightarrow> Inl rej
      | None \<Rightarrow>
          let limit = (if t = Text_t then MaxTextBytes else MaxStringBytes);
              s = (if t \<noteq> Text_t \<and> list_ex suspicious (runes s)
                   then go_map (\<lambda>r. Some (if suspicious r then RuneError else r)) s else s)
          in if length s > limit
             then Inl (tooLarge (''a '' @ t @ '' value of '' @ show_nat (length s) @ '' bytes exceeds '' @ show_nat limit))
             else Inr s)"

text \<open>
  The libraries: decoding into a string, a bool, a list of string pointers (\<open>None\<close> for null items), an
  untyped value (with whether anything follows it), the encoders, \<^verbatim>\<open>strconv.ParseFloat\<close> restricted
  to finite results, and RFC 3339 times as the year in UTC with their canonical text.
\<close>

datatype json_any = JNumber string | JOther

record json_lib =
  jl_string :: "bytes \<Rightarrow> string option"
  jl_bool :: "bytes \<Rightarrow> bool option"
  jl_strings :: "bytes \<Rightarrow> string option list option"
  jl_any :: "bytes \<Rightarrow> (json_any \<times> bool) option"
  jl_float :: "string \<Rightarrow> rat option"
  jl_time :: "string \<Rightarrow> (int \<times> string) option"
  jl_encString :: "string \<Rightarrow> bytes"
  jl_encInt :: "int \<Rightarrow> bytes"
  jl_encFloat :: "rat \<Rightarrow> bytes"
  jl_encBool :: "bool \<Rightarrow> bytes"
  jl_encStrings :: "string list \<Rightarrow> bytes"

definition white_space :: "rune \<Rightarrow> bool" where
  "white_space r \<longleftrightarrow> (9 \<le> r \<and> r \<le> 13) \<or> r \<in> {0x20, 0x85, 0xA0, 0x1680, 0x2028, 0x2029, 0x202f, 0x205f, 0x3000}
     \<or> (0x2000 \<le> r \<and> r \<le> 0x200a)"

definition TrimSpace :: "bytes \<Rightarrow> bytes" where
  "TrimSpace s =
     (let keep = dropWhile (\<lambda>rc. white_space (fst rc))
      in concat (map snd (rev (keep (rev (keep (rune_chunks s)))))))"

lemma TrimSpace_ends:
  assumes "list_all (\<lambda>c. bv c < 0x80) s" "s \<noteq> [] \<Longrightarrow> \<not> white_space (bv (hd s)) \<and> \<not> white_space (bv (last s))"
  shows "TrimSpace s = s"
proof -
  let ?c = "\<lambda>c. (bv c, [c])"
  have c: "rune_chunks s = map ?c s" using assms(1) by (induction s) (simp_all add: rune_chunks_ascii_Cons)
  have k: "dropWhile (\<lambda>rc. white_space (fst rc)) (map ?c t) = map ?c t" if "t \<noteq> [] \<Longrightarrow> \<not> white_space (bv (hd t))" for t
    using that by (cases t) simp_all
  have r: "s \<noteq> [] \<Longrightarrow> hd (rev s) = last s" by (simp add: hd_rev)
  have 1: "dropWhile (\<lambda>rc. white_space (fst rc)) (map ?c s) = map ?c s" using k assms(2) by blast
  have 2: "dropWhile (\<lambda>rc. white_space (fst rc)) (map ?c (rev s)) = map ?c (rev s)" by (rule k) (use assms(2) r in auto)
  have "concat (map snd (map ?c s)) = s" by (induction s) simp_all
  then show ?thesis unfolding TrimSpace_def Let_def c 1 rev_map 2 by (simp add: rev_map [symmetric])
qed

lemma TrimSpace_clean: "list_all (\<lambda>c. bv c < 0x80 \<and> \<not> white_space (bv c)) s \<Longrightarrow> TrimSpace s = s"
  by (rule TrimSpace_ends) (auto simp: list_all_iff)

text \<open>\<^verbatim>\<open>strconv.ParseInt(s, 10, 64)\<close>.\<close>

definition digits_value :: "string \<Rightarrow> int" where
  "digits_value ds = fold (\<lambda>d n. 10 * n + (int (bv d) - 48)) ds 0"

definition ParseInt64 :: "string \<Rightarrow> int option" where
  "ParseInt64 s =
     (let (sg, ds) = (case s of [] \<Rightarrow> (1, []) | c # cs \<Rightarrow> if c = CHR ''-'' then (-1, cs) else if c = CHR ''+'' then (1, cs) else (1, s));
          n = sg * digits_value ds
      in if ds \<noteq> [] \<and> list_all is_digit_ascii ds \<and> - (2 ^ 63) \<le> n \<and> n < 2 ^ 63 then Some n else None)"

text \<open>\<^verbatim>\<open>ValidDate\<close>: a calendar date, written with four, two and two digits.\<close>

definition days_in :: "int \<Rightarrow> int \<Rightarrow> int" where
  "days_in y m =
     (if m = 2 then (if y mod 4 = 0 \<and> (y mod 100 \<noteq> 0 \<or> y mod 400 = 0) then 29 else 28)
      else if m \<in> {4, 6, 9, 11} then 30 else 31)"

definition ValidDate :: "string \<Rightarrow> bool" where
  "ValidDate s \<longleftrightarrow>
     (case s of
        [a, b, c, d, p, e, f, q, g, h] \<Rightarrow>
          p = CHR ''-'' \<and> q = CHR ''-'' \<and> list_all is_digit_ascii [a, b, c, d, e, f, g, h]
          \<and> (let y = digits_value [a, b, c, d]; m = digits_value [e, f]; day = digits_value [g, h]
             in 1 \<le> m \<and> m \<le> 12 \<and> 1 \<le> day \<and> day \<le> days_in y m)
      | _ \<Rightarrow> False)"

definition jsonNumber :: "json_lib \<Rightarrow> bytes \<Rightarrow> Rejection + string" where
  "jsonNumber jl v =
     (case jl_any jl v of
        None \<Rightarrow> Inl (schemaErr ''want a number'')
      | Some (JOther, _) \<Rightarrow> Inl (schemaErr ''want a number'')
      | Some (JNumber n, eof) \<Rightarrow> if eof then Inr n else Inl (schemaErr ''trailing data after a number''))"

fun check_items :: "string option list \<Rightarrow> Rejection + string list" where
  "check_items [] = Inr []"
| "check_items (None # l) = Inl (schemaErr ''null item in a string_list'')"
| "check_items (Some s # l) =
     (case checkString String_t s of
        Inl rej \<Rightarrow> Inl rej
      | Inr cs \<Rightarrow> (case check_items l of Inl rej \<Rightarrow> Inl rej | Inr out \<Rightarrow> Inr (cs # out)))"

text \<open>\<open>Inr None\<close> is the nil encoding of null.\<close>

definition NormalizeValue :: "json_lib \<Rightarrow> FieldType \<Rightarrow> bytes \<Rightarrow> Rejection + bytes option" where
  "NormalizeValue jl t raw =
     (let v = TrimSpace raw in
      if v = [] \<or> v = ''null'' then Inr None
      else if t = String_t \<or> t = Text_t then
        (case jl_string jl v of
           None \<Rightarrow> Inl (schemaErr ''want a JSON string'')
         | Some s \<Rightarrow> (case checkString t s of Inl rej \<Rightarrow> Inl rej | Inr s \<Rightarrow> Inr (Some (jl_encString jl s))))
      else if t = Int_t then
        (case jsonNumber jl v of
           Inl rej \<Rightarrow> Inl rej
         | Inr n \<Rightarrow> (case ParseInt64 n of
                       None \<Rightarrow> Inl (schemaErr ''want an integer in the int64 range'')
                     | Some i \<Rightarrow> Inr (Some (jl_encInt jl i))))
      else if t = Number_t then
        (case jsonNumber jl v of
           Inl rej \<Rightarrow> Inl rej
         | Inr n \<Rightarrow> (case jl_float jl n of
                       None \<Rightarrow> Inl (schemaErr ''want a finite number'')
                     | Some f \<Rightarrow> Inr (Some (jl_encFloat jl f))))
      else if t = Bool_t then
        (case jl_bool jl v of None \<Rightarrow> Inl (schemaErr ''want true or false'') | Some b \<Rightarrow> Inr (Some (jl_encBool jl b)))
      else if t = Date_t then
        (case jl_string jl v of
           None \<Rightarrow> Inl (schemaErr ''want a date string'')
         | Some s \<Rightarrow> if ValidDate s then Inr (Some (jl_encString jl s)) else Inl (schemaErr ''want a date as YYYY-MM-DD''))
      else if t = Timestamp_t then
        (case jl_string jl v of
           None \<Rightarrow> Inl (schemaErr ''want a timestamp string'')
         | Some s \<Rightarrow>
             (case jl_time jl s of
                None \<Rightarrow> Inl (schemaErr ''want an RFC 3339 timestamp'')
              | Some (y, ts) \<Rightarrow> if y < 0 \<or> y > 9999 then Inl (schemaErr ''timestamp is outside years 0000-9999 in UTC'')
                               else Inr (Some (jl_encString jl ts))))
      else if t = StringList_t then
        (case jl_strings jl v of
           None \<Rightarrow> Inl (schemaErr ''want a list of strings'')
         | Some l \<Rightarrow>
             if length l > MaxListItems
             then Inl (tooLarge (''a string_list of '' @ show_nat (length l) @ '' items exceeds '' @ show_nat MaxListItems))
             else (case check_items l of Inl rej \<Rightarrow> Inl rej | Inr out \<Rightarrow> Inr (Some (jl_encStrings jl out))))
      else Inl (schemaErr (''unknown field type '' @ quoted t)))"

section \<open>Scopes (scope.go)\<close>

definition PartSource :: string where "PartSource = ''source''"
definition PartSubject :: string where "PartSubject = ''data_subject''"
definition MaxScopeParts :: nat where "MaxScopeParts = 8"
definition MaxScopeValueBytes :: nat where "MaxScopeValueBytes = 256"

type_synonym ScopePart = "string \<times> string"
type_synonym Scope = "ScopePart list"

definition part_fault :: "nat \<Rightarrow> string list \<Rightarrow> ScopePart \<Rightarrow> string option" where
  "part_fault i seen p =
     (let part = (\<lambda>what. Some (''scope part '' @ show_nat i @ '': '' @ what)) in
      if \<not> ValidName (fst p) then part ''invalid name''
      else if fst p \<in> set seen then part ''its name appears twice''
      else if i = 0 \<and> fst p \<noteq> PartSource then Some ''a scope starts with its source part''
      else if snd p = [] \<or> length (snd p) > MaxScopeValueBytes then part ''value must be 1 to 256 bytes''
      else if \<not> utf8_valid (snd p) then part ''not valid UTF-8''
      else if list_ex (\<lambda>r. C0_or_DEL r \<or> suspicious r) (runes (snd p)) then part ''control character''
      else None)"

fun parts_fault :: "nat \<Rightarrow> string list \<Rightarrow> ScopePart list \<Rightarrow> Rejection option" where
  "parts_fault i seen [] = None"
| "parts_fault i seen (p # ps) =
     (case part_fault i seen p of
        Some detail \<Rightarrow> Some (schemaErr detail)
      | None \<Rightarrow> parts_fault (Suc i) (fst p # seen) ps)"

definition ParseScope :: "ScopePart list \<Rightarrow> Rejection + Scope" where
  "ParseScope ps =
     (if ps = [] \<or> length ps > MaxScopeParts then Inl (schemaErr ''a scope has 1 to 8 parts'')
      else (case parts_fault 0 [] ps of Some rej \<Rightarrow> Inl rej | None \<Rightarrow> Inr ps))"

definition escape_char :: "char \<Rightarrow> string" where
  "escape_char c = (if c = CHR ''%'' then ''%25'' else if c = CHR ''/'' then ''%2F'' else if c = CHR ''='' then ''%3D'' else [c])"

definition EscapeScopeValue :: "string \<Rightarrow> string" where
  "EscapeScopeValue s = concat (map escape_char s)"

definition Scope_Canonical :: "Scope \<Rightarrow> string" where
  "Scope_Canonical s = go_join ''/'' (map (\<lambda>p. EscapeScopeValue (fst p) @ ''='' @ EscapeScopeValue (snd p)) s)"

definition Scope_Get :: "Scope \<Rightarrow> string \<Rightarrow> string option" where
  "Scope_Get s name = map_of s name"

definition Scope_Source :: "Scope \<Rightarrow> string" where
  "Scope_Source s = (case Scope_Get s PartSource of Some v \<Rightarrow> v | None \<Rightarrow> [])"

definition Scope_Subject :: "Scope \<Rightarrow> string" where
  "Scope_Subject s = (case Scope_Get s PartSubject of Some v \<Rightarrow> v | None \<Rightarrow> [])"

definition OwnerHousehold :: string where "OwnerHousehold = ''household''"

definition HouseholdScope :: "string \<Rightarrow> string \<Rightarrow> string" where
  "HouseholdScope recordType subject =
     Scope_Canonical ([(PartSource, OwnerHousehold), (''record_type'', recordType)]
       @ (if subject = [] then [] else [(PartSubject, subject)]))"

section \<open>Canonical scopes are unambiguous\<close>

text \<open>
  Joining encoded parts with a separator that no encoding contains loses nothing. The contract is
  met by the parts of a scope and by the bytes of one escaped value.
\<close>

locale separated_encoding =
  fixes enc :: "'a \<Rightarrow> 'c list" and sep :: 'c
  assumes enc_inj: "enc x = enc y \<Longrightarrow> x = y"
    and sep_free: "sep \<notin> set (enc x)"
    and enc_nonempty: "enc x \<noteq> []"
begin

lemma split_join: "xs \<noteq> [] \<Longrightarrow> go_split sep (go_join [sep] (map enc xs)) = map enc xs"
proof (induction xs rule: rev_induct)
  case (snoc x xs)
  have one: "go_split sep (enc x) = [enc x]" using go_split_single [OF sep_free] .
  have "go_join [sep] (map enc (xs @ [x])) = (if xs = [] then enc x else go_join [sep] (map enc xs) @ sep # enc x)"
    using go_join_snoc [of "[sep]" "map enc xs" "enc x"] by simp
  then show ?case using snoc.IH one go_split_append [OF sep_free, of "go_join [sep] (map enc xs)" x] by auto
qed simp

lemma join_inj: "go_join [sep] (map enc xs) = go_join [sep] (map enc ys) \<longleftrightarrow> xs = ys"
proof
  assume eq: "go_join [sep] (map enc xs) = go_join [sep] (map enc ys)"
  have empty: "go_join [sep] (map enc zs) = [] \<longleftrightarrow> zs = []" for zs
    using enc_nonempty by (cases zs; cases "tl zs") auto
  show "xs = ys"
  proof (cases "xs = []")
    case True
    then show ?thesis using eq empty [of ys] by simp
  next
    case False
    then have "ys \<noteq> []" using eq empty by metis
    then have "map enc xs = map enc ys" using split_join eq False by metis
    then show ?thesis using enc_inj by (metis inj_map_eq_map injI)
  qed
qed simp

end

lemma escape_char_cases: "escape_char c = [c] \<and> c \<notin> set ''%/='' \<or> c \<in> set ''%/='' \<and> hd (escape_char c) = CHR ''%''"
  by (simp add: escape_char_def)

lemma EscapeScopeValue_clean: "CHR ''/'' \<notin> set (EscapeScopeValue s)" "CHR ''='' \<notin> set (EscapeScopeValue s)"
  by (induction s) (auto simp: EscapeScopeValue_def escape_char_def)

lemma EscapeScopeValue_inj: "EscapeScopeValue s = EscapeScopeValue t \<Longrightarrow> s = t"
proof (induction s arbitrary: t)
  case Nil
  then show ?case by (cases t) (auto simp: EscapeScopeValue_def escape_char_def split: if_splits)
next
  case (Cons c s)
  then obtain d t' where t: "t = d # t'" by (cases t) (auto simp: EscapeScopeValue_def escape_char_def split: if_splits)
  then have "c = d \<and> EscapeScopeValue s = EscapeScopeValue t'"
    using Cons.prems by (auto simp: EscapeScopeValue_def escape_char_def split: if_splits)
  then show ?case using Cons.IH t by blast
qed

definition scope_part :: "ScopePart \<Rightarrow> string" where
  "scope_part p = EscapeScopeValue (fst p) @ ''='' @ EscapeScopeValue (snd p)"

interpretation scope_parts: separated_encoding scope_part "CHR ''/''"
proof
  fix p q :: ScopePart
  assume "scope_part p = scope_part q"
  then have "EscapeScopeValue (fst p) @ CHR ''='' # EscapeScopeValue (snd p) = EscapeScopeValue (fst q) @ CHR ''='' # EscapeScopeValue (snd q)"
    by (simp add: scope_part_def)
  then have "EscapeScopeValue (fst p) = EscapeScopeValue (fst q) \<and> EscapeScopeValue (snd p) = EscapeScopeValue (snd q)"
    by (simp add: append_Cons_eq_iff EscapeScopeValue_clean)
  then show "p = q" using EscapeScopeValue_inj by (metis prod_eqI)
qed (simp_all add: scope_part_def EscapeScopeValue_clean)

text \<open>
  C37: Two scopes are stored under one key only if they are the same scope: the canonical form is
  injective, whatever characters the part names and values hold and however many parts there are.
\<close>

theorem Scope_Canonical_injective: "Scope_Canonical s = Scope_Canonical s' \<longleftrightarrow> s = s'"
  using scope_parts.join_inj [of s s'] by (simp add: Scope_Canonical_def scope_part_def [abs_def])

end
