(* ===== verification/Schema.thy ===== *)
theory Schema
  imports JRecord
begin

text \<open>
  \<^verbatim>\<open>types.go\<close> of the record journal: record types, the validation of one version, the registry that
  checks chains of versions, and the forwarding of field names to the newest version. The copies the
  registry hands out are values here, so cloning is the identity.
\<close>

section \<open>Record types\<close>

definition MaxAudienceTokens :: nat where "MaxAudienceTokens = 16"

record FieldDef =
  fd_type :: FieldType
  fd_required :: bool

record RType =
  ty_name :: string
  ty_version :: int
  ty_owner :: string
  ty_fields :: "(string \<times> FieldDef) list"
  ty_renames :: "(string \<times> string) list"
  ty_defaultAudience :: "string list"
  ty_fixedAudience :: "string list"
  ty_allowNoSubject :: bool

text \<open>Looking up a missing field gives the zero value of its definition.\<close>

definition field_of :: "RType \<Rightarrow> string \<Rightarrow> FieldDef" where
  "field_of t f = (case map_of (ty_fields t) f of Some d \<Rightarrow> d | None \<Rightarrow> \<lparr>fd_type = [], fd_required = False\<rparr>)"

definition Household :: "RType \<Rightarrow> bool" where
  "Household t \<longleftrightarrow> ty_owner t = OwnerHousehold"

definition IsText :: "RType \<Rightarrow> string \<Rightarrow> bool" where
  "IsText t f \<longleftrightarrow> fd_type (field_of t f) = Text_t"

datatype type_error =
    InvalidTypeName string
  | VersionBelowOne
  | InvalidOwner string
  | NoFields
  | InvalidFieldName string
  | UnknownFieldType string
  | NothingToRename
  | InvalidRenameSource string
  | RenameTargetUndeclared string string
  | RenamedButDeclared string
  | TwoRenamedTo string
  | TooManyTokens string
  | InvalidToken string
  | DuplicateToken string
  | HouseholdWithoutFixedAudience
  | HouseholdWithDefaultAudience
  | HouseholdWithoutDate
  | FixedAudienceOnSource
  | VersionGap string
  | OwnerChanged string
  | NewlyRequired string
  | RenamesUndeclared string
  | RenameMergesFields string string
  | RenameChangesType string string
  | FieldChangesType string
  | TextFieldDropped string

definition field_fault :: "string \<times> FieldDef \<Rightarrow> type_error option" where
  "field_fault nd =
     (if \<not> ValidName (fst nd) then Some (InvalidFieldName (fst nd))
      else if \<not> FieldType_Valid (fd_type (snd nd)) then Some (UnknownFieldType (fst nd))
      else None)"

fun renames_fault :: "RType \<Rightarrow> string list \<Rightarrow> (string \<times> string) list \<Rightarrow> type_error option" where
  "renames_fault t targets [] = None"
| "renames_fault t targets ((frm, tgt) # rs) =
     (if \<not> ValidName frm then Some (InvalidRenameSource frm)
      else if map_of (ty_fields t) tgt = None then Some (RenameTargetUndeclared frm tgt)
      else if map_of (ty_fields t) frm \<noteq> None then Some (RenamedButDeclared frm)
      else if tgt \<in> set targets then Some (TwoRenamedTo tgt)
      else renames_fault t (tgt # targets) rs)"

fun tokens_fault :: "string list \<Rightarrow> string list \<Rightarrow> type_error option" where
  "tokens_fault seen [] = None"
| "tokens_fault seen (tok # toks) =
     (if \<not> ValidToken tok then Some (InvalidToken tok)
      else if tok \<in> set seen then Some (DuplicateToken tok)
      else tokens_fault (tok # seen) toks)"

definition audience_fault :: "string \<times> string list \<Rightarrow> type_error option" where
  "audience_fault la =
     (if length (snd la) > MaxAudienceTokens then Some (TooManyTokens (fst la)) else tokens_fault [] (snd la))"

definition household_fault :: "RType \<Rightarrow> type_error option" where
  "household_fault t =
     (if Household t then
        (if ty_fixedAudience t = [] then Some HouseholdWithoutFixedAudience
         else if ty_defaultAudience t \<noteq> [] then Some HouseholdWithDefaultAudience
         else if fd_type (field_of t ''date'') \<noteq> Date_t then Some HouseholdWithoutDate
         else None)
      else if ty_fixedAudience t \<noteq> [] then Some FixedAudienceOnSource
      else None)"

text \<open>The checks in their order; the first fault is the answer.\<close>

definition Type_Validate :: "RType \<Rightarrow> type_error option" where
  "Type_Validate t =
     (if \<not> ValidName (ty_name t) then Some (InvalidTypeName (ty_name t))
      else if ty_version t < 1 then Some VersionBelowOne
      else if \<not> ValidName (ty_owner t) then Some (InvalidOwner (ty_owner t))
      else if ty_fields t = [] then Some NoFields
      else (case first_fault field_fault (ty_fields t) of Some e \<Rightarrow> Some e | None \<Rightarrow>
        if ty_version t = 1 \<and> ty_renames t \<noteq> [] then Some NothingToRename
        else (case renames_fault t [] (ty_renames t) of Some e \<Rightarrow> Some e | None \<Rightarrow>
          (case first_fault audience_fault [(''default_audience'', ty_defaultAudience t), (''fixed_audience'', ty_fixedAudience t)]
           of Some e \<Rightarrow> Some e | None \<Rightarrow> household_fault t))))"

section \<open>The registry\<close>

type_synonym Registry_t = "(string \<times> RType list) list"

definition versions :: "Registry_t \<Rightarrow> string \<Rightarrow> RType list" where
  "versions reg name = (case map_of reg name of Some vs \<Rightarrow> vs | None \<Rightarrow> [])"

fun add_version :: "RType \<Rightarrow> Registry_t \<Rightarrow> Registry_t" where
  "add_version t [] = [(ty_name t, [t])]"
| "add_version t ((n, vs) # reg) = (if n = ty_name t then (n, vs @ [t]) # reg else (n, vs) # add_version t reg)"

fun collect_types :: "RType list \<Rightarrow> Registry_t \<Rightarrow> type_error + Registry_t" where
  "collect_types [] reg = Inr reg"
| "collect_types (t # ts) reg =
     (case Type_Validate t of Some e \<Rightarrow> Inl e | None \<Rightarrow> collect_types ts (add_version t reg))"

text \<open>
  The version's own checks against its predecessor and against the types that field names had in any
  earlier version.
\<close>

definition required_fault :: "RType \<Rightarrow> RType \<Rightarrow> string \<times> FieldDef \<Rightarrow> type_error option" where
  "required_fault prev t nd =
     (if \<not> fd_required (snd nd) then None
      else let src0 = (if map_of (ty_renames t) (fst nd) \<noteq> None then [] else fst nd);
               src = fold (\<lambda>(frm, tgt) src. if tgt = fst nd then frm else src) (ty_renames t) src0
           in if \<not> fd_required (field_of prev src) then Some (NewlyRequired (fst nd)) else None)"

definition rename_fault :: "(string \<rightharpoonup> FieldType) \<Rightarrow> RType \<Rightarrow> RType \<Rightarrow> string \<times> string \<Rightarrow> type_error option" where
  "rename_fault ever prev t r =
     (case map_of (ty_fields prev) (fst r) of
        None \<Rightarrow> Some (RenamesUndeclared (fst r))
      | Some old \<Rightarrow>
          if ever (snd r) \<noteq> None then Some (RenameMergesFields (fst r) (snd r))
          else if fd_type old \<noteq> fd_type (field_of t (snd r)) then Some (RenameChangesType (fst r) (snd r))
          else None)"

definition retype_fault :: "(string \<rightharpoonup> FieldType) \<Rightarrow> string \<times> FieldDef \<Rightarrow> type_error option" where
  "retype_fault ever nd =
     (case ever (fst nd) of
        Some old \<Rightarrow> if old \<noteq> fd_type (snd nd) then Some (FieldChangesType (fst nd)) else None
      | None \<Rightarrow> None)"

definition drop_fault :: "RType \<Rightarrow> string \<times> FieldDef \<Rightarrow> type_error option" where
  "drop_fault t nd =
     (if fd_type (snd nd) \<noteq> Text_t then None
      else if map_of (ty_renames t) (fst nd) \<noteq> None then None
      else if map_of (ty_fields t) (fst nd) = None then Some (TextFieldDropped (fst nd))
      else None)"

definition version_fault :: "string \<Rightarrow> (string \<rightharpoonup> FieldType) \<Rightarrow> RType \<Rightarrow> RType \<Rightarrow> type_error option" where
  "version_fault name ever prev t =
     (if ty_owner t \<noteq> ty_owner prev then Some (OwnerChanged name)
      else (case first_fault (required_fault prev t) (ty_fields t) of Some e \<Rightarrow> Some e | None \<Rightarrow>
        (case first_fault (rename_fault ever prev t) (ty_renames t) of Some e \<Rightarrow> Some e | None \<Rightarrow>
          (case first_fault (retype_fault ever) (ty_fields t) of Some e \<Rightarrow> Some e | None \<Rightarrow>
            first_fault (drop_fault t) (ty_fields prev)))))"

definition add_ever :: "RType \<Rightarrow> (string \<rightharpoonup> FieldType) \<Rightarrow> string \<rightharpoonup> FieldType" where
  "add_ever t ever = ever ++ map_of (map (\<lambda>(f, d). (f, fd_type d)) (ty_fields t))"

fun chain_fault :: "string \<Rightarrow> nat \<Rightarrow> (string \<rightharpoonup> FieldType) \<Rightarrow> RType option \<Rightarrow> RType list \<Rightarrow> type_error option" where
  "chain_fault name i ever prev [] = None"
| "chain_fault name i ever prev (t # ts) =
     (if ty_version t \<noteq> int i + 1 then Some (VersionGap name)
      else (case (case prev of None \<Rightarrow> None | Some p \<Rightarrow> version_fault name ever p t) of
              Some e \<Rightarrow> Some e
            | None \<Rightarrow> chain_fault name (Suc i) (add_ever t ever) (Some t) ts))"

definition NewRegistry_t :: "RType list \<Rightarrow> type_error + Registry_t" where
  "NewRegistry_t types =
     (case collect_types types [] of
        Inl e \<Rightarrow> Inl e
      | Inr by \<Rightarrow>
          let reg = map (\<lambda>(n, vs). (n, sort_key ty_version vs)) by
          in (case first_fault (\<lambda>(n, vs). chain_fault n 0 Map.empty None vs) reg of Some e \<Rightarrow> Inl e | None \<Rightarrow> Inr reg))"

definition Registry_Active :: "Registry_t \<Rightarrow> string \<Rightarrow> RType option" where
  "Registry_Active reg name = (let vs = versions reg name in if vs = [] then None else Some (last vs))"

definition Registry_Version :: "Registry_t \<Rightarrow> string \<Rightarrow> int \<Rightarrow> RType option" where
  "Registry_Version reg name v =
     (let vs = versions reg name in if v < 1 \<or> v > int (length vs) then None else Some (vs ! nat (v - 1)))"

definition Registry_Types :: "Registry_t \<Rightarrow> RType list" where
  "Registry_Types reg = concat (map (versions reg) (sort (map fst reg)))"

definition rename_step :: "RType \<Rightarrow> string \<Rightarrow> string" where
  "rename_step t f = (case map_of (ty_renames t) f of Some tgt \<Rightarrow> tgt | None \<Rightarrow> f)"

definition ForwardName :: "Registry_t \<Rightarrow> string \<Rightarrow> int \<Rightarrow> string \<Rightarrow> string" where
  "ForwardName reg name frm field = fold rename_step (drop (nat (max 1 frm)) (versions reg name)) field"

type_synonym Fields = "string \<rightharpoonup> bytes"

text \<open>\<open>ks\<close> lists the keys of the fields in the order in which the second loop visits them.\<close>

definition Forward :: "Registry_t \<Rightarrow> string \<Rightarrow> int \<Rightarrow> string list \<Rightarrow> Fields \<Rightarrow> Fields" where
  "Forward reg name frm ks f =
     fold (\<lambda>k out. let tgt = ForwardName reg name frm k in if tgt \<noteq> k then out(tgt := f k) else out) ks
       (\<lambda>k. if ForwardName reg name frm k = k then f k else None)"

section \<open>Evolution never merges fields and never unmasks text\<close>

definition declares :: "RType \<Rightarrow> string \<Rightarrow> bool" where
  "declares t f \<longleftrightarrow> map_of (ty_fields t) f \<noteq> None"

text \<open>\<open>ever\<close> records at least the fields of \<open>t\<close> with their types.\<close>

definition covers :: "(string \<rightharpoonup> FieldType) \<Rightarrow> RType \<Rightarrow> bool" where
  "covers ever t \<longleftrightarrow> (\<forall>f d. map_of (ty_fields t) f = Some d \<longrightarrow> ever f = Some (fd_type d))"

lemma map_of_type: "map_of (map (\<lambda>(f, d). (f, fd_type d)) xs) f = map_option fd_type (map_of xs f)"
  by (induction xs) auto

lemma add_ever_covers: "covers (add_ever t ever) t"
  by (auto simp: covers_def add_ever_def map_add_def map_of_type)

lemma dom_add_ever: "dom (add_ever t ever) = dom ever \<union> Collect (declares t)"
  by (auto simp: add_ever_def declares_def map_of_type map_add_def split: option.splits)

lemma version_fault_None:
  assumes "version_fault name ever prev t = None"
  shows "r \<in> set (ty_renames t) \<Longrightarrow> rename_fault ever prev t r = None"
    "nd \<in> set (ty_fields t) \<Longrightarrow> retype_fault ever nd = None"
    "nd \<in> set (ty_fields prev) \<Longrightarrow> drop_fault t nd = None"
  using assms by (auto simp: version_fault_def split: if_splits option.splits)

lemma text_step:
  assumes "version_fault name ever prev t = None" "covers ever prev" "IsText prev f"
  shows "IsText t (rename_step t f)"
proof -
  obtain d where d: "map_of (ty_fields prev) f = Some d" "fd_type d = Text_t"
    using assms(3) by (auto simp: IsText_def field_of_def Text_t_def split: option.splits)
  show ?thesis
  proof (cases "map_of (ty_renames t) f")
    case None
    have "drop_fault t (f, d) = None" using version_fault_None(3) [OF assms(1)] map_of_SomeD [OF d(1)] .
    then obtain d' where d': "map_of (ty_fields t) f = Some d'" using None d(2) by (auto simp: drop_fault_def split: if_splits)
    have "retype_fault ever (f, d') = None" using version_fault_None(2) [OF assms(1)] map_of_SomeD [OF d'] .
    moreover have "ever f = Some Text_t" using assms(2) d by (auto simp: covers_def)
    ultimately show ?thesis using None d' by (auto simp: retype_fault_def rename_step_def IsText_def field_of_def split: if_splits)
  next
    case (Some tgt)
    have "rename_fault ever prev t (f, tgt) = None" using version_fault_None(1) [OF assms(1)] map_of_SomeD [OF Some] .
    then show ?thesis using Some d by (auto simp: rename_fault_def rename_step_def IsText_def split: if_splits)
  qed
qed

lemma renames_fault_None:
  "renames_fault t targets rs = None \<Longrightarrow>
     distinct (map snd rs) \<and> set targets \<inter> snd ` set rs = {} \<and> (\<forall>r \<in> set rs. declares t (snd r))"
  by (induction t targets rs rule: renames_fault.induct) (auto simp: declares_def split: if_splits)

lemma Type_Validate_renames: "Type_Validate t = None \<Longrightarrow> renames_fault t [] (ty_renames t) = None"
  by (auto simp: Type_Validate_def split: if_splits option.splits)

lemma rename_step_inj:
  assumes "version_fault name ever prev t = None" "Type_Validate t = None"
  shows "inj_on (rename_step t) (dom ever)" "rename_step t ` dom ever \<subseteq> dom (add_ever t ever)"
proof -
  note rn = renames_fault_None [OF Type_Validate_renames [OF assms(2)]]
  have new: "(f, tgt) \<in> set (ty_renames t) \<Longrightarrow> ever tgt = None" for f tgt
    using version_fault_None(1) [OF assms(1), of "(f, tgt)"] by (auto simp: rename_fault_def split: option.splits if_splits)
  have uniq: "f = g" if "(f, tgt) \<in> set (ty_renames t)" "(g, tgt) \<in> set (ty_renames t)" for f g tgt
    using rn that by (metis distinct_map inj_onD prod.inject snd_conv)
  show "inj_on (rename_step t) (dom ever)"
    by (intro inj_onI) (auto simp: rename_step_def dest!: map_of_SomeD dest: new uniq split: option.splits)
  show "rename_step t ` dom ever \<subseteq> dom (add_ever t ever)"
  proof
    fix x assume "x \<in> rename_step t ` dom ever"
    then obtain f where f: "f \<in> dom ever" "x = rename_step t f" by blast
    show "x \<in> dom (add_ever t ever)"
    proof (cases "map_of (ty_renames t) f")
      case (Some tgt)
      then show ?thesis using rn f map_of_SomeD [OF Some] by (simp add: dom_add_ever rename_step_def) (metis snd_conv)
    qed (use f in \<open>simp add: dom_add_ever rename_step_def\<close>)
  qed
qed

lemma chain_evolves:
  assumes "chain_fault name i ever (Some p) ts = None" "covers ever p" "\<forall>t \<in> set ts. Type_Validate t = None"
  shows "inj_on (fold rename_step ts) (dom ever) \<and> (IsText p f \<longrightarrow> IsText (last (p # ts)) (fold rename_step ts f))"
  using assms
proof (induction ts arbitrary: i ever p f)
  case (Cons t ts)
  have v: "version_fault name ever p t = None" and c: "chain_fault name (Suc i) (add_ever t ever) (Some t) ts = None"
    using Cons.prems(1) by (auto split: if_splits option.splits)
  have ih: "inj_on (fold rename_step ts) (dom (add_ever t ever)) \<and>
      (IsText t g \<longrightarrow> IsText (last (t # ts)) (fold rename_step ts g))" for g
    using Cons.IH [OF c add_ever_covers] Cons.prems(3) by auto
  have step: "inj_on (rename_step t) (dom ever)" "rename_step t ` dom ever \<subseteq> dom (add_ever t ever)"
    using rename_step_inj [OF v] Cons.prems(3) by auto
  have "inj_on (fold rename_step ts \<circ> rename_step t) (dom ever)"
    using step ih by (intro comp_inj_on) (auto intro: inj_on_subset)
  moreover have "IsText p f \<longrightarrow> IsText (last (p # t # ts)) (fold rename_step ts (rename_step t f))"
    using text_step [OF v Cons.prems(2)] ih by auto
  ultimately show ?case by (simp add: comp_def)
qed simp

lemma chain_fault_suffix:
  assumes "chain_fault name i ever prev (xs @ t # ys) = None"
  shows "\<exists>ever'. covers ever' t \<and> chain_fault name (i + length xs + 1) ever' (Some t) ys = None"
  using assms
proof (induction xs arbitrary: i ever prev)
  case Nil
  then show ?case using add_ever_covers by (auto split: if_splits option.splits intro!: exI [of _ "add_ever t ever"])
next
  case (Cons x xs)
  then have "chain_fault name (Suc i) (add_ever x ever) (Some x) (xs @ t # ys) = None"
    by (auto split: if_splits option.splits)
  from Cons.IH [OF this] show ?case by simp
qed

lemma collect_types_ok:
  "collect_types ts by0 = Inr by \<Longrightarrow> \<forall>(n, vs) \<in> set by0. \<forall>t \<in> set vs. Type_Validate t = None \<Longrightarrow>
     \<forall>(n, vs) \<in> set by. \<forall>t \<in> set vs. Type_Validate t = None"
proof (induction ts arbitrary: by0)
  case (Cons t ts)
  have add: "(n, vs) \<in> set (add_version t reg) \<Longrightarrow> \<forall>(n, vs) \<in> set reg. \<forall>t \<in> set vs. Type_Validate t = None \<Longrightarrow>
      Type_Validate t = None \<Longrightarrow> u \<in> set vs \<Longrightarrow> Type_Validate u = None" for n vs reg u
    by (induction t reg rule: add_version.induct) (auto split: if_splits)
  have "Type_Validate t = None" "collect_types ts (add_version t by0) = Inr by"
    using Cons.prems(1) by (auto split: option.splits)
  then show ?case using Cons.IH Cons.prems(2) add by blast
qed simp

lemma NewRegistry_versions:
  assumes "NewRegistry_t types = Inr reg" "versions reg name = vs" "vs \<noteq> []"
  shows "chain_fault name 0 Map.empty None vs = None" "\<forall>t \<in> set vs. Type_Validate t = None"
proof -
  obtain bt where b: "collect_types types [] = Inr bt" "reg = map (\<lambda>(n, vs). (n, sort_key ty_version vs)) bt"
    "first_fault (\<lambda>(n, vs). chain_fault n 0 Map.empty None vs) reg = None"
    using assms(1) by (auto simp: NewRegistry_t_def Let_def split: sum.splits option.splits)
  have m: "(name, vs) \<in> set reg" using assms(2,3) by (auto simp: versions_def dest: map_of_SomeD split: option.splits)
  then show "chain_fault name 0 Map.empty None vs = None" using b(3) by auto
  have "\<forall>(n, vs) \<in> set bt. \<forall>t \<in> set vs. Type_Validate t = None" using collect_types_ok [OF b(1)] by simp
  then show "\<forall>t \<in> set vs. Type_Validate t = None" using m b(2) by auto
qed

text \<open>A record type keeps its owner over all its versions.\<close>

lemma chain_owner: "chain_fault name i ever (Some p) ts = None \<Longrightarrow> t \<in> set ts \<Longrightarrow> ty_owner t = ty_owner p"
  by (induction ts arbitrary: i ever p) (auto simp: version_fault_def split: if_splits option.splits)

lemma Registry_owner:
  assumes "NewRegistry_t types = Inr reg" "Registry_Version reg name v = Some t" "Registry_Active reg name = Some a"
  shows "ty_owner t = ty_owner a"
proof -
  let ?vs = "versions reg name"
  have vs: "?vs \<noteq> []" "a = last ?vs" "t \<in> set ?vs"
    using assms(2,3) by (auto simp: Registry_Version_def Registry_Active_def Let_def split: if_splits)
  then obtain p ts where p: "?vs = p # ts" by (cases ?vs) auto
  have "chain_fault name 1 (add_ever p Map.empty) (Some p) ts = None"
    using NewRegistry_versions(1) [OF assms(1) p] by (auto split: if_splits)
  then have "x \<in> set ?vs \<Longrightarrow> ty_owner x = ty_owner p" for x using chain_owner p by auto
  then show ?thesis using vs by (metis last_in_set)
qed

text \<open>The active version is registered under its own name and its number is that of the versions.\<close>

lemma collect_types_names:
  "collect_types ts by0 = Inr by \<Longrightarrow> \<forall>(n, vs) \<in> set by0. \<forall>t \<in> set vs. ty_name t = n \<Longrightarrow> \<forall>(n, vs) \<in> set by. \<forall>t \<in> set vs. ty_name t = n"
proof (induction ts arbitrary: by0)
  case (Cons t ts)
  have "(n, vs) \<in> set (add_version t reg) \<Longrightarrow> \<forall>(n, vs) \<in> set reg. \<forall>t \<in> set vs. ty_name t = n \<Longrightarrow> u \<in> set vs \<Longrightarrow> ty_name u = n"
    for n vs reg u
    by (induction t reg rule: add_version.induct) (auto split: if_splits)
  then have "\<forall>(n, vs) \<in> set (add_version t by0). \<forall>t \<in> set vs. ty_name t = n" using Cons.prems(2) by blast
  then show ?case using Cons.IH Cons.prems(1) by (auto split: option.splits)
qed simp

lemma chain_numbers: "chain_fault name i ever prev vs = None \<Longrightarrow> j < length vs \<Longrightarrow> ty_version (vs ! j) = int (i + j) + 1"
proof (induction vs arbitrary: i ever prev j)
  case (Cons t ts)
  have t: "ty_version t = int i + 1" and c: "chain_fault name (Suc i) (add_ever t ever) (Some t) ts = None"
    using Cons.prems(1) by (auto split: if_splits option.splits)
  show ?case using t Cons.IH [OF c] Cons.prems(2) by (cases j) auto
qed simp

lemma Registry_Active_name:
  assumes "NewRegistry_t types = Inr reg" "Registry_Active reg name = Some t"
  shows "ty_name t = name" "ty_version t = int (length (versions reg name))"
proof -
  let ?vs = "versions reg name"
  have vs: "?vs \<noteq> []" "t = last ?vs" using assms(2) by (auto simp: Registry_Active_def Let_def split: if_splits)
  obtain bt where b: "collect_types types [] = Inr bt" "reg = map (\<lambda>(n, vs). (n, sort_key ty_version vs)) bt"
    using assms(1) by (auto simp: NewRegistry_t_def Let_def split: sum.splits option.splits)
  have "(name, ?vs) \<in> set reg" using vs(1) by (auto simp: versions_def dest: map_of_SomeD split: option.splits)
  moreover have "\<forall>(n, vs) \<in> set bt. \<forall>t \<in> set vs. ty_name t = n" using collect_types_names [OF b(1)] by simp
  ultimately show "ty_name t = name" using b(2) vs last_in_set by fastforce
  have "ty_version (?vs ! (length ?vs - 1)) = int (length ?vs - 1) + 1"
    using chain_numbers [OF NewRegistry_versions(1) [OF assms(1) refl vs(1)], of "length ?vs - 1"] vs(1) by simp
  then show "ty_version t = int (length ?vs)" using vs by (simp add: last_conv_nth of_nat_diff Suc_leI)
qed

lemma ForwardName_active:
  assumes "NewRegistry_t types = Inr reg" "Registry_Active reg name = Some t"
  shows "ForwardName reg (ty_name t) (ty_version t) f = f"
  using Registry_Active_name [OF assms] by (simp add: ForwardName_def max_def)

text \<open>Forwarding along an injective renaming moves every value and nothing else, in whatever order.\<close>

definition move :: "(string \<Rightarrow> string) \<Rightarrow> Fields \<Rightarrow> string \<Rightarrow> Fields \<Rightarrow> Fields" where
  "move g f k out = (if g k \<noteq> k then out(g k := f k) else out)"

lemma move_hit: "inj_on g (set ks) \<Longrightarrow> k \<in> set ks \<Longrightarrow> g k \<noteq> k \<Longrightarrow> fold (move g f) ks base (g k) = f k"
proof (induction ks rule: rev_induct)
  case (snoc k' ks)
  then have "g k' = g k \<longleftrightarrow> k' = k" by (auto simp: inj_on_def)
  then show ?case using snoc by (auto simp: move_def)
qed simp

lemma move_miss: "\<forall>k \<in> set ks. g k \<noteq> k \<longrightarrow> g k \<noteq> x \<Longrightarrow> fold (move g f) ks base x = base x"
  by (induction ks arbitrary: base) (auto simp: move_def)

lemma Forward_move: "Forward reg name v ks f =
    fold (move (ForwardName reg name v) f) ks (\<lambda>k. if ForwardName reg name v k = k then f k else None)"
  by (simp add: Forward_def move_def [abs_def] Let_def)

lemma Forward_exact:
  assumes "set ks = dom f" "inj_on (ForwardName reg name v) (dom f)"
  shows "k \<in> dom f \<Longrightarrow> Forward reg name v ks f (ForwardName reg name v k) = f k"
    "x \<notin> ForwardName reg name v ` dom f \<Longrightarrow> Forward reg name v ks f x = None"
proof -
  let ?g = "ForwardName reg name v"
  show "Forward reg name v ks f (?g k) = f k" if k: "k \<in> dom f"
  proof (cases "?g k = k")
    case True
    then have "\<forall>k' \<in> set ks. ?g k' \<noteq> k' \<longrightarrow> ?g k' \<noteq> k" using assms k by (metis inj_onD)
    then show ?thesis using True by (simp add: Forward_move move_miss)
  next
    case False
    then show ?thesis using assms k by (simp add: Forward_move move_hit)
  qed
  show "Forward reg name v ks f x = None" if x: "x \<notin> ?g ` dom f"
  proof -
    have "\<forall>k' \<in> set ks. ?g k' \<noteq> k' \<longrightarrow> ?g k' \<noteq> x" using assms(1) x by auto
    moreover have "?g x = x \<Longrightarrow> f x = None" using x by (metis domIff image_eqI)
    ultimately show ?thesis by (simp add: Forward_move move_miss)
  qed
qed

text \<open>
  C31: Schema evolution loses no value and unmasks no text. In a registry that was accepted, take any
  version of a record type and field values under names that version declares. Forwarding them to the
  newest version, in whatever order the map is visited, keeps every value under its forwarded name and
  adds nothing; and a text field of that version is, under its forwarded name, a text field of the
  newest version, so that it stays scanned and maskable.
\<close>

theorem Forward_safe:
  assumes "NewRegistry_t types = Inr reg" "Registry_Version reg name v = Some t"
    and "\<forall>k \<in> dom f. declares t k" "set ks = dom f"
  shows "(\<forall>k \<in> dom f. Forward reg name v ks f (ForwardName reg name v k) = f k)
    \<and> dom (Forward reg name v ks f) = ForwardName reg name v ` dom f
    \<and> (\<exists>active. Registry_Active reg name = Some active
         \<and> (\<forall>g. IsText t g \<longrightarrow> IsText active (ForwardName reg name v g)))"
proof -
  let ?vs = "versions reg name" and ?g = "ForwardName reg name v"
  define n where "n = nat (v - 1)"
  have n: "n < length ?vs" "t = ?vs ! n" "nat (max 1 v) = Suc n"
    using assms(2) by (auto simp: Registry_Version_def Let_def n_def split: if_splits)
  have vs: "?vs = take n ?vs @ t # drop (Suc n) ?vs" using id_take_nth_drop [OF n(1)] n(2) by simp
  have ne: "?vs \<noteq> []" using n by auto
  note ok = NewRegistry_versions [OF assms(1) refl ne]
  obtain ever where e: "covers ever t" "chain_fault name (Suc n) ever (Some t) (drop (Suc n) ?vs) = None"
    using chain_fault_suffix [of name 0 Map.empty None "take n ?vs" t "drop (Suc n) ?vs"] ok(1) vs n(1) by auto
  have fw: "?g h = fold rename_step (drop (Suc n) ?vs) h" for h by (simp add: ForwardName_def n(3))
  have valid: "\<forall>u \<in> set (drop (Suc n) ?vs). Type_Validate u = None" using ok(2) by (meson in_set_dropD)
  note ev = chain_evolves [OF e(2,1) valid]
  have "dom f \<subseteq> dom ever" using assms(3) e(1) unfolding covers_def declares_def by (metis domI not_None_eq subsetI)
  then have inj: "inj_on ?g (dom f)" using ev by (auto simp: fw [abs_def] intro: inj_on_subset)
  note fwd = Forward_exact [OF assms(4) inj]
  have "dom (Forward reg name v ks f) = ?g ` dom f"
    using fwd by (force simp: dom_def)
  moreover have "Registry_Active reg name = Some (last (t # drop (Suc n) ?vs))"
  proof -
    have "last ?vs = last (t # drop (Suc n) ?vs)" by (subst vs) (rule last_append [THEN trans], simp)
    then show ?thesis using ne by (simp add: Registry_Active_def Let_def)
  qed
  moreover have "IsText t g \<longrightarrow> IsText (last (t # drop (Suc n) ?vs)) (?g g)" for g using ev [of g] by (simp add: fw)
  ultimately show ?thesis using fwd(1) by blast
qed

text \<open>A type whose second version renames its text field.\<close>

definition memo_v1 :: RType where
  "memo_v1 = \<lparr>ty_name = ''memo'', ty_version = 1, ty_owner = ''school'', ty_fields = [(''note'', \<lparr>fd_type = Text_t, fd_required = False\<rparr>)],
     ty_renames = [], ty_defaultAudience = [''guardians''], ty_fixedAudience = [], ty_allowNoSubject = False\<rparr>"

definition memo_v2 :: RType where
  "memo_v2 = memo_v1\<lparr>ty_version := 2, ty_fields := [(''body'', \<lparr>fd_type = Text_t, fd_required = False\<rparr>)], ty_renames := [(''note'', ''body'')]\<rparr>"

lemmas name_eval = ValidName_def ValidToken_def name_of_def name_char_def is_lower_ascii_def is_digit_ascii_def in_range_def

lemma memo_registry: "NewRegistry_t [memo_v1, memo_v2] = Inr [(''memo'', [memo_v1, memo_v2])]"
proof -
  have "Type_Validate memo_v1 = None" "Type_Validate memo_v2 = None"
    by (simp_all add: Type_Validate_def memo_v1_def memo_v2_def name_eval field_fault_def FieldType_Valid_def audience_fault_def
        MaxAudienceTokens_def household_fault_def Household_def OwnerHousehold_def)
  then have "collect_types [memo_v1, memo_v2] [] = Inr [(''memo'', [memo_v1, memo_v2])]"
    by (simp add: memo_v1_def memo_v2_def)
  moreover have "chain_fault ''memo'' 0 Map.empty None [memo_v1, memo_v2] = None"
    by (simp add: memo_v1_def memo_v2_def version_fault_def required_fault_def rename_fault_def retype_fault_def drop_fault_def
        add_ever_def field_of_def)
  moreover have "sort_key ty_version [memo_v1, memo_v2] = [memo_v1, memo_v2]" by (simp add: memo_v1_def memo_v2_def)
  ultimately show ?thesis by (simp add: NewRegistry_t_def del: sort_key_simps)
qed

theorem Forward_safe_witness:
  "Forward [(''memo'', [memo_v1, memo_v2])] ''memo'' 1 [''note''] [''note'' \<mapsto> ''x''] ''body'' = Some ''x''
   \<and> IsText memo_v1 ''note'' \<and> IsText memo_v2 ''body''"
proof -
  let ?reg = "[(''memo'', [memo_v1, memo_v2])]"
  have v: "Registry_Version ?reg ''memo'' 1 = Some memo_v1" by (simp add: Registry_Version_def versions_def)
  have n: "ForwardName ?reg ''memo'' 1 ''note'' = ''body''"
    by (simp add: ForwardName_def versions_def rename_step_def memo_v2_def)
  have a: "Registry_Active ?reg ''memo'' = Some memo_v2" by (simp add: Registry_Active_def versions_def)
  have t: "IsText memo_v1 ''note''" by (simp add: IsText_def field_of_def memo_v1_def)
  have d: "\<forall>k \<in> dom [''note'' \<mapsto> ''x'']. declares memo_v1 k" by (simp add: declares_def memo_v1_def)
  have ks: "set [''note''] = dom [''note'' \<mapsto> ''x'']" by simp
  note all = Forward_safe [OF memo_registry v d ks]
  have "Forward ?reg ''memo'' 1 [''note''] [''note'' \<mapsto> ''x''] (ForwardName ?reg ''memo'' 1 ''note'') = [''note'' \<mapsto> ''x''] ''note''"
    using all [THEN conjunct1] by (rule bspec) simp
  moreover have "IsText memo_v2 (ForwardName ?reg ''memo'' 1 ''note'')"
    using all [THEN conjunct2, THEN conjunct2] a t by (metis option.inject)
  ultimately show ?thesis using t by (simp only: n fun_upd_same)
qed

end
