(* ===== verification/Snapshot.thy ===== *)
theory Snapshot
  imports Schema
begin

text \<open>
  \<^verbatim>\<open>fields.go\<close> and \<^verbatim>\<open>validate.go\<close> of the record journal: normalising the fields of a record, and validating
  a snapshot or a household note into the form the store applies. Times are nanoseconds since the Unix
  epoch.
\<close>

section \<open>Fields (fields.go)\<close>

definition Keys :: "(string \<rightharpoonup> 'a) \<Rightarrow> string list" where
  "Keys f = sorted_list_of_set (dom f)"

definition Fields_Hash :: "(bytes \<Rightarrow> bytes) \<Rightarrow> Fields \<Rightarrow> bytes" where
  "Fields_Hash sha f = sha (concat (map (\<lambda>k. k @ [CHR 0x00] @ the (f k) @ [CHR 0x00]) (Keys f)))"

definition Fields_JSON :: "json_lib \<Rightarrow> Fields \<Rightarrow> bytes" where
  "Fields_JSON jl f = ''{'' @ go_join '','' (map (\<lambda>k. jl_encString jl k @ '':'' @ the (f k)) (Keys f)) @ ''}''"

fun norm_fields :: "json_lib \<Rightarrow> RType \<Rightarrow> (string \<rightharpoonup> bytes) \<Rightarrow> string list \<Rightarrow> Fields \<Rightarrow> Rejection + Fields" where
  "norm_fields jl t inp [] out = Inr out"
| "norm_fields jl t inp (name # names) out =
     (case map_of (ty_fields t) name of
        None \<Rightarrow> Inl (schemaErr (if ValidName name then ''a field is not declared by the record type's version''
                               else ''invalid field name''))
      | Some def \<Rightarrow>
          (case NormalizeValue jl (fd_type def) (the (inp name)) of
             Inl rej \<Rightarrow> Inl (prefixed rej (''field '' @ quoted name @ '': ''))
           | Inr None \<Rightarrow> norm_fields jl t inp names out
           | Inr (Some v) \<Rightarrow> norm_fields jl t inp names (out(name \<mapsto> v))))"

definition missing_fault :: "Fields \<Rightarrow> string \<times> FieldDef \<Rightarrow> Rejection option" where
  "missing_fault out nd =
     (if fd_required (snd nd) \<and> out (fst nd) = None
      then Some (schemaErr (''required field '' @ quoted (fst nd) @ '' is missing or null'')) else None)"

definition NormalizeFields :: "json_lib \<Rightarrow> RType \<Rightarrow> (string \<rightharpoonup> bytes) \<Rightarrow> Rejection + Fields" where
  "NormalizeFields jl t inp =
     (case norm_fields jl t inp (Keys inp) Map.empty of
        Inl rej \<Rightarrow> Inl rej
      | Inr out \<Rightarrow> (case first_fault (missing_fault out) (ty_fields t) of Some rej \<Rightarrow> Inl rej | None \<Rightarrow> Inr out))"

text \<open>\<^verbatim>\<open>Reload\<close> after the stored object has been decoded; \<open>ks\<close> is the order of its keys.\<close>

fun reload_loop :: "json_lib \<Rightarrow> RType \<Rightarrow> (string \<rightharpoonup> bytes) \<Rightarrow> string list \<Rightarrow> Fields \<Rightarrow> err + Fields" where
  "reload_loop jl t inp [] out = Inr out"
| "reload_loop jl t inp (name # names) out =
     (case map_of (ty_fields t) name of
        None \<Rightarrow> reload_loop jl t inp names (out(name \<mapsto> the (inp name)))
      | Some def \<Rightarrow>
          (case NormalizeValue jl (fd_type def) (the (inp name)) of
             Inl rej \<Rightarrow> Inl (Err (''record: stored field '' @ quoted name @ '' of '' @ ty_name t @ '': '' @ rj_detail rej))
           | Inr None \<Rightarrow> reload_loop jl t inp names out
           | Inr (Some v) \<Rightarrow> reload_loop jl t inp names (out(name \<mapsto> v))))"

definition Reload :: "json_lib \<Rightarrow> RType \<Rightarrow> string list \<Rightarrow> (string \<rightharpoonup> bytes) option \<Rightarrow> err + Fields" where
  "Reload jl t ks decoded =
     (case decoded of
        None \<Rightarrow> Inl (Wrap ''record: stored fields'' (Lib ''json.Unmarshal''))
      | Some inp \<Rightarrow> reload_loop jl t inp ks Map.empty)"

section \<open>Snapshots (validate.go)\<close>

definition MaxRecords :: nat where "MaxRecords = 5000"
definition MaxKeyBytes :: nat where "MaxKeyBytes = 512"
definition MaxFutureSkew :: int where "MaxFutureSkew = 10 * 60 * 1000000000"

text \<open>Go's zero time, 1 January of the year 1.\<close>

definition zero_time :: int where "zero_time = -62135596800 * 1000000000"

record CRange =
  cr_field :: string
  cr_from :: string
  cr_to :: string

definition Range_Contains :: "json_lib \<Rightarrow> CRange \<Rightarrow> bytes option \<Rightarrow> bool" where
  "Range_Contains jl r v =
     (case v of
        None \<Rightarrow> False
      | Some raw \<Rightarrow>
          (case jl_string jl raw of
             None \<Rightarrow> False
           | Some s \<Rightarrow> ValidDate s \<and> cr_from r \<le> s \<and> s \<le> cr_to r))"

record SnapRecord =
  sr_key :: string
  sr_dataSubject :: string
  sr_audience :: "string list"
  sr_fields :: "string \<rightharpoonup> bytes"

record SnapshotReq =
  sn_id :: string
  sn_recordType :: string
  sn_schemaVersion :: int
  sn_scope :: "ScopePart list"
  sn_complete :: bool
  sn_range :: "CRange option"
  sn_observedAt :: int
  sn_approximate :: bool
  sn_records :: "SnapRecord list"

record NormRecord =
  nr_key :: string
  nr_dataSubject :: string
  nr_audience :: "string list"
  nr_fields :: Fields
  nr_hash :: bytes

record Normalized_s =
  n_id :: string
  n_type :: RType
  n_version :: int
  n_scope :: Scope
  n_scopeKey :: string
  n_subject :: string
  n_complete :: bool
  n_range :: "CRange option"
  n_observedAt :: int
  n_approximate :: bool
  n_records :: "NormRecord list"

text \<open>UUID parsing (\<open>None\<close>: not a UUID), SHA-256 and the year of a time in UTC.\<close>

record snap_lib =
  sl_json :: json_lib
  sl_sha256 :: "bytes \<Rightarrow> bytes"
  sl_uuid :: "string \<Rightarrow> string option"
  sl_year :: "int \<Rightarrow> int"

definition badText :: "string \<Rightarrow> bool" where
  "badText s \<longleftrightarrow> \<not> utf8_valid s \<or> list_ex (\<lambda>r. C0_or_DEL r \<or> suspicious r) (runes s)"

definition badScopeValue :: "string \<Rightarrow> bool" where
  "badScopeValue s = (case ParseScope [(PartSource, s)] of Inl _ \<Rightarrow> True | Inr _ \<Rightarrow> False)"

definition NormalizeAudience :: "string list \<Rightarrow> Rejection + string list" where
  "NormalizeAudience toks =
     (if toks = [] then Inl (schemaErr ''no audience: the record names none and its type has no default'')
      else if length toks > MaxAudienceTokens then
        Inl (tooLarge (''an audience of '' @ show_nat (length toks) @ '' tokens exceeds '' @ show_nat MaxAudienceTokens))
      else if list_ex (\<lambda>t. \<not> ValidToken t) toks then Inl (schemaErr ''invalid audience token'')
      else Inr (sort (remdups toks)))"

definition range_of :: "Registry_t \<Rightarrow> RType \<Rightarrow> RType \<Rightarrow> bool \<Rightarrow> CRange \<Rightarrow> Rejection + CRange" where
  "range_of reg t active cmpl cr =
     (if \<not> cmpl then Inl (schemaErr ''complete_range requires complete=true'')
      else if \<not> ValidName (cr_field cr) then Inl (schemaErr ''invalid complete_range.field'')
      else if fd_type (field_of t (cr_field cr)) \<noteq> Date_t then
        Inl (schemaErr ''complete_range.field is not a date field of the record type's version'')
      else let af = ForwardName reg (ty_name t) (ty_version t) (cr_field cr) in
      if fd_type (field_of active af) \<noteq> Date_t then
        Inl (schemaErr ''complete_range.field is not a date field of the record type's active version'')
      else if \<not> ValidDate (cr_from cr) \<or> \<not> ValidDate (cr_to cr) \<or> cr_from cr > cr_to cr then
        Inl (schemaErr ''complete_range needs from <= to, both YYYY-MM-DD'')
      else Inr \<lparr>cr_field = af, cr_from = cr_from cr, cr_to = cr_to cr\<rparr>)"

definition at_record :: "nat \<Rightarrow> string \<Rightarrow> string" where
  "at_record i what = ''record '' @ show_nat i @ '': '' @ what"

text \<open>
  One turn of the loop over the records; \<open>ord\<close> gives the order in which a map of fields is visited.
\<close>

definition norm_record ::
  "snap_lib \<Rightarrow> (Fields \<Rightarrow> string list) \<Rightarrow> Registry_t \<Rightarrow> RType \<Rightarrow> RType \<Rightarrow> string \<Rightarrow> string list option \<Rightarrow> nat \<Rightarrow> string list
   \<Rightarrow> SnapRecord \<Rightarrow> Rejection + NormRecord" where
  "norm_record sl ord reg t active subject defAud i seen r =
     (if TrimSpace (sr_key r) = [] \<or> length (sr_key r) > MaxKeyBytes \<or> badText (sr_key r) then
        Inl (schemaErr (at_record i ''key must be 1 to 512 bytes without control characters''))
      else if sr_dataSubject r \<noteq> subject then
        Inl (schemaErr (at_record i ''data_subject must equal the scope's data_subject part''))
      else if sr_key r \<in> set seen then
        Inl \<lparr>rj_status = 422, rj_reason = ''duplicate_key'', rj_detail = at_record i ''(data_subject, key) repeats an earlier record''\<rparr>
      else (case (if sr_audience r = [] \<and> defAud \<noteq> None then Inr (the defAud)
                  else (case NormalizeAudience (sr_audience r) of
                          Inl rej \<Rightarrow> Inl (prefixed rej (at_record i [])) | Inr a \<Rightarrow> Inr a)) of
        Inl rej \<Rightarrow> Inl rej
      | Inr aud \<Rightarrow>
          (case NormalizeFields (sl_json sl) t (sr_fields r) of
             Inl rej \<Rightarrow> Inl (prefixed rej (at_record i []))
           | Inr f0 \<Rightarrow>
               let f = Forward reg (ty_name t) (ty_version t) (ord f0) f0 in
               if list_ex (\<lambda>name. map_of (ty_fields active) name = None) (Keys f) then
                 Inl (schemaErr (at_record i ''a field of its schema_version has no place in the active version''))
               else Inr \<lparr>nr_key = sr_key r, nr_dataSubject = sr_dataSubject r, nr_audience = aud, nr_fields = f,
                         nr_hash = Fields_Hash (sl_sha256 sl) f\<rparr>)))"

fun norm_records ::
  "snap_lib \<Rightarrow> (Fields \<Rightarrow> string list) \<Rightarrow> Registry_t \<Rightarrow> RType \<Rightarrow> RType \<Rightarrow> string \<Rightarrow> string list option \<Rightarrow> nat \<Rightarrow> string list
   \<Rightarrow> SnapRecord list \<Rightarrow> Rejection + NormRecord list" where
  "norm_records sl ord reg t active subject defAud i seen [] = Inr []"
| "norm_records sl ord reg t active subject defAud i seen (r # rs) =
     (case norm_record sl ord reg t active subject defAud i seen r of
        Inl rej \<Rightarrow> Inl rej
      | Inr n \<Rightarrow>
          (case norm_records sl ord reg t active subject defAud (Suc i) (sr_key r # seen) rs of
             Inl rej \<Rightarrow> Inl rej
           | Inr ns \<Rightarrow> Inr (n # ns)))"

definition ValidateSnapshot ::
  "snap_lib \<Rightarrow> (Fields \<Rightarrow> string list) \<Rightarrow> Registry_t \<Rightarrow> SnapshotReq \<Rightarrow> int \<Rightarrow> Rejection + Normalized_s" where
  "ValidateSnapshot sl ord reg s now =
     (case sl_uuid sl (sn_id s) of
        None \<Rightarrow> Inl (schemaErr ''snapshot_id must be a UUID'')
      | Some uid \<Rightarrow>
      if \<not> ValidName (sn_recordType s) then Inl (schemaErr ''invalid record_type'')
      else (case Registry_Version reg (sn_recordType s) (sn_schemaVersion s) of
        None \<Rightarrow> Inl (schemaErr ''unknown record_type or schema_version'')
      | Some t \<Rightarrow>
      if Household t then Inl (schemaErr ''household record types are written through /v1/notes'')
      else let active = the (Registry_Active reg (sn_recordType s)) in
      (case ParseScope (sn_scope s) of
         Inl rej \<Rightarrow> Inl rej
       | Inr sc \<Rightarrow>
      if sn_observedAt s = zero_time then Inl (schemaErr ''observed_at is required'')
      else if sl_year sl (sn_observedAt s) < 0 \<or> sl_year sl (sn_observedAt s) > 9999 then
        Inl (schemaErr ''observed_at is outside years 0000-9999 in UTC'')
      else if sn_observedAt s > now + MaxFutureSkew then
        Inl \<lparr>rj_status = 422, rj_reason = ''future_observed_at'',
             rj_detail = ''observed_at is more than 10 minutes ahead of the journal's clock''\<rparr>
      else if length (sn_records s) > MaxRecords then
        Inl (tooLarge (show_nat (length (sn_records s)) @ '' records exceed '' @ show_nat MaxRecords @ '' per snapshot''))
      else if Scope_Source sc \<noteq> ty_owner active then
        Inl (schemaErr (''the scope's source part is not the owner of '' @ ty_name t @ '' records''))
      else if Scope_Subject sc = [] \<and> \<not> ty_allowNoSubject active then
        Inl (schemaErr (''the scope has no data_subject part and '' @ ty_name t @ '' records are always about someone''))
      else (case (case sn_range s of None \<Rightarrow> Inr None
                  | Some cr \<Rightarrow> (case range_of reg t active (sn_complete s) cr of Inl rej \<Rightarrow> Inl rej | Inr r \<Rightarrow> Inr (Some r))) of
        Inl rej \<Rightarrow> Inl rej
      | Inr rng \<Rightarrow>
          let defAud = (case NormalizeAudience (ty_defaultAudience active) of Inl _ \<Rightarrow> None | Inr a \<Rightarrow> Some a) in
          (case norm_records sl ord reg t active (Scope_Subject sc) defAud 0 [] (sn_records s) of
             Inl rej \<Rightarrow> Inl rej
           | Inr ns \<Rightarrow>
               Inr \<lparr>n_id = uid, n_type = active, n_version = sn_schemaVersion s, n_scope = sc, n_scopeKey = Scope_Canonical sc,
                    n_subject = Scope_Subject sc, n_complete = sn_complete s, n_range = rng, n_observedAt = sn_observedAt s,
                    n_approximate = sn_approximate s, n_records = ns\<rparr>)))))"

section \<open>Household notes\<close>

record NoteReq =
  nt_recordType :: string
  nt_date :: string
  nt_dataSubject :: string
  nt_onBehalfOf :: string
  nt_fields :: "string \<rightharpoonup> bytes"

record NormNote =
  nn_type :: RType
  nn_key :: string
  nn_subject :: string
  nn_onBehalfOf :: string
  nn_fields :: Fields
  nn_hash :: bytes
  nn_audience :: "string list"
  nn_scope :: string

definition ValidateNote :: "snap_lib \<Rightarrow> Registry_t \<Rightarrow> NoteReq \<Rightarrow> Rejection + NormNote" where
  "ValidateNote sl reg nt =
     (if \<not> ValidName (nt_recordType nt) then Inl (schemaErr ''invalid record_type'')
      else (case Registry_Active reg (nt_recordType nt) of
        None \<Rightarrow> Inl (schemaErr ''record_type is not a household record type'')
      | Some t \<Rightarrow>
      if \<not> Household t then Inl (schemaErr ''record_type is not a household record type'')
      else if \<not> ValidDate (nt_date nt) then Inl (schemaErr ''date must be YYYY-MM-DD'')
      else if nt_onBehalfOf nt = [] \<or> badScopeValue (nt_onBehalfOf nt) then
        Inl (schemaErr ''on_behalf_of names the roster member the note is written for'')
      else if nt_dataSubject nt = [] \<and> \<not> ty_allowNoSubject t then
        Inl (schemaErr (''data_subject is required for '' @ ty_name t))
      else if nt_dataSubject nt \<noteq> [] \<and> badScopeValue (nt_dataSubject nt) then Inl (schemaErr ''invalid data_subject'')
      else if nt_fields nt ''date'' \<noteq> None then Inl (schemaErr ''date is given once, at the top level of the note'')
      else (case NormalizeFields (sl_json sl) t ((nt_fields nt)(''date'' \<mapsto> jl_encString (sl_json sl) (nt_date nt))) of
        Inl rej \<Rightarrow> Inl rej
      | Inr f \<Rightarrow>
          (case NormalizeAudience (ty_fixedAudience t) of
             Inl rej \<Rightarrow> Inl rej
           | Inr aud \<Rightarrow>
               Inr \<lparr>nn_type = t, nn_key = nt_date nt @ '':'' @ nt_onBehalfOf nt, nn_subject = nt_dataSubject nt,
                    nn_onBehalfOf = nt_onBehalfOf nt, nn_fields = f, nn_hash = Fields_Hash (sl_sha256 sl) f,
                    nn_audience = aud, nn_scope = HouseholdScope (ty_name t) (nt_dataSubject nt)\<rparr>))))"

section \<open>What validation guarantees\<close>

lemma norm_fields_finite: "norm_fields jl t inp ks out = Inr f \<Longrightarrow> finite (dom out) \<Longrightarrow> finite (dom f)"
  by (induction jl t inp ks out rule: norm_fields.induct) (auto split: option.splits sum.splits)

lemma NormalizeFields_finite: "NormalizeFields jl t inp = Inr f \<Longrightarrow> finite (dom f)"
  using norm_fields_finite by (fastforce simp: NormalizeFields_def split: sum.splits option.splits)

lemma Forward_finite: "finite (dom f) \<Longrightarrow> finite (dom (Forward reg name v ks f))"
proof -
  assume f: "finite (dom f)"
  have "finite (dom base) \<Longrightarrow> finite (dom (fold (move g f) ks base))" for g base
    by (induction ks arbitrary: base) (auto simp: move_def)
  moreover have "finite (dom (\<lambda>k. if ForwardName reg name v k = k then f k else None))"
    using f by (rule rev_finite_subset) (auto split: if_splits)
  ultimately show ?thesis by (simp add: Forward_move)
qed

lemma set_Keys [simp]: "finite (dom f) \<Longrightarrow> set (Keys f) = dom f"
  by (simp add: Keys_def)

definition audience_ok :: "string list \<Rightarrow> bool" where
  "audience_ok a \<longleftrightarrow> a \<noteq> [] \<and> sorted a \<and> distinct a \<and> list_all ValidToken a"

lemma NormalizeAudience_ok: "NormalizeAudience toks = Inr a \<Longrightarrow> audience_ok a"
proof -
  assume a: "NormalizeAudience toks = Inr a"
  then have "set a = set toks" "toks \<noteq> []" by (auto simp: NormalizeAudience_def split: if_splits)
  then have "a \<noteq> []" by auto
  then show ?thesis using a by (auto simp: NormalizeAudience_def audience_ok_def list_ex_iff list_all_iff split: if_splits)
qed

definition record_ok :: "snap_lib \<Rightarrow> RType \<Rightarrow> string \<Rightarrow> NormRecord \<Rightarrow> bool" where
  "record_ok sl active subject n \<longleftrightarrow> nr_dataSubject n = subject \<and> audience_ok (nr_audience n)
     \<and> finite (dom (nr_fields n)) \<and> (\<forall>k \<in> dom (nr_fields n). declares active k)
     \<and> nr_hash n = Fields_Hash (sl_sha256 sl) (nr_fields n)"

lemma norm_record_ok:
  assumes "norm_record sl ord reg t active subject defAud i seen r = Inr n" "\<forall>a. defAud = Some a \<longrightarrow> audience_ok a"
  shows "nr_key n = sr_key r \<and> sr_key r \<notin> set seen \<and> record_ok sl active subject n"
proof -
  obtain aud f0 where a: "audience_ok aud" and f0: "NormalizeFields (sl_json sl) t (sr_fields r) = Inr f0"
    and n: "n = \<lparr>nr_key = sr_key r, nr_dataSubject = sr_dataSubject r, nr_audience = aud,
        nr_fields = Forward reg (ty_name t) (ty_version t) (ord f0) f0,
        nr_hash = Fields_Hash (sl_sha256 sl) (Forward reg (ty_name t) (ty_version t) (ord f0) f0)\<rparr>"
    and c: "\<not> list_ex (\<lambda>name. map_of (ty_fields active) name = None) (Keys (Forward reg (ty_name t) (ty_version t) (ord f0) f0))"
      "sr_dataSubject r = subject" "sr_key r \<notin> set seen"
    using assms by (auto simp: norm_record_def Let_def dest!: NormalizeAudience_ok split: if_splits sum.splits)
  note fin = Forward_finite [OF NormalizeFields_finite [OF f0], of reg "ty_name t" "ty_version t" "ord f0"]
  show ?thesis using a c n fin by (auto simp: record_ok_def list_ex_iff declares_def)
qed

lemma norm_records_ok:
  assumes "norm_records sl ord reg t active subject defAud i seen rs = Inr ns" "\<forall>a. defAud = Some a \<longrightarrow> audience_ok a"
  shows "map nr_key ns = map sr_key rs \<and> distinct (map sr_key rs) \<and> set (map sr_key rs) \<inter> set seen = {}
    \<and> list_all (record_ok sl active subject) ns"
  using assms
proof (induction rs arbitrary: i seen ns)
  case (Cons r rs)
  obtain n ns' where n: "norm_record sl ord reg t active subject defAud i seen r = Inr n"
    and ns': "norm_records sl ord reg t active subject defAud (Suc i) (sr_key r # seen) rs = Inr ns'" "ns = n # ns'"
    using Cons.prems(1) by (auto split: sum.splits)
  show ?case using norm_record_ok [OF n Cons.prems(2)] Cons.IH [OF ns'(1) Cons.prems(2)] ns'(2) by auto
qed simp

lemma ValidateSnapshot_shape:
  assumes "ValidateSnapshot sl ord reg s now = Inr n"
  shows "Registry_Active reg (sn_recordType s) \<noteq> None \<and> n_type n = the (Registry_Active reg (sn_recordType s))
    \<and> Scope_Source (n_scope n) = ty_owner (n_type n) \<and> n_subject n = Scope_Subject (n_scope n)
    \<and> n_scopeKey n = Scope_Canonical (n_scope n) \<and> n_observedAt n \<le> now + MaxFutureSkew
    \<and> length (n_records n) \<le> MaxRecords \<and> map nr_key (n_records n) = map sr_key (sn_records s)
    \<and> distinct (map nr_key (n_records n)) \<and> list_all (record_ok sl (n_type n) (n_subject n)) (n_records n)"
proof -
  define active where "active = the (Registry_Active reg (sn_recordType s))"
  define defAud where "defAud = (case NormalizeAudience (ty_defaultAudience active) of Inl _ \<Rightarrow> None | Inr a \<Rightarrow> Some a)"
  obtain uid t sc rng ns where
    t: "Registry_Version reg (sn_recordType s) (sn_schemaVersion s) = Some t"
    and g: "sn_observedAt s \<le> now + MaxFutureSkew" "length (sn_records s) \<le> MaxRecords" "Scope_Source sc = ty_owner active"
    and ns: "norm_records sl ord reg t active (Scope_Subject sc) defAud 0 [] (sn_records s) = Inr ns"
    and n: "n = \<lparr>n_id = uid, n_type = active, n_version = sn_schemaVersion s, n_scope = sc, n_scopeKey = Scope_Canonical sc,
        n_subject = Scope_Subject sc, n_complete = sn_complete s, n_range = rng, n_observedAt = sn_observedAt s,
        n_approximate = sn_approximate s, n_records = ns\<rparr>"
    using assms unfolding ValidateSnapshot_def Let_def active_def [symmetric] defAud_def [symmetric]
    by (auto split: option.splits if_splits sum.splits)
  have "\<forall>a. defAud = Some a \<longrightarrow> audience_ok a"
    using NormalizeAudience_ok by (auto simp: defAud_def split: sum.splits)
  note ok = norm_records_ok [OF ns this]
  have "length ns = length (sn_records s)" using ok by (metis length_map)
  moreover have "Registry_Active reg (sn_recordType s) \<noteq> None"
    using t by (auto simp: Registry_Version_def Registry_Active_def Let_def split: if_splits)
  ultimately show ?thesis using ok g n by (simp add: active_def)
qed


text \<open>A snapshot of one record.\<close>

definition no_json :: json_lib where
  "no_json = \<lparr>jl_string = (\<lambda>_. None), jl_bool = (\<lambda>_. None), jl_strings = (\<lambda>_. None), jl_any = (\<lambda>_. None), jl_float = (\<lambda>_. None),
     jl_time = (\<lambda>_. None), jl_encString = (\<lambda>s. s), jl_encInt = (\<lambda>_. []), jl_encFloat = (\<lambda>_. []), jl_encBool = (\<lambda>_. []),
     jl_encStrings = (\<lambda>_. [])\<rparr>"

definition sample_snap_lib :: snap_lib where
  "sample_snap_lib = \<lparr>sl_json = no_json, sl_sha256 = (\<lambda>b. b), sl_uuid = Some, sl_year = (\<lambda>_. 2026)\<rparr>"

definition sample_record :: SnapRecord where
  "sample_record = \<lparr>sr_key = ''k1'', sr_dataSubject = [], sr_audience = [''guardians''], sr_fields = Map.empty\<rparr>"

definition sample_snap :: SnapshotReq where
  "sample_snap = \<lparr>sn_id = ''id'', sn_recordType = ''memo'', sn_schemaVersion = 1, sn_scope = [(''source'', ''school'')], sn_complete = True,
     sn_range = None, sn_observedAt = 0, sn_approximate = False, sn_records = [sample_record]\<rparr>"

definition memo_any :: RType where
  "memo_any = memo_v1\<lparr>ty_allowNoSubject := True\<rparr>"

lemma sample_record_ok: "\<exists>n. norm_record sample_snap_lib Keys reg memo_any memo_any [] defAud 0 [] sample_record = Inr n"
proof -
  have k: "Keys (Map.empty :: Fields) = []" by (simp add: Keys_def)
  have nf: "NormalizeFields no_json memo_any Map.empty = Inr Map.empty"
    by (simp add: NormalizeFields_def k missing_fault_def memo_any_def memo_v1_def)
  have aud: "NormalizeAudience [''guardians''] = Inr [''guardians'']"
    by (simp add: NormalizeAudience_def MaxAudienceTokens_def name_eval)
  have trim: "TrimSpace ''k1'' = ''k1''" by (simp add: TrimSpace_def rune_chunks_ascii_Cons white_space_def)
  have bad: "\<not> badText ''k1''"
    by (simp add: badText_def ascii_valid all_ascii_def runes_ascii_Cons C0_or_DEL_def suspicious_def)
  have fw': "Forward reg (ty_name memo_any) (ty_version memo_any) [] Map.empty = Map.empty" for reg
    by (auto simp: Forward_def)
  show ?thesis
    using nf aud trim bad k
    by (simp add: norm_record_def sample_record_def sample_snap_lib_def MaxKeyBytes_def Let_def fw')
qed


end
