(* ===== verification/JDiff.thy ===== *)
theory JDiff
  imports Snapshot "HOL-Library.Product_Lexorder"
begin

text \<open>
  \<^verbatim>\<open>internal/journal/diff\<close>: planning the change events of a snapshot (diff.go), the removal guard
  (guard.go), and folding events back into current state (fold.go). The plan and the fold are the two
  halves of the journal's invariant that its current rows are what its events say.
\<close>

section \<open>Planning (diff.go)\<close>

datatype Kind = Created | Updated | Removed | Restored

record ScanEntry =
  se_verdict :: string
  se_version :: string

record Current =
  cu_key :: string
  cu_scope :: string
  cu_audience :: "string list"
  cu_fields :: Fields
  cu_removed :: bool
  cu_hash :: bytes
  cu_lastSeenAt :: int
  cu_lastConfirmedAt :: int
  cu_scan :: "string \<rightharpoonup> ScanEntry"

record Change =
  ch_old :: "bytes option"
  ch_new :: "bytes option"

record Event =
  ev_kind :: Kind
  ev_key :: string
  ev_scope :: string
  ev_prevScope :: string
  ev_audience :: "string list"
  ev_prevAudience :: "string list option"
  ev_after :: "Fields option"
  ev_before :: "Fields option"
  ev_changed :: "string \<rightharpoonup> Change"
  ev_prevObservedAt :: "int option"

record Input =
  in_scope :: string
  in_complete :: bool
  in_range :: "CRange option"
  in_observedAt :: int
  in_current :: "string \<rightharpoonup> Current"
  in_records :: "NormRecord list"

record Plan =
  pl_events :: "Event list"
  pl_removals :: "Event list"
  pl_confirm :: "string list"
  pl_stale :: "string list"
  pl_liveInRange :: nat

record Stats =
  st_created :: nat
  st_updated :: nat
  st_removed :: nat
  st_restored :: nat
  st_unchanged :: nat
  st_stale :: nat

definition Plan_Stats :: "Plan \<Rightarrow> Stats" where
  "Plan_Stats p =
     (let count = (\<lambda>k. length (filter (\<lambda>e. ev_kind e = k) (pl_events p)))
      in \<lparr>st_created = count Created, st_updated = count Updated, st_removed = length (pl_removals p),
          st_restored = count Restored, st_unchanged = length (pl_confirm p), st_stale = length (pl_stale p)\<rparr>)"

text \<open>\<^verbatim>\<open>bytes.Equal\<close> takes a missing value for an empty one.\<close>

definition changes :: "Fields \<Rightarrow> Fields \<Rightarrow> string \<rightharpoonup> Change" where
  "changes before after k =
     (case before k of
        Some v \<Rightarrow>
          if v \<noteq> (case after k of Some w \<Rightarrow> w | None \<Rightarrow> [])
          then Some \<lparr>ch_old = Some v, ch_new = after k\<rparr> else None
      | None \<Rightarrow> (case after k of Some v \<Rightarrow> Some \<lparr>ch_old = None, ch_new = Some v\<rparr> | None \<Rightarrow> None))"

text \<open>What one record of the snapshot contributes to the plan.\<close>

datatype share = Emit Event | Confirmed | Stale

definition diff_record :: "Input \<Rightarrow> NormRecord \<Rightarrow> share" where
  "diff_record inp r =
     (case in_current inp (nr_key r) of
        None \<Rightarrow>
          Emit \<lparr>ev_kind = Created, ev_key = nr_key r, ev_scope = in_scope inp, ev_prevScope = [], ev_audience = nr_audience r,
                ev_prevAudience = None, ev_after = Some (nr_fields r), ev_before = None, ev_changed = Map.empty, ev_prevObservedAt = None\<rparr>
      | Some c \<Rightarrow>
          if cu_lastConfirmedAt c > in_observedAt inp then Stale
          else let prevScope = (if cu_scope c \<noteq> in_scope inp then cu_scope c else []);
                   audChanged = (cu_audience c \<noteq> nr_audience r);
                   e = (\<lambda>kind ch. \<lparr>ev_kind = kind, ev_key = nr_key r, ev_scope = in_scope inp, ev_prevScope = prevScope,
                          ev_audience = nr_audience r, ev_prevAudience = (if audChanged then Some (cu_audience c) else None),
                          ev_after = Some (nr_fields r), ev_before = Some (cu_fields c), ev_changed = ch,
                          ev_prevObservedAt = Some (cu_lastConfirmedAt c)\<rparr>);
                   ch = changes (cu_fields c) (nr_fields r)
               in if cu_removed c then Emit (e Restored Map.empty)
                  else if cu_hash c = nr_hash r \<and> prevScope = [] \<and> \<not> audChanged then Confirmed
                  else if ch = Map.empty \<and> prevScope = [] \<and> \<not> audChanged then Confirmed
                  else Emit (e Updated ch))"

definition live_in_range :: "json_lib \<Rightarrow> Input \<Rightarrow> Current \<Rightarrow> bool" where
  "live_in_range jl inp c \<longleftrightarrow> \<not> cu_removed c \<and> cu_scope c = in_scope inp
     \<and> (case in_range inp of None \<Rightarrow> True | Some r \<Rightarrow> Range_Contains jl r (cu_fields c (cr_field r)))"

definition removal :: "json_lib \<Rightarrow> Input \<Rightarrow> string \<Rightarrow> Event option" where
  "removal jl inp k =
     (case in_current inp k of
        None \<Rightarrow> None
      | Some c \<Rightarrow>
          if \<not> live_in_range jl inp c \<or> k \<in> nr_key ` set (in_records inp) \<or> cu_lastConfirmedAt c > in_observedAt inp then None
          else Some \<lparr>ev_kind = Removed, ev_key = k, ev_scope = cu_scope c, ev_prevScope = [], ev_audience = cu_audience c,
                     ev_prevAudience = None, ev_after = None, ev_before = Some (cu_fields c), ev_changed = Map.empty,
                     ev_prevObservedAt = Some (cu_lastConfirmedAt c)\<rparr>)"

definition Diff :: "json_lib \<Rightarrow> Input \<Rightarrow> Plan" where
  "Diff jl inp =
     (let shares = map (\<lambda>r. (nr_key r, diff_record inp r)) (in_records inp);
          keys = (if in_complete inp then Keys (in_current inp) else [])
      in \<lparr>pl_events = List.map_filter (\<lambda>(k, s). case s of Emit e \<Rightarrow> Some e | _ \<Rightarrow> None) shares,
          pl_removals = List.map_filter (removal jl inp) keys,
          pl_confirm = map fst (filter (\<lambda>ks. snd ks = Confirmed) shares),
          pl_stale = map fst (filter (\<lambda>ks. snd ks = Stale) shares),
          pl_liveInRange = length (filter (\<lambda>k. live_in_range jl inp (the (in_current inp k))) keys)\<rparr>)"

section \<open>The removal guard (guard.go)\<close>

record Guard =
  g_maxFraction :: rat
  g_minKeys :: nat

definition DefaultGuard :: Guard where
  "DefaultGuard = \<lparr>g_maxFraction = f64 (3 / 10), g_minKeys = 3\<rparr>"

definition Hold :: "Guard \<Rightarrow> nat \<Rightarrow> nat \<Rightarrow> bool" where
  "Hold g live removals =
     (if removals = 0 \<or> live \<le> g_minKeys g then False
      else removals = live \<or> of_nat removals > fmul (g_maxFraction g) (of_nat live))"

section \<open>Folding (fold.go)\<close>

record Identity =
  id_type :: string
  id_subject :: string
  id_key :: string

record FoldEvent =
  fe_id :: Identity
  fe_kind :: Kind
  fe_version :: int
  fe_scope :: string
  fe_audience :: "string list"
  fe_fields :: Fields
  fe_changed :: "string \<rightharpoonup> Change"

record FoldRow =
  fr_scope :: string
  fr_audience :: "string list"
  fr_fields :: Fields
  fr_removed :: bool

type_synonym Rename = "string \<Rightarrow> int \<Rightarrow> string \<Rightarrow> string"

definition orderKeys :: "string list \<Rightarrow> string \<Rightarrow> int \<Rightarrow> Rename \<Rightarrow> string list" where
  "orderKeys keys rt v rename = sort_key (\<lambda>k. (rename rt v k \<noteq> k, k)) keys"

definition zero_row :: FoldRow where
  "zero_row = \<lparr>fr_scope = [], fr_audience = [], fr_fields = Map.empty, fr_removed = False\<rparr>"

definition set_fields :: "(string \<Rightarrow> string) \<Rightarrow> string list \<Rightarrow> (string \<rightharpoonup> bytes) \<Rightarrow> Fields \<Rightarrow> Fields" where
  "set_fields rn ks vals base = fold (\<lambda>k m. case vals k of Some v \<Rightarrow> m(rn k \<mapsto> v) | None \<Rightarrow> m) ks base"

definition del_fields :: "(string \<Rightarrow> string) \<Rightarrow> string list \<Rightarrow> Fields \<Rightarrow> Fields" where
  "del_fields rn ks base = fold (\<lambda>k m. m(rn k := None)) ks base"

definition fold_row :: "Rename \<Rightarrow> FoldEvent \<Rightarrow> FoldRow \<Rightarrow> FoldRow" where
  "fold_row rename e row =
     (let rt = id_type (fe_id e); rn = rename rt (fe_version e) in
      case fe_kind e of
        Removed \<Rightarrow> row\<lparr>fr_removed := True, fr_scope := fe_scope e, fr_audience := fe_audience e\<rparr>
      | Updated \<Rightarrow>
          let keys = orderKeys (Keys (fe_changed e)) rt (fe_version e) rename;
              new = (\<lambda>k. case fe_changed e k of Some c \<Rightarrow> ch_new c | None \<Rightarrow> None)
          in \<lparr>fr_scope = fe_scope e, fr_audience = fe_audience e,
              fr_fields = set_fields rn keys new (del_fields rn (filter (\<lambda>k. new k = None) keys) (fr_fields row)),
              fr_removed = False\<rparr>
      | _ \<Rightarrow>
          \<lparr>fr_scope = fe_scope e, fr_audience = fe_audience e,
           fr_fields = set_fields rn (orderKeys (Keys (fe_fields e)) rt (fe_version e) rename) (fe_fields e) Map.empty,
           fr_removed = False\<rparr>)"

definition Fold_from :: "Rename \<Rightarrow> FoldEvent list \<Rightarrow> (Identity \<rightharpoonup> FoldRow) \<Rightarrow> Identity \<rightharpoonup> FoldRow" where
  "Fold_from rename events out =
     fold (\<lambda>e m. m(fe_id e \<mapsto> fold_row rename e (case m (fe_id e) of Some row \<Rightarrow> row | None \<Rightarrow> zero_row))) events out"

definition Fold :: "Rename \<Rightarrow> FoldEvent list \<Rightarrow> Identity \<rightharpoonup> FoldRow" where
  "Fold rename events = Fold_from rename events Map.empty"

section \<open>Folding the planned events gives the observed state\<close>

lemma set_fields_same:
  "(\<And>k. k \<in> set ks \<Longrightarrow> rn k = k) \<Longrightarrow> set_fields rn ks vals base x = (if x \<in> set ks \<and> vals x \<noteq> None then vals x else base x)"
  unfolding set_fields_def by (induction ks arbitrary: base) (auto split: option.splits)

lemma del_fields_same:
  "(\<And>k. k \<in> set ks \<Longrightarrow> rn k = k) \<Longrightarrow> del_fields rn ks base x = (if x \<in> set ks then None else base x)"
  unfolding del_fields_def by (induction ks arbitrary: base) auto

lemma set_orderKeys [simp]: "set (orderKeys ks rt v rename) = set ks"
  by (simp add: orderKeys_def)

lemma changes_new: "changes b a k = Some c \<Longrightarrow> ch_new c = a k"
  by (auto simp: changes_def split: option.splits if_splits)

lemma changes_old: "changes b a k = Some c \<Longrightarrow> ch_old c = b k"
  by (auto simp: changes_def split: option.splits if_splits)

lemma changes_None: "changes b a k = None \<Longrightarrow> b k \<noteq> Some [] \<Longrightarrow> b k = a k"
  by (auto simp: changes_def split: option.splits if_splits)

lemma dom_changes: "dom (changes b a) \<subseteq> dom b \<union> dom a"
  by (auto simp: changes_def split: option.splits if_splits)

lemma finite_changes: "finite (dom b) \<Longrightarrow> finite (dom a) \<Longrightarrow> finite (dom (changes b a))"
  using finite_subset [OF dom_changes] by auto

text \<open>Replaying recorded changes onto the old fields gives the new ones.\<close>

lemma fold_row_updated:
  assumes "fe_kind e = Updated" "fe_changed e = changes b a" "fr_fields row = b" "finite (dom b)" "finite (dom a)"
    "\<And>k. b k \<noteq> Some []" "\<And>k. rename (id_type (fe_id e)) (fe_version e) k = k"
  shows "fold_row rename e row = \<lparr>fr_scope = fe_scope e, fr_audience = fe_audience e, fr_fields = a, fr_removed = False\<rparr>"
proof -
  let ?new = "\<lambda>k. case changes b a k of Some c \<Rightarrow> ch_new c | None \<Rightarrow> None"
  let ?ks = "orderKeys (Keys (changes b a)) (id_type (fe_id e)) (fe_version e) rename"
  let ?rn = "rename (id_type (fe_id e)) (fe_version e)"
  have ks: "set ?ks = dom (changes b a)" using finite_changes assms(4,5) by simp
  have "set_fields ?rn ?ks ?new (del_fields ?rn (filter (\<lambda>k. ?new k = None) ?ks) b) x = a x" for x
  proof (cases "changes b a x")
    case None
    then show ?thesis using changes_None [OF None assms(6)] ks assms(7)
      by (simp add: set_fields_same del_fields_same domIff)
  next
    case (Some c)
    then have "x \<in> set ?ks" "?new x = a x" using ks changes_new by auto
    then show ?thesis using assms(7) by (simp add: set_fields_same del_fields_same)
  qed
  then have "set_fields ?rn ?ks ?new (del_fields ?rn (filter (\<lambda>k. ?new k = None) ?ks) b) = a" by (rule ext)
  then show ?thesis using assms(1,2,3) by (simp add: fold_row_def Let_def)
qed

lemma fold_row_whole:
  assumes "fe_kind e = Created \<or> fe_kind e = Restored" "finite (dom (fe_fields e))"
    "\<And>k. rename (id_type (fe_id e)) (fe_version e) k = k"
  shows "fold_row rename e row = \<lparr>fr_scope = fe_scope e, fr_audience = fe_audience e, fr_fields = fe_fields e, fr_removed = False\<rparr>"
proof -
  have "set_fields (rename (id_type (fe_id e)) (fe_version e)) (orderKeys (Keys (fe_fields e)) (id_type (fe_id e)) (fe_version e) rename)
      (fe_fields e) Map.empty x = fe_fields e x" for x
    using assms(2,3) by (auto simp: set_fields_same domIff)
  then have "set_fields (rename (id_type (fe_id e)) (fe_version e)) (orderKeys (Keys (fe_fields e)) (id_type (fe_id e)) (fe_version e) rename)
      (fe_fields e) Map.empty = fe_fields e" by (rule ext)
  then show ?thesis using assms(1) by (auto simp: fold_row_def Let_def)
qed

text \<open>Each row depends on the events of its identity only.\<close>

definition row_step :: "Rename \<Rightarrow> FoldEvent \<Rightarrow> FoldRow option \<Rightarrow> FoldRow option" where
  "row_step rename e ro = Some (fold_row rename e (case ro of Some row \<Rightarrow> row | None \<Rightarrow> zero_row))"

lemma Fold_from_at: "Fold_from rename es m i = fold (row_step rename) (filter (\<lambda>e. fe_id e = i) es) (m i)"
  unfolding Fold_from_def by (induction es arbitrary: m) (auto simp: row_step_def)

lemma Fold_append: "Fold rename (es @ fs) i = fold (row_step rename) (filter (\<lambda>e. fe_id e = i) fs) (Fold rename es i)"
  by (simp add: Fold_def Fold_from_at)

lemma filter_map_filter_miss:
  assumes "k \<notin> key ` set xs" "\<And>y e. y \<in> set xs \<Longrightarrow> f y = Some e \<Longrightarrow> ekey e = key y"
  shows "filter (\<lambda>e. ekey e = k) (List.map_filter f xs) = []"
proof -
  have "ekey e \<noteq> k" if "e \<in> set (List.map_filter f xs)" for e
  proof -
    from that obtain y where "y \<in> set xs" "f y = Some e" by (auto simp: List.map_filter_def)
    then show ?thesis using assms by auto
  qed
  then show ?thesis by (simp add: filter_empty_conv)
qed

lemma filter_map_filter_hit:
  assumes "distinct (map key xs)" "x \<in> set xs" "\<And>y e. y \<in> set xs \<Longrightarrow> f y = Some e \<Longrightarrow> ekey e = key y"
  shows "filter (\<lambda>e. ekey e = key x) (List.map_filter f xs) = (case f x of Some e \<Rightarrow> [e] | None \<Rightarrow> [])"
  using assms
proof (induction xs)
  case (Cons y ys)
  have miss: "filter (\<lambda>e. ekey e = key y) (List.map_filter f ys) = []"
    using Cons.prems by (intro filter_map_filter_miss) auto
  show ?case
  proof (cases "x = y")
    case True
    then show ?thesis using miss Cons.prems by (cases "f y") (auto simp: List.map_filter_simps)
  next
    case False
    then have x: "x \<in> set ys" using Cons.prems by simp
    then have "key x \<in> key ` set ys" by (rule imageI)
    then have ne: "key x \<noteq> key y" using Cons.prems(1) by auto
    have "filter (\<lambda>e. ekey e = key x) (List.map_filter f ys) = (case f x of Some e \<Rightarrow> [e] | None \<Rightarrow> [])"
      using Cons x by auto
    then show ?thesis using ne Cons.prems(3) [of y] by (cases "f y") (auto simp: List.map_filter_simps)
  qed
qed simp

text \<open>
  The event-derived part of a current row, the part of a planned event that is stored for the fold,
  and what a snapshot says about a key: its record, unless the row was confirmed later elsewhere;
  otherwise removed, if a complete snapshot lacks a live row of its scope and range; otherwise the row
  as it was.
\<close>

definition derived :: "Current \<Rightarrow> FoldRow" where
  "derived c = \<lparr>fr_scope = cu_scope c, fr_audience = cu_audience c, fr_fields = cu_fields c, fr_removed = cu_removed c\<rparr>"

definition stored :: "string \<Rightarrow> string \<Rightarrow> int \<Rightarrow> Event \<Rightarrow> FoldEvent" where
  "stored rt subj v e = \<lparr>fe_id = \<lparr>id_type = rt, id_subject = subj, id_key = ev_key e\<rparr>, fe_kind = ev_kind e, fe_version = v,
     fe_scope = ev_scope e, fe_audience = ev_audience e,
     fe_fields = (case ev_after e of Some f \<Rightarrow> f | None \<Rightarrow> Map.empty), fe_changed = ev_changed e\<rparr>"

definition stale :: "Input \<Rightarrow> string \<Rightarrow> bool" where
  "stale inp k = (case in_current inp k of Some c \<Rightarrow> cu_lastConfirmedAt c > in_observedAt inp | None \<Rightarrow> False)"

definition observed :: "json_lib \<Rightarrow> Input \<Rightarrow> string \<Rightarrow> FoldRow option" where
  "observed jl inp k =
     (case find (\<lambda>r. nr_key r = k) (in_records inp) of
        Some r \<Rightarrow>
          if stale inp k then map_option derived (in_current inp k)
          else Some \<lparr>fr_scope = in_scope inp, fr_audience = nr_audience r, fr_fields = nr_fields r, fr_removed = False\<rparr>
      | None \<Rightarrow>
          map_option (\<lambda>c. if in_complete inp \<and> live_in_range jl inp c \<and> \<not> stale inp k
                          then (derived c)\<lparr>fr_removed := True\<rparr> else derived c) (in_current inp k))"

text \<open>
  Well-formed input: finitely many rows, each with finitely many non-empty values; records with
  pairwise different keys; and no two different field maps at hand with the same hash.
\<close>

definition input_ok :: "Input \<Rightarrow> bool" where
  "input_ok inp \<longleftrightarrow> finite (dom (in_current inp)) \<and> distinct (map nr_key (in_records inp)) \<and> in_scope inp \<noteq> []
     \<and> (\<forall>k c. in_current inp k = Some c \<longrightarrow> cu_scope c \<noteq> [] \<and> finite (dom (cu_fields c)) \<and> (\<forall>f. cu_fields c f \<noteq> Some []))
     \<and> (\<forall>r \<in> set (in_records inp). finite (dom (nr_fields r)))
     \<and> (\<forall>r \<in> set (in_records inp). \<forall>c. in_current inp (nr_key r) = Some c \<and> cu_hash c = nr_hash r \<longrightarrow> cu_fields c = nr_fields r)"

lemma Emit_key: "diff_record inp r = Emit e \<Longrightarrow> ev_key e = nr_key r"
  by (auto simp: diff_record_def Let_def split: option.splits if_splits)

lemma removal_key: "removal jl inp k = Some e \<Longrightarrow> ev_key e = k"
  by (auto simp: removal_def split: option.splits if_splits)

lemma pl_events_eq: "pl_events (Diff jl inp) =
    List.map_filter (\<lambda>r. case diff_record inp r of Emit e \<Rightarrow> Some e | _ \<Rightarrow> None) (in_records inp)"
  by (simp add: Diff_def Let_def List.map_filter_def filter_map comp_def)

lemma pl_removals_eq: "pl_removals (Diff jl inp) =
    List.map_filter (removal jl inp) (if in_complete inp then Keys (in_current inp) else [])"
  by (simp add: Diff_def Let_def)

lemma plan_at:
  assumes "input_ok inp"
  shows "filter (\<lambda>e. ev_key e = k) (pl_events (Diff jl inp) @ pl_removals (Diff jl inp)) =
    (case find (\<lambda>r. nr_key r = k) (in_records inp) of
       Some r \<Rightarrow> (case diff_record inp r of Emit e \<Rightarrow> [e] | _ \<Rightarrow> [])
     | None \<Rightarrow> if in_complete inp then (case removal jl inp k of Some e \<Rightarrow> [e] | None \<Rightarrow> []) else [])"
proof -
  let ?f = "\<lambda>r. case diff_record inp r of Emit e \<Rightarrow> Some e | _ \<Rightarrow> None"
  have key: "ev_key e = nr_key r" if "?f r = Some e" for r e using that Emit_key by (auto split: share.splits)
  have rem: "filter (\<lambda>e. ev_key e = k) (pl_removals (Diff jl inp)) =
      (if in_complete inp then (case removal jl inp k of Some e \<Rightarrow> [e] | None \<Rightarrow> []) else [])"
  proof (cases "in_complete inp \<and> k \<in> dom (in_current inp)")
    case True
    have "distinct (map (\<lambda>k. k) (Keys (in_current inp)))" "k \<in> set (Keys (in_current inp))"
      using assms True by (simp_all add: input_ok_def Keys_def)
    from filter_map_filter_hit [OF this, of "removal jl inp" ev_key] show ?thesis
      using True by (simp add: pl_removals_eq removal_key)
  next
    case False
    then have "in_complete inp \<Longrightarrow> removal jl inp k = None" by (auto simp: removal_def split: option.splits)
    moreover have "filter (\<lambda>e. ev_key e = k) (pl_removals (Diff jl inp)) = []"
      unfolding pl_removals_eq using False assms removal_key
      by (intro filter_map_filter_miss [where key = "\<lambda>k. k"]) (auto simp: input_ok_def)
    ultimately show ?thesis by auto
  qed
  show ?thesis
  proof (cases "find (\<lambda>r. nr_key r = k) (in_records inp)")
    case None
    then have "k \<notin> nr_key ` set (in_records inp)" by (auto simp: find_None_iff)
    then have "filter (\<lambda>e. ev_key e = k) (pl_events (Diff jl inp)) = []"
      unfolding pl_events_eq by (rule filter_map_filter_miss) (use key in blast)
    then show ?thesis using None rem by simp
  next
    case (Some r)
    then have r: "r \<in> set (in_records inp)" "nr_key r = k" by (auto simp: find_Some_iff)
    have "distinct (map nr_key (in_records inp))" using assms by (simp add: input_ok_def)
    from filter_map_filter_hit [OF this r(1), of ?f ev_key] key
    have "filter (\<lambda>e. ev_key e = k) (pl_events (Diff jl inp)) = (case ?f r of Some e \<Rightarrow> [e] | None \<Rightarrow> [])"
      by (simp add: pl_events_eq r(2))
    moreover have "removal jl inp k = None" using r by (auto simp: removal_def split: option.splits)
    ultimately show ?thesis using Some rem by (auto split: share.splits)
  qed
qed

lemma record_folds:
  assumes "input_ok inp" "r \<in> set (in_records inp)" "\<And>f. rename rt v f = f" "nr_key r = k"
  shows "fold (row_step rename) (case diff_record inp r of Emit e \<Rightarrow> [stored rt subj v e] | _ \<Rightarrow> []) (map_option derived (in_current inp k)) =
    (if stale inp k then map_option derived (in_current inp k)
     else Some \<lparr>fr_scope = in_scope inp, fr_audience = nr_audience r, fr_fields = nr_fields r, fr_removed = False\<rparr>)"
proof (cases "in_current inp k")
  case None
  then show ?thesis using assms by (simp add: diff_record_def row_step_def stored_def stale_def fold_row_whole input_ok_def)
next
  case (Some c)
  have ok: "finite (dom (cu_fields c))" "\<And>f. cu_fields c f \<noteq> Some []" "finite (dom (nr_fields r))" "cu_scope c \<noteq> []"
    "cu_hash c = nr_hash r \<Longrightarrow> cu_fields c = nr_fields r"
    using assms(1,2,4) Some by (auto simp: input_ok_def)
  have same: "changes (cu_fields c) (nr_fields r) = Map.empty \<Longrightarrow> cu_fields c = nr_fields r"
    using changes_None ok(2) by (metis ext)
  show ?thesis
    using Some assms(3,4) ok same
    by (auto simp: diff_record_def Let_def row_step_def stored_def stale_def derived_def fold_row_whole fold_row_updated
        split: if_splits)
qed

lemma removal_folds:
  assumes "find (\<lambda>r. nr_key r = k) (in_records inp) = None"
  shows "fold (row_step rename) (if in_complete inp then (case removal jl inp k of Some e \<Rightarrow> [stored rt subj v e] | None \<Rightarrow> []) else [])
      (map_option derived (in_current inp k)) = observed jl inp k"
proof -
  have "k \<notin> nr_key ` set (in_records inp)" using assms by (auto simp: find_None_iff)
  then show ?thesis using assms
    by (cases "in_current inp k")
      (auto simp: observed_def removal_def stale_def row_step_def stored_def fold_row_def derived_def Let_def)
qed

text \<open>
  The events say what happened. Let the current rows of a subject and type be what folding the
  events so far gives, and let a snapshot be planned against them (rows and records well formed).
  Folding the stored form of the planned events on top gives exactly the observed state of every key:
  the snapshot's scope, audience and fields for its records, live, except where the row was confirmed
  later by another scope; removed, with the fields kept, for the live rows of the scope and range that
  a complete snapshot lacks; and the row as it was otherwise. Other types and subjects are untouched.
\<close>

theorem Fold_of_Diff:
  assumes "input_ok inp" "\<And>f. rename rt v f = f"
    and "\<And>k. Fold rename hist \<lparr>id_type = rt, id_subject = subj, id_key = k\<rparr> = map_option derived (in_current inp k)"
  shows "Fold rename (hist @ map (stored rt subj v) (pl_events (Diff jl inp) @ pl_removals (Diff jl inp))) i =
    (if id_type i = rt \<and> id_subject i = subj then observed jl inp (id_key i) else Fold rename hist i)"
proof (cases "id_type i = rt \<and> id_subject i = subj")
  case False
  then have "filter (\<lambda>e. fe_id e = i) (map (stored rt subj v) es) = []" for es by (auto simp: filter_empty_conv stored_def)
  then show ?thesis using False by (auto simp: Fold_append simp del: map_append)
next
  case True
  define k where "k = id_key i"
  have i: "i = \<lparr>id_type = rt, id_subject = subj, id_key = k\<rparr>" using True by (simp add: k_def)
  let ?es = "pl_events (Diff jl inp) @ pl_removals (Diff jl inp)"
  have "filter (\<lambda>e. fe_id e = i) (map (stored rt subj v) ?es) = map (stored rt subj v) (filter (\<lambda>e. ev_key e = k) ?es)"
    by (simp add: filter_map comp_def stored_def i del: map_append filter_append)
  then have at: "Fold rename (hist @ map (stored rt subj v) ?es) i =
      fold (row_step rename) (map (stored rt subj v) (filter (\<lambda>e. ev_key e = k) ?es)) (map_option derived (in_current inp k))"
    unfolding Fold_append using assms(3) i by simp
  show ?thesis
  proof (cases "find (\<lambda>r. nr_key r = k) (in_records inp)")
    case None
    have "map (stored rt subj v) (filter (\<lambda>e. ev_key e = k) ?es) =
        (if in_complete inp then (case removal jl inp k of Some e \<Rightarrow> [stored rt subj v e] | None \<Rightarrow> []) else [])"
      unfolding plan_at [OF assms(1)] using None by (simp split: option.split)
    then show ?thesis using at removal_folds [OF None] True by (simp add: k_def [symmetric])
  next
    case (Some r)
    then have r: "r \<in> set (in_records inp)" "nr_key r = k" by (auto simp: find_Some_iff)
    have "map (stored rt subj v) (filter (\<lambda>e. ev_key e = k) ?es) =
        (case diff_record inp r of Emit e \<Rightarrow> [stored rt subj v e] | _ \<Rightarrow> [])"
      unfolding plan_at [OF assms(1)] using Some by (simp split: share.split)
    then show ?thesis
      using at record_folds [where rename = rename and rt = rt and v = v and subj = subj, OF assms(1) r(1) assms(2) r(2)] True Some by (simp add: observed_def k_def [symmetric])
  qed
qed

end
