(* ===== verification/JRules.thy ===== *)
theory JRules
  imports Snapshot
begin

text \<open>
  \<^verbatim>\<open>internal/journal/rules\<close>: importance, grouping and notification rules, evaluated when an event is
  written. The first matching rule decides; a nil rule set matches nothing.
\<close>

section \<open>Rules\<close>

definition High :: string where "High = ''high''"
definition Normal :: string where "Normal = ''normal''"
definition Low :: string where "Low = ''low''"

definition ImportanceRank :: "string \<Rightarrow> nat" where
  "ImportanceRank s = (if s = High then 3 else if s = Normal then 2 else if s = Low then 1 else 0)"

definition AtLeast :: "string \<Rightarrow> string list" where
  "AtLeast lo = filter (\<lambda>l. ImportanceRank l \<ge> ImportanceRank lo) [High, Normal, Low]"

record Notice =
  no_token :: string
  no_mode :: string
  no_purpose :: string

definition MaxGroupKeyBytes :: nat where "MaxGroupKeyBytes = 512"

record Match =
  ma_recordType :: string
  ma_kind :: "string list"
  ma_fieldBecomes :: "(string \<times> bytes) list"
  ma_fieldIn :: "(string \<times> bytes list) list"

record JRule =
  jr_name :: string
  jr_match :: Match
  jr_importance :: string
  jr_notify :: "Notice list"
  jr_groupBy :: "string list"

record compiled_rule =
  co_rule :: JRule
  co_kinds :: "string list"
  co_becomes :: "(string \<times> bytes) list"
  co_in :: "(string \<times> bytes list) list"

type_synonym RuleSet = "compiled_rule list"

datatype jrule_error =
    NoRegistry
  | BadRuleName string
  | BadImportance string
  | UnknownRecordType string string
  | UnknownKind string string
  | NoSuchField string string
  | BadValue string string
  | NoValues string string
  | BadNotifyToken string string
  | PromptWithoutPurpose string
  | BadNotifyMode string
  | BadPurpose string string
  | BadGroupBy string string

section \<open>Compiling\<close>

definition norm_value :: "json_lib \<Rightarrow> string \<Rightarrow> RType \<Rightarrow> string \<Rightarrow> bytes \<Rightarrow> jrule_error + bytes" where
  "norm_value jl name t field v =
     (case map_of (ty_fields t) field of
        None \<Rightarrow> Inl (NoSuchField name field)
      | Some def \<Rightarrow>
          (case NormalizeValue jl (fd_type def) v of
             Inr (Some nv) \<Rightarrow> Inr nv
           | _ \<Rightarrow> Inl (BadValue name field)))"

fun map_values :: "('a \<Rightarrow> 'e + 'b) \<Rightarrow> 'a list \<Rightarrow> 'e + 'b list" where
  "map_values f [] = Inr []"
| "map_values f (x # xs) =
     (case f x of Inl e \<Rightarrow> Inl e | Inr y \<Rightarrow> (case map_values f xs of Inl e \<Rightarrow> Inl e | Inr ys \<Rightarrow> Inr (y # ys)))"

definition compile_becomes :: "json_lib \<Rightarrow> string \<Rightarrow> RType \<Rightarrow> string \<times> bytes \<Rightarrow> jrule_error + (string \<times> bytes)" where
  "compile_becomes jl name t fv =
     (case norm_value jl name t (fst fv) (snd fv) of Inl e \<Rightarrow> Inl e | Inr nv \<Rightarrow> Inr (fst fv, nv))"

definition compile_in :: "json_lib \<Rightarrow> string \<Rightarrow> RType \<Rightarrow> string \<times> bytes list \<Rightarrow> jrule_error + (string \<times> bytes list)" where
  "compile_in jl name t fvs =
     (if snd fvs = [] then Inl (NoValues name (fst fvs))
      else (case map_values (norm_value jl name t (fst fvs)) (snd fvs) of Inl e \<Rightarrow> Inl e | Inr nvs \<Rightarrow> Inr (fst fvs, nvs)))"

definition kind_fault :: "string \<Rightarrow> string \<Rightarrow> jrule_error option" where
  "kind_fault name k = (if k \<in> {''created'', ''updated'', ''removed'', ''restored''} then None else Some (UnknownKind name k))"

definition notice_fault :: "string \<Rightarrow> Notice \<Rightarrow> jrule_error option" where
  "notice_fault name n =
     (if \<not> ValidToken (no_token n) then Some (BadNotifyToken name (no_token n))
      else if no_mode n \<noteq> ''push'' \<and> no_mode n \<noteq> ''digest'' \<and> no_mode n \<noteq> ''prompt'' then Some (BadNotifyMode name)
      else if no_mode n = ''prompt'' \<and> no_purpose n = [] then Some (PromptWithoutPurpose name)
      else if no_purpose n \<noteq> [] \<and> \<not> ValidName (no_purpose n) then Some (BadPurpose name (no_purpose n))
      else None)"

definition fixed_groups :: "string list" where
  "fixed_groups = [''data_subject'', ''record_type'', ''key'', ''scope'']"

definition group_field :: "string \<Rightarrow> string option" where
  "group_field g = (if prefix ''field:'' g then Some (drop (length ''field:'') g) else None)"

definition group_fault :: "string \<Rightarrow> RType \<Rightarrow> string \<Rightarrow> jrule_error option" where
  "group_fault name t g =
     (if g \<in> set fixed_groups then None
      else (case group_field g of
              None \<Rightarrow> Some (BadGroupBy name g)
            | Some f \<Rightarrow>
                (case map_of (ty_fields t) f of
                   None \<Rightarrow> Some (BadGroupBy name g)
                 | Some def \<Rightarrow> if fd_type def = Text_t then Some (BadGroupBy name g) else None)))"

definition compile_rule :: "json_lib \<Rightarrow> Registry_t \<Rightarrow> string list \<Rightarrow> JRule \<Rightarrow> jrule_error + compiled_rule" where
  "compile_rule jl reg names r =
     (let name = jr_name r; m = jr_match r in
      if \<not> ValidName name \<or> name \<in> set names then Inl (BadRuleName name)
      else if ImportanceRank (jr_importance r) = 0 then Inl (BadImportance name)
      else (case Registry_Active reg (ma_recordType m) of
        None \<Rightarrow> Inl (UnknownRecordType name (ma_recordType m))
      | Some t \<Rightarrow>
      (case first_fault (kind_fault name) (ma_kind m) of Some e \<Rightarrow> Inl e | None \<Rightarrow>
      (case map_values (compile_becomes jl name t) (ma_fieldBecomes m) of Inl e \<Rightarrow> Inl e | Inr bs \<Rightarrow>
      (case map_values (compile_in jl name t) (ma_fieldIn m) of Inl e \<Rightarrow> Inl e | Inr ins \<Rightarrow>
      (case first_fault (notice_fault name) (jr_notify r) of Some e \<Rightarrow> Inl e | None \<Rightarrow>
      (case first_fault (group_fault name t) (jr_groupBy r) of Some e \<Rightarrow> Inl e | None \<Rightarrow>
        Inr \<lparr>co_rule = r, co_kinds = ma_kind m, co_becomes = bs, co_in = ins\<rparr>)))))))"

fun compile_loop :: "json_lib \<Rightarrow> Registry_t \<Rightarrow> string list \<Rightarrow> JRule list \<Rightarrow> jrule_error + RuleSet" where
  "compile_loop jl reg names [] = Inr []"
| "compile_loop jl reg names (r # rs) =
     (case compile_rule jl reg names r of
        Inl e \<Rightarrow> Inl e
      | Inr c \<Rightarrow> (case compile_loop jl reg (jr_name r # names) rs of Inl e \<Rightarrow> Inl e | Inr cs \<Rightarrow> Inr (c # cs)))"

definition Compile :: "json_lib \<Rightarrow> JRule list \<Rightarrow> Registry_t option \<Rightarrow> jrule_error + RuleSet" where
  "Compile jl rs reg = (case reg of None \<Rightarrow> Inl NoRegistry | Some reg \<Rightarrow> compile_loop jl reg [] rs)"

section \<open>Evaluating\<close>

record EventView =
  vw_recordType :: string
  vw_dataSubject :: string
  vw_key :: string
  vw_scope :: string
  vw_kind :: string
  vw_before :: "Fields option"
  vw_after :: "Fields option"

record RuleOutcome =
  ro_importance :: string
  ro_rule :: string
  ro_groupKey :: string
  ro_notify :: "Notice list"

text \<open>Looking a field up in a nil map, or one that is absent, gives nil, which equals the empty value.\<close>

definition value_in :: "Fields option \<Rightarrow> string \<Rightarrow> bytes" where
  "value_in fs f = (case fs of None \<Rightarrow> [] | Some m \<Rightarrow> (case m f of Some v \<Rightarrow> v | None \<Rightarrow> []))"

definition holdsAll :: "(string \<times> bytes) list \<Rightarrow> Fields option \<Rightarrow> bool" where
  "holdsAll want got = list_all (\<lambda>(f, v). value_in got f = v) want"

definition values_of :: "EventView \<Rightarrow> Fields option" where
  "values_of e = (case vw_after e of None \<Rightarrow> vw_before e | some \<Rightarrow> some)"

definition rule_applies :: "compiled_rule \<Rightarrow> EventView \<Rightarrow> bool" where
  "rule_applies c e \<longleftrightarrow>
     ma_recordType (jr_match (co_rule c)) = vw_recordType e
     \<and> (co_kinds c = [] \<or> vw_kind e \<in> set (co_kinds c))
     \<and> (co_becomes c = [] \<or> (vw_kind e \<noteq> ''removed'' \<and> holdsAll (co_becomes c) (vw_after e) \<and> \<not> holdsAll (co_becomes c) (vw_before e)))
     \<and> list_all (\<lambda>(f, vs). value_in (values_of e) f \<in> set vs) (co_in c)"

definition plain :: "json_lib \<Rightarrow> bytes \<Rightarrow> string" where
  "plain jl v = (case jl_string jl v of Some s \<Rightarrow> s | None \<Rightarrow> v)"

text \<open>The value a group entry stands for; \<open>None\<close> when its field is absent.\<close>

definition group_value :: "json_lib \<Rightarrow> EventView \<Rightarrow> string \<Rightarrow> string option" where
  "group_value jl e g =
     (if g = ''data_subject'' then Some (vw_dataSubject e)
      else if g = ''record_type'' then Some (vw_recordType e)
      else if g = ''key'' then Some (vw_key e)
      else if g = ''scope'' then Some (vw_scope e)
      else let f = (case group_field g of Some f \<Rightarrow> f | None \<Rightarrow> g) in
        (case values_of e of
           None \<Rightarrow> None
         | Some m \<Rightarrow> (case m f of None \<Rightarrow> None | Some raw \<Rightarrow> Some (plain jl raw))))"

definition group_part :: "string \<times> string option \<Rightarrow> string" where
  "group_part gv = EscapeScopeValue (fst gv) @ ''='' @ (case snd gv of None \<Rightarrow> ''%00'' | Some v \<Rightarrow> EscapeScopeValue v)"

definition groupKey :: "json_lib \<Rightarrow> (bytes \<Rightarrow> bytes) \<Rightarrow> compiled_rule \<Rightarrow> EventView \<Rightarrow> string" where
  "groupKey jl sha c e =
     (if jr_groupBy (co_rule c) = [] then []
      else let key = go_join ''/'' (map (\<lambda>g. group_part (g, group_value jl e g)) (jr_groupBy (co_rule c)))
           in if length key > MaxGroupKeyBytes then ''sha256='' @ hex_encode (sha key) else key)"

definition Evaluate :: "json_lib \<Rightarrow> (bytes \<Rightarrow> bytes) \<Rightarrow> RuleSet option \<Rightarrow> EventView \<Rightarrow> RuleOutcome" where
  "Evaluate jl sha s e =
     (case find (\<lambda>c. rule_applies c e) (case s of None \<Rightarrow> [] | Some cs \<Rightarrow> cs) of
        Some c \<Rightarrow> \<lparr>ro_importance = jr_importance (co_rule c), ro_rule = jr_name (co_rule c), ro_groupKey = groupKey jl sha c e,
                   ro_notify = jr_notify (co_rule c)\<rparr>
      | None \<Rightarrow> \<lparr>ro_importance = Low, ro_rule = [], ro_groupKey = [], ro_notify = []\<rparr>)"

section \<open>Group keys are unambiguous and carry no untrusted text\<close>

lemma Escape_not_null: "EscapeScopeValue s \<noteq> ''%00''"
  by (cases s) (auto simp: EscapeScopeValue_def escape_char_def split: if_splits)

definition group_tail :: "string option \<Rightarrow> string" where
  "group_tail v = (case v of None \<Rightarrow> ''%00'' | Some v \<Rightarrow> EscapeScopeValue v)"

lemma group_tail_inj: "group_tail v = group_tail w \<Longrightarrow> v = w"
proof (cases v; cases w)
  fix x y assume "group_tail v = group_tail w" "v = Some x" "w = Some y"
  then show ?thesis using EscapeScopeValue_inj by (simp add: group_tail_def)
qed (use Escape_not_null Escape_not_null [symmetric] in \<open>simp_all add: group_tail_def\<close>)

lemma group_tail_clean: "CHR ''='' \<notin> set (group_tail v)" "CHR ''/'' \<notin> set (group_tail v)"
  using EscapeScopeValue_clean by (cases v; simp add: group_tail_def)+

lemma group_part_tail: "group_part p = EscapeScopeValue (fst p) @ CHR ''='' # group_tail (snd p)"
  by (simp add: group_part_def group_tail_def)

interpretation group_parts: separated_encoding group_part "CHR ''/''"
proof
  fix p q :: "string \<times> string option"
  assume "group_part p = group_part q"
  then have "EscapeScopeValue (fst p) = EscapeScopeValue (fst q) \<and> group_tail (snd p) = group_tail (snd q)"
    by (simp add: group_part_tail append_Cons_eq_iff EscapeScopeValue_clean group_tail_clean)
  then show "p = q" using EscapeScopeValue_inj group_tail_inj by (metis prod_eqI)
qed (simp_all add: group_part_tail EscapeScopeValue_clean group_tail_clean)

lemma groupKey_separates:
  assumes "length (groupKey jl sha c e) \<le> MaxGroupKeyBytes" "groupKey jl sha c e = groupKey jl sha c e'"
    "\<not> prefix ''sha256='' (groupKey jl sha c e)" "g \<in> set (jr_groupBy (co_rule c))"
  shows "group_value jl e g = group_value jl e' g"
proof -
  let ?parts = "\<lambda>e. map (\<lambda>g. (g, group_value jl e g)) (jr_groupBy (co_rule c))"
  have key: "groupKey jl sha c x = go_join ''/'' (map group_part (?parts x))" if "\<not> prefix ''sha256='' (groupKey jl sha c x)" for x
    using that assms(4) by (auto simp: groupKey_def Let_def comp_def split: if_splits)
  have "go_join ''/'' (map group_part (?parts e)) = go_join ''/'' (map group_part (?parts e'))"
    using key [of e] key [of e'] assms(2,3) by simp
  then have "?parts e = ?parts e'" by (simp only: group_parts.join_inj)
  then show ?thesis using assms(4) by auto
qed

lemma group_fault_None:
  "group_fault name t g = None \<longleftrightarrow> g \<in> set fixed_groups
     \<or> (\<exists>f d. group_field g = Some f \<and> map_of (ty_fields t) f = Some d \<and> fd_type d \<noteq> Text_t)"
  by (auto simp: group_fault_def split: option.splits)

lemma compile_rule_groups:
  assumes "compile_rule jl reg names r = Inr c"
  shows "\<exists>t. Registry_Active reg (ma_recordType (jr_match r)) = Some t \<and> co_rule c = r
    \<and> (\<forall>g \<in> set (jr_groupBy r). g \<in> set fixed_groups
        \<or> (\<exists>f d. group_field g = Some f \<and> map_of (ty_fields t) f = Some d \<and> fd_type d \<noteq> Text_t))"
  using assms unfolding compile_rule_def Let_def
  by (auto simp: group_fault_None split: if_splits option.splits sum.splits)

end
