(* ===== verification/Access.thy ===== *)
theory Access
  imports JRules "HOL-Library.Product_Lexorder"
begin

text \<open>
  Who may see and who may write: \<^verbatim>\<open>internal/journal/roster\<close> (the household roster and each member's grants),
  \<^verbatim>\<open>internal/journal/access\<close> (visibility and masking) and \<^verbatim>\<open>internal/journal/policy\<close> (what each service may
  do). Decoding of the documents is a parameter.
\<close>

section \<open>The roster (roster.go)\<close>

type_synonym Grant = "string \<times> string"

record Roster =
  ro_grants :: "string \<rightharpoonup> Grant list"
  ro_sha :: string

definition FormatOpenclawHouseholdV1 :: string where
  "FormatOpenclawHouseholdV1 = ''openclaw-household-v1''"

record v1Person =
  pe_agent :: string
  pe_guardianOf :: "string list"
  pe_siblings :: "string list"

record v1Doc =
  do_people :: "(string \<times> v1Person) list"
  do_members :: "string list"

text \<open>The strict decoder: it fails with a text, or gives the document and whether the input ended there.\<close>

datatype decoded = DecodeFails string | Decoded v1Doc bool

datatype roster_error =
    UnknownFormat string
  | UnknownField string
  | ParseFails string
  | TrailingData
  | NoPeople
  | UnsafeID string
  | NoAgent string
  | AgentTwice string string string
  | UndefinedPerson string string
  | UndefinedMember string

definition id_char :: "char \<Rightarrow> bool" where
  "id_char c \<longleftrightarrow> is_upper_ascii c \<or> is_lower_ascii c \<or> is_digit_ascii c \<or> c \<in> set ''._-''"

definition ValidID :: "string \<Rightarrow> bool" where
  "ValidID s \<longleftrightarrow> s \<noteq> [] \<and> list_all id_char s \<and> s \<noteq> ''.'' \<and> s \<noteq> ''..''"

definition unknownFieldPrefix :: string where
  "unknownFieldPrefix = ''json: unknown field ''"

definition person :: "v1Doc \<Rightarrow> string \<Rightarrow> v1Person" where
  "person doc pid = the (map_of (do_people doc) pid)"

definition ref_fault :: "v1Doc \<Rightarrow> string \<Rightarrow> string \<Rightarrow> roster_error option" where
  "ref_fault doc pid ref = (if map_of (do_people doc) ref = None then Some (UndefinedPerson pid ref) else None)"

fun people_fault :: "v1Doc \<Rightarrow> (string \<rightharpoonup> string) \<Rightarrow> string list \<Rightarrow> roster_error option" where
  "people_fault doc agents [] = None"
| "people_fault doc agents (pid # ids) =
     (let p = person doc pid in
      if \<not> ValidID pid then Some (UnsafeID pid)
      else if pe_agent p = [] then Some (NoAgent pid)
      else (case agents (pe_agent p) of
              Some other \<Rightarrow> Some (AgentTwice (pe_agent p) other pid)
            | None \<Rightarrow>
                (case first_fault (ref_fault doc pid) (pe_guardianOf p @ pe_siblings p) of
                   Some e \<Rightarrow> Some e
                 | None \<Rightarrow> people_fault doc (agents(pe_agent p \<mapsto> pid)) ids)))"

definition member_fault :: "v1Doc \<Rightarrow> string \<Rightarrow> roster_error option" where
  "member_fault doc m = (if map_of (do_people doc) m = None then Some (UndefinedMember m) else None)"

definition sortGrants :: "Grant list \<Rightarrow> Grant list" where
  "sortGrants gs = remdups_adj (sort gs)"

definition grants_of :: "v1Doc \<Rightarrow> string \<Rightarrow> Grant list" where
  "grants_of doc pid =
     (let p = person doc pid in
      sortGrants ([(pid, ''subject'')] @ map (\<lambda>c. (c, ''guardians'')) (pe_guardianOf p)
        @ (if pe_guardianOf p = [] then [] else [([], ''guardians'')])
        @ map (\<lambda>s. (s, ''siblings'')) (pe_siblings p)
        @ (if pid \<in> set (do_members doc)
           then map (\<lambda>m. (m, ''household'')) (remdups (do_members doc)) @ [([], ''household'')] else [])))"

definition parseV1 :: "(bytes \<Rightarrow> decoded) \<Rightarrow> (bytes \<Rightarrow> bytes) \<Rightarrow> bytes \<Rightarrow> roster_error + Roster" where
  "parseV1 decode sha raw =
     (case decode raw of
        DecodeFails msg \<Rightarrow>
          Inl (if prefix unknownFieldPrefix msg then UnknownField (drop (length unknownFieldPrefix) msg) else ParseFails msg)
      | Decoded doc eof \<Rightarrow>
          if \<not> eof then Inl TrailingData
          else if do_people doc = [] then Inl NoPeople
          else (case people_fault doc Map.empty (sort (map fst (do_people doc))) of
            Some e \<Rightarrow> Inl e
          | None \<Rightarrow>
              (case first_fault (member_fault doc) (do_members doc) of
                 Some e \<Rightarrow> Inl e
               | None \<Rightarrow>
                   Inr \<lparr>ro_grants = (\<lambda>pid. if pid \<in> fst ` set (do_people doc) then Some (grants_of doc pid) else None),
                        ro_sha = hex_encode (sha raw)\<rparr>)))"

definition Roster_Parse :: "(bytes \<Rightarrow> decoded) \<Rightarrow> (bytes \<Rightarrow> bytes) \<Rightarrow> string \<Rightarrow> bytes \<Rightarrow> roster_error + Roster" where
  "Roster_Parse decode sha format raw =
     (if format = FormatOpenclawHouseholdV1 then parseV1 decode sha raw else Inl (UnknownFormat format))"

definition Roster_Has :: "Roster option \<Rightarrow> string \<Rightarrow> bool" where
  "Roster_Has r pid = (case r of None \<Rightarrow> False | Some r \<Rightarrow> ro_grants r pid \<noteq> None)"

definition Roster_Grants :: "Roster option \<Rightarrow> string \<Rightarrow> Grant list option" where
  "Roster_Grants r member = (case r of None \<Rightarrow> None | Some r \<Rightarrow> ro_grants r member)"

definition Roster_Members :: "Roster option \<Rightarrow> string list" where
  "Roster_Members r = (case r of None \<Rightarrow> [] | Some r \<Rightarrow> Keys (ro_grants r))"

definition Roster_SHA256 :: "Roster option \<Rightarrow> string" where
  "Roster_SHA256 r = (case r of None \<Rightarrow> [] | Some r \<Rightarrow> ro_sha r)"

section \<open>Visibility (access.go)\<close>

definition Public :: string where "Public = ''public''"
definition WithheldScan :: string where "WithheldScan = ''withheld: failed content scan''"
definition WithheldAudience :: string where "WithheldAudience = ''withheld: different audience''"
definition ErasedPrefix :: string where "ErasedPrefix = ''erased:''"
definition ErasedAuthor :: string where "ErasedAuthor = ''erased:author''"
definition ErasedReaderPrefix :: string where "ErasedReaderPrefix = ''erased:reader:''"
definition VerdictPass_j :: string where "VerdictPass_j = ''pass''"

definition ReaderToken :: "string list \<Rightarrow> string" where
  "ReaderToken audience = ErasedReaderPrefix @ go_join '','' audience"

definition IsErased :: "string \<Rightarrow> bool" where
  "IsErased subject = prefix ErasedPrefix subject"

definition Visible :: "Grant list \<Rightarrow> string \<Rightarrow> string list \<Rightarrow> bool" where
  "Visible grants subject audience =
     (if IsErased subject then
        list_ex (\<lambda>g. fst g = subject \<and> (snd g = ErasedAuthor \<or> snd g = ReaderToken audience)) grants
      else list_ex (\<lambda>t. t = Public) audience
           \<or> list_ex (\<lambda>g. fst g = subject \<and> list_ex (\<lambda>t. snd g = t) audience) grants)"

definition Pairs :: "Grant list \<Rightarrow> string list \<times> string list" where
  "Pairs grants = (map fst grants, map snd grants)"

definition Text :: "json_lib \<Rightarrow> bytes option \<Rightarrow> string \<Rightarrow> bytes option" where
  "Text jl v verdict =
     (case v of None \<Rightarrow> None | Some _ \<Rightarrow> if verdict = VerdictPass_j then v else Some (jl_encString jl WithheldScan))"

definition OldValue :: "json_lib \<Rightarrow> Grant list \<Rightarrow> string \<Rightarrow> string list \<Rightarrow> bool \<Rightarrow> bytes option \<Rightarrow> bytes option" where
  "OldValue jl grants subject prev audienceChanged v =
     (if \<not> audienceChanged \<or> Visible grants subject prev then v else Some (jl_encString jl WithheldAudience))"

definition Notices :: "Grant list \<Rightarrow> string \<Rightarrow> Notice list \<Rightarrow> Notice list" where
  "Notices grants subject ns =
     (if IsErased subject then []
      else filter (\<lambda>n. list_ex (\<lambda>g. fst g = subject \<and> snd g = no_token n) grants) ns)"

section \<open>Service policies (policy.go)\<close>

definition RosterSubjects :: string where "RosterSubjects = ''roster_subjects''"

record Readers =
  rd_any :: bool
  rd_ids :: "string list"

definition Allows :: "Readers \<Rightarrow> string \<Rightarrow> bool" where
  "Allows r member \<longleftrightarrow> rd_any r \<or> member \<in> set (rd_ids r)"

definition readers_empty :: "Readers \<Rightarrow> bool" where
  "readers_empty r \<longleftrightarrow> \<not> rd_any r \<and> rd_ids r = []"

record Service =
  sv_read :: bool
  sv_readers :: Readers
  sv_writeTypes :: "string list"
  sv_writeScopes :: "(string \<times> string list) list"
  sv_writeSubjects :: string
  sv_counts :: bool
  sv_admin :: bool

type_synonym Policy = "(string \<times> Service) list"

datatype policy_error =
    NoRecordTypes
  | NotAServiceAccount string
  | UnknownType string string
  | WithoutWriteSubjects string string
  | BadWriteSubjects string
  | ScopesWithoutSource string
  | ReadersWithoutUse string
  | BadReader string string
  | BadWriteScope string string
  | NoReaders string
  | GrantsNothing string

definition label_char :: "char \<Rightarrow> bool" where
  "label_char c \<longleftrightarrow> is_lower_ascii c \<or> is_digit_ascii c"

definition label :: "string \<Rightarrow> string \<Rightarrow> bool" where
  "label extra s \<longleftrightarrow> s \<noteq> [] \<and> label_char (hd s) \<and> label_char (last s) \<and> list_all (\<lambda>c. label_char c \<or> c \<in> set extra) s"

definition valid_caller :: "string \<Rightarrow> bool" where
  "valid_caller caller =
     (let ns = takeWhile (\<lambda>c. c \<noteq> CHR ''/'') caller; rest = dropWhile (\<lambda>c. c \<noteq> CHR ''/'') caller
      in rest \<noteq> [] \<and> label ''-'' ns \<and> label ''-.'' (tl rest) \<and> length ns \<le> 63 \<and> length (tl rest) \<le> 253)"

definition write_type_fault :: "Registry_t \<Rightarrow> string \<Rightarrow> Service \<Rightarrow> string \<Rightarrow> policy_error option" where
  "write_type_fault reg caller s tname =
     (case Registry_Active reg tname of
        None \<Rightarrow> Some (UnknownType caller tname)
      | Some t \<Rightarrow> if \<not> Household t \<and> sv_writeSubjects s \<noteq> RosterSubjects then Some (WithoutWriteSubjects caller tname) else None)"

definition writes_kind :: "Registry_t \<Rightarrow> bool \<Rightarrow> Service \<Rightarrow> bool" where
  "writes_kind reg hh s =
     list_ex (\<lambda>n. case Registry_Active reg n of Some t \<Rightarrow> Household t = hh | None \<Rightarrow> False) (sv_writeTypes s)"

fun readers_fault :: "string \<Rightarrow> string list \<Rightarrow> string list \<Rightarrow> policy_error option" where
  "readers_fault caller seen [] = None"
| "readers_fault caller seen (rid # ids) =
     (if \<not> ValidID rid \<or> rid \<in> set seen then Some (BadReader caller rid) else readers_fault caller (rid # seen) ids)"

definition scope_fault :: "string \<Rightarrow> string \<times> string list \<Rightarrow> policy_error option" where
  "scope_fault caller pv = (if \<not> ValidName (fst pv) \<or> snd pv = [] then Some (BadWriteScope caller (fst pv)) else None)"

definition service_fault :: "Registry_t \<Rightarrow> string \<times> Service \<Rightarrow> policy_error option" where
  "service_fault reg cs =
     (let caller = fst cs; s = snd cs in
      if \<not> valid_caller caller then Some (NotAServiceAccount caller)
      else (case first_fault (write_type_fault reg caller s) (sv_writeTypes s) of Some e \<Rightarrow> Some e | None \<Rightarrow>
      let household = writes_kind reg True s; snapshots = writes_kind reg False s in
      if sv_writeSubjects s \<noteq> [] \<and> sv_writeSubjects s \<noteq> RosterSubjects then Some (BadWriteSubjects caller)
      else if sv_writeScopes s \<noteq> [] \<and> \<not> snapshots then Some (ScopesWithoutSource caller)
      else if \<not> sv_read s \<and> \<not> sv_counts s \<and> \<not> household \<and> \<not> readers_empty (sv_readers s) then Some (ReadersWithoutUse caller)
      else (case (if rd_any (sv_readers s) then None else readers_fault caller [] (rd_ids (sv_readers s))) of Some e \<Rightarrow> Some e | None \<Rightarrow>
      (case first_fault (scope_fault caller) (sv_writeScopes s) of Some e \<Rightarrow> Some e | None \<Rightarrow>
      if (sv_read s \<or> sv_counts s \<or> household) \<and> readers_empty (sv_readers s) then Some (NoReaders caller)
      else if \<not> sv_read s \<and> \<not> sv_counts s \<and> sv_writeTypes s = [] \<and> \<not> sv_admin s then Some (GrantsNothing caller)
      else None))))"

definition Policy_New :: "(string \<times> Service) list \<Rightarrow> Registry_t option \<Rightarrow> policy_error + Policy" where
  "Policy_New services reg =
     (case reg of
        None \<Rightarrow> Inl NoRecordTypes
      | Some reg \<Rightarrow> (case first_fault (service_fault reg) services of Some e \<Rightarrow> Inl e | None \<Rightarrow> Inr services))"

definition Callers :: "Policy \<Rightarrow> string list" where
  "Callers p = sort (map fst p)"

definition Policy_Service :: "Policy \<Rightarrow> string \<Rightarrow> Service option" where
  "Policy_Service p caller = map_of p caller"

definition denied :: "string \<Rightarrow> Rejection" where
  "denied detail = \<lparr>rj_status = 403, rj_reason = ''policy'', rj_detail = detail\<rparr>"

definition outside_fault :: "Scope \<Rightarrow> string \<times> string list \<Rightarrow> Rejection option" where
  "outside_fault sc pa =
     (case Scope_Get sc (fst pa) of
        Some v \<Rightarrow> if v \<in> set (snd pa) then None
                 else Some (denied (''scope part '' @ fst pa @ '' is outside this service's write_scopes''))
      | None \<Rightarrow> Some (denied (''scope part '' @ fst pa @ '' is outside this service's write_scopes'')))"

definition MayWrite :: "Service \<Rightarrow> RType \<Rightarrow> Scope \<Rightarrow> Rejection option" where
  "MayWrite s t sc =
     (if Household t \<or> ty_name t \<notin> set (sv_writeTypes s) then
        Some (denied ''this service may not write snapshots of this record type'')
      else if Scope_Source sc \<noteq> ty_owner t then Some (denied ''the scope's source is not the owner of the record type'')
      else first_fault (outside_fault sc) (sv_writeScopes s))"

definition WritesSnapshots :: "Service \<Rightarrow> Registry_t \<Rightarrow> bool" where
  "WritesSnapshots s reg = list_ex (\<lambda>n. case Registry_Active reg n of Some t \<Rightarrow> \<not> Household t | None \<Rightarrow> False) (sv_writeTypes s)"

definition WritesNotes :: "Service \<Rightarrow> Registry_t \<Rightarrow> bool" where
  "WritesNotes s reg = list_ex (\<lambda>n. case Registry_Active reg n of Some t \<Rightarrow> Household t | None \<Rightarrow> False) (sv_writeTypes s)"

definition MayWriteNote :: "Service \<Rightarrow> RType \<Rightarrow> string \<Rightarrow> Rejection option" where
  "MayWriteNote s t onBehalfOf =
     (if \<not> Household t \<or> ty_name t \<notin> set (sv_writeTypes s) then
        Some (denied ''this service may not write this household record type'')
      else if \<not> Allows (sv_readers s) onBehalfOf then Some (denied ''this service may not write on behalf of that member'')
      else None)"

definition MayRead :: "Service \<Rightarrow> string \<Rightarrow> bool" where
  "MayRead s reader \<longleftrightarrow> sv_read s \<and> Allows (sv_readers s) reader"

definition MayCount :: "Service \<Rightarrow> string \<Rightarrow> bool" where
  "MayCount s reader \<longleftrightarrow> sv_counts s \<and> Allows (sv_readers s) reader"

section \<open>Who sees a row\<close>

lemma set_sortGrants [simp]: "set (sortGrants gs) = set gs"
  by (simp add: sortGrants_def)

lemma set_grants_of:
  "set (grants_of doc pid) =
     {(pid, ''subject'')} \<union> (\<lambda>c. (c, ''guardians'')) ` set (pe_guardianOf (person doc pid))
     \<union> (if pe_guardianOf (person doc pid) = [] then {} else {([], ''guardians'')})
     \<union> (\<lambda>s. (s, ''siblings'')) ` set (pe_siblings (person doc pid))
     \<union> (if pid \<in> set (do_members doc) then (\<lambda>m. (m, ''household'')) ` set (do_members doc) \<union> {([], ''household'')} else {})"
  by (auto simp: grants_of_def Let_def)

lemma Visible_plain:
  "\<not> IsErased subject \<Longrightarrow> Visible gs subject audience \<longleftrightarrow> Public \<in> set audience \<or> (\<exists>t \<in> set audience. (subject, t) \<in> set gs)"
  by (force simp: Visible_def list_ex_iff)

lemma roster_tokens: "g \<in> set (grants_of doc pid) \<Longrightarrow> snd g \<in> {''subject'', ''guardians'', ''siblings'', ''household''}"
  unfolding set_grants_of by (auto split: if_splits)

lemma Visible_erased: "IsErased subject \<Longrightarrow> \<not> Visible (grants_of doc pid) subject audience"
proof -
  have "ErasedAuthor \<notin> {''subject'', ''guardians'', ''siblings'', ''household''}"
    "ReaderToken audience \<notin> {''subject'', ''guardians'', ''siblings'', ''household''}"
    by (simp_all add: ErasedAuthor_def ReaderToken_def ErasedReaderPrefix_def)
  then show "IsErased subject \<Longrightarrow> \<not> Visible (grants_of doc pid) subject audience"
    using roster_tokens [of _ doc pid] by (fastforce simp: Visible_def list_ex_iff)
qed

text \<open>
  The relations that make a row visible to a member, read off the roster document.
\<close>

definition related :: "v1Doc \<Rightarrow> string \<Rightarrow> string \<Rightarrow> string \<Rightarrow> bool" where
  "related doc reader subject token \<longleftrightarrow>
     (token = ''subject'' \<and> subject = reader)
     \<or> (token = ''guardians'' \<and> (subject \<in> set (pe_guardianOf (person doc reader))
          \<or> subject = [] \<and> pe_guardianOf (person doc reader) \<noteq> []))
     \<or> (token = ''siblings'' \<and> subject \<in> set (pe_siblings (person doc reader)))
     \<or> (token = ''household'' \<and> reader \<in> set (do_members doc) \<and> (subject \<in> set (do_members doc) \<or> subject = []))"

lemma grants_related: "(subject, t) \<in> set (grants_of doc reader) \<longleftrightarrow> related doc reader subject t"
proof -
  have im: "(subject, t) \<in> (\<lambda>c. (c, tok)) ` A \<longleftrightarrow> t = tok \<and> subject \<in> A" for tok and A :: "string set" by auto
  have ifs: "x \<in> (if b then A else B) \<longleftrightarrow> (if b then x \<in> A else x \<in> B)" for x b and A B :: "Grant set" by simp
  note eqs = set_grants_of related_def Un_iff im insert_iff empty_iff prod.inject ifs
  consider "t = ''subject''" | "t = ''guardians''" | "t = ''siblings''" | "t = ''household''"
    | "t \<noteq> ''subject''" "t \<noteq> ''guardians''" "t \<noteq> ''siblings''" "t \<noteq> ''household''" by blast
  then show ?thesis
  proof cases
    case 5
    then show ?thesis unfolding eqs by simp
  qed (unfold eqs, simp_all)
qed


definition sample_doc :: v1Doc where
  "sample_doc = \<lparr>do_people = [(''ann'', \<lparr>pe_agent = ''a1'', pe_guardianOf = [''bob''], pe_siblings = []\<rparr>),
     (''bob'', \<lparr>pe_agent = ''a2'', pe_guardianOf = [], pe_siblings = []\<rparr>)], do_members = [''ann'']\<rparr>"

lemma sample_roster: "\<exists>r. Roster_Parse (\<lambda>_. Decoded sample_doc True) (\<lambda>b. b) FormatOpenclawHouseholdV1 [] = Inr r"
  by (simp add: Roster_Parse_def parseV1_def sample_doc_def person_def ValidID_def id_char_def is_upper_ascii_def is_lower_ascii_def
      is_digit_ascii_def in_range_def ref_fault_def member_fault_def Let_def)


section \<open>Who may write\<close>

lemma MayWrite_iff:
  "MayWrite s t sc = None \<longleftrightarrow> \<not> Household t \<and> ty_name t \<in> set (sv_writeTypes s) \<and> Scope_Source sc = ty_owner t
     \<and> (\<forall>(part, allowed) \<in> set (sv_writeScopes s). \<exists>v. Scope_Get sc part = Some v \<and> v \<in> set allowed)"
proof -
  have "outside_fault sc (part, allowed) = None \<longleftrightarrow> (\<exists>v. Scope_Get sc part = Some v \<and> v \<in> set allowed)" for part allowed
    by (auto simp: outside_fault_def split: option.splits)
  then show ?thesis by (auto simp: MayWrite_def)
qed

lemma Policy_New_service:
  assumes "Policy_New services (Some reg) = Inr p" "Policy_Service p caller = Some s"
  shows "service_fault reg (caller, s) = None"
  using assms by (auto simp: Policy_New_def Policy_Service_def dest: map_of_SomeD split: option.splits)

lemma Policy_New_readers:
  assumes "Policy_New services (Some reg) = Inr p" "Policy_Service p caller = Some s" "MayRead s reader \<or> MayCount s reader"
  shows "\<not> readers_empty (sv_readers s) \<and> Allows (sv_readers s) reader"
proof -
  have "\<not> readers_empty (sv_readers s)"
    using Policy_New_service [OF assms(1,2)] assms(3)
    by (auto simp: service_fault_def Let_def MayRead_def MayCount_def split: if_splits option.splits)
  then show ?thesis using assms(3) by (auto simp: MayRead_def MayCount_def)
qed

end
