(* ===== verification/Journal.thy ===== *)
theory Journal
  imports JDiff JRules Access
begin

text \<open>
  The journal's store: applying a validated snapshot (\<^verbatim>\<open>internal/journal/apply.go\<close>), deciding a held one
  (\<^verbatim>\<open>hold.go\<close>) and writing a household note (\<^verbatim>\<open>notes.go\<close>). The tables are a state record and a transaction
  is a function on it that commits or rolls back; the advisory locks make the transactions on one
  subject sequential. Events are a list in sequence order. JSON columns hold the values they encode;
  what PostgreSQL gives back for a stored object is a parameter. Statements of the database do not
  fail, apart from the unique violation of a snapshot id.
\<close>

section \<open>The store\<close>

record SnapRow =
  ss_id :: string
  ss_type :: string
  ss_scope :: string
  ss_subject :: string
  ss_writer :: string
  ss_status :: string
  ss_observedAt :: int
  ss_received :: int
  ss_payload :: bytes
  ss_stats :: Stats

record EventScan =
  es_old :: string
  es_new :: string
  es_version :: string

datatype changed_col = NoChanged | FieldChanges "string \<rightharpoonup> Change" | LastFields Fields

record EventRow =
  er_seq :: nat
  er_id :: Identity
  er_kind :: Kind
  er_version :: int
  er_scope :: string
  er_prevScope :: "string option"
  er_audience :: "string list"
  er_prevAudience :: "string list option"
  er_fields :: "Fields option"
  er_changed :: changed_col
  er_scan :: "string \<rightharpoonup> EventScan"
  er_observedAt :: int
  er_prevObserved :: "int option"
  er_approximate :: bool
  er_snapshotID :: string
  er_actor :: string
  er_outcome :: RuleOutcome

text \<open>The bookkeeping columns of a current row.\<close>

record Book =
  bk_firstSeenAt :: int
  bk_confirmedBy :: string
  bk_lastEventSeq :: nat

record JDB =
  jd_snapshots :: "SnapRow list"
  jd_current :: "Identity \<rightharpoonup> Current"
  jd_book :: "Identity \<rightharpoonup> Book"
  jd_seq :: nat
  jd_events :: "EventRow list"
  jd_erasures :: "string list"
  jd_kept :: "(string \<times> string list) list"
  jd_readers :: "(string \<times> string \<times> bool) list"

text \<open>
  What the journal is configured with: JSON and SHA-256, what the database gives back for stored fields,
  the decoding of a stored payload, the names of the household record types in the table of types, the
  content scanner, the removal guard, the rules and the roster. A kept note's readers are rows of the
  pseudonym, the member and whether they wrote it.
\<close>

record journal_env =
  je_json :: json_lib
  je_sha256 :: "bytes \<Rightarrow> bytes"
  je_jsonb :: "Fields \<Rightarrow> (string \<rightharpoonup> bytes) option"
  je_decode :: "bytes \<Rightarrow> SnapshotReq option"
  je_household :: "string \<Rightarrow> bool"
  je_verdict :: "string \<Rightarrow> string"
  je_scanner :: string
  je_guard :: Guard
  je_rules :: "RuleSet option"
  je_roster :: "Roster option"

record ApplyOutcome =
  ao_status :: string
  ao_stats :: Stats
  ao_rejection :: "Rejection option"

definition no_stats :: Stats where
  "no_stats = \<lparr>st_created = 0, st_updated = 0, st_removed = 0, st_restored = 0, st_unchanged = 0, st_stale = 0\<rparr>"

definition refusal :: "Rejection \<Rightarrow> ApplyOutcome" where
  "refusal rej = \<lparr>ao_status = [], ao_stats = no_stats, ao_rejection = Some rej\<rparr>"

definition answer :: "string \<Rightarrow> Stats \<Rightarrow> ApplyOutcome" where
  "answer status st = \<lparr>ao_status = status, ao_stats = st, ao_rejection = None\<rparr>"

section \<open>Before the plan: lookup, ban, subject\<close>

definition reusedRejection :: Rejection where
  "reusedRejection = \<lparr>rj_status = 422, rj_reason = ''snapshot_id_reused'',
     rj_detail = ''snapshot_id reused: it identifies a snapshot of another writer, record type or scope''\<rparr>"

definition lookup :: "JDB \<Rightarrow> string \<Rightarrow> string \<Rightarrow> string \<Rightarrow> string \<Rightarrow> ApplyOutcome option" where
  "lookup db sid writer recordType scope =
     (case find (\<lambda>s. ss_id s = sid) (jd_snapshots db) of
        None \<Rightarrow> None
      | Some s \<Rightarrow>
          if ss_writer s \<noteq> writer \<or> ss_type s \<noteq> recordType \<or> ss_scope s \<noteq> scope then Some (refusal reusedRejection)
          else Some (answer (if ss_status s = ''held'' then ''held'' else ''duplicate'') (ss_stats s)))"

definition erasedRejection :: Rejection where
  "erasedRejection = \<lparr>rj_status = 410, rj_reason = ''erased_subject'',
     rj_detail = ''the member was erased: the journal takes no more data about or by them (an erase is a ban; nothing un-erases yet)''\<rparr>"

definition banned :: "JDB \<Rightarrow> string list \<Rightarrow> Rejection option" where
  "banned db members = (if list_ex (\<lambda>m. m \<noteq> [] \<and> m \<in> set (jd_erasures db)) members then Some erasedRejection else None)"

definition checkSubject :: "journal_env \<Rightarrow> string \<Rightarrow> Rejection option" where
  "checkSubject env subject =
     (if subject = [] \<or> Roster_Has (je_roster env) subject then None
      else Some \<lparr>rj_status = 409, rj_reason = ''unknown_subject'', rj_detail = ''data_subject is not in the current roster''\<rparr>)"

text \<open>The rows of one subject and type (one key when a key is given), their fields returned to canonical form.\<close>

definition load_fields :: "json_lib \<Rightarrow> (Fields \<Rightarrow> (string \<rightharpoonup> bytes) option) \<Rightarrow> RType \<Rightarrow> Fields \<Rightarrow> err + Fields" where
  "load_fields jl jsonb t f =
     (case jsonb f of None \<Rightarrow> Reload jl t [] None | Some m \<Rightarrow> Reload jl t (Keys m) (Some m))"

definition row_id :: "RType \<Rightarrow> string \<Rightarrow> string \<Rightarrow> Identity" where
  "row_id t subject k = \<lparr>id_type = ty_name t, id_subject = subject, id_key = k\<rparr>"

definition loadCurrent :: "journal_env \<Rightarrow> JDB \<Rightarrow> RType \<Rightarrow> string \<Rightarrow> string \<Rightarrow> err + (string \<rightharpoonup> Current)" where
  "loadCurrent env db t subject key =
     (let rows = (\<lambda>k. if key = [] \<or> k = key then jd_current db (row_id t subject k) else None);
          load = load_fields (je_json env) (je_jsonb env) t
      in case List.find (\<lambda>k. \<exists>e. load (cu_fields (the (rows k))) = Inl e) (Keys rows) of
        Some k \<Rightarrow> (case load (cu_fields (the (rows k))) of Inl e \<Rightarrow> Inl e | Inr _ \<Rightarrow> Inl (Err []))
      | None \<Rightarrow> Inr (\<lambda>k. map_option (\<lambda>c. case load (cu_fields c) of Inr f \<Rightarrow> c\<lparr>cu_fields := f\<rparr> | Inl _ \<Rightarrow> c) (rows k)))"

section \<open>Building rows\<close>

record eventSource =
  sc_snapshotID :: string
  sc_actor :: string
  sc_observedAt :: int
  sc_approximate :: bool

text \<open>The verdict on a new text value; a value that is no string is scanned as the empty text.\<close>

definition scanNew :: "journal_env \<Rightarrow> bytes \<Rightarrow> string" where
  "scanNew env v = je_verdict env (case jl_string (je_json env) v of Some s \<Rightarrow> s | None \<Rightarrow> [])"

definition entry :: "journal_env \<Rightarrow> bytes \<Rightarrow> ScanEntry" where
  "entry env v = \<lparr>se_verdict = scanNew env v, se_version = je_scanner env\<rparr>"

definition whole_scan :: "journal_env \<Rightarrow> RType \<Rightarrow> Fields \<Rightarrow> string \<rightharpoonup> ScanEntry" where
  "whole_scan env t after f = (if IsText t f then map_option (entry env) (after f) else None)"

definition updated_scan ::
  "journal_env \<Rightarrow> RType \<Rightarrow> (string \<rightharpoonup> ScanEntry) \<Rightarrow> Fields \<Rightarrow> (string \<rightharpoonup> Change) \<Rightarrow> string \<rightharpoonup> ScanEntry" where
  "updated_scan env t prev after changed f =
     (case changed f of
        Some c \<Rightarrow> if IsText t f then map_option (entry env) (ch_new c) else if f \<in> dom after then prev f else None
      | None \<Rightarrow> if f \<in> dom after then prev f else None)"

definition change_scan :: "journal_env \<Rightarrow> RType \<Rightarrow> (string \<rightharpoonup> ScanEntry) \<Rightarrow> (string \<rightharpoonup> Change) \<Rightarrow> string \<rightharpoonup> EventScan" where
  "change_scan env t prev changed f =
     (case changed f of
        Some c \<Rightarrow>
          if IsText t f then
            let old = (case prev f of Some e \<Rightarrow> e | None \<Rightarrow> \<lparr>se_verdict = [], se_version = []\<rparr>) in
            Some \<lparr>es_old = (if ch_old c = None then [] else se_verdict old),
                  es_new = (case ch_new c of Some v \<Rightarrow> scanNew env v | None \<Rightarrow> []),
                  es_version = (if ch_old c \<noteq> None \<and> se_version old \<noteq> je_scanner env then [] else je_scanner env)\<rparr>
          else None
      | None \<Rightarrow> None)"

definition kind_name :: "Kind \<Rightarrow> string" where
  "kind_name k = (case k of Created \<Rightarrow> ''created'' | Updated \<Rightarrow> ''updated'' | Removed \<Rightarrow> ''removed'' | Restored \<Rightarrow> ''restored'')"

definition zero_current :: Current where
  "zero_current = \<lparr>cu_key = [], cu_scope = [], cu_audience = [], cu_fields = Map.empty, cu_removed = False, cu_hash = [],
     cu_lastSeenAt = zero_time, cu_lastConfirmedAt = zero_time, cu_scan = Map.empty\<rparr>"

definition event_view :: "RType \<Rightarrow> string \<Rightarrow> Event \<Rightarrow> EventView" where
  "event_view t subject ev =
     \<lparr>vw_recordType = ty_name t, vw_dataSubject = subject, vw_key = ev_key ev, vw_scope = ev_scope ev, vw_kind = kind_name (ev_kind ev),
      vw_before = (case ev_kind ev of Updated \<Rightarrow> ev_before ev | Removed \<Rightarrow> ev_before ev | _ \<Rightarrow> None),
      vw_after = (if ev_kind ev = Removed then None else ev_after ev)\<rparr>"

definition after_of :: "Event \<Rightarrow> Fields" where
  "after_of ev = (case ev_after ev of Some f \<Rightarrow> f | None \<Rightarrow> Map.empty)"

definition buildEvent :: "journal_env \<Rightarrow> RType \<Rightarrow> string \<Rightarrow> eventSource \<Rightarrow> Current \<Rightarrow> Event \<Rightarrow> EventRow \<times> Current" where
  "buildEvent env t subject src prev ev =
     (let before = (case ev_before ev of Some f \<Rightarrow> f | None \<Rightarrow> Map.empty);
          row = (\<lambda>fs ch sc. \<lparr>er_seq = 0, er_id = row_id t subject (ev_key ev), er_kind = ev_kind ev, er_version = ty_version t, er_scope = ev_scope ev,
                  er_prevScope = (if ev_prevScope ev = [] then None else Some (ev_prevScope ev)), er_audience = ev_audience ev,
                  er_prevAudience = ev_prevAudience ev, er_fields = fs, er_changed = ch, er_scan = sc,
                  er_observedAt = sc_observedAt src, er_prevObserved = ev_prevObservedAt ev, er_approximate = sc_approximate src,
                  er_snapshotID = sc_snapshotID src, er_actor = sc_actor src,
                  er_outcome = Evaluate (je_json env) (je_sha256 env) (je_rules env) (event_view t subject ev)\<rparr>);
          cur = (\<lambda>fs rm seen sc. \<lparr>cu_key = ev_key ev, cu_scope = ev_scope ev, cu_audience = ev_audience ev, cu_fields = fs,
                  cu_removed = rm, cu_hash = Fields_Hash (je_sha256 env) fs, cu_lastSeenAt = seen,
                  cu_lastConfirmedAt = sc_observedAt src, cu_scan = sc\<rparr>)
      in case ev_kind ev of
           Updated \<Rightarrow>
             (row None (FieldChanges (ev_changed ev)) (change_scan env t (cu_scan prev) (ev_changed ev)),
              cur (after_of ev) False (sc_observedAt src) (updated_scan env t (cu_scan prev) (after_of ev) (ev_changed ev)))
         | Removed \<Rightarrow>
             (row None (LastFields before)
                (\<lambda>f. if IsText t f \<and> f \<in> dom before
                     then (let old = (case cu_scan prev f of Some e \<Rightarrow> e | None \<Rightarrow> \<lparr>se_verdict = [], se_version = []\<rparr>)
                           in Some \<lparr>es_old = se_verdict old, es_new = [], es_version = se_version old\<rparr>) else None),
              cur (cu_fields prev) True (cu_lastSeenAt prev) (cu_scan prev))
         | _ \<Rightarrow>
             (row (Some (after_of ev)) NoChanged
                (\<lambda>f. if IsText t f then map_option (\<lambda>v. \<lparr>es_old = [], es_new = scanNew env v, es_version = je_scanner env\<rparr>) (after_of ev f)
                     else None),
              cur (after_of ev) False (sc_observedAt src) (whole_scan env t (after_of ev))))"

section \<open>Writing the plan and applying a snapshot\<close>

definition confirm_row :: "int \<Rightarrow> Current \<Rightarrow> Current" where
  "confirm_row t0 c = c\<lparr>cu_lastSeenAt := max (cu_lastSeenAt c) t0, cu_lastConfirmedAt := t0\<rparr>"

text \<open>The event is inserted with the next sequence number, and the row upserted; a row keeps when it was first seen.\<close>

definition book_row :: "eventSource \<Rightarrow> nat \<Rightarrow> Book option \<Rightarrow> Book" where
  "book_row src sq bo =
     \<lparr>bk_firstSeenAt = (case bo of Some b \<Rightarrow> bk_firstSeenAt b | None \<Rightarrow> sc_observedAt src),
      bk_confirmedBy = sc_snapshotID src, bk_lastEventSeq = sq\<rparr>"

definition write_event :: "journal_env \<Rightarrow> RType \<Rightarrow> string \<Rightarrow> eventSource \<Rightarrow> (string \<rightharpoonup> Current) \<Rightarrow> Event \<Rightarrow> JDB \<Rightarrow> JDB" where
  "write_event env t subject src cur ev db =
     (let (row, next) = buildEvent env t subject src (case cur (ev_key ev) of Some c \<Rightarrow> c | None \<Rightarrow> zero_current) ev;
          i = row_id t subject (ev_key ev); sq = Suc (jd_seq db)
      in db\<lparr>jd_seq := sq, jd_events := jd_events db @ [row\<lparr>er_seq := sq\<rparr>], jd_current := (jd_current db)(i \<mapsto> next),
            jd_book := (jd_book db)(i \<mapsto> book_row src sq (jd_book db i))\<rparr>)"

definition confirmed_now :: "RType \<Rightarrow> string \<Rightarrow> Plan \<Rightarrow> Identity \<Rightarrow> bool" where
  "confirmed_now t subject plan i \<longleftrightarrow> id_type i = ty_name t \<and> id_subject i = subject \<and> id_key i \<in> set (pl_confirm plan)"

definition writePlan :: "journal_env \<Rightarrow> RType \<Rightarrow> string \<Rightarrow> eventSource \<Rightarrow> (string \<rightharpoonup> Current) \<Rightarrow> Plan \<Rightarrow> JDB \<Rightarrow> JDB" where
  "writePlan env t subject src cur plan db =
     (let db = fold (write_event env t subject src cur) (pl_events plan @ pl_removals plan) db
      in db\<lparr>jd_current := (\<lambda>i. if confirmed_now t subject plan i
                              then map_option (confirm_row (sc_observedAt src)) (jd_current db i) else jd_current db i),
            jd_book := (\<lambda>i. if confirmed_now t subject plan i
                           then map_option (\<lambda>b. b\<lparr>bk_confirmedBy := sc_snapshotID src\<rparr>) (jd_book db i) else jd_book db i)\<rparr>)"

text \<open>Storing the snapshot row; \<open>None\<close> is the unique violation of an id that is taken.\<close>

definition storeSnapshot :: "JDB \<Rightarrow> Normalized_s \<Rightarrow> string \<Rightarrow> bytes \<Rightarrow> int \<Rightarrow> string option \<Rightarrow> ApplyOutcome \<Rightarrow> JDB option" where
  "storeSnapshot db n writer payload now confirmID out =
     (case confirmID of
        Some cid \<Rightarrow>
          Some (db\<lparr>jd_snapshots := map (\<lambda>s. if ss_id s = cid then s\<lparr>ss_status := ao_status out, ss_stats := ao_stats out\<rparr> else s)
                   (jd_snapshots db)\<rparr>)
      | None \<Rightarrow>
          if list_ex (\<lambda>s. ss_id s = n_id n) (jd_snapshots db) then None
          else Some (db\<lparr>jd_snapshots := jd_snapshots db @ [\<lparr>ss_id = n_id n, ss_type = ty_name (n_type n), ss_scope = n_scopeKey n,
                          ss_subject = n_subject n, ss_writer = writer, ss_status = ao_status out, ss_observedAt = n_observedAt n,
                          ss_received = now, ss_payload = payload, ss_stats = ao_stats out\<rparr>]\<rparr>))"

definition discard_held :: "Normalized_s \<Rightarrow> SnapRow \<Rightarrow> SnapRow" where
  "discard_held n s =
     (if ss_type s = ty_name (n_type n) \<and> ss_scope s = n_scopeKey n \<and> ss_status s = ''held'' \<and> ss_observedAt s < n_observedAt n
      then s\<lparr>ss_status := ''discarded''\<rparr> else s)"

definition input_of :: "Normalized_s \<Rightarrow> (string \<rightharpoonup> Current) \<Rightarrow> Input" where
  "input_of n cur = \<lparr>in_scope = n_scopeKey n, in_complete = n_complete n, in_range = n_range n, in_observedAt = n_observedAt n,
     in_current = cur, in_records = n_records n\<rparr>"

text \<open>The result of a transaction: an error or a reused id roll it back.\<close>

datatype 'a tx = Commit JDB 'a | Rollback err | Reused

definition store_or_reuse :: "JDB option \<Rightarrow> ApplyOutcome \<Rightarrow> ApplyOutcome tx" where
  "store_or_reuse saved out = (case saved of None \<Rightarrow> Reused | Some db \<Rightarrow> Commit db out)"

definition applyFromOrdering :: "journal_env \<Rightarrow> JDB \<Rightarrow> Normalized_s \<Rightarrow> string \<Rightarrow> bytes \<Rightarrow> int \<Rightarrow> string option \<Rightarrow> ApplyOutcome tx" where
  "applyFromOrdering env db n writer payload now confirmID =
     (if list_ex (\<lambda>s. ss_type s = ty_name (n_type n) \<and> ss_scope s = n_scopeKey n \<and> ss_status s = ''applied''
                      \<and> ss_observedAt s > n_observedAt n) (jd_snapshots db) then
        (let out = answer ''late'' no_stats in store_or_reuse (storeSnapshot db n writer payload now confirmID out) out)
      else (case loadCurrent env db (n_type n) (n_subject n) [] of
        Inl e \<Rightarrow> Rollback e
      | Inr cur \<Rightarrow>
          let plan = Diff (je_json env) (input_of n cur); st = Plan_Stats plan in
          if confirmID = None \<and> Hold (je_guard env) (pl_liveInRange plan) (length (pl_removals plan)) then
            (let out = answer ''held'' st in store_or_reuse (storeSnapshot db n writer payload now None out) out)
          else
            let src = \<lparr>sc_snapshotID = n_id n, sc_actor = writer, sc_observedAt = n_observedAt n, sc_approximate = n_approximate n\<rparr>;
                out = answer ''applied'' st in
            (case storeSnapshot (writePlan env (n_type n) (n_subject n) src cur plan db) n writer payload now confirmID out of
               None \<Rightarrow> Reused
             | Some db \<Rightarrow> Commit (db\<lparr>jd_snapshots := map (discard_held n) (jd_snapshots db)\<rparr>) out)))"

definition Apply :: "journal_env \<Rightarrow> JDB \<Rightarrow> string \<Rightarrow> Normalized_s \<Rightarrow> bytes \<Rightarrow> int \<Rightarrow> JDB \<times> (err + ApplyOutcome)" where
  "Apply env db writer n payload now =
     (case lookup db (n_id n) writer (ty_name (n_type n)) (n_scopeKey n) of
        Some out \<Rightarrow> (db, Inr out)
      | None \<Rightarrow>
          (case banned db [n_subject n] of
             Some rej \<Rightarrow> (db, Inr (refusal rej))
           | None \<Rightarrow>
               (case checkSubject env (n_subject n) of
                  Some rej \<Rightarrow> (db, Inr (refusal rej))
                | None \<Rightarrow>
                    (case applyFromOrdering env db n writer payload now None of
                       Commit db' out \<Rightarrow> (db', Inr out)
                     | Rollback e \<Rightarrow> (db, Inl e)
                     | Reused \<Rightarrow> (db, Inr (refusal reusedRejection))))))"

section \<open>Held snapshots (hold.go)\<close>

definition ErrNotFound :: err where "ErrNotFound = Err ''journal: no such snapshot''"
definition ErrNotHeld :: err where "ErrNotHeld = Err ''journal: the snapshot is not held''"

definition mismatchRejection :: Rejection where
  "mismatchRejection = \<lparr>rj_status = 422, rj_reason = ''schema'',
     rj_detail = ''the stored payload does not match the snapshot's id, record type or scope; discard it''\<rparr>"

text \<open>The held snapshot behind an id, read from its stored payload; the row is the one found by the id.\<close>

definition heldSnapshot ::
  "journal_env \<Rightarrow> snap_lib \<Rightarrow> (Fields \<Rightarrow> string list) \<Rightarrow> Registry_t \<Rightarrow> string \<Rightarrow> SnapRow \<Rightarrow> err + (Rejection + Normalized_s)" where
  "heldSnapshot env sl ord reg sid row =
     (if ss_status row \<noteq> ''held'' then Inl ErrNotHeld
      else (case je_decode env (ss_payload row) of
        None \<Rightarrow> Inl (Lib ''json.Unmarshal'')
      | Some s \<Rightarrow>
          (case ValidateSnapshot sl ord reg s (ss_received row) of
             Inl rej \<Rightarrow> Inr (Inl rej)
           | Inr n \<Rightarrow>
               if n_id n \<noteq> sid \<or> ty_name (n_type n) \<noteq> ss_type row \<or> n_scopeKey n \<noteq> ss_scope row
               then Inr (Inl mismatchRejection) else Inr (Inr n))))"

definition ConfirmHeld ::
  "journal_env \<Rightarrow> snap_lib \<Rightarrow> (Fields \<Rightarrow> string list) \<Rightarrow> Registry_t \<Rightarrow> (string \<Rightarrow> RType \<Rightarrow> Scope \<Rightarrow> Rejection option) \<Rightarrow> int
   \<Rightarrow> string \<Rightarrow> JDB \<Rightarrow> JDB \<times> (err + ApplyOutcome)" where
  "ConfirmHeld env sl ord reg mayWrite now sid db =
     (case find (\<lambda>s. ss_id s = sid) (jd_snapshots db) of
        None \<Rightarrow> (db, Inl ErrNotFound)
      | Some row \<Rightarrow>
          (case heldSnapshot env sl ord reg sid row of
             Inl e \<Rightarrow> (db, Inl e)
           | Inr (Inl rej) \<Rightarrow> (db, Inr (refusal rej))
           | Inr (Inr n) \<Rightarrow>
               (case mayWrite (ss_writer row) (n_type n) (n_scope n) of
                  Some rej \<Rightarrow> (db, Inr (refusal rej))
                | None \<Rightarrow>
                    (case banned db [n_subject n] of
                       Some rej \<Rightarrow> (db, Inr (refusal rej))
                     | None \<Rightarrow>
                         (case checkSubject env (n_subject n) of
                            Some rej \<Rightarrow> (db, Inr (refusal rej))
                          | None \<Rightarrow>
                              (case applyFromOrdering env db n (ss_writer row) (ss_payload row) now (Some sid) of
                                 Commit db' out \<Rightarrow> (db', Inr out)
                               | Rollback e \<Rightarrow> (db, Inl e)
                               | Reused \<Rightarrow> (db, Inl (Err ''journal: snapshot_id reused'')))))))) "

definition DiscardHeld :: "string \<Rightarrow> JDB \<Rightarrow> JDB \<times> err option" where
  "DiscardHeld sid db =
     (if list_ex (\<lambda>s. ss_id s = sid \<and> ss_status s = ''held'') (jd_snapshots db) then
        (db\<lparr>jd_snapshots := map (\<lambda>s. if ss_id s = sid \<and> ss_status s = ''held'' then s\<lparr>ss_status := ''discarded''\<rparr> else s)
              (jd_snapshots db)\<rparr>, None)
      else (db, Some (if list_ex (\<lambda>s. ss_id s = sid) (jd_snapshots db) then ErrNotHeld else ErrNotFound)))"

section \<open>Household notes (notes.go)\<close>

definition coversAudience :: "Grant list \<Rightarrow> string \<Rightarrow> string list \<Rightarrow> bool" where
  "coversAudience grants subject audience = list_ex (\<lambda>g. fst g = subject \<and> list_ex (\<lambda>t. snd g = t) audience) grants"

definition policyRefusal :: "string \<Rightarrow> Rejection" where
  "policyRefusal detail = \<lparr>rj_status = 403, rj_reason = ''policy'', rj_detail = detail\<rparr>"

definition conflict :: "string \<Rightarrow> string \<Rightarrow> Rejection" where
  "conflict reason detail = \<lparr>rj_status = 409, rj_reason = reason, rj_detail = detail\<rparr>"

definition note_record :: "NormNote \<Rightarrow> NormRecord" where
  "note_record n = \<lparr>nr_key = nn_key n, nr_dataSubject = nn_subject n, nr_audience = nn_audience n, nr_fields = nn_fields n,
     nr_hash = nn_hash n\<rparr>"

definition note_input :: "NormNote \<Rightarrow> int \<Rightarrow> (string \<rightharpoonup> Current) \<Rightarrow> Input" where
  "note_input n now cur = \<lparr>in_scope = nn_scope n, in_complete = False, in_range = None, in_observedAt = now, in_current = cur,
     in_records = [note_record n]\<rparr>"

definition note_fault :: "journal_env \<Rightarrow> JDB \<Rightarrow> NormNote \<Rightarrow> Rejection option" where
  "note_fault env db n =
     (case banned db [nn_subject n, nn_onBehalfOf n] of
        Some rej \<Rightarrow> Some rej
      | None \<Rightarrow>
          (case Roster_Grants (je_roster env) (nn_onBehalfOf n) of
             None \<Rightarrow> Some (policyRefusal ''on_behalf_of is not in the roster'')
           | Some grants \<Rightarrow>
               if nn_subject n \<noteq> [] \<and> \<not> Roster_Has (je_roster env) (nn_subject n) then
                 Some (conflict ''unknown_subject'' ''data_subject is not in the current roster'')
               else if \<not> coversAudience grants (nn_subject n) (nn_audience n) then
                 Some (policyRefusal ''on_behalf_of holds no grant on this subject for the type's audience'')
               else None))"

definition WriteNote :: "journal_env \<Rightarrow> JDB \<Rightarrow> string \<Rightarrow> int \<Rightarrow> NormNote \<Rightarrow> JDB \<times> (err + (Rejection + string))" where
  "WriteNote env db writer now n =
     (if je_roster env = None then (db, Inr (Inl (conflict ''unknown_subject'' ''no roster is loaded'')))
      else (case note_fault env db n of
        Some rej \<Rightarrow> (db, Inr (Inl rej))
      | None \<Rightarrow>
          (case loadCurrent env db (nn_type n) (nn_subject n) (nn_key n) of
             Inl e \<Rightarrow> (db, Inl e)
           | Inr cur \<Rightarrow>
               let plan = Diff (je_json env) (note_input n now cur) in
               if pl_stale plan \<noteq> [] then
                 (let c = the (cur (nn_key n)) in
                  if \<not> cu_removed c \<and> cu_hash c = nn_hash n \<and> cu_scope c = nn_scope n then (db, Inr (Inr ''unchanged''))
                  else (db, Inr (Inl (conflict ''conflict'' ''the stored note is newer than the journal clock; retry later''))))
               else (case pl_events plan of
                 [] \<Rightarrow> (db, Inr (Inr ''unchanged''))
               | ev # _ \<Rightarrow>
                   let src = \<lparr>sc_snapshotID = [], sc_actor = writer @ '';on_behalf_of='' @ nn_onBehalfOf n, sc_observedAt = now,
                              sc_approximate = False\<rparr>
                   in (writePlan env (nn_type n) (nn_subject n) src cur plan db, Inr (Inr (kind_name (ev_kind ev))))))))"

end
