(* ===== verification/Erase.thy ===== *)
theory Erase
  imports Journal
begin

text \<open>
  \<^verbatim>\<open>internal/journal/erase.go\<close>: erasing a member. An erase deletes what the journal holds about a member and what the member wrote, keeps
  the notes others wrote about them under a pseudonym for the readers they had, and bans the member.
  The pseudonym's random bytes are a parameter.
\<close>

section \<open>Erasing a member\<close>

definition ErrNoSubject :: err where "ErrNoSubject = Err ''journal: erase needs a member id as data_subject''"
definition ErrNoRoster :: err where "ErrNoRoster = Err ''journal: no roster is loaded''"

text \<open>The author of a household note is the second part of its key; \<open>authored\<close> is \<^verbatim>\<open>authoredSQL\<close>.\<close>

definition authorOf :: "string \<Rightarrow> string" where
  "authorOf key = takeWhile (\<lambda>c. c \<noteq> CHR '':'') (drop 1 (dropWhile (\<lambda>c. c \<noteq> CHR '':'') key))"

definition authored :: "(string \<Rightarrow> bool) \<Rightarrow> string \<Rightarrow> Identity \<Rightarrow> bool" where
  "authored hh member i \<longleftrightarrow> hh (id_type i) \<and> authorOf (id_key i) = member"

definition newPseudonym :: "bytes \<Rightarrow> string" where
  "newPseudonym b = ErasedPrefix @ hex_encode b"

definition sortedSet :: "string list \<Rightarrow> string list" where
  "sortedSet xs = remdups_adj (sort xs)"

definition delete_rows :: "(Identity \<Rightarrow> bool) \<Rightarrow> JDB \<Rightarrow> JDB" where
  "delete_rows P db = db\<lparr>jd_events := filter (\<lambda>e. \<not> P (er_id e)) (jd_events db),
     jd_current := (\<lambda>i. if P i then None else jd_current db i), jd_book := (\<lambda>i. if P i then None else jd_book db i)\<rparr>"

definition count_rows :: "(Identity \<Rightarrow> bool) \<Rightarrow> JDB \<Rightarrow> nat" where
  "count_rows P db = card {i \<in> dom (jd_current db). P i}"

definition count_events :: "(Identity \<Rightarrow> bool) \<Rightarrow> JDB \<Rightarrow> nat" where
  "count_events P db = length (filter (\<lambda>e. P (er_id e)) (jd_events db))"

definition orphaned :: "JDB \<Rightarrow> Identity \<Rightarrow> bool" where
  "orphaned db i \<longleftrightarrow> prefix ErasedPrefix (id_subject i) \<and> id_subject i \<notin> fst ` set (jd_readers db)"

record keptNote =
  kn_recordType :: string
  kn_key :: string
  kn_audience :: "string list"

definition frozenReaders :: "Roster option \<Rightarrow> string \<Rightarrow> string list \<Rightarrow> keptNote \<Rightarrow> string list" where
  "frozenReaders ros subject erased n =
     (let author = authorOf (kn_key n) in
      sortedSet (filter (\<lambda>m. m \<noteq> subject \<and> m \<notin> set erased
                          \<and> Visible (case Roster_Grants ros m of Some g \<Rightarrow> g | None \<Rightarrow> []) subject (kn_audience n)) (Roster_Members ros)
                 @ (if author \<noteq> subject \<and> author \<notin> set erased \<and> Roster_Has ros author then [author] else [])))"

definition note_id :: "keptNote \<Rightarrow> string \<Rightarrow> Identity" where
  "note_id n subject = \<lparr>id_type = kn_recordType n, id_subject = subject, id_key = kn_key n\<rparr>"

definition move_event :: "keptNote \<Rightarrow> string \<Rightarrow> string \<Rightarrow> EventRow \<Rightarrow> EventRow" where
  "move_event n subject marker e =
     (let scope = HouseholdScope (kn_recordType n) [] in
      if er_id e = note_id n subject
      then e\<lparr>er_id := note_id n marker, er_scope := scope, er_prevScope := map_option (\<lambda>_. scope) (er_prevScope e),
             er_outcome := (er_outcome e)\<lparr>ro_groupKey := []\<rparr>\<rparr>
      else e)"

definition move_row :: "keptNote \<Rightarrow> string \<Rightarrow> string \<Rightarrow> ('a \<Rightarrow> 'a) \<Rightarrow> (Identity \<rightharpoonup> 'a) \<Rightarrow> (Identity \<rightharpoonup> 'a)" where
  "move_row n subject marker f rows i =
     (if i = note_id n marker then map_option f (rows (note_id n subject))
      else if i = note_id n subject then None else rows i)"

abbreviation move_current :: "keptNote \<Rightarrow> string \<Rightarrow> string \<Rightarrow> (Identity \<rightharpoonup> Current) \<Rightarrow> (Identity \<rightharpoonup> Current)" where
  "move_current n subject marker \<equiv> move_row n subject marker (\<lambda>c. c\<lparr>cu_scope := HouseholdScope (kn_recordType n) []\<rparr>)"

definition keep_note :: "Roster option \<Rightarrow> string \<Rightarrow> string \<Rightarrow> string list \<Rightarrow> keptNote \<Rightarrow> nat \<times> JDB \<Rightarrow> nat \<times> JDB" where
  "keep_note ros subject pseudonym erased n st =
     (let (kept, db) = st; readers = frozenReaders ros subject erased n in
      if readers = [] then st
      else let marker = pseudonym @ '':'' @ show_nat (Suc kept) in
        (Suc kept, db\<lparr>jd_kept := jd_kept db @ [(marker, kn_audience n)],
                      jd_readers := jd_readers db @ map (\<lambda>m. (marker, m, m = authorOf (kn_key n))) readers,
                      jd_events := map (move_event n subject marker) (jd_events db),
                      jd_current := move_current n subject marker (jd_current db),
                      jd_book := move_row n subject marker (\<lambda>b. b) (jd_book db)\<rparr>))"

definition notes_about :: "(string \<Rightarrow> bool) \<Rightarrow> string \<Rightarrow> JDB \<Rightarrow> keptNote list" where
  "notes_about hh subject db =
     map (\<lambda>(rt, k). \<lparr>kn_recordType = rt, kn_key = k,
             kn_audience = cu_audience (the (jd_current db \<lparr>id_type = rt, id_subject = subject, id_key = k\<rparr>))\<rparr>)
         (sorted_list_of_set ((\<lambda>i. (id_type i, id_key i)) ` {i \<in> dom (jd_current db). id_subject i = subject \<and> hh (id_type i)}))"

definition keepNotes :: "journal_env \<Rightarrow> string \<Rightarrow> string \<Rightarrow> JDB \<Rightarrow> nat \<times> JDB" where
  "keepNotes env subject pseudonym db =
     fold (keep_note (je_roster env) subject pseudonym (jd_erasures db)) (notes_about (je_household env) subject db) (0, db)"

record EraseResponse =
  re_dataSubject :: string
  re_snapshots :: nat
  re_current :: nat
  re_events :: nat
  re_notesDeleted :: nat
  re_notesPseudonymised :: nat
  re_subjectUnknown :: bool

text \<open>Rule 1: the member's own notes, and what they could read.\<close>

definition erase_own :: "(string \<Rightarrow> bool) \<Rightarrow> string \<Rightarrow> JDB \<Rightarrow> JDB" where
  "erase_own hh subject db =
     (delete_rows (authored hh subject) db)\<lparr>jd_readers := filter (\<lambda>(p, m, a). m \<noteq> subject) (jd_readers db)\<rparr>"

text \<open>A kept note left with no reader is dropped; rows of dropped notes go, their reader rows with them.\<close>

definition unkept :: "JDB \<Rightarrow> string \<Rightarrow> bool" where
  "unkept db p \<longleftrightarrow> \<not> (\<exists>i \<in> dom (jd_current db). id_subject i = p)"

definition drop_unkept :: "JDB \<Rightarrow> JDB" where
  "drop_unkept db =
     db\<lparr>jd_kept := filter (\<lambda>k. \<not> unkept db (fst k)) (jd_kept db),
        jd_readers := filter (\<lambda>(p, m, a). p \<notin> set (map fst (filter (\<lambda>k. unkept db (fst k)) (jd_kept db)))) (jd_readers db)\<rparr>"

definition drop_orphans :: "JDB \<Rightarrow> JDB" where
  "drop_orphans db = drop_unkept (delete_rows (orphaned db) db)"

text \<open>Rule 3 and the ban.\<close>

definition erase_subject :: "string \<Rightarrow> JDB \<Rightarrow> JDB" where
  "erase_subject subject db =
     (delete_rows (\<lambda>i. id_subject i = subject)
        (db\<lparr>jd_snapshots := filter (\<lambda>s. ss_subject s \<noteq> subject) (jd_snapshots db)\<rparr>))\<lparr>jd_erasures := jd_erasures db @ [subject]\<rparr>"

definition eraseLocked :: "journal_env \<Rightarrow> string \<Rightarrow> string \<Rightarrow> JDB \<Rightarrow> JDB \<times> EraseResponse" where
  "eraseLocked env subject pseudonym db =
     (let own = authored (je_household env) subject; about = (\<lambda>i. id_subject i = subject);
          db1 = erase_own (je_household env) subject db;
          (kept, db2) = keepNotes env subject pseudonym (drop_orphans db1)
      in (erase_subject subject db2,
          \<lparr>re_dataSubject = subject,
           re_snapshots = length (filter (\<lambda>s. ss_subject s = subject) (jd_snapshots db2)),
           re_current = count_rows about db2 + count_rows own db + count_rows (orphaned db1) db1,
           re_events = count_events about db2 + count_events own db + count_events (orphaned db1) db1,
           re_notesDeleted = count_rows own db, re_notesPseudonymised = kept, re_subjectUnknown = False\<rparr>))"

definition Erase :: "journal_env \<Rightarrow> bytes option \<Rightarrow> string \<Rightarrow> JDB \<Rightarrow> JDB \<times> (err + EraseResponse)" where
  "Erase env rnd subject db =
     (if \<not> ValidID subject then (db, Inl ErrNoSubject)
      else if je_roster env = None then (db, Inl ErrNoRoster)
      else (case rnd of
        None \<Rightarrow> (db, Inl (Wrap ''journal: erase: pseudonym'' (Lib ''rand.Read'')))
      | Some b \<Rightarrow>
          let (db', resp) = eraseLocked env subject (newPseudonym b) db in
          (db', Inr (resp\<lparr>re_subjectUnknown := \<not> Roster_Has (je_roster env) subject \<and> re_snapshots resp = 0 \<and> re_current resp = 0
                        \<and> re_events resp = 0 \<and> re_notesDeleted resp = 0 \<and> re_notesPseudonymised resp = 0\<rparr>))))"

end
