(* ===== verification/Rescan.thy ===== *)
theory Rescan
  imports Erase Scan
begin

text \<open>
  \<^verbatim>\<open>internal/journal/scanner.go\<close> and \<^verbatim>\<open>rescan.go\<close>: the verdict of one text value, given by the same scanner
  the staged items go through, and re-judging stored values. A batch is read, judged with no lock held,
  and written to the rows that still are what was read; so a batch is a function of the rows read and of
  the tables at the time of the write, which other transactions may have changed in between.
\<close>

section \<open>The text scanner (scanner.go)\<close>

definition VerdictError :: string where "VerdictError = ''error''"

definition verdict_text :: "Verdict \<Rightarrow> string" where
  "verdict_text v = (case v of VerdictPass \<Rightarrow> ''pass'' | VerdictQuarantine \<Rightarrow> ''quarantine'' | VerdictReject \<Rightarrow> ''reject'')"

definition mapScan :: "(err, ScanResult) outcome \<Rightarrow> string" where
  "mapScan r = (case r of Returns res \<Rightarrow> if sr_verdict res = VerdictPass then VerdictPass_j else verdict_text (sr_verdict res)
                | _ \<Rightarrow> VerdictError)"

text \<open>\<open>in_time\<close>: the scan answered before the timer. A scan that hangs never does.\<close>

definition Scanner_Verdict :: "scan_lib \<Rightarrow> Scanner \<Rightarrow> bool \<Rightarrow> string \<Rightarrow> string" where
  "Scanner_Verdict lib sc in_time txt =
     (if \<not> in_time then VerdictError
      else let v = mapScan (Scan lib sc txt ''text/plain'') in if v = [] then VerdictError else v)"

section \<open>Judging a stored value (rescan.go)\<close>

definition textVerdict :: "journal_env \<Rightarrow> bytes \<Rightarrow> string" where
  "textVerdict env v =
     (case jl_string (je_json env) v of
        None \<Rightarrow> VerdictError
      | Some s \<Rightarrow> let verdict = je_verdict env s in if verdict = [] then VerdictError else verdict)"

record RescanResult =
  rr_currentRows :: nat
  rr_eventRows :: nat
  rr_released :: nat
  rr_withheld :: nat

definition no_result :: RescanResult where
  "no_result = \<lparr>rr_currentRows = 0, rr_eventRows = 0, rr_released = 0, rr_withheld = 0\<rparr>"

definition addResult :: "RescanResult \<Rightarrow> RescanResult \<Rightarrow> RescanResult" where
  "addResult a b = \<lparr>rr_currentRows = rr_currentRows a + rr_currentRows b, rr_eventRows = rr_eventRows a + rr_eventRows b,
     rr_released = rr_released a + rr_released b, rr_withheld = rr_withheld a + rr_withheld b\<rparr>"

definition tally :: "string \<Rightarrow> string \<Rightarrow> RescanResult \<Rightarrow> RescanResult" where
  "tally before aft t =
     (if before \<noteq> VerdictPass_j \<and> aft = VerdictPass_j then t\<lparr>rr_released := rr_released t + 1\<rparr>
      else if before = VerdictPass_j \<and> aft \<noteq> VerdictPass_j then t\<lparr>rr_withheld := rr_withheld t + 1\<rparr> else t)"

text \<open>A type the registry does not know has only text.\<close>

definition kind_isText :: "Registry_t \<Rightarrow> string \<Rightarrow> string \<Rightarrow> bool" where
  "kind_isText reg rt f = (case Registry_Active reg rt of None \<Rightarrow> True | Some t \<Rightarrow> IsText t f)"

subsection \<open>Current rows\<close>

record curRead =
  cr_id :: Identity
  cr_fields :: Fields
  cr_scan :: "string \<rightharpoonup> ScanEntry"
  cr_hash :: bytes
  cr_seq :: nat

record curUpdate =
  cp_id :: Identity
  cp_seq :: nat
  cp_hash :: bytes
  cp_was :: "string \<rightharpoonup> ScanEntry"
  cp_scan :: "string \<rightharpoonup> ScanEntry"
  cp_counts :: RescanResult

definition current_due :: "journal_env \<Rightarrow> Registry_t \<Rightarrow> bool \<Rightarrow> curRead \<Rightarrow> string \<Rightarrow> bool" where
  "current_due env reg every r f \<longleftrightarrow>
     (kind_isText reg (id_type (cr_id r)) f \<or> cr_scan r f \<noteq> None)
     \<and> (every \<or> (case cr_scan r f of Some e \<Rightarrow> se_version e | None \<Rightarrow> []) \<noteq> je_scanner env)"

definition judge_current :: "journal_env \<Rightarrow> Registry_t \<Rightarrow> bool \<Rightarrow> curRead \<Rightarrow> err + curUpdate option" where
  "judge_current env reg every r =
     (case je_jsonb env (cr_fields r) of
        None \<Rightarrow> Inl (Wrap ''journal: rescan: fields'' (Lib ''json.Unmarshal''))
      | Some vs \<Rightarrow>
          let due = filter (current_due env reg every r) (Keys vs);
              verdict = (\<lambda>f. textVerdict env (the (vs f)));
              was = (\<lambda>f. case cr_scan r f of Some e \<Rightarrow> se_verdict e | None \<Rightarrow> [])
          in Inr (if due = [] then None
                  else Some \<lparr>cp_id = cr_id r, cp_seq = cr_seq r, cp_hash = cr_hash r, cp_was = cr_scan r,
                         cp_scan = (\<lambda>f. if f \<in> set due then Some \<lparr>se_verdict = verdict f, se_version = je_scanner env\<rparr> else cr_scan r f),
                         cp_counts = fold (\<lambda>f. tally (was f) (verdict f)) due no_result\<rparr>))"

text \<open>Writing one judged row: gone rows are skipped, changed rows are stale.\<close>

definition write_current :: "curUpdate \<Rightarrow> JDB \<times> RescanResult \<times> Identity list \<Rightarrow> JDB \<times> RescanResult \<times> Identity list" where
  "write_current u st =
     (let (db, batch, late) = st in
      case (jd_current db (cp_id u), jd_book db (cp_id u)) of
        (Some c, Some b) \<Rightarrow>
          if bk_lastEventSeq b \<noteq> cp_seq u \<or> cu_hash c \<noteq> cp_hash u \<or> cu_scan c \<noteq> cp_was u then (db, batch, late @ [cp_id u])
          else (db\<lparr>jd_current := (jd_current db)(cp_id u \<mapsto> c\<lparr>cu_scan := cp_scan u\<rparr>)\<rparr>,
                addResult batch ((cp_counts u)\<lparr>rr_currentRows := 1\<rparr>), late)
      | _ \<Rightarrow> (db, batch, late))"

definition judgeCurrent ::
  "journal_env \<Rightarrow> Registry_t \<Rightarrow> bool \<Rightarrow> curRead list \<Rightarrow> JDB \<Rightarrow> err + (JDB \<times> RescanResult \<times> Identity list)" where
  "judgeCurrent env reg every rows db =
     (case map_values (judge_current env reg every) rows of
        Inl e \<Rightarrow> Inl e
      | Inr us \<Rightarrow> Inr (fold write_current (List.map_filter (\<lambda>u. u) us) (db, no_result, [])))"

subsection \<open>Events\<close>

record evRead =
  ed_seq :: nat
  ed_type :: string
  ed_version :: int
  ed_kind :: Kind
  ed_fields :: "Fields option"
  ed_changed :: changed_col
  ed_scan :: "string \<rightharpoonup> EventScan"

definition olds_of :: "(string \<rightharpoonup> Change) \<Rightarrow> Fields" where
  "olds_of ch f = (case ch f of Some c \<Rightarrow> ch_old c | None \<Rightarrow> None)"

definition news_of :: "(string \<rightharpoonup> Change) \<Rightarrow> Fields" where
  "news_of ch f = (case ch f of Some c \<Rightarrow> ch_new c | None \<Rightarrow> None)"

text \<open>The old and new values an event carries, and as they come back from the database.\<close>

definition event_values :: "Kind \<Rightarrow> Fields option \<Rightarrow> changed_col \<Rightarrow> (Fields \<times> Fields) option" where
  "event_values kind fs ch =
     (case kind of
        Updated \<Rightarrow> (case ch of FieldChanges c \<Rightarrow> Some (olds_of c, news_of c) | _ \<Rightarrow> None)
      | Removed \<Rightarrow> (case ch of LastFields l \<Rightarrow> Some (l, Map.empty) | _ \<Rightarrow> None)
      | _ \<Rightarrow> (case fs of Some f \<Rightarrow> Some (Map.empty, f) | None \<Rightarrow> None))"

definition decode_values ::
  "(Fields \<Rightarrow> (string \<rightharpoonup> bytes) option) \<Rightarrow> Kind \<Rightarrow> Fields option \<Rightarrow> changed_col \<Rightarrow> ((string \<rightharpoonup> bytes) \<times> (string \<rightharpoonup> bytes)) option" where
  "decode_values jsonb kind fs ch =
     (case event_values kind fs ch of
        None \<Rightarrow> None
      | Some (olds, news) \<Rightarrow> (case (jsonb olds, jsonb news) of (Some o', Some n) \<Rightarrow> Some (o', n) | _ \<Rightarrow> None))"

definition event_due :: "journal_env \<Rightarrow> Registry_t \<Rightarrow> bool \<Rightarrow> evRead \<Rightarrow> string \<Rightarrow> bool" where
  "event_due env reg every r f \<longleftrightarrow>
     (kind_isText reg (ed_type r) (ForwardName reg (ed_type r) (ed_version r) f) \<or> ed_scan r f \<noteq> None)
     \<and> (every \<or> (case ed_scan r f of Some e \<Rightarrow> es_version e | None \<Rightarrow> []) \<noteq> je_scanner env)"

definition no_scan :: EventScan where
  "no_scan = \<lparr>es_old = [], es_new = [], es_version = []\<rparr>"

definition judge_side :: "journal_env \<Rightarrow> bytes option \<Rightarrow> string \<Rightarrow> string" where
  "judge_side env v old = (case v of Some v \<Rightarrow> textVerdict env v | None \<Rightarrow> old)"

record evUpdate =
  eu_seq :: nat
  eu_was :: "string \<rightharpoonup> EventScan"
  eu_scan :: "string \<rightharpoonup> EventScan"
  eu_counts :: RescanResult

definition tally_side :: "journal_env \<Rightarrow> bytes option \<Rightarrow> string \<Rightarrow> RescanResult \<Rightarrow> RescanResult" where
  "tally_side env v old t = (case v of Some w \<Rightarrow> tally old (textVerdict env w) t | None \<Rightarrow> t)"

definition judge_event :: "journal_env \<Rightarrow> Registry_t \<Rightarrow> bool \<Rightarrow> evRead \<Rightarrow> err + evUpdate option" where
  "judge_event env reg every r =
     (case decode_values (je_jsonb env) (ed_kind r) (ed_fields r) (ed_changed r) of
        None \<Rightarrow> Inl (Wrap ''journal: rescan: event'' (Lib ''json.Unmarshal''))
      | Some (olds, news) \<Rightarrow>
          let due = filter (event_due env reg every r) (sorted_list_of_set (dom olds \<union> dom news));
              was = (\<lambda>f. case ed_scan r f of Some e \<Rightarrow> e | None \<Rightarrow> no_scan)
          in Inr (if due = [] then None
                  else Some \<lparr>eu_seq = ed_seq r, eu_was = ed_scan r,
                         eu_scan = (\<lambda>f. if f \<in> set due
                            then Some \<lparr>es_old = judge_side env (olds f) (es_old (was f)), es_new = judge_side env (news f) (es_new (was f)),
                                       es_version = je_scanner env\<rparr>
                            else ed_scan r f),
                         eu_counts = fold (\<lambda>f. tally_side env (news f) (es_new (was f)) \<circ> tally_side env (olds f) (es_old (was f))) due
                            no_result\<rparr>))"

definition rescan_event :: "evUpdate \<Rightarrow> EventRow \<Rightarrow> EventRow" where
  "rescan_event u e = (if er_seq e = eu_seq u \<and> er_scan e = eu_was u then e\<lparr>er_scan := eu_scan u\<rparr> else e)"

definition write_rescanned :: "evUpdate \<Rightarrow> JDB \<times> RescanResult \<times> nat list \<Rightarrow> JDB \<times> RescanResult \<times> nat list" where
  "write_rescanned u st =
     (let (db, batch, late) = st in
      case find (\<lambda>e. er_seq e = eu_seq u) (jd_events db) of
        None \<Rightarrow> (db, batch, late)
      | Some e \<Rightarrow>
          if er_scan e \<noteq> eu_was u then (db, batch, late @ [eu_seq u])
          else (db\<lparr>jd_events := map (rescan_event u) (jd_events db)\<rparr>, addResult batch ((eu_counts u)\<lparr>rr_eventRows := 1\<rparr>), late))"

definition judgeEvents ::
  "journal_env \<Rightarrow> Registry_t \<Rightarrow> bool \<Rightarrow> evRead list \<Rightarrow> JDB \<Rightarrow> err + (JDB \<times> RescanResult \<times> nat list)" where
  "judgeEvents env reg every rows db =
     (case map_values (judge_event env reg every) rows of
        Inl e \<Rightarrow> Inl e
      | Inr us \<Rightarrow> Inr (fold write_rescanned (List.map_filter (\<lambda>u. u) us) (db, no_result, [])))"

section \<open>Reads and writes\<close>

text \<open>
  What a batch relies on: a row that still has the sequence number that was read has the values that
  were read. The number of its last event tells a current row's version.
\<close>

definition same_current :: "JDB \<Rightarrow> curRead \<Rightarrow> bool" where
  "same_current db r \<longleftrightarrow> (\<forall>i c b. jd_current db i = Some c \<and> jd_book db i = Some b \<and> bk_lastEventSeq b = cr_seq r
     \<longrightarrow> cu_fields c = cr_fields r)"

definition same_values :: "evRead \<Rightarrow> EventRow \<Rightarrow> bool" where
  "same_values r e \<longleftrightarrow> id_type (er_id e) = ed_type r \<and> er_version e = ed_version r \<and> er_kind e = ed_kind r
     \<and> er_fields e = ed_fields r \<and> er_changed e = ed_changed r"

definition same_event :: "JDB \<Rightarrow> evRead \<Rightarrow> bool" where
  "same_event db r \<longleftrightarrow> (\<forall>e \<in> set (jd_events db). er_seq e = ed_seq r \<longrightarrow> same_values r e)"

text \<open>The reads themselves.\<close>

definition readCurrent :: "JDB \<Rightarrow> Identity list \<Rightarrow> curRead list" where
  "readCurrent db is = List.map_filter (\<lambda>i. case (jd_current db i, jd_book db i) of
       (Some c, Some b) \<Rightarrow> Some \<lparr>cr_id = i, cr_fields = cu_fields c, cr_scan = cu_scan c, cr_hash = cu_hash c, cr_seq = bk_lastEventSeq b\<rparr>
     | _ \<Rightarrow> None) is"

definition readEvents :: "JDB \<Rightarrow> (nat \<Rightarrow> bool) \<Rightarrow> evRead list" where
  "readEvents db P = map (\<lambda>e. \<lparr>ed_seq = er_seq e, ed_type = id_type (er_id e), ed_version = er_version e, ed_kind = er_kind e,
     ed_fields = er_fields e, ed_changed = er_changed e, ed_scan = er_scan e\<rparr>) (filter (\<lambda>e. P (er_seq e)) (jd_events db))"

text \<open>
  Induction over a batch: what the writes of single verdicts keep, the batch keeps. A write knows that
  its row is still at the version that was read, with the verdicts that were read.
\<close>

lemma map_values_in: "map_values f xs = Inr ys \<Longrightarrow> y \<in> set ys \<Longrightarrow> \<exists>x \<in> set xs. f x = Inr y"
  by (induction xs arbitrary: ys) (auto split: sum.splits)

lemma in_map_filter_id: "u \<in> set (List.map_filter (\<lambda>u. u) us) \<Longrightarrow> Some u \<in> set us"
  by (auto simp: List.map_filter_def)

lemma fold_keeps:
  assumes "\<And>x st. x \<in> set xs \<Longrightarrow> Q (fst st) \<Longrightarrow> Q (fst (g x st))" "Q (fst st)"
  shows "Q (fst (fold g xs st))"
  using assms by (induction xs arbitrary: st) auto

lemma judgeCurrent_induct:
  assumes "judgeCurrent env reg every rows db = Inr (db', res, late)" "Q db"
    "\<And>r u c b d. r \<in> set rows \<Longrightarrow> judge_current env reg every r = Inr (Some u) \<Longrightarrow> Q d \<Longrightarrow> jd_current d (cr_id r) = Some c
       \<Longrightarrow> jd_book d (cr_id r) = Some b \<Longrightarrow> bk_lastEventSeq b = cr_seq r \<Longrightarrow> cu_scan c = cr_scan r
       \<Longrightarrow> Q (d\<lparr>jd_current := (jd_current d)(cr_id r \<mapsto> c\<lparr>cu_scan := cp_scan u\<rparr>)\<rparr>)"
  shows "Q db'"
proof -
  obtain us where us: "map_values (judge_current env reg every) rows = Inr us"
    and db': "db' = fst (fold write_current (List.map_filter (\<lambda>u. u) us) (db, no_result, []))"
    using assms(1) by (auto simp: judgeCurrent_def split: sum.splits dest: arg_cong [where f = fst])
  have w: "Q (fst (write_current u st))" if u: "u \<in> set (List.map_filter (\<lambda>u. u) us)" and q: "Q (fst st)" for u st
  proof -
    obtain r where r: "r \<in> set rows" "judge_current env reg every r = Inr (Some u)"
      using map_values_in [OF us in_map_filter_id [OF u]] by blast
    then have "cp_id u = cr_id r \<and> cp_seq u = cr_seq r \<and> cp_was u = cr_scan r"
      by (auto simp: judge_current_def Let_def split: option.splits if_splits)
    then show ?thesis using q assms(3) [OF r, of "fst st"]
      by (cases st) (auto simp: write_current_def split: option.splits)
  qed
  show ?thesis unfolding db' by (rule fold_keeps [where Q = Q]) (use w assms(2) in simp_all)
qed

lemma judgeEvents_induct:
  assumes "judgeEvents env reg every rows db = Inr (db', res, late)" "Q db"
    "\<And>r u d. r \<in> set rows \<Longrightarrow> judge_event env reg every r = Inr (Some u) \<Longrightarrow> eu_seq u = ed_seq r \<Longrightarrow> eu_was u = ed_scan r \<Longrightarrow> Q d
       \<Longrightarrow> Q (d\<lparr>jd_events := map (rescan_event u) (jd_events d)\<rparr>)"
  shows "Q db'"
proof -
  obtain us where us: "map_values (judge_event env reg every) rows = Inr us"
    and db': "db' = fst (fold write_rescanned (List.map_filter (\<lambda>u. u) us) (db, no_result, []))"
    using assms(1) by (auto simp: judgeEvents_def split: sum.splits dest: arg_cong [where f = fst])
  have w: "Q (fst (write_rescanned u st))" if u: "u \<in> set (List.map_filter (\<lambda>u. u) us)" and q: "Q (fst st)" for u st
  proof -
    obtain r where r: "r \<in> set rows" "judge_event env reg every r = Inr (Some u)"
      using map_values_in [OF us in_map_filter_id [OF u]] by blast
    then have "eu_seq u = ed_seq r \<and> eu_was u = ed_scan r"
      by (auto simp: judge_event_def Let_def split: option.splits if_splits prod.splits)
    then show ?thesis using q assms(3) [OF r, of "fst st"]
      by (cases st) (auto simp: write_rescanned_def split: option.splits)
  qed
  show ?thesis unfolding db' by (rule fold_keeps [where Q = Q]) (use w assms(2) in simp_all)
qed

end
