(* ===== verification/JSteps.thy ===== *)
theory JSteps
  imports Rescan
begin

text \<open>
  The journal as a state machine over all its writing operations (apply, confirm, discard, notes, erase,
  rescans), and what survives an erase under any further run of it.
\<close>

section \<open>The journal as a state machine\<close>

text \<open>
  What does not change while the journal runs: the registry of record types with the libraries that
  validate requests, the table of household types, which agrees with the registry, the database's way
  with stored objects, and what each version of the scanner says of a text.
\<close>

record fixed_env =
  fx_lib :: snap_lib
  fx_ord :: "Fields \<Rightarrow> string list"
  fx_registry :: Registry_t
  fx_household :: "string \<Rightarrow> bool"
  fx_jsonb :: "Fields \<Rightarrow> (string \<rightharpoonup> bytes) option"
  fx_judge :: "string \<Rightarrow> string \<Rightarrow> string"

definition synced :: "fixed_env \<Rightarrow> bool" where
  "synced fx \<longleftrightarrow> (\<exists>types. NewRegistry_t types = Inr (fx_registry fx))
     \<and> (\<forall>name t. Registry_Active (fx_registry fx) name = Some t \<longrightarrow> fx_household fx (ty_name t) = Household t)"

text \<open>
  The configuration of one step: a roster, if one is loaded, was parsed from a document; a scanner that
  answers pass is right about its version, and it may also fail or time out on a text its version passes.
\<close>

definition env_of :: "fixed_env \<Rightarrow> journal_env \<Rightarrow> bool" where
  "env_of fx env \<longleftrightarrow> je_household env = fx_household fx \<and> je_json env = sl_json (fx_lib fx) \<and> je_sha256 env = sl_sha256 (fx_lib fx)
     \<and> je_jsonb env = fx_jsonb fx \<and> je_scanner env \<noteq> []
     \<and> (\<forall>txt. je_verdict env txt = VerdictPass_j \<longrightarrow> fx_judge fx (je_scanner env) txt = VerdictPass_j)
     \<and> (\<forall>r. je_roster env = Some r \<longrightarrow> (\<exists>decode sha raw. Roster_Parse decode sha FormatOpenclawHouseholdV1 raw = Inr r))"

text \<open>
  One transaction. \<open>C\<close> is what is assumed of the records that are written and \<open>F\<close> of the random bytes of
  an erase; the environment may be another one for every step (a reloaded roster, other rules, another
  scanner). The rows of a rescan were read earlier: a row that still is at the version that was read has
  the values that were read, which is shown of every read below.
\<close>

type_synonym write_cond = "journal_env \<Rightarrow> JDB \<Rightarrow> RType \<Rightarrow> string \<Rightarrow> NormRecord list \<Rightarrow> bool"
type_synonym erase_cond = "JDB \<Rightarrow> bytes option \<Rightarrow> bool"

inductive jstep :: "fixed_env \<Rightarrow> write_cond \<Rightarrow> erase_cond \<Rightarrow> JDB \<Rightarrow> JDB \<Rightarrow> bool" for fx C F where
  apply_step:
    "env_of fx env \<Longrightarrow> ValidateSnapshot (fx_lib fx) (fx_ord fx) (fx_registry fx) s now = Inr n
     \<Longrightarrow> C env db (n_type n) (n_subject n) (n_records n) \<Longrightarrow> Apply env db writer n payload now = (db', r) \<Longrightarrow> jstep fx C F db db'"
| confirm_step:
    "env_of fx env
     \<Longrightarrow> (\<And>row n. row \<in> set (jd_snapshots db)
           \<Longrightarrow> heldSnapshot env (fx_lib fx) (fx_ord fx) (fx_registry fx) sid row = Inr (Inr n)
           \<Longrightarrow> C env db (n_type n) (n_subject n) (n_records n))
     \<Longrightarrow> ConfirmHeld env (fx_lib fx) (fx_ord fx) (fx_registry fx) mayWrite now sid db = (db', r) \<Longrightarrow> jstep fx C F db db'"
| discard_step: "DiscardHeld sid db = (db', r) \<Longrightarrow> jstep fx C F db db'"
| note_step:
    "env_of fx env \<Longrightarrow> ValidateNote (fx_lib fx) (fx_registry fx) nt = Inr n
     \<Longrightarrow> C env db (nn_type n) (nn_subject n) [note_record n] \<Longrightarrow> WriteNote env db writer now n = (db', r) \<Longrightarrow> jstep fx C F db db'"
| erase_step: "env_of fx env \<Longrightarrow> F db rnd \<Longrightarrow> Erase env rnd subject db = (db', r) \<Longrightarrow> jstep fx C F db db'"
| rescan_current_step:
    "env_of fx env \<Longrightarrow> (\<And>r. r \<in> set rows \<Longrightarrow> same_current db r)
     \<Longrightarrow> judgeCurrent env (fx_registry fx) every rows db = Inr (db', res, late) \<Longrightarrow> jstep fx C F db db'"
| rescan_events_step:
    "env_of fx env \<Longrightarrow> (\<And>r. r \<in> set reads \<Longrightarrow> same_event db r)
     \<Longrightarrow> judgeEvents env (fx_registry fx) every reads db = Inr (db', res, seqs) \<Longrightarrow> jstep fx C F db db'"

inductive jsteps :: "fixed_env \<Rightarrow> write_cond \<Rightarrow> erase_cond \<Rightarrow> JDB \<Rightarrow> JDB \<Rightarrow> bool" for fx C F where
  none: "jsteps fx C F db db"
| step: "jsteps fx C F db db' \<Longrightarrow> jstep fx C F db' db'' \<Longrightarrow> jsteps fx C F db db''"

section \<open>What the operations touch\<close>

text \<open>A write of records touches the rows of one type and subject only.\<close>

definition touches_only :: "string \<Rightarrow> string \<Rightarrow> (string \<Rightarrow> bool) \<Rightarrow> JDB \<Rightarrow> JDB \<Rightarrow> bool" where
  "touches_only rt subject K db db' \<longleftrightarrow>
     (\<forall>i \<in> dom (jd_current db'). i \<in> dom (jd_current db) \<or> id_type i = rt \<and> id_subject i = subject \<and> K (id_key i))
     \<and> (\<forall>e \<in> set (jd_events db'). e \<in> set (jd_events db)
          \<or> id_type (er_id e) = rt \<and> id_subject (er_id e) = subject \<and> K (id_key (er_id e)))
     \<and> jd_snapshots db' = jd_snapshots db \<and> jd_erasures db' = jd_erasures db \<and> jd_readers db' = jd_readers db
     \<and> jd_kept db' = jd_kept db"

lemma touches_only_refl: "touches_only rt subject K db db"
  by (simp add: touches_only_def)

lemma buildEvent_id: "er_id (fst (buildEvent env t subject src prev ev)) = row_id t subject (ev_key ev)"
  by (simp add: buildEvent_def Let_def split: Kind.split)

lemma write_event_touches:
  assumes "touches_only (ty_name t) subject K db0 db" "K (ev_key ev)"
  shows "touches_only (ty_name t) subject K db0 (write_event env t subject src cur ev db)"
proof -
  let ?b = "buildEvent env t subject src (case cur (ev_key ev) of Some c \<Rightarrow> c | None \<Rightarrow> zero_current) ev"
  obtain row nxt where b: "?b = (row, nxt)" by (cases ?b)
  then have "er_id row = row_id t subject (ev_key ev)" using buildEvent_id by (metis fst_conv)
  then show ?thesis using assms b by (auto simp: touches_only_def write_event_def row_id_def Let_def)
qed

lemma touches_only_confirm:
  assumes "touches_only rt subject K db mid"
  shows "touches_only rt subject K db
    (mid\<lparr>jd_current := (\<lambda>i. if P i then map_option f (jd_current mid i) else jd_current mid i), jd_book := b\<rparr>)"
proof -
  have "dom (\<lambda>i. if P i then map_option f (jd_current mid i) else jd_current mid i) = dom (jd_current mid)"
    by (auto split: if_splits)
  then show ?thesis using assms by (simp add: touches_only_def)
qed

lemma writePlan_touches:
  assumes "\<And>ev. ev \<in> set (pl_events plan @ pl_removals plan) \<Longrightarrow> K (ev_key ev)"
  shows "touches_only (ty_name t) subject K db (writePlan env t subject src cur plan db)"
proof -
  have step: "touches_only (ty_name t) subject K db (fold (write_event env t subject src cur) evs db')"
    if "touches_only (ty_name t) subject K db db'" "\<And>ev. ev \<in> set evs \<Longrightarrow> K (ev_key ev)" for evs db'
    using that by (induction evs arbitrary: db') (auto intro: write_event_touches)
  define mid where "mid = fold (write_event env t subject src cur) (pl_events plan @ pl_removals plan) db"
  have "writePlan env t subject src cur plan db =
      mid\<lparr>jd_current := (\<lambda>i. if confirmed_now t subject plan i
                              then map_option (confirm_row (sc_observedAt src)) (jd_current mid i) else jd_current mid i),
          jd_book := (\<lambda>i. if confirmed_now t subject plan i
                           then map_option (\<lambda>b. b\<lparr>bk_confirmedBy := sc_snapshotID src\<rparr>) (jd_book mid i) else jd_book mid i)\<rparr>"
    unfolding writePlan_def Let_def mid_def ..
  moreover have "touches_only (ty_name t) subject K db mid"
    unfolding mid_def by (rule step [OF touches_only_refl]) (rule assms)
  ultimately show ?thesis using touches_only_confirm by simp
qed


text \<open>A snapshot writes the rows of its type and subject, and one snapshot row of that subject.\<close>

definition writes_for :: "RType \<Rightarrow> string \<Rightarrow> JDB \<Rightarrow> JDB \<Rightarrow> bool" where
  "writes_for t subject db db' \<longleftrightarrow>
     (\<exists>snaps. touches_only (ty_name t) subject (\<lambda>_. True) db (db'\<lparr>jd_snapshots := jd_snapshots db\<rparr>) \<and> jd_snapshots db' = snaps
        \<and> ss_subject ` set snaps \<subseteq> insert subject (ss_subject ` set (jd_snapshots db)))"

lemma storeSnapshot_writes:
  assumes "storeSnapshot db n writer payload now confirmID out = Some db'"
  shows "db' = db\<lparr>jd_snapshots := jd_snapshots db'\<rparr>
    \<and> ss_subject ` set (jd_snapshots db') \<subseteq> insert (n_subject n) (ss_subject ` set (jd_snapshots db))"
  using assms by (auto simp: storeSnapshot_def split: option.splits if_splits)

lemma storeSnapshot_tables:
  assumes "storeSnapshot db n writer payload now confirmID out = Some db'"
  shows "jd_current db' = jd_current db \<and> jd_events db' = jd_events db \<and> jd_erasures db' = jd_erasures db
    \<and> jd_readers db' = jd_readers db \<and> jd_kept db' = jd_kept db \<and> jd_book db' = jd_book db \<and> jd_seq db' = jd_seq db"
  using assms by (auto simp: storeSnapshot_def split: option.splits if_splits)

lemma discard_held_subject [simp]: "ss_subject (discard_held n s) = ss_subject s"
  by (simp add: discard_held_def)

lemma storeSnapshot_writes_for:
  assumes "storeSnapshot mid n writer payload now confirmID out = Some db'"
    "touches_only (ty_name t) (n_subject n) (\<lambda>_. True) db mid"
  shows "writes_for t (n_subject n) db db'"
proof -
  note storeSnapshot_tables [OF assms(1)]
  then show ?thesis using storeSnapshot_writes [OF assms(1)] assms(2) by (simp add: writes_for_def touches_only_def)
qed

lemma applyFromOrdering_writes:
  assumes "applyFromOrdering env db n writer payload now confirmID = Commit db' out"
  shows "writes_for (n_type n) (n_subject n) db db'"
proof -
  from assms consider
      (kept) c o' where "storeSnapshot db n writer payload now c o' = Some db'"
    | (applied) src cur plan stored where
        "storeSnapshot (writePlan env (n_type n) (n_subject n) src cur plan db) n writer payload now confirmID out = Some stored"
        "db' = stored\<lparr>jd_snapshots := map (discard_held n) (jd_snapshots stored)\<rparr>"
    by (auto simp: applyFromOrdering_def store_or_reuse_def Let_def split: if_splits option.splits sum.splits)
  then show ?thesis
  proof cases
    case kept
    then show ?thesis using touches_only_refl by (rule storeSnapshot_writes_for)
  next
    case applied
    have "writes_for (n_type n) (n_subject n) db stored"
      using applied(1) by (rule storeSnapshot_writes_for) (simp add: writePlan_touches)
    then show ?thesis using applied(2) by (simp add: writes_for_def touches_only_def image_image)
  qed
qed

text \<open>
  What an erase leaves of a member: no snapshot about them, no current row and no event about them or
  of a note they wrote, and no kept note they could read.
\<close>

definition trace_of :: "(string \<Rightarrow> bool) \<Rightarrow> string \<Rightarrow> Identity \<Rightarrow> bool" where
  "trace_of hh m i \<longleftrightarrow> id_subject i = m \<or> authored hh m i"

definition gone :: "(string \<Rightarrow> bool) \<Rightarrow> string \<Rightarrow> JDB \<Rightarrow> bool" where
  "gone hh m db \<longleftrightarrow> (\<forall>s \<in> set (jd_snapshots db). ss_subject s \<noteq> m) \<and> (\<forall>i \<in> dom (jd_current db). \<not> trace_of hh m i)
     \<and> (\<forall>e \<in> set (jd_events db). \<not> trace_of hh m (er_id e)) \<and> (\<forall>r \<in> set (jd_readers db). fst (snd r) \<noteq> m)"

lemma touches_gone:
  assumes "touches_only rt subject K db db'" "gone hh m db" "subject \<noteq> m" "\<And>k. hh rt \<Longrightarrow> K k \<Longrightarrow> authorOf k \<noteq> m"
  shows "gone hh m db'"
proof -
  have "\<not> trace_of hh m i" if "id_type i = rt" "id_subject i = subject" "K (id_key i)" for i
    using that assms(3,4) by (auto simp: trace_of_def authored_def)
  then show ?thesis using assms(1,2) by (auto simp: touches_only_def gone_def domIff; blast)
qed

lemma writes_for_gone:
  assumes "writes_for t subject db db'" "gone hh m db" "subject \<noteq> m" "\<not> hh (ty_name t)"
  shows "gone hh m db'"
proof -
  have w: "touches_only (ty_name t) subject (\<lambda>_. True) db (db'\<lparr>jd_snapshots := jd_snapshots db\<rparr>)"
    and s: "ss_subject ` set (jd_snapshots db') \<subseteq> insert subject (ss_subject ` set (jd_snapshots db))"
    using assms(1) by (auto simp: writes_for_def)
  have "gone hh m (db'\<lparr>jd_snapshots := jd_snapshots db\<rparr>)" using touches_gone [OF w assms(2,3)] assms(4) by blast
  then show ?thesis using s assms(2,3) by (fastforce simp: gone_def)
qed


text \<open>Ids of a parsed roster are valid, so the author of a note is read back from its key.\<close>

lemma people_fault_ids: "people_fault doc agents ids = None \<Longrightarrow> p \<in> set ids \<Longrightarrow> ValidID p"
  by (induction doc agents ids rule: people_fault.induct) (auto simp: Let_def split: if_splits option.splits)

lemma Roster_Parse_ids:
  assumes "Roster_Parse decode sha format raw = Inr r" "Roster_Has (Some r) m"
  shows "ValidID m"
proof -
  obtain doc where "people_fault doc Map.empty (sort (map fst (do_people doc))) = None"
    "ro_grants r = (\<lambda>pid. if pid \<in> fst ` set (do_people doc) then Some (grants_of doc pid) else None)"
    using assms(1) by (auto simp: Roster_Parse_def parseV1_def split: if_splits decoded.splits option.splits)
  then show ?thesis using people_fault_ids assms(2) by (auto simp: Roster_Has_def split: if_splits)
qed

lemma roster_ids: "env_of fx env \<Longrightarrow> Roster_Has (je_roster env) m \<Longrightarrow> ValidID m"
  using Roster_Parse_ids by (cases "je_roster env") (auto simp: env_of_def Roster_Has_def)

lemma ValidID_no_colon: "ValidID m \<Longrightarrow> CHR '':'' \<notin> set m"
  by (auto simp: ValidID_def list_all_iff id_char_def is_upper_ascii_def is_lower_ascii_def is_digit_ascii_def Prelude.in_range_def)

lemma ValidDate_no_colon: "ValidDate s \<Longrightarrow> CHR '':'' \<notin> set s"
  by (auto simp: ValidDate_def is_digit_ascii_def Prelude.in_range_def split: list.splits)

lemma authorOf_key: "CHR '':'' \<notin> set date \<Longrightarrow> CHR '':'' \<notin> set m \<Longrightarrow> authorOf (date @ CHR '':'' # m) = m"
proof -
  assume a: "CHR '':'' \<notin> set date" "CHR '':'' \<notin> set m"
  have "dropWhile (\<lambda>c. c \<noteq> CHR '':'') (date @ CHR '':'' # m) = CHR '':'' # m"
    using a(1) by (induction date) auto
  moreover have "takeWhile (\<lambda>c. c \<noteq> CHR '':'') m = m" using a(2) by (induction m) auto
  ultimately show ?thesis by (simp add: authorOf_def)
qed

lemma banned_None: "banned db ms = None \<Longrightarrow> m \<in> set ms \<Longrightarrow> m \<noteq> [] \<Longrightarrow> m \<notin> set (jd_erasures db)"
  by (auto simp: banned_def list_ex_iff split: if_splits)

lemma ValidateSnapshot_type:
  assumes "ValidateSnapshot sl ord reg s now = Inr n"
  shows "\<exists>name v t. Registry_Version reg name v = Some t \<and> \<not> Household t \<and> Registry_Active reg name = Some (n_type n)"
proof -
  obtain t where t: "Registry_Version reg (sn_recordType s) (sn_schemaVersion s) = Some t" "\<not> Household t"
    "n_type n = the (Registry_Active reg (sn_recordType s))"
    using assms by (auto simp: ValidateSnapshot_def Let_def split: option.splits if_splits sum.splits)
  then have "Registry_Active reg (sn_recordType s) = Some (n_type n)"
    by (auto simp: Registry_Version_def Registry_Active_def Let_def split: if_splits)
  then show ?thesis using t by blast
qed

lemma snapshot_type_not_household:
  assumes "synced fx" "ValidateSnapshot (fx_lib fx) ord (fx_registry fx) s now = Inr n"
  shows "\<not> fx_household fx (ty_name (n_type n))"
proof -
  obtain name v t where t: "Registry_Version (fx_registry fx) name v = Some t" "\<not> Household t"
    "Registry_Active (fx_registry fx) name = Some (n_type n)" using ValidateSnapshot_type [OF assms(2)] by blast
  obtain types where "NewRegistry_t types = Inr (fx_registry fx)" using assms(1) by (auto simp: synced_def)
  from Registry_owner [OF this t(1,3)] t(2) have "\<not> Household (n_type n)" by (simp add: Household_def)
  then show ?thesis using assms(1) t(3) by (auto simp: synced_def)
qed

lemma ValidateNote_key:
  assumes "ValidateNote sl reg nt = Inr n"
  shows "ValidDate (nt_date nt) \<and> nn_key n = nt_date nt @ CHR '':'' # nn_onBehalfOf n"
  using assms by (auto simp: ValidateNote_def Let_def split: option.splits if_splits sum.splits)

section \<open>Every operation respects a ban\<close>

lemma Apply_gone:
  assumes "synced fx" "ValidateSnapshot (fx_lib fx) (fx_ord fx) (fx_registry fx) s t0 = Inr n"
    "Apply env db writer n payload now = (db', r)" "m \<in> set (jd_erasures db)" "m \<noteq> []" "gone (fx_household fx) m db"
  shows "gone (fx_household fx) m db' \<and> jd_erasures db' = jd_erasures db"
proof (cases "db' = db")
  case False
  then obtain out where "applyFromOrdering env db n writer payload now None = Commit db' out" and b: "banned db [n_subject n] = None"
    using assms(3) by (auto simp: Apply_def split: option.splits tx.splits)
  then have w: "writes_for (n_type n) (n_subject n) db db'" using applyFromOrdering_writes by blast
  have "n_subject n \<noteq> m" using banned_None [OF b] assms(4,5) by auto
  then show ?thesis using writes_for_gone [OF w assms(6)] snapshot_type_not_household [OF assms(1,2)] w
    by (simp add: writes_for_def touches_only_def)
qed (use assms in simp)

lemma ConfirmHeld_gone:
  assumes "synced fx" "ConfirmHeld env (fx_lib fx) ord (fx_registry fx) mayWrite now sid db = (db', r)"
    "m \<in> set (jd_erasures db)" "m \<noteq> []" "gone (fx_household fx) m db"
  shows "gone (fx_household fx) m db' \<and> jd_erasures db' = jd_erasures db"
proof (cases "db' = db")
  case False
  then obtain row n out where h: "heldSnapshot env (fx_lib fx) ord (fx_registry fx) sid row = Inr (Inr n)"
    and "applyFromOrdering env db n (ss_writer row) (ss_payload row) now (Some sid) = Commit db' out"
    and b: "banned db [n_subject n] = None"
    using assms(2) by (auto simp: ConfirmHeld_def split: option.splits tx.splits sum.splits)
  then have w: "writes_for (n_type n) (n_subject n) db db'" using applyFromOrdering_writes by blast
  obtain s where "ValidateSnapshot (fx_lib fx) ord (fx_registry fx) s (ss_received row) = Inr n"
    using h by (auto simp: heldSnapshot_def split: if_splits option.splits sum.splits)
  note hh = snapshot_type_not_household [OF assms(1) this]
  have "n_subject n \<noteq> m" using banned_None [OF b] assms(3,4) by auto
  then show ?thesis using writes_for_gone [OF w assms(5)] hh w by (simp add: writes_for_def touches_only_def)
qed (use assms in simp)

lemma DiscardHeld_gone:
  assumes "DiscardHeld sid db = (db', r)" "gone hh m db"
  shows "gone hh m db' \<and> jd_erasures db' = jd_erasures db"
proof -
  let ?f = "\<lambda>s. if ss_id s = sid \<and> ss_status s = ''held'' then s\<lparr>ss_status := ''discarded''\<rparr> else s"
  have "db' = db \<or> db' = db\<lparr>jd_snapshots := map ?f (jd_snapshots db)\<rparr>"
    using assms(1) by (auto simp: DiscardHeld_def split: if_splits)
  moreover have "ss_subject (?f s) = ss_subject s" for s by simp
  ultimately show ?thesis using assms(2) by (auto simp: gone_def simp del: ball_simps split: if_splits; blast)
qed

lemma note_keys:
  assumes "ev \<in> set (pl_events (Diff jl (note_input n now cur)) @ pl_removals (Diff jl (note_input n now cur)))"
  shows "ev_key ev = nn_key n"
  using assms by (auto simp: pl_events_eq pl_removals_eq note_input_def note_record_def List.map_filter_simps
      dest: Emit_key split: share.splits)

lemma WriteNote_gone:
  assumes "env_of fx env" "ValidateNote (fx_lib fx) (fx_registry fx) nt = Inr n" "WriteNote env db writer now n = (db', r)"
    "m \<in> set (jd_erasures db)" "m \<noteq> []" "gone (fx_household fx) m db"
  shows "gone (fx_household fx) m db' \<and> jd_erasures db' = jd_erasures db"
proof (cases "db' = db")
  case False
  then obtain src cur where f: "note_fault env db n = None"
    and w: "db' = writePlan env (nn_type n) (nn_subject n) src cur (Diff (je_json env) (note_input n now cur)) db"
    using assms(3) by (auto simp: WriteNote_def Let_def split: if_splits option.splits sum.splits list.splits)
  from f have b: "banned db [nn_subject n, nn_onBehalfOf n] = None" and has: "Roster_Has (je_roster env) (nn_onBehalfOf n)"
    by (auto simp: note_fault_def Roster_Grants_def Roster_Has_def split: option.splits)
  note author = roster_ids [OF assms(1) has]
  have key: "authorOf (nn_key n) = nn_onBehalfOf n"
    using ValidateNote_key [OF assms(2)] authorOf_key ValidDate_no_colon ValidID_no_colon [OF author] by simp
  have ne: "nn_subject n \<noteq> m" "nn_onBehalfOf n \<noteq> m" using banned_None [OF b] assms(4,5) by auto
  have t: "touches_only (ty_name (nn_type n)) (nn_subject n) (\<lambda>k. k = nn_key n) db db'"
    unfolding w by (rule writePlan_touches) (rule note_keys)
  show ?thesis using touches_gone [OF t assms(6) ne(1)] key ne(2) t by (auto simp: touches_only_def)
qed (use assms in simp)


text \<open>An erase: the markers of kept notes contain a colon, so they are no member's id.\<close>

definition avoids :: "(Identity \<Rightarrow> bool) \<Rightarrow> JDB \<Rightarrow> bool" where
  "avoids P db \<longleftrightarrow> (\<forall>i \<in> dom (jd_current db). \<not> P i) \<and> (\<forall>e \<in> set (jd_events db). \<not> P (er_id e))"

definition unread :: "string \<Rightarrow> JDB \<Rightarrow> bool" where
  "unread m db \<longleftrightarrow> (\<forall>r \<in> set (jd_readers db). fst (snd r) \<noteq> m)"

lemma gone_alt: "gone hh m db \<longleftrightarrow> (\<forall>s \<in> set (jd_snapshots db). ss_subject s \<noteq> m) \<and> avoids (trace_of hh m) db \<and> unread m db"
  by (auto simp: gone_def avoids_def unread_def)

lemma avoids_delete: "avoids P db \<Longrightarrow> avoids P (delete_rows Q db)" "avoids P (delete_rows P db)"
  by (auto simp: avoids_def delete_rows_def split: if_splits)

lemma avoids_tables [simp]:
  "avoids P (db\<lparr>jd_snapshots := x\<rparr>) = avoids P db" "avoids P (db\<lparr>jd_readers := y\<rparr>) = avoids P db"
  "avoids P (db\<lparr>jd_kept := z\<rparr>) = avoids P db" "avoids P (db\<lparr>jd_erasures := u\<rparr>) = avoids P db"
  by (simp_all add: avoids_def)

lemma frozenReaders_not:
  "m = subject \<or> m \<in> set erased \<Longrightarrow> m \<notin> set (frozenReaders ros subject erased n)"
  by (auto simp: frozenReaders_def Let_def sortedSet_def)

lemma keep_note_step:
  assumes "\<And>i p. P (i\<lparr>id_subject := pseudonym @ CHR '':'' # p\<rparr>) \<Longrightarrow> P i" "m = subject \<or> m \<in> set erased"
    "avoids P (snd st)" "unread m (snd st)"
  shows "avoids P (snd (keep_note ros subject pseudonym erased n st)) \<and> unread m (snd (keep_note ros subject pseudonym erased n st))
    \<and> jd_snapshots (snd (keep_note ros subject pseudonym erased n st)) = jd_snapshots (snd st)
    \<and> jd_erasures (snd (keep_note ros subject pseudonym erased n st)) = jd_erasures (snd st)"
proof -
  obtain kept db where st: "st = (kept, db)" by (cases st)
  let ?marker = "pseudonym @ CHR '':'' # show_nat (Suc kept)"
  have "P (note_id n subject)" if "P (note_id n ?marker)"
    using assms(1) [where i = "note_id n subject"] that by (simp add: note_id_def)
  then show ?thesis using assms(3,4) frozenReaders_not [OF assms(2)] st
    by (auto simp: keep_note_def Let_def avoids_def unread_def move_event_def move_row_def dom_def split: if_splits)
qed

lemma keepNotes_avoids:
  assumes "\<And>i p. P (i\<lparr>id_subject := pseudonym @ CHR '':'' # p\<rparr>) \<Longrightarrow> P i" "m = subject \<or> m \<in> set (jd_erasures db)"
    "avoids P db" "unread m db"
  shows "avoids P (snd (keepNotes env subject pseudonym db)) \<and> unread m (snd (keepNotes env subject pseudonym db))
    \<and> jd_snapshots (snd (keepNotes env subject pseudonym db)) = jd_snapshots db
    \<and> jd_erasures (snd (keepNotes env subject pseudonym db)) = jd_erasures db"
proof -
  have "avoids P (snd (fold (keep_note ros subject pseudonym erased) ns st)) \<and> unread m (snd (fold (keep_note ros subject pseudonym erased) ns st))
      \<and> jd_snapshots (snd (fold (keep_note ros subject pseudonym erased) ns st)) = jd_snapshots (snd st)
      \<and> jd_erasures (snd (fold (keep_note ros subject pseudonym erased) ns st)) = jd_erasures (snd st)"
    if "m = subject \<or> m \<in> set erased" "avoids P (snd st)" "unread m (snd st)" for ros erased ns st
    using that
  proof (induction ns arbitrary: st)
    case (Cons n ns)
    note s = keep_note_step [where P = P, OF assms(1) Cons.prems, where n = n and ros = ros]
    show ?case using Cons.IH [OF Cons.prems(1), of "keep_note ros subject pseudonym erased n st"] s by simp
  qed simp
  from this [OF assms(2), where st = "(0, db)"] assms(3,4) show ?thesis unfolding keepNotes_def by simp
qed

lemma unread_tables [simp]:
  "unread m (delete_rows P db) = unread m db" "unread m (db\<lparr>jd_snapshots := x\<rparr>) = unread m db"
  "unread m (db\<lparr>jd_kept := z\<rparr>) = unread m db" "unread m (db\<lparr>jd_erasures := u\<rparr>) = unread m db"
  by (simp_all add: unread_def delete_rows_def)

lemma unread_filter: "unread m db \<Longrightarrow> unread m (db\<lparr>jd_readers := filter P (jd_readers db)\<rparr>)"
  by (auto simp: unread_def)

lemma delete_rows_tables [simp]:
  "jd_snapshots (delete_rows P db) = jd_snapshots db" "jd_erasures (delete_rows P db) = jd_erasures db"
  "jd_readers (delete_rows P db) = jd_readers db" "jd_kept (delete_rows P db) = jd_kept db"
  by (simp_all add: delete_rows_def)

lemma eraseLocked_stages:
  "fst (eraseLocked env subject pseudonym db) =
     erase_subject subject (snd (keepNotes env subject pseudonym (drop_orphans (erase_own (je_household env) subject db))))"
  by (simp add: eraseLocked_def Let_def split: prod.split)

lemma drop_orphans_avoids: "avoids P db \<Longrightarrow> avoids P (drop_orphans db)"
  unfolding drop_orphans_def drop_unkept_def by (simp add: avoids_delete)

lemma erase_own_avoids: "avoids P db \<Longrightarrow> avoids P (erase_own hh subject db)" "avoids (authored hh subject) (erase_own hh subject db)"
  by (simp_all add: erase_own_def avoids_delete)

lemma drop_orphans_tables [simp]:
  "jd_snapshots (drop_orphans db) = jd_snapshots db" "jd_erasures (drop_orphans db) = jd_erasures db"
  by (simp_all add: drop_orphans_def drop_unkept_def)

lemma erase_own_tables [simp]:
  "jd_snapshots (erase_own hh subject db) = jd_snapshots db" "jd_erasures (erase_own hh subject db) = jd_erasures db"
  by (simp_all add: erase_own_def)

lemma drop_orphans_unread: "unread m db \<Longrightarrow> unread m (drop_orphans db)"
  by (auto simp: drop_orphans_def drop_unkept_def unread_def)

lemma erase_own_unread: "m = subject \<or> unread m db \<Longrightarrow> unread m (erase_own hh subject db)"
  by (auto simp: erase_own_def unread_def)

lemma erase_subject_avoids:
  "avoids P db \<Longrightarrow> avoids P (erase_subject subject db)" "avoids (\<lambda>i. id_subject i = subject) (erase_subject subject db)"
  unfolding erase_subject_def avoids_tables by (intro avoids_delete, simp only: avoids_tables) (rule avoids_delete(2))

lemma avoids_trace: "avoids (trace_of hh m) db \<longleftrightarrow> avoids (\<lambda>i. id_subject i = m) db \<and> avoids (authored hh m) db"
  by (auto simp: avoids_def trace_of_def)

lemma eraseLocked_gone:
  assumes "ValidID m" "m = subject \<or> m \<in> set (jd_erasures db) \<and> gone (je_household env) m db"
  shows "gone (je_household env) m (fst (eraseLocked env subject (newPseudonym b) db))
    \<and> jd_erasures (fst (eraseLocked env subject (newPseudonym b) db)) = jd_erasures db @ [subject]"
proof -
  let ?hh = "je_household env"
  define db4 where "db4 = drop_orphans (erase_own ?hh subject db)"
  define db5 where "db5 = snd (keepNotes env subject (newPseudonym b) db4)"
  have e: "m = subject \<or> m \<in> set (jd_erasures db4)" using assms(2) by (auto simp: db4_def)
  have moved: "authored ?hh m (i\<lparr>id_subject := p\<rparr>) \<Longrightarrow> authored ?hh m i" for i p by (simp add: authored_def)
  have u4: "unread m db4" using assms(2) unfolding db4_def gone_alt by (intro drop_orphans_unread erase_own_unread) auto
  have a4: "avoids (authored ?hh m) db4"
    using assms(2) erase_own_avoids drop_orphans_avoids unfolding db4_def gone_alt avoids_trace by auto
  have a5: "avoids (authored ?hh m) db5 \<and> unread m db5 \<and> jd_snapshots db5 = jd_snapshots db4 \<and> jd_erasures db5 = jd_erasures db4"
    unfolding db5_def using moved e a4 u4 by (intro keepNotes_avoids) simp_all
  have "avoids (\<lambda>i. id_subject i = m) db5" if "m \<noteq> subject"
  proof -
    have "avoids (\<lambda>i. id_subject i = m) db4"
      using assms(2) that erase_own_avoids(1) drop_orphans_avoids unfolding db4_def gone_alt avoids_trace by auto
    moreover have "newPseudonym b @ CHR '':'' # p \<noteq> m" for p using ValidID_no_colon [OF assms(1)] by auto
    ultimately show ?thesis
      unfolding db5_def using e u4 by (intro keepNotes_avoids [THEN conjunct1]) simp_all
  qed
  then have "avoids (trace_of ?hh m) (erase_subject subject db5)"
    unfolding avoids_trace using a5 erase_subject_avoids by (cases "m = subject") auto
  moreover have "unread m (erase_subject subject db5)" using a5 by (simp add: erase_subject_def)
  moreover have "\<forall>s \<in> set (jd_snapshots (erase_subject subject db5)). ss_subject s \<noteq> m"
    using a5 assms(2) by (auto simp: erase_subject_def db4_def gone_def)
  ultimately show ?thesis using a5
    by (simp add: eraseLocked_stages gone_alt db5_def db4_def) (simp add: erase_subject_def)
qed

lemma Erase_gone:
  assumes "env_of fx env" "Erase env rnd subject db = (db', r)" "ValidID m"
    "m = subject \<and> (\<exists>resp. r = Inr resp) \<or> m \<in> set (jd_erasures db) \<and> gone (fx_household fx) m db"
  shows "gone (fx_household fx) m db' \<and> m \<in> set (jd_erasures db')"
proof (cases "\<exists>resp. r = Inr resp")
  case True
  then obtain b where "db' = fst (eraseLocked env subject (newPseudonym b) db)"
    using assms(2) by (auto simp: Erase_def Let_def case_prod_unfold split: if_splits option.splits)
  then show ?thesis using eraseLocked_gone [OF assms(3), of subject db env b] assms(1,4) by (auto simp: env_of_def)
next
  case False
  then have "db' = db" using assms(2) by (auto simp: Erase_def Let_def split: if_splits option.splits prod.splits)
  then show ?thesis using assms(4) False by blast
qed

lemma gone_cong:
  "jd_snapshots db' = jd_snapshots db \<Longrightarrow> dom (jd_current db') = dom (jd_current db) \<Longrightarrow> map er_id (jd_events db') = map er_id (jd_events db)
   \<Longrightarrow> jd_readers db' = jd_readers db \<Longrightarrow> gone hh m db' = gone hh m db"
proof -
  assume a: "jd_snapshots db' = jd_snapshots db" "dom (jd_current db') = dom (jd_current db)" "map er_id (jd_events db') = map er_id (jd_events db)"
    "jd_readers db' = jd_readers db"
  have e: "(\<forall>e \<in> set (jd_events d). \<not> trace_of hh m (er_id e)) \<longleftrightarrow> (\<forall>i \<in> set (map er_id (jd_events d)). \<not> trace_of hh m i)"
    for d :: JDB by simp
  show ?thesis unfolding gone_def e a ..
qed

lemma rescan_event_id [simp]: "er_id (rescan_event u e) = er_id e"
  by (simp add: rescan_event_def)

lemma rescans_gone:
  "judgeCurrent env reg every rows db = Inr (db', res, late) \<Longrightarrow> gone hh m db' \<and> jd_erasures db' = jd_erasures db" if "gone hh m db"
proof (erule judgeCurrent_induct)
  show "gone hh m db \<and> jd_erasures db = jd_erasures db" using that by simp
next
  fix r u c b d
  assume d: "gone hh m d \<and> jd_erasures d = jd_erasures db" and c: "jd_current d (cr_id r) = Some c"
  show "gone hh m (d\<lparr>jd_current := (jd_current d)(cr_id r \<mapsto> c\<lparr>cu_scan := cp_scan u\<rparr>)\<rparr>)
    \<and> jd_erasures (d\<lparr>jd_current := (jd_current d)(cr_id r \<mapsto> c\<lparr>cu_scan := cp_scan u\<rparr>)\<rparr>) = jd_erasures db"
    using d c by (subst gone_cong [of _ d]) (simp_all add: insert_absorb domI)
qed

lemma rescans_events_gone:
  "judgeEvents env reg every rows db = Inr (db', res, late) \<Longrightarrow> gone hh m db' \<and> jd_erasures db' = jd_erasures db" if "gone hh m db"
proof (erule judgeEvents_induct)
  show "gone hh m db \<and> jd_erasures db = jd_erasures db" using that by simp
next
  fix r u d
  assume d: "gone hh m d \<and> jd_erasures d = jd_erasures db"
  show "gone hh m (d\<lparr>jd_events := map (rescan_event u) (jd_events d)\<rparr>)
    \<and> jd_erasures (d\<lparr>jd_events := map (rescan_event u) (jd_events d)\<rparr>) = jd_erasures db"
    using d by (subst gone_cong [of _ d]) (simp_all add: comp_def)
qed

lemma jstep_gone:
  assumes "jstep fx C F db db'" "synced fx" "ValidID m" "gone (fx_household fx) m db" "m \<in> set (jd_erasures db)"
  shows "gone (fx_household fx) m db' \<and> m \<in> set (jd_erasures db')"
proof -
  have ne: "m \<noteq> []" using assms(3) by (simp add: ValidID_def)
  from assms(1) show ?thesis
  proof cases
    case apply_step
    then show ?thesis using Apply_gone [OF assms(2) apply_step(2,4) assms(5) ne assms(4)] assms(5) by simp
  next
    case confirm_step
    then show ?thesis using ConfirmHeld_gone [OF assms(2) confirm_step(3) assms(5) ne assms(4)] assms(5) by simp
  next
    case discard_step
    then show ?thesis using DiscardHeld_gone [OF discard_step assms(4)] assms(5) by simp
  next
    case note_step
    then show ?thesis using WriteNote_gone [OF note_step(1,2,4) assms(5) ne assms(4)] assms(5) by simp
  next
    case erase_step
    then show ?thesis using Erase_gone [OF erase_step(1,3) assms(3)] assms(4,5) by blast
  next
    case rescan_current_step
    then show ?thesis using rescans_gone [OF assms(4) rescan_current_step(3)] assms(5) by simp
  next
    case rescan_events_step
    then show ?thesis using rescans_events_gone [OF assms(4) rescan_events_step(3)] assms(5) by simp
  qed
qed

lemma erase_final:
  assumes "synced fx" "env_of fx env" "Erase env rnd subject db = (db1, Inr resp)" "jsteps fx C F db1 db2"
  shows "gone (fx_household fx) subject db2 \<and> subject \<in> set (jd_erasures db2)"
proof -
  have v: "ValidID subject" using assms(3) by (auto simp: Erase_def split: if_splits)
  from assms(4,3) show ?thesis
  proof (induction rule: jsteps.induct)
    case (none db1)
    then show ?case using Erase_gone [OF assms(2) _ v] by blast
  next
    case (step db1 db' db'')
    then show ?case using jstep_gone [OF step.hyps(2) assms(1) v] by blast
  qed
qed

text \<open>
  C6: An erase is final. Once erasing a member has succeeded, then after any further sequence of the
  journal's operations (applied, confirmed, discarded and refused snapshots, household notes, other
  erasures, batches of rescans whose rows were read before the erase or after it), under any rosters,
  rules and scanners, the journal holds no snapshot about the member, no current row and no event about
  them, no note they wrote (about anyone, kept notes included), and no kept note names them as a reader;
  and the ban is still in place.
\<close>

theorem Erase_is_final:
  assumes "synced fx" "env_of fx env" "Erase env rnd subject db = (db1, Inr resp)" "jsteps fx C F db1 db2"
  shows "gone (fx_household fx) subject db2 \<and> subject \<in> set (jd_erasures db2)"
  using assms by (rule erase_final)

text \<open>A journal with one row about a member.\<close>

definition memo_fixed :: fixed_env where
  "memo_fixed = \<lparr>fx_lib = sample_snap_lib, fx_ord = Keys, fx_registry = [(''memo'', [memo_v1, memo_v2])], fx_household = (\<lambda>_. False),
     fx_jsonb = Some, fx_judge = (\<lambda>_ _. ''pass'')\<rparr>"

lemma memo_synced: "synced memo_fixed"
proof -
  have "versions [(''memo'', [memo_v1, memo_v2])] name = (if name = ''memo'' then [memo_v1, memo_v2] else [])" for name
    by (simp add: versions_def)
  then have "Registry_Active [(''memo'', [memo_v1, memo_v2])] name = Some t \<Longrightarrow> t = memo_v2" for name t
    by (auto simp: Registry_Active_def split: if_splits)
  moreover have "\<not> Household memo_v2" by (simp add: Household_def OwnerHousehold_def memo_v2_def memo_v1_def)
  ultimately show ?thesis using memo_registry by (auto simp: synced_def memo_fixed_def)
qed

definition memo_env :: "Roster \<Rightarrow> journal_env" where
  "memo_env ros = \<lparr>je_json = no_json, je_sha256 = (\<lambda>b. b), je_jsonb = Some, je_decode = (\<lambda>_. None), je_household = (\<lambda>_. False),
     je_verdict = (\<lambda>_. ''pass''), je_scanner = ''v1'', je_guard = DefaultGuard, je_rules = None, je_roster = Some ros\<rparr>"

definition memo_row :: Identity where
  "memo_row = \<lparr>id_type = ''memo'', id_subject = ''bob'', id_key = ''k''\<rparr>"

definition memo_db :: JDB where
  "memo_db = \<lparr>jd_snapshots = [], jd_current = [memo_row \<mapsto> zero_current], jd_book = Map.empty, jd_seq = 0, jd_events = [], jd_erasures = [], jd_kept = [], jd_readers = []\<rparr>"

theorem Erase_is_final_witness:
  "\<exists>ros db1 resp db2. Erase (memo_env ros) (Some []) ''bob'' memo_db = (db1, Inr resp) \<and> jsteps memo_fixed (\<lambda>_ _ _ _ _. True) (\<lambda>_ _. True) db1 db2
     \<and> jd_current memo_db memo_row \<noteq> None \<and> jd_current db2 memo_row = None \<and> ''bob'' \<in> set (jd_erasures db2)"
proof -
  obtain ros where ros: "Roster_Parse (\<lambda>_. decoded.Decoded sample_doc True) (\<lambda>b. b) FormatOpenclawHouseholdV1 [] = Inr ros"
    using sample_roster by blast
  have env: "env_of memo_fixed (memo_env ros)"
    using ros by (auto simp: env_of_def memo_fixed_def memo_env_def sample_snap_lib_def)
  have "ValidID ''bob''" by (simp add: ValidID_def id_char_def is_lower_ascii_def Prelude.in_range_def)
  then obtain db1 resp where e: "Erase (memo_env ros) (Some []) ''bob'' memo_db = (db1, Inr resp)"
    by (simp add: Erase_def memo_env_def Let_def case_prod_unfold)
  obtain db2 r where "DiscardHeld ''id'' db1 = (db2, r)" by (cases "DiscardHeld ''id'' db1")
  then have s: "jsteps memo_fixed (\<lambda>_ _ _ _ _. True) (\<lambda>_ _. True) db1 db2"
    by (intro jsteps.step [OF jsteps.none] discard_step)
  note f = Erase_is_final [OF memo_synced env e s]
  have "jd_current db2 memo_row = None"
    using f by (auto simp: gone_def trace_of_def memo_row_def dom_def)
  then show ?thesis using e s f by (auto simp: memo_db_def intro!: exI)
qed

end
