(* ===== verification/JStore.thy ===== *)
theory JStore
  imports JSteps
begin

text \<open>
  The two invariants of the journal's store over all its operations: its current rows are what its
  events say (what \<^verbatim>\<open>record_current\<close> documents as event-derived), and a text value that a current row or an
  event records as passed was passed by a scanner.
\<close>

section \<open>The invariant\<close>

text \<open>The part of a stored event that the fold reads.\<close>

definition fold_event :: "EventRow \<Rightarrow> FoldEvent" where
  "fold_event e =
     \<lparr>fe_id = er_id e, fe_kind = er_kind e, fe_version = er_version e, fe_scope = er_scope e, fe_audience = er_audience e,
      fe_fields = (case er_fields e of Some f \<Rightarrow> f | None \<Rightarrow> Map.empty),
      fe_changed = (case er_changed e of FieldChanges ch \<Rightarrow> ch | _ \<Rightarrow> Map.empty)\<rparr>"

definition event_derived :: "Rename \<Rightarrow> JDB \<Rightarrow> bool" where
  "event_derived rename db \<longleftrightarrow> (\<forall>i. Fold rename (map fold_event (jd_events db)) i = map_option derived (jd_current db i))"

text \<open>Fields that come back from the database as they were stored.\<close>

definition settled :: "fixed_env \<Rightarrow> string \<Rightarrow> Fields \<Rightarrow> bool" where
  "settled fx rt f \<longleftrightarrow> (\<forall>name t. Registry_Active (fx_registry fx) name = Some t \<and> ty_name t = rt
     \<longrightarrow> load_fields (sl_json (fx_lib fx)) (fx_jsonb fx) t f = Inr f)"

definition text_of :: "fixed_env \<Rightarrow> bytes \<Rightarrow> string" where
  "text_of fx v = (case jl_string (sl_json (fx_lib fx)) v of Some s \<Rightarrow> s | None \<Rightarrow> [])"

text \<open>A recorded pass is a pass the scanner version it names gave to that very value.\<close>

definition sound_pass :: "fixed_env \<Rightarrow> bytes \<Rightarrow> ScanEntry \<Rightarrow> bool" where
  "sound_pass fx v e \<longleftrightarrow> (se_verdict e = VerdictPass_j \<longrightarrow> fx_judge fx (se_version e) (text_of fx v) = VerdictPass_j)"

definition judged :: "fixed_env \<Rightarrow> RType \<Rightarrow> Fields \<Rightarrow> (string \<rightharpoonup> ScanEntry) \<Rightarrow> bool" where
  "judged fx t fs scan \<longleftrightarrow> (\<forall>f v. IsText t f \<and> fs f = Some v \<longrightarrow> (\<exists>e. scan f = Some e \<and> sound_pass fx v e))"

text \<open>An event carries one version for two verdicts, so a pass there is one that some version gave.\<close>

definition ever_passed :: "fixed_env \<Rightarrow> bytes \<Rightarrow> bool" where
  "ever_passed fx v \<longleftrightarrow> (\<exists>version. fx_judge fx version (text_of fx v) = VerdictPass_j)"

definition text_field :: "fixed_env \<Rightarrow> EventRow \<Rightarrow> string \<Rightarrow> bool" where
  "text_field fx e f \<longleftrightarrow> kind_isText (fx_registry fx) (id_type (er_id e))
     (ForwardName (fx_registry fx) (id_type (er_id e)) (er_version e) f)"

definition event_judged :: "fixed_env \<Rightarrow> EventRow \<Rightarrow> bool" where
  "event_judged fx e \<longleftrightarrow> (\<forall>olds news f sc. event_values (er_kind e) (er_fields e) (er_changed e) = Some (olds, news)
     \<and> er_scan e f = Some sc \<and> text_field fx e f \<longrightarrow>
       (\<forall>v. olds f = Some v \<and> es_old sc = VerdictPass_j \<longrightarrow> ever_passed fx v)
     \<and> (\<forall>v. news f = Some v \<and> es_new sc = VerdictPass_j \<longrightarrow> ever_passed fx v))"

text \<open>The names an event was stored under stay apart when they are forwarded.\<close>

definition event_names :: "EventRow \<Rightarrow> string set" where
  "event_names e = dom (er_scan e) \<union> (case event_values (er_kind e) (er_fields e) (er_changed e) of
     Some (olds, news) \<Rightarrow> dom olds \<union> dom news | None \<Rightarrow> {})"

definition event_ok :: "fixed_env \<Rightarrow> EventRow \<Rightarrow> bool" where
  "event_ok fx e \<longleftrightarrow> event_judged fx e \<and> inj_on (ForwardName (fx_registry fx) (id_type (er_id e)) (er_version e)) (event_names e)"

definition row_ok :: "fixed_env \<Rightarrow> string \<Rightarrow> Current \<Rightarrow> bool" where
  "row_ok fx rt c \<longleftrightarrow> cu_scope c \<noteq> [] \<and> finite (dom (cu_fields c)) \<and> (\<forall>f. cu_fields c f \<noteq> Some []) \<and> settled fx rt (cu_fields c)
     \<and> cu_hash c = Fields_Hash (sl_sha256 (fx_lib fx)) (cu_fields c)
     \<and> (\<forall>name t. Registry_Active (fx_registry fx) name = Some t \<and> ty_name t = rt \<longrightarrow> judged fx t (cu_fields c) (cu_scan c))
     \<and> (Registry_Active (fx_registry fx) rt = None
          \<longrightarrow> (\<forall>f v e. cu_fields c f = Some v \<and> cu_scan c f = Some e \<longrightarrow> sound_pass fx v e))"

definition store_ok :: "fixed_env \<Rightarrow> JDB \<Rightarrow> bool" where
  "store_ok fx db \<longleftrightarrow> finite (dom (jd_current db)) \<and> (\<forall>i c. jd_current db i = Some c \<longrightarrow> row_ok fx (id_type i) c)
     \<and> event_derived (ForwardName (fx_registry fx)) db \<and> (\<forall>e \<in> set (jd_events db). event_ok fx e)"

text \<open>
  What is assumed of written records: no empty value, fields that the database gives back, and no stored
  row of the key with other fields of the same hash. Of an erase: its random bytes are new.
\<close>

definition storable :: "fixed_env \<Rightarrow> write_cond" where
  "storable fx env db t subject records \<longleftrightarrow> (\<forall>r \<in> set records.
     (\<forall>f. nr_fields r f \<noteq> Some []) \<and> settled fx (ty_name t) (nr_fields r)
     \<and> (\<forall>c. jd_current db (row_id t subject (nr_key r)) = Some c
          \<and> Fields_Hash (sl_sha256 (fx_lib fx)) (cu_fields c) = Fields_Hash (sl_sha256 (fx_lib fx)) (nr_fields r)
          \<longrightarrow> cu_fields c = nr_fields r))"

definition fresh :: "erase_cond" where
  "fresh db rnd \<longleftrightarrow> (\<forall>b. rnd = Some b \<longrightarrow> (\<forall>i \<in> dom (jd_current db). \<not> prefix (newPseudonym b) (id_subject i)))"

section \<open>One event\<close>

lemma fold_event_seq [simp]: "fold_event (e\<lparr>er_seq := n\<rparr>) = fold_event e"
  by (simp add: fold_event_def)

lemma event_ok_seq [simp]: "event_ok fx (e\<lparr>er_seq := n\<rparr>) = event_ok fx e"
  by (simp add: event_ok_def event_names_def event_judged_def text_field_def)

lemma event_ok_move [simp]: "event_ok fx (move_event n subject marker e) = event_ok fx e"
  by (simp add: event_ok_def event_names_def event_judged_def text_field_def move_event_def note_id_def Let_def)

lemma derived_scan [simp]: "derived (c\<lparr>cu_lastSeenAt := x, cu_lastConfirmedAt := y\<rparr>) = derived c"
  by (simp add: derived_def)

lemma derived_confirm [simp]: "derived (confirm_row t0 c) = derived c"
  by (simp add: confirm_row_def)

definition prev_row :: "Current option \<Rightarrow> Current" where
  "prev_row co = (case co of Some c \<Rightarrow> c | None \<Rightarrow> zero_current)"

text \<open>The stored form of a built event folds as the planned one does.\<close>

lemma fold_event_stored:
  "fe_id (fold_event (fst (buildEvent env t subject src prev ev))) = row_id t subject (ev_key ev)"
  "fold_row rename (fold_event (fst (buildEvent env t subject src prev ev))) row
    = fold_row rename (stored (ty_name t) subject (ty_version t) ev) row"
  by (cases "ev_kind ev"; simp add: buildEvent_def fold_event_def stored_def fold_row_def row_id_def after_of_def Let_def
      split: option.splits)+

text \<open>An event fits a row when folding it onto the row gives the row that is written beside it.\<close>

definition fits :: "fixed_env \<Rightarrow> journal_env \<Rightarrow> RType \<Rightarrow> string \<Rightarrow> eventSource \<Rightarrow> Current option \<Rightarrow> Event \<Rightarrow> bool" where
  "fits fx env t subject src co ev \<longleftrightarrow>
     (let nxt = snd (buildEvent env t subject src (prev_row co) ev) in
      fold_row (ForwardName (fx_registry fx)) (stored (ty_name t) subject (ty_version t) ev)
          (case map_option derived co of Some r \<Rightarrow> r | None \<Rightarrow> zero_row) = derived nxt
      \<and> row_ok fx (ty_name t) nxt \<and> event_ok fx (fst (buildEvent env t subject src (prev_row co) ev)))"

lemma write_event_ok:
  assumes "store_ok fx db" "fits fx env t subject src (jd_current db (row_id t subject (ev_key ev))) ev"
    "cur (ev_key ev) = jd_current db (row_id t subject (ev_key ev))"
  shows "store_ok fx (write_event env t subject src cur ev db)"
proof -
  let ?i = "row_id t subject (ev_key ev)" and ?rn = "ForwardName (fx_registry fx)"
  let ?b = "buildEvent env t subject src (prev_row (jd_current db ?i)) ev"
  have w: "jd_events (write_event env t subject src cur ev db) = jd_events db @ [(fst ?b)\<lparr>er_seq := Suc (jd_seq db)\<rparr>]"
    "jd_current (write_event env t subject src cur ev db) = (jd_current db)(?i \<mapsto> snd ?b)"
    by (simp_all add: write_event_def assms(3) prev_row_def case_prod_unfold Let_def)
  have f: "Fold ?rn (map fold_event (jd_events db)) i = map_option derived (jd_current db i)" for i
    using assms(1) by (simp add: store_ok_def event_derived_def)
  have "Fold ?rn (map fold_event (jd_events db @ [(fst ?b)\<lparr>er_seq := Suc (jd_seq db)\<rparr>])) i = map_option derived (((jd_current db)(?i \<mapsto> snd ?b)) i)" for i
    using assms(2) by (simp add: Fold_append fold_event_stored row_step_def f fits_def Let_def)
  moreover have "row_ok fx (id_type ?i) (snd ?b)" using assms(2) by (simp add: fits_def Let_def row_id_def)
  moreover have "event_ok fx (fst ?b)" using assms(2) by (simp add: fits_def Let_def)
  ultimately show ?thesis using assms(1) by (auto simp: w store_ok_def event_derived_def)
qed

lemma fold_writes_ok:
  assumes "store_ok fx db" "distinct (map ev_key evs)"
    "\<And>ev. ev \<in> set evs \<Longrightarrow> cur (ev_key ev) = jd_current db (row_id t subject (ev_key ev)) \<and> fits fx env t subject src (cur (ev_key ev)) ev"
  shows "store_ok fx (fold (write_event env t subject src cur) evs db)"
  using assms
proof (induction evs arbitrary: db)
  case (Cons ev evs)
  have ok: "store_ok fx (write_event env t subject src cur ev db)"
    using Cons.prems(1) Cons.prems(3) [of ev] by (intro write_event_ok) auto
  have other: "jd_current (write_event env t subject src cur ev db) (row_id t subject k) = jd_current db (row_id t subject k)"
    if "k \<noteq> ev_key ev" for k
    using that by (simp add: write_event_def case_prod_unfold row_id_def Let_def)
  have "store_ok fx (fold (write_event env t subject src cur) evs (write_event env t subject src cur ev db))"
  proof (rule Cons.IH [OF ok])
    show "distinct (map ev_key evs)" using Cons.prems(2) by simp
    fix x assume x: "x \<in> set evs"
    then have "ev_key x \<noteq> ev_key ev" using Cons.prems(2) by (auto simp: image_iff)
    then show "cur (ev_key x) = jd_current (write_event env t subject src cur ev db) (row_id t subject (ev_key x))
        \<and> fits fx env t subject src (cur (ev_key x)) x"
      using other Cons.prems(3) [of x] x by (metis list.set_intros(2))
  qed
  then show ?case by simp
qed simp


section \<open>Verdicts\<close>

lemma scanNew_passes:
  "env_of fx env \<Longrightarrow> scanNew env v = VerdictPass_j \<Longrightarrow> fx_judge fx (je_scanner env) (text_of fx v) = VerdictPass_j"
  by (simp add: scanNew_def text_of_def env_of_def)

lemma entry_sound: "env_of fx env \<Longrightarrow> sound_pass fx v (entry env v)"
  by (simp add: sound_pass_def entry_def scanNew_passes)

lemma judged_whole: "env_of fx env \<Longrightarrow> judged fx t fs (whole_scan env t fs)"
  by (auto simp: judged_def whole_scan_def intro: entry_sound)

lemma judged_updated:
  assumes "env_of fx env" "judged fx t before scan" "\<And>f. before f \<noteq> Some []"
  shows "judged fx t aft (updated_scan env t scan aft (changes before aft))"
proof -
  have "\<exists>e. updated_scan env t scan aft (changes before aft) f = Some e \<and> sound_pass fx v e"
    if f: "IsText t f" "aft f = Some v" for f v
  proof (cases "changes before aft f")
    case None
    then have "before f = Some v" using changes_None [OF None assms(3)] f(2) by simp
    then show ?thesis using None f assms(2) by (auto simp: updated_scan_def judged_def)
  next
    case (Some c)
    then show ?thesis using changes_new [OF Some] f entry_sound [OF assms(1)] by (auto simp: updated_scan_def)
  qed
  then show ?thesis by (simp add: judged_def)
qed

lemma scanNew_ever: "env_of fx env \<Longrightarrow> scanNew env v = VerdictPass_j \<Longrightarrow> ever_passed fx v"
  using scanNew_passes by (auto simp: ever_passed_def)

lemma no_verdict [simp]: "[] \<noteq> VerdictPass_j"
  by (simp add: VerdictPass_j_def)

lemma event_judged_whole:
  assumes "env_of fx env" "ev_kind ev = Created \<or> ev_kind ev = Restored"
  shows "event_judged fx (fst (buildEvent env t subject src prev ev))"
  using assms(2) scanNew_ever [OF assms(1)] by (auto simp: event_judged_def event_values_def buildEvent_def Let_def split: if_splits)

text \<open>The old side of an event takes over the verdict of the row.\<close>

lemma old_verdict_ever:
  assumes "judged fx t before scan" "IsText t f" "before f = Some v"
    "se_verdict (case scan f of Some e \<Rightarrow> e | None \<Rightarrow> \<lparr>se_verdict = [], se_version = []\<rparr>) = VerdictPass_j"
  shows "ever_passed fx v"
  using assms unfolding judged_def sound_pass_def ever_passed_def by fastforce

lemma event_judged_updated:
  assumes "env_of fx env" "ev_kind ev = Updated" "judged fx t before (cu_scan prev)" "ev_changed ev = changes before aft"
  shows "event_judged fx (fst (buildEvent env t subject src prev ev))"
proof -
  let ?ch = "changes before aft"
  have "er_scan (fst (buildEvent env t subject src prev ev)) = change_scan env t (cu_scan prev) ?ch"
    "event_values (er_kind (fst (buildEvent env t subject src prev ev))) (er_fields (fst (buildEvent env t subject src prev ev)))
       (er_changed (fst (buildEvent env t subject src prev ev))) = Some (olds_of ?ch, news_of ?ch)"
    using assms(2,4) by (simp_all add: buildEvent_def event_values_def Let_def)
  moreover have "ever_passed fx v" if "change_scan env t (cu_scan prev) ?ch f = Some sc" "olds_of ?ch f = Some v" "es_old sc = VerdictPass_j" for f sc v
    using that changes_old [of before aft f] old_verdict_ever [OF assms(3), of f v]
    by (auto simp: change_scan_def olds_of_def Let_def split: option.splits if_splits)
  moreover have "ever_passed fx v" if "change_scan env t (cu_scan prev) ?ch f = Some sc" "news_of ?ch f = Some v" "es_new sc = VerdictPass_j" for f sc v
    using that scanNew_ever [OF assms(1)] by (auto simp: change_scan_def news_of_def Let_def split: option.splits if_splits)
  ultimately show ?thesis unfolding event_judged_def by (metis option.inject prod.inject)
qed

lemma event_judged_removed:
  assumes "ev_kind ev = Removed" "judged fx t before (cu_scan prev)" "ev_before ev = Some before"
  shows "event_judged fx (fst (buildEvent env t subject src prev ev))"
  using assms(1,3) old_verdict_ever [OF assms(2)]
  by (auto simp: event_judged_def event_values_def buildEvent_def Let_def split: if_splits)

section \<open>The planned events fit\<close>

definition active_type :: "fixed_env \<Rightarrow> RType \<Rightarrow> bool" where
  "active_type fx t \<longleftrightarrow> (\<exists>name. Registry_Active (fx_registry fx) name = Some t)"

lemma active_unique:
  assumes "synced fx" "active_type fx t" "Registry_Active (fx_registry fx) name = Some u" "ty_name u = ty_name t"
  shows "u = t"
proof -
  obtain types where "NewRegistry_t types = Inr (fx_registry fx)" using assms(1) by (auto simp: synced_def)
  then show ?thesis using Registry_Active_name assms(2-) unfolding active_type_def by (metis option.inject)
qed

lemma row_ok_active:
  assumes "synced fx" "active_type fx t"
  shows "row_ok fx (ty_name t) c \<longleftrightarrow> cu_scope c \<noteq> [] \<and> finite (dom (cu_fields c)) \<and> (\<forall>f. cu_fields c f \<noteq> Some [])
    \<and> settled fx (ty_name t) (cu_fields c) \<and> cu_hash c = Fields_Hash (sl_sha256 (fx_lib fx)) (cu_fields c)
    \<and> judged fx t (cu_fields c) (cu_scan c)"
proof -
  obtain name where n: "Registry_Active (fx_registry fx) name = Some t" using assms(2) by (auto simp: active_type_def)
  moreover obtain types where "NewRegistry_t types = Inr (fx_registry fx)" using assms(1) by (auto simp: synced_def)
  ultimately have "Registry_Active (fx_registry fx) (ty_name t) \<noteq> None" using Registry_Active_name(1) by fastforce
  then show ?thesis unfolding row_ok_def using active_unique [OF assms] n by blast
qed

lemma ForwardName_same:
  "synced fx \<Longrightarrow> active_type fx t \<Longrightarrow> ForwardName (fx_registry fx) (ty_name t) (ty_version t) f = f"
  unfolding synced_def active_type_def using ForwardName_active by blast

lemma built_event_ok:
  assumes "synced fx" "active_type fx t"
  shows "event_ok fx (fst (buildEvent env t subject src prev ev)) = event_judged fx (fst (buildEvent env t subject src prev ev))"
proof -
  have "id_type (er_id (fst (buildEvent env t subject src prev ev))) = ty_name t"
    "er_version (fst (buildEvent env t subject src prev ev)) = ty_version t"
    by (simp_all add: buildEvent_def Let_def row_id_def split: Kind.split)
  moreover have "ForwardName (fx_registry fx) (ty_name t) (ty_version t) = (\<lambda>f. f)"
    using ForwardName_same [OF assms] by (rule ext)
  ultimately show ?thesis by (simp add: event_ok_def)
qed

text \<open>What is known of the input of a plan: rows in order, and storable records.\<close>

definition plannable :: "fixed_env \<Rightarrow> RType \<Rightarrow> Input \<Rightarrow> bool" where
  "plannable fx t inp \<longleftrightarrow> finite (dom (in_current inp)) \<and> distinct (map nr_key (in_records inp)) \<and> in_scope inp \<noteq> []
     \<and> (\<forall>k c. in_current inp k = Some c \<longrightarrow> row_ok fx (ty_name t) c)
     \<and> (\<forall>r \<in> set (in_records inp). finite (dom (nr_fields r)) \<and> (\<forall>f. nr_fields r f \<noteq> Some []) \<and> settled fx (ty_name t) (nr_fields r)
          \<and> nr_hash r = Fields_Hash (sl_sha256 (fx_lib fx)) (nr_fields r)
          \<and> (\<forall>c. in_current inp (nr_key r) = Some c \<and> cu_hash c = nr_hash r \<longrightarrow> cu_fields c = nr_fields r))"

lemma plannable_input_ok: "plannable fx t inp \<Longrightarrow> input_ok inp"
  by (auto simp: plannable_def input_ok_def row_ok_def)

lemma record_event_fits:
  assumes "synced fx" "env_of fx env" "active_type fx t" "plannable fx t inp" "r \<in> set (in_records inp)" "diff_record inp r = Emit ev"
  shows "fits fx env t subject src (in_current inp (nr_key r)) ev"
proof -
  note rn = ForwardName_same [OF assms(1,3)]
  have whole: "event_ok fx (fst (buildEvent env t subject src prev ev))" if "ev_kind ev = Created \<or> ev_kind ev = Restored" for prev
    using that by (simp add: built_event_ok [OF assms(1,3)] event_judged_whole [OF assms(2)])
  have sha: "je_sha256 env = sl_sha256 (fx_lib fx)" using assms(2) by (simp add: env_of_def)
  have r: "finite (dom (nr_fields r))" "\<forall>f. nr_fields r f \<noteq> Some []" "settled fx (ty_name t) (nr_fields r)" "in_scope inp \<noteq> []"
    using assms(4,5) by (auto simp: plannable_def)
  show ?thesis
  proof (cases "in_current inp (nr_key r)")
    case None
    then have ev: "ev_kind ev = Created" "ev_after ev = Some (nr_fields r)" "ev_scope ev = in_scope inp" "ev_audience ev = nr_audience r"
      using assms(6) by (auto simp: diff_record_def)
    then show ?thesis using None r rn judged_whole [OF assms(2)] whole sha
      by (simp add: fits_def Let_def prev_row_def buildEvent_def stored_def fold_row_whole derived_def after_of_def
          row_ok_active [OF assms(1,3)])
  next
    case (Some c)
    have c: "row_ok fx (ty_name t) c" using assms(4) Some by (auto simp: plannable_def)
    show ?thesis
    proof (cases "cu_removed c")
      case True
      then have ev: "ev_kind ev = Restored" "ev_after ev = Some (nr_fields r)" "ev_scope ev = in_scope inp" "ev_audience ev = nr_audience r"
        using assms(6) Some by (auto simp: diff_record_def Let_def split: if_splits)
      then show ?thesis using Some r rn judged_whole [OF assms(2)] whole sha
        by (simp add: fits_def Let_def prev_row_def buildEvent_def stored_def fold_row_whole derived_def after_of_def
            row_ok_active [OF assms(1,3)])
    next
      case False
      then have ev: "ev_kind ev = Updated" "ev_after ev = Some (nr_fields r)" "ev_scope ev = in_scope inp" "ev_audience ev = nr_audience r"
        "ev_changed ev = changes (cu_fields c) (nr_fields r)"
        using assms(6) Some by (auto simp: diff_record_def Let_def split: if_splits)
      have "judged fx t (nr_fields r) (updated_scan env t (cu_scan c) (nr_fields r) (changes (cu_fields c) (nr_fields r)))"
        using c by (intro judged_updated [OF assms(2)]) (auto simp: row_ok_active [OF assms(1,3)])
      moreover have "event_ok fx (fst (buildEvent env t subject src (prev_row (Some c)) ev))"
        unfolding built_event_ok [OF assms(1,3)] using c ev by (intro event_judged_updated [OF assms(2), where before = "cu_fields c" and aft = "nr_fields r"])
          (auto simp: row_ok_active [OF assms(1,3)] prev_row_def)
      ultimately show ?thesis using Some r rn c sha ev
        by (simp add: fits_def Let_def prev_row_def buildEvent_def stored_def fold_row_updated derived_def after_of_def
            row_ok_active [OF assms(1,3)])
    qed
  qed
qed

lemma removal_event_fits:
  assumes "synced fx" "env_of fx env" "active_type fx t" "plannable fx t inp" "removal jl inp k = Some ev"
  shows "fits fx env t subject src (in_current inp k) ev"
proof -
  obtain c where c: "in_current inp k = Some c" using assms(5) by (auto simp: removal_def split: option.splits)
  then have ev: "ev_kind ev = Removed" "ev_scope ev = cu_scope c" "ev_audience ev = cu_audience c" "ev_before ev = Some (cu_fields c)"
    using assms(5) by (auto simp: removal_def split: if_splits)
  have ok: "row_ok fx (ty_name t) c" using assms(4) c by (auto simp: plannable_def)
  moreover have "event_ok fx (fst (buildEvent env t subject src c ev))"
    unfolding built_event_ok [OF assms(1,3)] using ok ev by (intro event_judged_removed [where before = "cu_fields c"]) (auto simp: row_ok_active [OF assms(1,3)])
  moreover have "je_sha256 env = sl_sha256 (fx_lib fx)" using assms(2) by (simp add: env_of_def)
  ultimately show ?thesis using c ev
    by (simp add: fits_def Let_def prev_row_def buildEvent_def stored_def fold_row_def derived_def row_ok_active [OF assms(1,3)]
       )
qed

section \<open>Snapshots and notes keep the invariant\<close>

lemma filter_le_one_distinct: "(\<And>k. length (filter (\<lambda>x. f x = k) xs) \<le> 1) \<Longrightarrow> distinct (map f xs)"
proof (induction xs)
  case (Cons x xs)
  have "length (filter (\<lambda>y. f y = k) xs) \<le> 1" for k using Cons.prems [of k] by (auto split: if_splits)
  moreover have "f x \<notin> f ` set xs"
  proof
    assume "f x \<in> f ` set xs"
    then have "filter (\<lambda>y. f y = f x) xs \<noteq> []" by (auto simp: filter_empty_conv)
    then show False using Cons.prems [of "f x"] by simp
  qed
  ultimately show ?case using Cons.IH by simp
qed simp

lemma plan_keys_distinct:
  assumes "input_ok inp"
  shows "distinct (map ev_key (pl_events (Diff jl inp) @ pl_removals (Diff jl inp)))"
proof (rule filter_le_one_distinct)
  fix k
  show "length (filter (\<lambda>e. ev_key e = k) (pl_events (Diff jl inp) @ pl_removals (Diff jl inp))) \<le> 1"
    unfolding plan_at [OF assms] by (simp split: option.split share.split)
qed

lemma plan_events_fit:
  assumes "synced fx" "env_of fx env" "active_type fx t" "plannable fx t inp"
    "ev \<in> set (pl_events (Diff jl inp) @ pl_removals (Diff jl inp))"
  shows "fits fx env t subject src (in_current inp (ev_key ev)) ev"
proof -
  from assms(5) consider (rec) r where "r \<in> set (in_records inp)" "diff_record inp r = Emit ev"
    | (rem) k where "removal jl inp k = Some ev"
    by (auto simp: pl_events_eq pl_removals_eq List.map_filter_def split: share.splits if_splits)
  then show ?thesis
  proof cases
    case rec
    then show ?thesis using record_event_fits [OF assms(1-4)] Emit_key by metis
  next
    case rem
    then show ?thesis using removal_event_fits [OF assms(1-4)] removal_key by metis
  qed
qed

lemma store_ok_cong: "jd_current db' = jd_current db \<Longrightarrow> jd_events db' = jd_events db \<Longrightarrow> store_ok fx db' = store_ok fx db"
  by (simp add: store_ok_def event_derived_def)

lemma row_ok_confirm: "row_ok fx rt (confirm_row t0 c) = row_ok fx rt c"
  by (simp add: row_ok_def confirm_row_def)

lemma confirm_ok:
  assumes "store_ok fx db"
  shows "store_ok fx (db\<lparr>jd_current := (\<lambda>i. if P i then map_option (confirm_row t0) (jd_current db i) else jd_current db i), jd_book := b\<rparr>)"
proof -
  let ?c = "\<lambda>i. if P i then map_option (confirm_row t0) (jd_current db i) else jd_current db i"
  have "dom ?c = dom (jd_current db)" by (auto split: if_splits)
  moreover have "map_option derived (?c i) = map_option derived (jd_current db i)" for i by (simp add: option.map_comp comp_def)
  moreover have "?c i = Some c \<Longrightarrow> row_ok fx (id_type i) c" for i c
    using assms by (auto simp: store_ok_def row_ok_confirm split: if_splits)
  ultimately show ?thesis using assms by (simp add: store_ok_def event_derived_def)
qed

lemma writePlan_ok:
  assumes "synced fx" "env_of fx env" "active_type fx t" "plannable fx t inp" "store_ok fx db"
    "\<And>ev. ev \<in> set (pl_events (Diff jl inp) @ pl_removals (Diff jl inp)) \<Longrightarrow>
       in_current inp (ev_key ev) = jd_current db (row_id t subject (ev_key ev))"
  shows "store_ok fx (writePlan env t subject src (in_current inp) (Diff jl inp) db)"
proof -
  have "store_ok fx (fold (write_event env t subject src (in_current inp)) (pl_events (Diff jl inp) @ pl_removals (Diff jl inp)) db)"
    using assms plan_keys_distinct [OF plannable_input_ok [OF assms(4)]] plan_events_fit [OF assms(1-4)]
    by (intro fold_writes_ok) blast+
  then show ?thesis unfolding writePlan_def Let_def by (rule confirm_ok)
qed

lemma loadCurrent_ok:
  assumes "env_of fx env" "active_type fx t" "store_ok fx db"
  shows "loadCurrent env db t subject key = Inr (\<lambda>k. if key = [] \<or> k = key then jd_current db (row_id t subject k) else None)"
proof -
  let ?rows = "\<lambda>k. if key = [] \<or> k = key then jd_current db (row_id t subject k) else None"
  let ?load = "load_fields (je_json env) (je_jsonb env) t"
  have load: "?load (cu_fields c) = Inr (cu_fields c)" if "?rows k = Some c" for k c
  proof -
    have "jd_current db (row_id t subject k) = Some c" using that by (simp split: if_splits)
    then have "row_ok fx (id_type (row_id t subject k)) c" using assms(3) unfolding store_ok_def by blast
    then have "row_ok fx (ty_name t) c" by (simp add: row_id_def)
    then show ?thesis using assms(1,2) by (auto simp: row_ok_def settled_def active_type_def env_of_def)
  qed
  have "dom ?rows \<subseteq> id_key ` dom (jd_current db)" by (force simp: row_id_def split: if_splits)
  then have fin: "finite (dom ?rows)" using assms(3) finite_surj by (auto simp: store_ok_def)
  have "\<not> (\<exists>e. ?load (cu_fields (the (?rows k))) = Inl e)" if k: "k \<in> set (Keys ?rows)" for k
  proof -
    obtain c where "?rows k = Some c" using k unfolding set_Keys [OF fin] by blast
    then show ?thesis using load [of k c] by (simp only: option.sel) simp
  qed
  then have "List.find (\<lambda>k. \<exists>e. ?load (cu_fields (the (?rows k))) = Inl e) (Keys ?rows) = None"
    unfolding find_None_iff by blast
  moreover have "map_option (\<lambda>c. case ?load (cu_fields c) of Inr f \<Rightarrow> c\<lparr>cu_fields := f\<rparr> | Inl _ \<Rightarrow> c) (?rows k) = ?rows k" for k
    using load [of k] by (cases "?rows k") auto
  ultimately show ?thesis unfolding loadCurrent_def Let_def by simp
qed


text \<open>What validation gives of a snapshot and of a note.\<close>

definition sound_records :: "fixed_env \<Rightarrow> NormRecord list \<Rightarrow> bool" where
  "sound_records fx rs \<longleftrightarrow> distinct (map nr_key rs)
     \<and> (\<forall>r \<in> set rs. finite (dom (nr_fields r)) \<and> nr_hash r = Fields_Hash (sl_sha256 (fx_lib fx)) (nr_fields r))"

lemma Scope_Canonical_nonempty: "s \<noteq> [] \<Longrightarrow> Scope_Canonical s \<noteq> []"
  by (cases s; cases "tl s") (auto simp: Scope_Canonical_def)

lemma HouseholdScope_nonempty: "HouseholdScope rt subject \<noteq> []"
  unfolding HouseholdScope_def by (intro Scope_Canonical_nonempty) simp

lemma ValidateSnapshot_scope:
  assumes "ValidateSnapshot sl ord reg s now = Inr n"
  shows "n_scopeKey n \<noteq> []"
proof -
  have "ParseScope (sn_scope s) = Inr (n_scope n) \<and> n_scopeKey n = Scope_Canonical (n_scope n)"
    using assms by (auto simp: ValidateSnapshot_def Let_def split: option.splits if_splits sum.splits)
  then have "n_scope n \<noteq> [] \<and> n_scopeKey n = Scope_Canonical (n_scope n)"
    by (auto simp: ParseScope_def split: if_splits option.splits)
  then show ?thesis using Scope_Canonical_nonempty by simp
qed

lemma snapshot_sound:
  assumes "ValidateSnapshot (fx_lib fx) ord (fx_registry fx) s now = Inr n"
  shows "active_type fx (n_type n) \<and> n_scopeKey n \<noteq> [] \<and> sound_records fx (n_records n)"
  using ValidateSnapshot_shape [OF assms] ValidateSnapshot_scope [OF assms] ValidateSnapshot_type [OF assms]
  by (auto simp: active_type_def sound_records_def list_all_iff record_ok_def)

lemma note_sound:
  assumes "ValidateNote (fx_lib fx) (fx_registry fx) nt = Inr n"
  shows "active_type fx (nn_type n) \<and> nn_scope n \<noteq> [] \<and> sound_records fx [note_record n]"
proof -
  have "\<exists>name t f inp. Registry_Active (fx_registry fx) name = Some t \<and> nn_type n = t \<and> NormalizeFields (sl_json (fx_lib fx)) t inp = Inr f
      \<and> nn_fields n = f \<and> nn_hash n = Fields_Hash (sl_sha256 (fx_lib fx)) f \<and> nn_scope n = HouseholdScope (ty_name t) (nn_subject n)"
    using assms by (auto simp: ValidateNote_def Let_def split: option.splits if_splits sum.splits)
  then show ?thesis using NormalizeFields_finite HouseholdScope_nonempty
    by (auto simp: active_type_def sound_records_def note_record_def)
qed

lemma plannable_input:
  assumes "store_ok fx db" "sound_records fx (in_records inp)" "storable fx env db t subject (in_records inp)" "in_scope inp \<noteq> []"
    "\<And>k. in_current inp k = (if key = [] \<or> k = key then jd_current db (row_id t subject k) else None)"
  shows "plannable fx t inp"
proof -
  have row: "row_ok fx (ty_name t) c \<and> jd_current db (row_id t subject k) = Some c" if "in_current inp k = Some c" for k c
  proof -
    have c: "jd_current db (row_id t subject k) = Some c" using that assms(5) by (simp split: if_splits)
    then have "row_ok fx (id_type (row_id t subject k)) c" using assms(1) unfolding store_ok_def by blast
    then show ?thesis using c by (simp add: row_id_def)
  qed
  have "dom (in_current inp) \<subseteq> id_key ` dom (jd_current db)" using row by (force simp: row_id_def)
  then have "finite (dom (in_current inp))" using assms(1) finite_surj by (auto simp: store_ok_def)
  moreover have "cu_hash c = Fields_Hash (sl_sha256 (fx_lib fx)) (cu_fields c)" if "row_ok fx (ty_name t) c" for c
    using that by (simp add: row_ok_def)
  ultimately show ?thesis using row assms(2-4) by (auto simp: plannable_def sound_records_def storable_def)
qed

lemma applyFromOrdering_ok:
  assumes "synced fx" "env_of fx env" "active_type fx (n_type n)" "n_scopeKey n \<noteq> []" "sound_records fx (n_records n)"
    "storable fx env db (n_type n) (n_subject n) (n_records n)" "store_ok fx db"
    "applyFromOrdering env db n writer payload now confirmID = Commit db' out"
  shows "store_ok fx db'"
proof -
  let ?cur = "\<lambda>k. jd_current db (row_id (n_type n) (n_subject n) k)"
  have cur: "loadCurrent env db (n_type n) (n_subject n) [] = Inr ?cur"
    using loadCurrent_ok [OF assms(2,3,7), of "n_subject n" "[]"] by simp
  have inp: "plannable fx (n_type n) (input_of n ?cur)"
    by (rule plannable_input [OF assms(7), where key = "[]" and env = env and subject = "n_subject n"])
      (use assms in \<open>simp_all add: input_of_def\<close>)
  have plan: "store_ok fx (writePlan env (n_type n) (n_subject n) src ?cur (Diff jl (input_of n ?cur)) db)" for src jl
    using writePlan_ok [OF assms(1-3) inp assms(7), of jl "n_subject n" src] by (simp add: input_of_def)
  have same: "jd_current d' = jd_current d \<and> jd_events d' = jd_events d"
    if "storeSnapshot d n writer payload now ci o' = Some d'" for d d' ci o'
    using storeSnapshot_tables [OF that] by simp
  from assms(8) consider
      (kept) ci o' where "storeSnapshot db n writer payload now ci o' = Some db'"
    | (applied) src stored where
        "storeSnapshot (writePlan env (n_type n) (n_subject n) src ?cur (Diff (je_json env) (input_of n ?cur)) db) n writer payload now confirmID out
          = Some stored"
        "db' = stored\<lparr>jd_snapshots := map (discard_held n) (jd_snapshots stored)\<rparr>"
    by (auto simp: applyFromOrdering_def store_or_reuse_def Let_def cur split: if_splits option.splits)
  then show ?thesis
  proof cases
    case kept
    then show ?thesis using same assms(7) store_ok_cong by blast
  next
    case applied
    then have "store_ok fx stored" using same plan store_ok_cong by blast
    then show ?thesis unfolding applied(2) by (subst store_ok_cong [where db = stored]) simp_all
  qed
qed

section \<open>An erase keeps the invariant\<close>

lemma Fold_at: "Fold rename es i = fold (row_step rename) (filter (\<lambda>e. fe_id e = i) es) None"
  by (simp add: Fold_def Fold_from_at)

lemma fe_id_fold_event [simp]: "fe_id (fold_event e) = er_id e"
  by (simp add: fold_event_def)

lemma filter_fold_event: "filter (\<lambda>e. fe_id e = i) (map fold_event es) = map fold_event (filter (\<lambda>e. er_id e = i) es)"
  by (simp add: filter_map comp_def)

lemma delete_rows_ok:
  assumes "store_ok fx db"
  shows "store_ok fx (delete_rows P db)"
proof -
  have "filter (\<lambda>e. er_id e = i) (filter (\<lambda>e. \<not> P (er_id e)) es) = (if P i then [] else filter (\<lambda>e. er_id e = i) es)"
    for i and es :: "EventRow list" by (induction es) auto
  then have "event_derived rn (delete_rows P db)" if "event_derived rn db" for rn
    using that unfolding event_derived_def Fold_at filter_fold_event delete_rows_def by (simp del: filter_filter)
  moreover have "dom (\<lambda>i. if P i then None else jd_current db i) \<subseteq> dom (jd_current db)" by (auto split: if_splits)
  ultimately show ?thesis using assms finite_subset by (auto simp: store_ok_def delete_rows_def split: if_splits)
qed

lemma fold_row_moved:
  assumes "id_type j = id_type (fe_id e)"
  shows "fold_row rename (e\<lparr>fe_id := j, fe_scope := s\<rparr>) (row\<lparr>fr_scope := s'\<rparr>) = (fold_row rename e row)\<lparr>fr_scope := s\<rparr>"
  using assms by (cases "fe_kind e") (simp_all add: fold_row_def Let_def)

lemma fold_moved:
  assumes "\<And>e. e \<in> set es \<Longrightarrow> id_type j = id_type (fe_id e)"
  shows "fold (row_step rename) (map (\<lambda>e. e\<lparr>fe_id := j, fe_scope := s\<rparr>) es) (map_option (\<lambda>r. r\<lparr>fr_scope := s'\<rparr>) ro) =
    (if es = [] then map_option (\<lambda>r. r\<lparr>fr_scope := s'\<rparr>) ro else map_option (\<lambda>r. r\<lparr>fr_scope := s\<rparr>) (fold (row_step rename) es ro))"
  using assms
proof (induction es arbitrary: ro s')
  case (Cons e es)
  have zero: "zero_row = zero_row\<lparr>fr_scope := []\<rparr>" by (simp add: zero_row_def)
  have one: "row_step rename (e\<lparr>fe_id := j, fe_scope := s\<rparr>) (map_option (\<lambda>r. r\<lparr>fr_scope := s'\<rparr>) ro)
      = map_option (\<lambda>r. r\<lparr>fr_scope := s\<rparr>) (row_step rename e ro)"
    using fold_row_moved [of j e] Cons.prems zero by (cases ro) (auto simp: row_step_def, metis)
  show ?case using Cons.IH [of s "row_step rename e ro"] Cons.prems one by simp
qed simp

lemma fold_event_moved:
  "er_id e = note_id n subject \<Longrightarrow> fold_event (move_event n subject marker e) =
     (fold_event e)\<lparr>fe_id := note_id n marker, fe_scope := HouseholdScope (kn_recordType n) []\<rparr>"
  by (simp add: fold_event_def move_event_def Let_def)

lemma moved_ids:
  assumes "subject \<noteq> marker"
  shows "filter (\<lambda>e. er_id e = i) (map (move_event n subject marker) es) =
    (if i = note_id n marker
     then map (move_event n subject marker) (filter (\<lambda>e. er_id e = note_id n subject \<or> er_id e = note_id n marker) es)
     else if i = note_id n subject then [] else filter (\<lambda>e. er_id e = i) es)"
  using assms by (induction es) (auto simp: move_event_def Let_def note_id_def)

lemma row_ok_scope: "row_ok fx rt c \<Longrightarrow> s \<noteq> [] \<Longrightarrow> row_ok fx rt (c\<lparr>cu_scope := s\<rparr>)"
  by (auto simp: row_ok_def)

lemma move_ok:
  assumes "store_ok fx db" "subject \<noteq> marker" "jd_current db (note_id n marker) = None"
  shows "store_ok fx (db\<lparr>jd_events := map (move_event n subject marker) (jd_events db),
    jd_current := move_current n subject marker (jd_current db)\<rparr>)"
proof -
  let ?rn = "ForwardName (fx_registry fx)" and ?s = "HouseholdScope (kn_recordType n) []"
  let ?old = "note_id n subject" and ?new = "note_id n marker" and ?es = "jd_events db"
  have at: "fold (row_step ?rn) (map fold_event (filter (\<lambda>e. er_id e = i) ?es)) None = map_option derived (jd_current db i)" for i
    using assms(1) by (simp add: store_ok_def event_derived_def Fold_at filter_fold_event)
  have some: "fold (row_step ?rn) es (Some r) \<noteq> None" for es r
    by (induction es arbitrary: r) (auto simp: row_step_def)
  have "filter (\<lambda>e. er_id e = ?new) ?es = []"
    using at [of ?new] assms(3) some by (cases "filter (\<lambda>e. er_id e = ?new) ?es") (auto simp: row_step_def)
  then have nonew: "filter (\<lambda>e. er_id e = ?old \<or> er_id e = ?new) ?es = filter (\<lambda>e. er_id e = ?old) ?es"
    by (induction ?es) (auto simp: filter_empty_conv intro: filter_cong)
  define olds where "olds = map fold_event (filter (\<lambda>e. er_id e = ?old) ?es)"
  have ev: "map fold_event (map (move_event n subject marker) (filter (\<lambda>e. er_id e = ?old) ?es)) =
      map (\<lambda>e. e\<lparr>fe_id := ?new, fe_scope := ?s\<rparr>) olds"
    by (simp add: fold_event_moved olds_def)
  have ids: "id_type ?new = id_type (fe_id e)" if "e \<in> set olds" for e
    using that by (auto simp: note_id_def olds_def)
  have moved: "fold (row_step ?rn) (map (\<lambda>e. e\<lparr>fe_id := ?new, fe_scope := ?s\<rparr>) olds) None
      = map_option (\<lambda>r. r\<lparr>fr_scope := ?s\<rparr>) (map_option derived (jd_current db ?old))"
    using fold_moved [of olds ?new ?rn ?s "[]" None] ids at [of ?old] unfolding olds_def [symmetric] by (simp split: if_splits)
  have "Fold ?rn (map fold_event (map (move_event n subject marker) ?es)) i
      = map_option derived (move_current n subject marker (jd_current db) i)" for i
    unfolding Fold_at filter_fold_event moved_ids [OF assms(2)] nonew
    using at [of i] moved ev assms(2) by (auto simp: move_row_def note_id_def option.map_comp comp_def derived_def)
  moreover have "dom (move_current n subject marker (jd_current db)) \<subseteq> insert ?new (dom (jd_current db))"
    by (auto simp: move_row_def split: if_splits)
  then have "finite (dom (move_current n subject marker (jd_current db)))"
    using assms(1) finite_subset by (auto simp: store_ok_def)
  moreover have "row_ok fx (id_type i) c" if m: "move_current n subject marker (jd_current db) i = Some c" for i c
  proof (cases "i = ?new")
    case True
    then obtain c0 where c0: "jd_current db ?old = Some c0" "c = c0\<lparr>cu_scope := ?s\<rparr>"
      using m by (auto simp: move_row_def)
    then have "row_ok fx (id_type ?old) c0" using assms(1) unfolding store_ok_def by blast
    then show ?thesis using True c0(2) row_ok_scope HouseholdScope_nonempty by (simp add: note_id_def)
  next
    case False
    then show ?thesis using m assms(1) by (auto simp: move_row_def store_ok_def split: if_splits)
  qed
  moreover have "\<forall>e \<in> set (jd_events db). event_ok fx e" using assms(1) by (simp add: store_ok_def)
  ultimately show ?thesis by (simp add: store_ok_def event_derived_def)
qed


text \<open>The markers of one erase are pairwise different.\<close>

definition digits_of :: "string \<Rightarrow> nat" where
  "digits_of s = foldl (\<lambda>a c. 10 * a + (of_char c - 48)) 0 s"

lemma digits_of_show_nat: "digits_of (show_nat n) = n"
proof (induction n rule: show_nat.induct)
  case (1 n)
  have c: "of_char (char_of (48 + d) :: char) - 48 = d" if "d < 10" for d :: nat
    using that by (simp add: of_char_of)
  show ?case
  proof (cases "n < 10")
    case True
    then show ?thesis using c [of n] by (subst show_nat.simps) (simp add: digits_of_def)
  next
    case False
    then have "digits_of (show_nat (n div 10)) = n div 10" using 1 by simp
    moreover have "digits_of (show_nat n) = 10 * digits_of (show_nat (n div 10)) + n mod 10"
      using False c [of "n mod 10"] by (subst show_nat.simps) (simp add: digits_of_def)
    ultimately show ?thesis by simp
  qed
qed

lemma show_nat_inj: "show_nat m = show_nat n \<Longrightarrow> m = n"
  using digits_of_show_nat by metis

definition unused :: "string \<Rightarrow> nat \<Rightarrow> JDB \<Rightarrow> bool" where
  "unused pseudonym k db \<longleftrightarrow> (\<forall>j > k. \<forall>i \<in> dom (jd_current db). id_subject i \<noteq> pseudonym @ CHR '':'' # show_nat j)"

lemma keep_note_ok:
  assumes "store_ok fx (snd st)" "unused pseudonym (fst st) (snd st)" "CHR '':'' \<notin> set subject"
  shows "store_ok fx (snd (keep_note ros subject pseudonym erased n st))
    \<and> unused pseudonym (fst (keep_note ros subject pseudonym erased n st)) (snd (keep_note ros subject pseudonym erased n st))"
proof -
  obtain kept db where st: "st = (kept, db)" by (cases st)
  define marker where "marker = pseudonym @ CHR '':'' # show_nat (Suc kept)"
  have ne: "subject \<noteq> marker" using assms(3) by (auto simp: marker_def)
  have none: "jd_current db (note_id n marker) = None"
    using assms(2) unfolding st unused_def marker_def by (fastforce simp: note_id_def dom_def)
  show ?thesis
  proof (cases "frozenReaders ros subject erased n = []")
    case False
    define db' where "db' = snd (keep_note ros subject pseudonym erased n st)"
    have k: "fst (keep_note ros subject pseudonym erased n st) = Suc kept"
      and c: "jd_current db' = move_current n subject marker (jd_current db)"
      and e: "jd_events db' = map (move_event n subject marker) (jd_events db)"
      using False by (simp_all add: db'_def keep_note_def st Let_def marker_def)
    have "store_ok fx db'"
      using move_ok [OF _ ne none, of fx] assms(1) st by (subst store_ok_cong [OF _ _]) (simp_all add: c e)
    moreover have "unused pseudonym (Suc kept) db'"
      unfolding unused_def
    proof (intro allI impI ballI)
      fix j i assume j: "Suc kept < j" and i: "i \<in> dom (jd_current db')"
      have "i = note_id n marker \<or> i \<in> dom (jd_current db)" using i by (auto simp: c move_row_def split: if_splits)
      then show "id_subject i \<noteq> pseudonym @ CHR '':'' # show_nat j"
      proof
        assume "i = note_id n marker"
        then show ?thesis using j show_nat_inj [of "Suc kept" j] by (auto simp: note_id_def marker_def)
      next
        assume "i \<in> dom (jd_current db)"
        then show ?thesis using assms(2) j unfolding st unused_def by auto
      qed
    qed
    ultimately show ?thesis using k by (simp add: db'_def)
  qed (use assms st in \<open>simp add: keep_note_def\<close>)
qed

lemma keepNotes_ok:
  assumes "store_ok fx db" "unused pseudonym 0 db" "CHR '':'' \<notin> set subject"
  shows "store_ok fx (snd (keepNotes env subject pseudonym db))"
proof -
  have "store_ok fx (snd (fold (keep_note ros subject pseudonym erased) ns st))"
    if "store_ok fx (snd st)" "unused pseudonym (fst st) (snd st)" for ros erased ns st
    using that
  proof (induction ns arbitrary: st)
    case (Cons n ns)
    then show ?case using keep_note_ok [OF Cons.prems assms(3), of ros erased n] by simp
  qed simp
  then show ?thesis using assms(1,2) by (simp add: keepNotes_def)
qed

lemma store_ok_tables [simp]:
  "store_ok fx (db\<lparr>jd_snapshots := x\<rparr>) = store_ok fx db" "store_ok fx (db\<lparr>jd_readers := y\<rparr>) = store_ok fx db"
  "store_ok fx (db\<lparr>jd_kept := z\<rparr>) = store_ok fx db" "store_ok fx (db\<lparr>jd_erasures := u\<rparr>) = store_ok fx db"
  by (simp_all add: store_ok_def event_derived_def)

lemma Erase_ok:
  assumes "store_ok fx db" "fresh db rnd" "Erase env rnd subject db = (db', r)"
  shows "store_ok fx db'"
proof (cases "db' = db")
  case False
  then obtain b where b: "rnd = Some b" "db' = fst (eraseLocked env subject (newPseudonym b) db)" "ValidID subject"
    using assms(3) by (auto simp: Erase_def Let_def case_prod_unfold split: if_splits option.splits)
  define db1 where "db1 = drop_orphans (erase_own (je_household env) subject db)"
  have "store_ok fx db1" using assms(1) by (simp add: db1_def drop_orphans_def drop_unkept_def erase_own_def delete_rows_ok)
  moreover have "dom (jd_current db1) \<subseteq> dom (jd_current db)"
    by (auto simp: db1_def drop_orphans_def drop_unkept_def erase_own_def delete_rows_def split: if_splits)
  then have "unused (newPseudonym b) 0 db1" using assms(2) b(1) by (auto simp: unused_def fresh_def prefix_def; blast)
  ultimately have "store_ok fx (snd (keepNotes env subject (newPseudonym b) db1))"
    using ValidID_no_colon [OF b(3)] by (intro keepNotes_ok)
  then show ?thesis unfolding b(2) eraseLocked_stages db1_def [symmetric] by (simp add: erase_subject_def delete_rows_ok)
qed (use assms in simp)

section \<open>Rescans keep the invariant\<close>

text \<open>What PostgreSQL gives back of a stored object: the same fields, with the same strings.\<close>

definition keeps_strings :: "fixed_env \<Rightarrow> bool" where
  "keeps_strings fx \<longleftrightarrow> (\<forall>fs m f. fx_jsonb fx fs = Some m \<longrightarrow> (m f = None \<longleftrightarrow> fs f = None)
     \<and> (\<forall>v w. fs f = Some v \<and> m f = Some w \<longrightarrow> jl_string (sl_json (fx_lib fx)) w = jl_string (sl_json (fx_lib fx)) v))"

lemma textVerdict_sound:
  assumes "env_of fx env" "keeps_strings fx" "fx_jsonb fx fs = Some m" "fs f = Some v" "m f = Some w" "textVerdict env w = VerdictPass_j"
  shows "fx_judge fx (je_scanner env) (text_of fx v) = VerdictPass_j"
proof -
  have "jl_string (sl_json (fx_lib fx)) w = jl_string (sl_json (fx_lib fx)) v"
    using assms(2-5) unfolding keeps_strings_def by blast
  then show ?thesis using assms(1,6)
    by (auto simp: textVerdict_def text_of_def env_of_def Let_def VerdictError_def VerdictPass_j_def split: option.splits if_splits)
qed

lemma judge_current_sound:
  assumes "env_of fx env" "keeps_strings fx" "judge_current env reg every r = Inr (Some u)" "cr_fields r f = Some v" "cp_scan u f = Some e"
  shows "sound_pass fx v e \<or> cr_scan r f = Some e"
proof -
  have "je_jsonb env = fx_jsonb fx" using assms(1) by (simp add: env_of_def)
  then obtain m where m: "fx_jsonb fx (cr_fields r) = Some m"
    and e: "e = \<lparr>se_verdict = textVerdict env (the (m f)), se_version = je_scanner env\<rparr> \<or> cr_scan r f = Some e"
    using assms(3,5) by (auto simp: judge_current_def Let_def split: option.splits if_splits)
  obtain w where "m f = Some w" using m assms(2,4) unfolding keeps_strings_def by fastforce
  then show ?thesis using e textVerdict_sound [OF assms(1,2) m assms(4)] by (auto simp: sound_pass_def)
qed

lemma judge_current_keeps: "judge_current env reg every r = Inr (Some u) \<Longrightarrow> cr_scan r f \<noteq> None \<Longrightarrow> cp_scan u f \<noteq> None"
  by (auto simp: judge_current_def Let_def split: option.splits if_splits)

lemma rescanned_row_ok:
  assumes "env_of fx env" "keeps_strings fx" "judge_current env reg every r = Inr (Some u)" "cu_fields c = cr_fields r" "cu_scan c = cr_scan r"
    "row_ok fx rt c"
  shows "row_ok fx rt (c\<lparr>cu_scan := cp_scan u\<rparr>)"
proof -
  have "judged fx t (cr_fields r) (cp_scan u)" if j: "judged fx t (cr_fields r) (cr_scan r)" for t
    unfolding judged_def
  proof (intro allI impI)
    fix f v assume fv: "IsText t f \<and> cr_fields r f = Some v"
    then obtain e0 where e0: "cr_scan r f = Some e0" "sound_pass fx v e0" using j unfolding judged_def by blast
    then obtain e where e: "cp_scan u f = Some e" using judge_current_keeps [OF assms(3), of f] by auto
    have "cr_fields r f = Some v" using fv by blast
    from judge_current_sound [OF assms(1-3) this e] show "\<exists>e. cp_scan u f = Some e \<and> sound_pass fx v e"
      using e e0 by auto
  qed
  moreover have "\<forall>f v e. cr_fields r f = Some v \<and> cp_scan u f = Some e \<longrightarrow> sound_pass fx v e"
    if "\<forall>f v e. cr_fields r f = Some v \<and> cr_scan r f = Some e \<longrightarrow> sound_pass fx v e"
    using judge_current_sound [OF assms(1-3)] that by blast
  ultimately show ?thesis using assms(4-6) by (simp add: row_ok_def) blast
qed

lemma rescan_current_ok:
  assumes "env_of fx env" "keeps_strings fx" "\<And>r. r \<in> set rows \<Longrightarrow> same_current db r" "store_ok fx db"
    "judgeCurrent env reg every rows db = Inr (db', res, late)"
  shows "store_ok fx db'"
proof -
  have "store_ok fx db' \<and> (\<forall>r \<in> set rows. same_current db' r)"
    using assms(5)
  proof (rule judgeCurrent_induct)
    show "store_ok fx db \<and> (\<forall>r \<in> set rows. same_current db r)" using assms(3,4) by blast
  next
    fix r u c b d
    assume r: "r \<in> set rows" "judge_current env reg every r = Inr (Some u)" "store_ok fx d \<and> (\<forall>r \<in> set rows. same_current d r)"
      and c: "jd_current d (cr_id r) = Some c" "jd_book d (cr_id r) = Some b" "bk_lastEventSeq b = cr_seq r" "cu_scan c = cr_scan r"
    let ?c = "c\<lparr>cu_scan := cp_scan u\<rparr>"
    have f: "cu_fields c = cr_fields r" using r(1,3) c(1-3) unfolding same_current_def by blast
    have "row_ok fx (id_type (cr_id r)) c" using r(3) c(1) by (simp add: store_ok_def)
    then have "row_ok fx (id_type (cr_id r)) ?c" using rescanned_row_ok [OF assms(1,2) r(2) f c(4)] by blast
    moreover have "derived ?c = derived c" by (simp add: derived_def)
    ultimately have "store_ok fx (d\<lparr>jd_current := (jd_current d)(cr_id r \<mapsto> ?c)\<rparr>)"
      using r(3) c(1) by (simp add: store_ok_def event_derived_def)
    moreover have "same_current (d\<lparr>jd_current := (jd_current d)(cr_id r \<mapsto> ?c)\<rparr>) x" if "same_current d x" for x
      using that c(1) by (auto simp: same_current_def)
    ultimately show "store_ok fx (d\<lparr>jd_current := (jd_current d)(cr_id r \<mapsto> ?c)\<rparr>)
      \<and> (\<forall>x \<in> set rows. same_current (d\<lparr>jd_current := (jd_current d)(cr_id r \<mapsto> ?c)\<rparr>) x)"
      using r(3) by blast
  qed
  then show ?thesis by blast
qed

lemma judge_side_ever:
  assumes "env_of fx env" "keeps_strings fx" "fx_jsonb fx fs = Some m" "fs f = Some v" "judge_side env (m f) old = VerdictPass_j"
  shows "ever_passed fx v"
proof -
  obtain w where "m f = Some w" using assms(2-4) unfolding keeps_strings_def by fastforce
  then show ?thesis using textVerdict_sound [OF assms(1-4)] assms(5) by (auto simp: judge_side_def ever_passed_def)
qed

lemma judge_event_shape:
  assumes "judge_event env reg every r = Inr (Some u)"
  obtains olds news o' n' where "event_values (ed_kind r) (ed_fields r) (ed_changed r) = Some (olds, news)"
    "je_jsonb env olds = Some o'" "je_jsonb env news = Some n'"
    "\<And>f x. eu_scan u f = Some x \<Longrightarrow> ed_scan r f = Some x
       \<or> f \<in> dom o' \<union> dom n' \<and> (\<exists>a b. es_old x = judge_side env (o' f) a \<and> es_new x = judge_side env (n' f) b)"
proof -
  obtain o' n' where d: "decode_values (je_jsonb env) (ed_kind r) (ed_fields r) (ed_changed r) = Some (o', n')"
    using assms by (auto simp: judge_event_def split: option.splits prod.splits)
  have sub: "set (filter P (sorted_list_of_set A)) \<subseteq> A" for P and A :: "string set"
    by (cases "finite A") auto
  define due where "due = filter (event_due env reg every r) (sorted_list_of_set (dom o' \<union> dom n'))"
  have due: "set due \<subseteq> dom o' \<union> dom n'" unfolding due_def by (rule sub)
  have u: "eu_scan u f = (if f \<in> set due
      then Some \<lparr>es_old = judge_side env (o' f) (es_old (case ed_scan r f of Some e \<Rightarrow> e | None \<Rightarrow> no_scan)),
                 es_new = judge_side env (n' f) (es_new (case ed_scan r f of Some e \<Rightarrow> e | None \<Rightarrow> no_scan)), es_version = je_scanner env\<rparr>
      else ed_scan r f)" for f
    using assms unfolding judge_event_def d Let_def by (auto simp: due_def [symmetric] split: if_splits)
  have scan: "ed_scan r f = Some x \<or> f \<in> dom o' \<union> dom n' \<and> (\<exists>a b. es_old x = judge_side env (o' f) a \<and> es_new x = judge_side env (n' f) b)"
    if "eu_scan u f = Some x" for f x
  proof (cases "f \<in> set due")
    case True
    then show ?thesis using that due u [of f] by auto
  next
    case False
    then show ?thesis using that u [of f] by simp
  qed
  obtain olds news where "event_values (ed_kind r) (ed_fields r) (ed_changed r) = Some (olds, news)"
    "je_jsonb env olds = Some o'" "je_jsonb env news = Some n'"
    using d by (auto simp: decode_values_def split: option.splits prod.splits)
  then show ?thesis using that scan by blast
qed

lemma rescanned_event_ok:
  assumes "env_of fx env" "keeps_strings fx" "judge_event env reg every r = Inr (Some u)" "eu_seq u = ed_seq r" "eu_was u = ed_scan r"
    "er_seq e = ed_seq r \<Longrightarrow> same_values r e" "event_ok fx e"
  shows "event_ok fx (rescan_event u e)"
proof (cases "er_seq e = eu_seq u \<and> er_scan e = eu_was u")
  case True
  then have v: "same_values r e" and sc: "er_scan e = ed_scan r" using assms(4-6) by auto
  have j: "je_jsonb env = fx_jsonb fx" using assms(1) by (simp add: env_of_def)
  obtain olds news o' n' where ev: "event_values (er_kind e) (er_fields e) (er_changed e) = Some (olds, news)"
    "fx_jsonb fx olds = Some o'" "fx_jsonb fx news = Some n'"
    and scan: "\<And>f x. eu_scan u f = Some x \<Longrightarrow> ed_scan r f = Some x
      \<or> f \<in> dom o' \<union> dom n' \<and> (\<exists>a b. es_old x = judge_side env (o' f) a \<and> es_new x = judge_side env (n' f) b)"
    using judge_event_shape [OF assms(3)] v unfolding same_values_def j by metis
  have t: "text_field fx (e\<lparr>er_scan := eu_scan u\<rparr>) = text_field fx e" by (rule ext) (simp add: text_field_def)
  have "(\<forall>v. olds f = Some v \<and> es_old x = VerdictPass_j \<longrightarrow> ever_passed fx v) \<and> (\<forall>v. news f = Some v \<and> es_new x = VerdictPass_j \<longrightarrow> ever_passed fx v)"
    if "eu_scan u f = Some x" "text_field fx e f" for f x
    using scan [OF that(1)]
  proof
    assume "ed_scan r f = Some x"
    then show ?thesis using assms(7) ev(1) that(2) sc unfolding event_ok_def event_judged_def by metis
  next
    assume "f \<in> dom o' \<union> dom n' \<and> (\<exists>a b. es_old x = judge_side env (o' f) a \<and> es_new x = judge_side env (n' f) b)"
    then show ?thesis using judge_side_ever [OF assms(1,2)] ev(2,3) by metis
  qed
  then have j: "event_judged fx (rescan_event u e)"
    using True ev(1) t unfolding event_judged_def rescan_event_def by simp blast
  have "dom o' = dom olds" "dom n' = dom news"
    using assms(2) ev(2,3) unfolding keeps_strings_def dom_def by metis+
  then have "dom (eu_scan u) \<subseteq> dom (er_scan e) \<union> dom olds \<union> dom news" using scan sc by fastforce
  then have "event_names (rescan_event u e) \<subseteq> event_names e"
    using True ev(1) by (auto simp: event_names_def rescan_event_def)
  then show ?thesis using j assms(7) True inj_on_subset by (auto simp: event_ok_def rescan_event_def)
next
  case False
  then have "rescan_event u e = e" unfolding rescan_event_def by (rule if_not_P)
  then show ?thesis using assms(7) by simp
qed

lemma rescan_event_derived: "fold_event (rescan_event u e) = fold_event e"
  by (simp add: rescan_event_def fold_event_def)

lemma rescan_events_ok:
  assumes "env_of fx env" "keeps_strings fx" "\<And>r. r \<in> set reads \<Longrightarrow> same_event db r" "store_ok fx db"
    "judgeEvents env reg every reads db = Inr (db', res, seqs)"
  shows "store_ok fx db'"
proof -
  have "store_ok fx db' \<and> (\<forall>r \<in> set reads. same_event db' r)"
    using assms(5)
  proof (rule judgeEvents_induct)
    show "store_ok fx db \<and> (\<forall>r \<in> set reads. same_event db r)" using assms(3,4) by blast
  next
    fix r u d
    assume r: "r \<in> set reads" "judge_event env reg every r = Inr (Some u)" "eu_seq u = ed_seq r" "eu_was u = ed_scan r"
      "store_ok fx d \<and> (\<forall>r \<in> set reads. same_event d r)"
    let ?d = "d\<lparr>jd_events := map (rescan_event u) (jd_events d)\<rparr>"
    have "event_ok fx (rescan_event u e)" if "e \<in> set (jd_events d)" for e
      using r(1,5) that by (intro rescanned_event_ok [OF assms(1,2) r(2-4)]) (auto simp: same_event_def store_ok_def)
    then have "store_ok fx ?d"
      using r(5) by (auto simp: store_ok_def event_derived_def rescan_event_derived comp_def)
    moreover have "same_event ?d x" if "same_event d x" for x
      using that by (auto simp: same_event_def same_values_def rescan_event_def)
    ultimately show "store_ok fx ?d \<and> (\<forall>x \<in> set reads. same_event ?d x)" using r(5) by blast
  qed
  then show ?thesis by blast
qed

section \<open>All operations\<close>

lemma Apply_ok:
  assumes "synced fx" "env_of fx env" "ValidateSnapshot (fx_lib fx) ord (fx_registry fx) s t0 = Inr n"
    "storable fx env db (n_type n) (n_subject n) (n_records n)" "Apply env db writer n payload now = (db', r)" "store_ok fx db"
  shows "store_ok fx db'"
proof (cases "db' = db")
  case False
  then obtain out where "applyFromOrdering env db n writer payload now None = Commit db' out"
    using assms(5) by (auto simp: Apply_def split: option.splits tx.splits)
  with snapshot_sound [OF assms(3)] show ?thesis using applyFromOrdering_ok [OF assms(1,2)] assms(4,6) by blast
qed (use assms in simp)

lemma ConfirmHeld_ok:
  assumes "synced fx" "env_of fx env" "ConfirmHeld env (fx_lib fx) ord (fx_registry fx) mayWrite now sid db = (db', r)" "store_ok fx db"
    "\<And>row n. row \<in> set (jd_snapshots db) \<Longrightarrow> heldSnapshot env (fx_lib fx) ord (fx_registry fx) sid row = Inr (Inr n)
       \<Longrightarrow> storable fx env db (n_type n) (n_subject n) (n_records n)"
  shows "store_ok fx db'"
proof (cases "db' = db")
  case False
  then obtain row n out where f: "find (\<lambda>s. ss_id s = sid) (jd_snapshots db) = Some row"
    and h: "heldSnapshot env (fx_lib fx) ord (fx_registry fx) sid row = Inr (Inr n)"
    and a: "applyFromOrdering env db n (ss_writer row) (ss_payload row) now (Some sid) = Commit db' out"
    using assms(3) by (auto simp: ConfirmHeld_def split: option.splits tx.splits sum.splits)
  have "row \<in> set (jd_snapshots db)" using f by (auto simp: find_Some_iff)
  note st = assms(5) [OF this h]
  obtain s where "ValidateSnapshot (fx_lib fx) ord (fx_registry fx) s (ss_received row) = Inr n"
    using h by (auto simp: heldSnapshot_def split: if_splits option.splits sum.splits)
  from snapshot_sound [OF this] show ?thesis using applyFromOrdering_ok [OF assms(1,2) _ _ _ st assms(4) a] by blast
qed (use assms in simp)

lemma DiscardHeld_ok: "DiscardHeld sid db = (db', r) \<Longrightarrow> store_ok fx db \<Longrightarrow> store_ok fx db'"
  by (auto simp: DiscardHeld_def split: if_splits)

lemma WriteNote_ok:
  assumes "synced fx" "env_of fx env" "ValidateNote (fx_lib fx) (fx_registry fx) nt = Inr n"
    "storable fx env db (nn_type n) (nn_subject n) [note_record n]" "WriteNote env db writer now n = (db', r)" "store_ok fx db"
  shows "store_ok fx db'"
proof (cases "db' = db")
  case False
  let ?cur = "\<lambda>k. if nn_key n = [] \<or> k = nn_key n then jd_current db (row_id (nn_type n) (nn_subject n) k) else None"
  note sound = note_sound [OF assms(3)]
  have cur: "loadCurrent env db (nn_type n) (nn_subject n) (nn_key n) = Inr ?cur"
    using loadCurrent_ok [OF assms(2) _ assms(6)] sound by blast
  obtain src where w: "db' = writePlan env (nn_type n) (nn_subject n) src ?cur (Diff (je_json env) (note_input n now ?cur)) db"
    using assms(5) False by (auto simp: WriteNote_def Let_def cur split: if_splits option.splits list.splits)
  have inp: "plannable fx (nn_type n) (note_input n now ?cur)"
    by (rule plannable_input [OF assms(6), where key = "nn_key n" and env = env and subject = "nn_subject n"])
      (use assms(4) sound in \<open>simp_all add: note_input_def\<close>)
  have cur_in: "in_current (note_input n now ?cur) = ?cur" by (simp add: note_input_def)
  have "store_ok fx (writePlan env (nn_type n) (nn_subject n) src (in_current (note_input n now ?cur))
      (Diff (je_json env) (note_input n now ?cur)) db)"
    using sound note_keys unfolding cur_in by (intro writePlan_ok [OF assms(1,2) _ inp assms(6), unfolded cur_in]) auto
  then show ?thesis unfolding w cur_in .
qed (use assms in simp)

lemma jstep_ok:
  assumes "jstep fx (storable fx) fresh db db'" "synced fx" "keeps_strings fx" "store_ok fx db"
  shows "store_ok fx db'"
  using assms(1)
proof cases
  case apply_step
  then show ?thesis using Apply_ok [OF assms(2) apply_step(1,2,3,4) assms(4)] by blast
next
  case confirm_step
  then show ?thesis using ConfirmHeld_ok [OF assms(2) confirm_step(1,3) assms(4)] by blast
next
  case discard_step
  then show ?thesis using DiscardHeld_ok assms(4) by blast
next
  case note_step
  then show ?thesis using WriteNote_ok [OF assms(2) note_step(1,2,3,4) assms(4)] by blast
next
  case erase_step
  then show ?thesis using Erase_ok [OF assms(4)] by blast
next
  case rescan_current_step
  show ?thesis by (rule rescan_current_ok [OF rescan_current_step(1) assms(3) rescan_current_step(2) assms(4) rescan_current_step(3)])
next
  case rescan_events_step
  show ?thesis by (rule rescan_events_ok [OF rescan_events_step(1) assms(3) rescan_events_step(2) assms(4) rescan_events_step(3)])
qed

lemma jsteps_ok: "jsteps fx (storable fx) fresh db db' \<Longrightarrow> synced fx \<Longrightarrow> keeps_strings fx \<Longrightarrow> store_ok fx db \<Longrightarrow> store_ok fx db'"
  by (induction rule: jsteps.induct) (auto intro: jstep_ok)

section \<open>The invariants, stated\<close>

text \<open>
  C12: The current rows are what the events say. Take a journal whose rows are in order and equal to
  the fold of its events (the empty journal is one), and run any sequence of its operations, erasures
  with their rewriting of kept notes included, on records the database stores faithfully. Afterwards
  folding the stored events, with the registry's renames, still gives exactly the scope, audience,
  fields and removed flag of every current row, and no row for any other identity.
\<close>

theorem current_is_fold_of_events:
  assumes "synced fx" "keeps_strings fx" "store_ok fx db" "jsteps fx (storable fx) fresh db db'"
  shows "Fold (ForwardName (fx_registry fx)) (map fold_event (jd_events db')) i = map_option derived (jd_current db' i)"
  using jsteps_ok [OF assms(4,1,2,3)] by (simp add: store_ok_def event_derived_def)

text \<open>
  No text is released unjudged. In the same runs, every text value of a current row carries a stored
  verdict, and if that verdict is a pass, the scanner version stored with it passed that very value,
  however the value was edited, removed, restored, moved or re-judged since. So the text handed to a
  reader is either a value that scanner passed or the withheld marker.
\<close>

theorem text_verdicts_are_true:
  assumes "synced fx" "keeps_strings fx" "store_ok fx db" "jsteps fx (storable fx) fresh db db'"
    "jd_current db' i = Some c" "Registry_Active (fx_registry fx) (id_type i) = Some t" "IsText t f" "cu_fields c f = Some v"
  shows "\<exists>e. cu_scan c f = Some e \<and> (Text jl (Some v) (se_verdict e) = Some (jl_encString jl WithheldScan)
      \<or> Text jl (Some v) (se_verdict e) = Some v \<and> fx_judge fx (se_version e) (text_of fx v) = ''pass'')"
proof -
  obtain types where "NewRegistry_t types = Inr (fx_registry fx)" using assms(1) by (auto simp: synced_def)
  then have "ty_name t = id_type i" using Registry_Active_name(1) assms(6) by blast
  moreover have "row_ok fx (id_type i) c"
    using jsteps_ok [OF assms(4,1,2,3)] assms(5) by (simp add: store_ok_def)
  ultimately have "judged fx t (cu_fields c) (cu_scan c)" using assms(6) unfolding row_ok_def by blast
  then obtain e where "cu_scan c f = Some e" "sound_pass fx v e"
    using assms(7,8) unfolding judged_def by blast
  then show ?thesis by (auto simp: Text_def sound_pass_def VerdictPass_j_def)
qed

text \<open>One memo about one member, written by the journal.\<close>

definition text_json :: json_lib where "text_json = no_json\<lparr>jl_string := Some\<rparr>"

definition text_fixed :: fixed_env where
  "text_fixed = memo_fixed\<lparr>fx_lib := sample_snap_lib\<lparr>sl_json := text_json\<rparr>\<rparr>"

definition text_env :: journal_env where
  "text_env = \<lparr>je_json = text_json, je_sha256 = (\<lambda>b. b), je_jsonb = Some, je_decode = (\<lambda>_. None), je_household = (\<lambda>_. False),
     je_verdict = (\<lambda>_. ''pass''), je_scanner = ''v1'', je_guard = DefaultGuard, je_rules = None, je_roster = None\<rparr>"

definition text_record :: NormRecord where
  "text_record = \<lparr>nr_key = ''k'', nr_dataSubject = ''bob'', nr_audience = [''guardians''], nr_fields = [''body'' \<mapsto> ''hi''],
     nr_hash = Fields_Hash (\<lambda>b. b) [''body'' \<mapsto> ''hi'']\<rparr>"

definition text_input :: Input where
  "text_input = \<lparr>in_scope = ''source=school'', in_complete = False, in_range = None, in_observedAt = 0, in_current = Map.empty,
     in_records = [text_record]\<rparr>"

definition empty_journal :: JDB where
  "empty_journal = \<lparr>jd_snapshots = [], jd_current = Map.empty, jd_book = Map.empty, jd_seq = 0, jd_events = [], jd_erasures = [], jd_kept = [], jd_readers = []\<rparr>"

definition text_source :: eventSource where
  "text_source = \<lparr>sc_snapshotID = ''id'', sc_actor = ''school'', sc_observedAt = 0, sc_approximate = False\<rparr>"

definition text_event :: Event where
  "text_event = (case diff_record text_input text_record of Emit e \<Rightarrow> e)"

definition text_db :: JDB where
  "text_db = write_event text_env memo_v2 ''bob'' text_source Map.empty text_event empty_journal"

lemma text_synced: "synced text_fixed"
  using memo_synced by (simp add: synced_def text_fixed_def memo_fixed_def)

lemma text_keeps: "keeps_strings text_fixed"
  by (auto simp: keeps_strings_def text_fixed_def memo_fixed_def)

lemma text_active:
  "Registry_Active (fx_registry text_fixed) name = Some t \<longleftrightarrow> name = ''memo'' \<and> t = memo_v2"
  by (auto simp: Registry_Active_def versions_def text_fixed_def memo_fixed_def)

lemma text_settled: "settled text_fixed ''memo'' [''body'' \<mapsto> ''hi'']"
proof -
  have trim: "TrimSpace ''hi'' = ''hi''" by (simp add: TrimSpace_def rune_chunks_ascii_Cons white_space_def)
  have chk: "checkString Text_t ''hi'' = Inr ''hi''"
    by (simp add: checkString_def ascii_valid all_ascii_def runes_ascii_Cons Text_t_def String_t_def Let_def C0_or_DEL_def
        char_fault_def MaxTextBytes_def)
  have "NormalizeValue text_json Text_t ''hi'' = Inr (Some ''hi'')"
    by (simp add: NormalizeValue_def trim chk text_json_def no_json_def)
  then have "load_fields text_json Some memo_v2 [''body'' \<mapsto> ''hi''] = Inr [''body'' \<mapsto> ''hi'']"
    by (simp add: load_fields_def Reload_def Keys_def memo_v2_def)
  then show ?thesis unfolding settled_def text_active by (simp add: text_fixed_def memo_fixed_def)
qed


lemma text_event_fields:
  "diff_record text_input text_record = Emit text_event" "ev_key text_event = ''k''" "ev_kind text_event = Created"
  "ev_after text_event = Some [''body'' \<mapsto> ''hi'']" "ev_scope text_event = ''source=school''"
  by (simp_all add: text_event_def diff_record_def text_input_def text_record_def)

lemma text_body: "IsText memo_v2 ''body''"
  by (simp add: IsText_def field_of_def memo_v2_def)

definition text_row :: Current where
  "text_row = snd (buildEvent text_env memo_v2 ''bob'' text_source zero_current text_event)"

lemma text_row_fields:
  "cu_fields text_row = [''body'' \<mapsto> ''hi'']" "cu_scan text_row ''body'' = Some \<lparr>se_verdict = ''pass'', se_version = ''v1''\<rparr>"
  by (simp_all add: text_row_def buildEvent_def text_event_fields Let_def after_of_def whole_scan_def text_body entry_def scanNew_def
      text_env_def)

lemma text_current: "jd_current text_db = [memo_row \<mapsto> text_row]"
  by (simp add: text_db_def write_event_def case_prod_unfold Let_def text_row_def row_id_def text_event_fields memo_row_def
      memo_v2_def memo_v1_def empty_journal_def)

lemma text_store_ok: "store_ok text_fixed text_db"
proof -
  have empty: "store_ok text_fixed empty_journal"
    by (simp add: store_ok_def event_derived_def empty_journal_def Fold_def Fold_from_def)
  have env: "env_of text_fixed text_env"
    by (simp add: env_of_def text_fixed_def text_env_def memo_fixed_def sample_snap_lib_def)
  have active: "active_type text_fixed memo_v2" using text_active by (auto simp: active_type_def)
  have "ty_name memo_v2 = ''memo''" by (simp add: memo_v2_def memo_v1_def)
  then have "plannable text_fixed memo_v2 text_input"
    using text_settled by (auto simp: plannable_def text_input_def text_record_def text_fixed_def sample_snap_lib_def)
  from record_event_fits [OF text_synced env active this _ text_event_fields(1), of "''bob''" text_source]
  have "fits text_fixed text_env memo_v2 ''bob'' text_source None text_event"
    by (simp add: text_input_def)
  then show ?thesis unfolding text_db_def
    by (intro write_event_ok [OF empty]) (simp_all add: empty_journal_def)
qed

lemma text_discard: "jsteps text_fixed (storable text_fixed) fresh text_db (fst (DiscardHeld ''id'' text_db))"
  by (intro jsteps.step [OF jsteps.none] discard_step [of "''id''" _ _ "snd (DiscardHeld ''id'' text_db)"]) simp

lemma text_discard_current: "jd_current (fst (DiscardHeld ''id'' text_db)) = [memo_row \<mapsto> text_row]"
  by (simp add: DiscardHeld_def text_current)

theorem current_is_fold_of_events_witness:
  "Fold (ForwardName (fx_registry text_fixed)) (map fold_event (jd_events (fst (DiscardHeld ''id'' text_db)))) memo_row = Some (derived text_row)
   \<and> cu_fields text_row ''body'' = Some ''hi''"
  using current_is_fold_of_events [OF text_synced text_keeps text_store_ok text_discard, of memo_row]
  by (simp add: text_discard_current text_row_fields)

theorem text_verdicts_are_true_witness:
  "fx_judge text_fixed ''v1'' (text_of text_fixed ''hi'') = ''pass'' \<and> cu_fields text_row ''body'' = Some ''hi''
   \<and> Text text_json (Some ''hi'') ''pass'' = Some ''hi''"
proof -
  have a: "Registry_Active (fx_registry text_fixed) (id_type memo_row) = Some memo_v2"
    by (simp add: text_active memo_row_def)
  have c: "jd_current (fst (DiscardHeld ''id'' text_db)) memo_row = Some text_row" by (simp add: text_discard_current)
  have v: "cu_fields text_row ''body'' = Some ''hi''" by (simp add: text_row_fields)
  from text_verdicts_are_true [OF text_synced text_keeps text_store_ok text_discard c a text_body v, of text_json]
  show ?thesis by (simp add: text_row_fields Text_def VerdictPass_j_def text_fixed_def memo_fixed_def)
qed

end
