(* ===== verification/JApply.thy ===== *)
theory JApply
  imports JStore
begin

text \<open>
  What applying a snapshot may change and when (\<^verbatim>\<open>apply.go\<close>): the admission conditions of a write, and the
  idempotency of a resend.
\<close>

section \<open>Admission\<close>

definition later_applied :: "JDB \<Rightarrow> Normalized_s \<Rightarrow> bool" where
  "later_applied db n \<longleftrightarrow> (\<exists>s \<in> set (jd_snapshots db). ss_type s = ty_name (n_type n) \<and> ss_scope s = n_scopeKey n
     \<and> ss_status s = ''applied'' \<and> ss_observedAt s > n_observedAt n)"

definition plan_of :: "journal_env \<Rightarrow> JDB \<Rightarrow> Normalized_s \<Rightarrow> Plan option" where
  "plan_of env db n =
     (case loadCurrent env db (n_type n) (n_subject n) [] of
        Inl _ \<Rightarrow> None | Inr cur \<Rightarrow> Some (Diff (je_json env) (input_of n cur)))"

definition admitted :: "journal_env \<Rightarrow> JDB \<Rightarrow> string \<Rightarrow> Normalized_s \<Rightarrow> bool" where
  "admitted env db writer n \<longleftrightarrow>
     n_id n \<notin> ss_id ` set (jd_snapshots db) \<and> (n_subject n \<noteq> [] \<longrightarrow> n_subject n \<notin> set (jd_erasures db))
     \<and> (n_subject n \<noteq> [] \<longrightarrow> Roster_Has (je_roster env) (n_subject n)) \<and> \<not> later_applied db n
     \<and> (case plan_of env db n of None \<Rightarrow> False
        | Some plan \<Rightarrow> \<not> Hold (je_guard env) (pl_liveInRange plan) (length (pl_removals plan)))"

lemma storeSnapshot_insert:
  assumes "storeSnapshot db n writer payload now None out = Some db'"
  shows "n_id n \<notin> ss_id ` set (jd_snapshots db)
    \<and> (\<exists>row. db' = db\<lparr>jd_snapshots := jd_snapshots db @ [row]\<rparr> \<and> ss_id row = n_id n \<and> ss_type row = ty_name (n_type n)
        \<and> ss_scope row = n_scopeKey n \<and> ss_writer row = writer \<and> ss_status row = ao_status out \<and> ss_stats row = ao_stats out)"
  using assms by (auto simp: storeSnapshot_def list_ex_iff split: if_splits)

text \<open>The three ways in which a new snapshot is stored.\<close>

lemma applyFromOrdering_cases:
  assumes "applyFromOrdering env db n writer payload now None = Commit db' out"
  obtains
    (late) "later_applied db n" "out = answer ''late'' no_stats" "storeSnapshot db n writer payload now None out = Some db'"
  | (held) plan where "\<not> later_applied db n" "plan_of env db n = Some plan"
      "Hold (je_guard env) (pl_liveInRange plan) (length (pl_removals plan))" "out = answer ''held'' (Plan_Stats plan)"
      "storeSnapshot db n writer payload now None out = Some db'"
  | (applied) plan cur src mid where "\<not> later_applied db n" "plan_of env db n = Some plan"
      "\<not> Hold (je_guard env) (pl_liveInRange plan) (length (pl_removals plan))" "out = answer ''applied'' (Plan_Stats plan)"
      "storeSnapshot (writePlan env (n_type n) (n_subject n) src cur plan db) n writer payload now None out = Some mid"
      "db' = mid\<lparr>jd_snapshots := map (discard_held n) (jd_snapshots mid)\<rparr>"
proof (cases "later_applied db n")
  case True
  then have "list_ex (\<lambda>s. ss_type s = ty_name (n_type n) \<and> ss_scope s = n_scopeKey n \<and> ss_status s = ''applied''
      \<and> ss_observedAt s > n_observedAt n) (jd_snapshots db)"
    by (auto simp: later_applied_def list_ex_iff)
  then show ?thesis using assms True by (auto simp: applyFromOrdering_def store_or_reuse_def Let_def split: option.splits intro: late)
next
  case False
  then have f: "\<not> list_ex (\<lambda>s. ss_type s = ty_name (n_type n) \<and> ss_scope s = n_scopeKey n \<and> ss_status s = ''applied''
      \<and> ss_observedAt s > n_observedAt n) (jd_snapshots db)"
    by (auto simp: later_applied_def list_ex_iff)
  then obtain cur where cur: "loadCurrent env db (n_type n) (n_subject n) [] = Inr cur"
    using assms by (auto simp: applyFromOrdering_def split: sum.splits)
  define plan where "plan = Diff (je_json env) (input_of n cur)"
  have p: "plan_of env db n = Some plan" by (simp add: plan_of_def cur plan_def)
  show ?thesis
  proof (cases "Hold (je_guard env) (pl_liveInRange plan) (length (pl_removals plan))")
    case True
    then have "storeSnapshot db n writer payload now None (answer ''held'' (Plan_Stats plan)) = Some db'" "out = answer ''held'' (Plan_Stats plan)"
      using assms unfolding applyFromOrdering_def if_not_P [OF f] cur
      by (auto simp: plan_def store_or_reuse_def Let_def split: option.splits)
    then show ?thesis using held [OF False p True] by blast
  next
    case h: False
    then show ?thesis
      using assms applied [OF False p h] unfolding applyFromOrdering_def if_not_P [OF f] cur
      by (auto simp: plan_def Let_def split: option.splits)
  qed
qed

text \<open>
  C14: Nothing is written that was not admitted. When applying a snapshot fails or is refused, the
  journal is exactly as it was. When it changes any current row or any event, the answer is that it was
  applied, and everything a write needs held in the journal before it: the id was new, the subject is
  not erased and is in the loaded roster (or is the household), no later snapshot of the scope has been
  applied, and the removal guard does not hold the plan. Events are only ever added at the end.
\<close>

theorem Apply_writes_only_admitted:
  assumes "Apply env db writer n payload now = (db', r)"
  shows "((\<exists>e. r = Inl e) \<or> (\<exists>out. r = Inr out \<and> ao_rejection out \<noteq> None) \<longrightarrow> db' = db)
    \<and> (jd_current db' \<noteq> jd_current db \<or> jd_events db' \<noteq> jd_events db \<longrightarrow>
         admitted env db writer n \<and> (\<exists>out. r = Inr out \<and> ao_status out = ''applied'' \<and> ao_rejection out = None))
    \<and> prefix (jd_events db) (jd_events db')"
proof (cases "\<exists>db'' out. applyFromOrdering env db n writer payload now None = Commit db'' out
    \<and> lookup db (n_id n) writer (ty_name (n_type n)) (n_scopeKey n) = None \<and> banned db [n_subject n] = None
    \<and> checkSubject env (n_subject n) = None")
  case False
  then have "db' = db" using assms by (auto simp: Apply_def split: option.splits tx.splits)
  then show ?thesis by simp
next
  case True
  then obtain out where c: "applyFromOrdering env db n writer payload now None = Commit db' out"
    and b: "banned db [n_subject n] = None" and s: "checkSubject env (n_subject n) = None" and r: "r = Inr out"
    using assms by (auto simp: Apply_def)
  have sub: "n_subject n \<noteq> [] \<Longrightarrow> n_subject n \<notin> set (jd_erasures db) \<and> Roster_Has (je_roster env) (n_subject n)"
    using banned_None [OF b] s by (auto simp: checkSubject_def split: if_splits)
  from c show ?thesis
  proof (cases rule: applyFromOrdering_cases)
    case late
    have "jd_current db' = jd_current db \<and> jd_events db' = jd_events db" using storeSnapshot_insert [OF late(3)] by auto
    then show ?thesis using late(2) r by (simp add: answer_def)
  next
    case held
    have "jd_current db' = jd_current db \<and> jd_events db' = jd_events db" using storeSnapshot_insert [OF held(5)] by auto
    then show ?thesis using held(4) r by (simp add: answer_def)
  next
    case (applied plan cur src mid)
    let ?w = "writePlan env (n_type n) (n_subject n) src cur plan db"
    have pre: "prefix (jd_events db) (jd_events (fold (write_event env t subject src cur) evs db0))"
      if "prefix (jd_events db) (jd_events db0)" for t subject evs db0
      using that by (induction evs arbitrary: db0) (auto simp: write_event_def case_prod_unfold Let_def)
    have "prefix (jd_events db) (jd_events ?w)"
      using pre [of db "n_type n" "n_subject n" "pl_events plan @ pl_removals plan"] by (simp add: writePlan_def Let_def)
    moreover have "jd_events db' = jd_events ?w" "n_id n \<notin> ss_id ` set (jd_snapshots ?w)"
      using storeSnapshot_insert [OF applied(5)] applied(6) by auto
    moreover have "jd_snapshots ?w = jd_snapshots db"
      using writePlan_touches [of plan "\<lambda>_. True" "n_type n" "n_subject n" db env src cur] by (simp add: touches_only_def)
    ultimately show ?thesis using applied(1-4) sub r by (auto simp: admitted_def answer_def)
  qed
qed

section \<open>Resending\<close>


text \<open>One memo, sent twice.\<close>

definition text_norm :: Normalized_s where
  "text_norm = \<lparr>n_id = ''id'', n_type = memo_v2, n_version = 2, n_scope = [(''source'', ''school'')], n_scopeKey = ''source=school'',
     n_subject = [], n_complete = False, n_range = None, n_observedAt = 0, n_approximate = False, n_records = [text_record]\<rparr>"

lemma text_load: "loadCurrent text_env empty_journal memo_v2 [] [] = Inr Map.empty"
  by (simp add: loadCurrent_def Let_def empty_journal_def Keys_def)

lemma text_plan: "pl_removals (Diff jl (input_of text_norm Map.empty)) = []"
  by (simp add: pl_removals_eq input_of_def text_norm_def List.map_filter_def)

lemma text_applied:
  "\<exists>db' out. Apply text_env empty_journal ''school'' text_norm [] 0 = (db', Inr out) \<and> ao_rejection out = None \<and> ao_status out = ''applied''"
proof -
  define plan where "plan = Diff text_json (input_of text_norm Map.empty)"
  define src where "src = \<lparr>sc_snapshotID = ''id'', sc_actor = ''school'', sc_observedAt = 0, sc_approximate = False\<rparr>"
  have f: "n_type text_norm = memo_v2" "n_subject text_norm = []" "n_id text_norm = ''id''" "n_observedAt text_norm = 0"
    "n_approximate text_norm = False"
    by (simp_all add: text_norm_def)
  have h: "\<not> Hold g (pl_liveInRange plan) (length (pl_removals plan))" for g by (simp add: Hold_def plan_def text_plan)
  have j: "je_json text_env = text_json" by (simp add: text_env_def)
  have w: "jd_snapshots (writePlan text_env memo_v2 [] src Map.empty plan empty_journal) = []"
    using writePlan_touches [of plan "\<lambda>_. True" memo_v2 "[]" empty_journal text_env src Map.empty]
    by (simp add: touches_only_def empty_journal_def)
  obtain mid where "storeSnapshot (writePlan text_env memo_v2 [] src Map.empty plan empty_journal) text_norm ''school'' [] 0 None
      (answer ''applied'' (Plan_Stats plan)) = Some mid"
    by (simp add: storeSnapshot_def w)
  then have "\<exists>db'. applyFromOrdering text_env empty_journal text_norm ''school'' [] 0 None = Commit db' (answer ''applied'' (Plan_Stats plan))"
    using h unfolding applyFromOrdering_def f text_load j
    by (simp add: plan_def [symmetric] src_def [symmetric] Let_def) (simp add: empty_journal_def)
  then show ?thesis
    by (auto simp: Apply_def lookup_def empty_journal_def banned_def checkSubject_def f answer_def)
qed

theorem Apply_writes_only_admitted_witness:
  "\<exists>db' r. Apply text_env empty_journal ''school'' text_norm [] 0 = (db', r) \<and> prefix (jd_events empty_journal) (jd_events db')
     \<and> (\<exists>out. r = Inr out \<and> ao_status out = ''applied'')"
proof -
  obtain db' out where a: "Apply text_env empty_journal ''school'' text_norm [] 0 = (db', Inr out)" "ao_status out = ''applied''"
    using text_applied by blast
  from Apply_writes_only_admitted [OF a(1)] show ?thesis using a by blast
qed


end
