(* ===== verification/JVersion.thy ===== *)
theory JVersion
  imports JSteps
begin

text \<open>
  Versions of the journal's rows. Every operation is a sequence of primitive writes; event numbers only
  grow, and the number of a row's last event tells its version. So the check a rescan makes before it
  writes (\<^verbatim>\<open>rescan.go\<close>, \<^verbatim>\<open>judgeCurrent\<close> and \<^verbatim>\<open>judgeEvents\<close>) is enough, whatever ran since its read.
\<close>

section \<open>Primitive writes\<close>

definition set_tables :: "SnapRow list \<Rightarrow> string list \<Rightarrow> (string \<times> string list) list \<Rightarrow> (string \<times> string \<times> bool) list \<Rightarrow> JDB \<Rightarrow> JDB" where
  "set_tables s e k r db = db\<lparr>jd_snapshots := s, jd_erasures := e, jd_kept := k, jd_readers := r\<rparr>"

definition confirm_rows :: "(Identity \<Rightarrow> bool) \<Rightarrow> int \<Rightarrow> string \<Rightarrow> JDB \<Rightarrow> JDB" where
  "confirm_rows P t0 sid db = db\<lparr>jd_current := (\<lambda>i. if P i then map_option (confirm_row t0) (jd_current db i) else jd_current db i),
     jd_book := (\<lambda>i. if P i then map_option (\<lambda>b. b\<lparr>bk_confirmedBy := sid\<rparr>) (jd_book db i) else jd_book db i)\<rparr>"

definition move_note :: "keptNote \<Rightarrow> string \<Rightarrow> string \<Rightarrow> JDB \<Rightarrow> JDB" where
  "move_note n subject marker db = db\<lparr>jd_events := map (move_event n subject marker) (jd_events db),
     jd_current := move_current n subject marker (jd_current db), jd_book := move_row n subject marker (\<lambda>b. b) (jd_book db)\<rparr>"

inductive micro :: "JDB \<Rightarrow> JDB \<Rightarrow> bool" where
  m_event: "micro db (write_event env t subject src cur ev db)"
| m_confirm: "micro db (confirm_rows P t0 sid db)"
| m_tables: "micro db (set_tables s e k r db)"
| m_delete: "micro db (delete_rows P db)"
| m_move: "micro db (move_note n subject marker db)"
| m_row: "jd_current db i = Some c \<Longrightarrow> micro db (db\<lparr>jd_current := (jd_current db)(i \<mapsto> c\<lparr>cu_scan := sc\<rparr>)\<rparr>)"
| m_scan: "micro db (db\<lparr>jd_events := map (rescan_event u) (jd_events db)\<rparr>)"

abbreviation micros :: "JDB \<Rightarrow> JDB \<Rightarrow> bool" where "micros \<equiv> micro\<^sup>*\<^sup>*"

lemma micros_tables:
  assumes "micros db d" "d' = set_tables (jd_snapshots d') (jd_erasures d') (jd_kept d') (jd_readers d') d"
  shows "micros db d'"
  using assms(1) m_tables [of d "jd_snapshots d'" "jd_erasures d'" "jd_kept d'" "jd_readers d'"] assms(2)
  by (metis rtranclp.rtrancl_into_rtrancl)

lemma micros_fold: "(\<And>x d. x \<in> set xs \<Longrightarrow> micros d (f x d)) \<Longrightarrow> micros db (fold f xs db)"
proof (induction xs arbitrary: db)
  case (Cons x xs)
  have "micros db (f x db)" using Cons.prems by simp
  moreover have "micros (f x db) (fold f xs (f x db))" using Cons by simp
  ultimately show ?case by simp
qed simp

lemma writePlan_micros: "micros db (writePlan env t subject src cur plan db)"
proof -
  let ?mid = "fold (write_event env t subject src cur) (pl_events plan @ pl_removals plan) db"
  have "micros db ?mid" by (rule micros_fold) (rule r_into_rtranclp, rule m_event)
  moreover have "writePlan env t subject src cur plan db = confirm_rows (confirmed_now t subject plan) (sc_observedAt src) (sc_snapshotID src) ?mid"
    unfolding writePlan_def Let_def confirm_rows_def ..
  ultimately show ?thesis using m_confirm rtranclp.rtrancl_into_rtrancl by metis
qed

lemma storeSnapshot_micros:
  "storeSnapshot d n writer payload now confirmID out = Some d' \<Longrightarrow> micros db d \<Longrightarrow> micros db d'"
  by (rule micros_tables) (auto simp: storeSnapshot_def set_tables_def split: option.splits if_splits)

lemma applyFromOrdering_micros:
  assumes "applyFromOrdering env db n writer payload now confirmID = Commit db' out"
  shows "micros db db'"
proof -
  from assms consider
      (kept) c o' where "storeSnapshot db n writer payload now c o' = Some db'"
    | (applied) src cur plan mid where
        "storeSnapshot (writePlan env (n_type n) (n_subject n) src cur plan db) n writer payload now confirmID out = Some mid"
        "db' = mid\<lparr>jd_snapshots := map (discard_held n) (jd_snapshots mid)\<rparr>"
    by (auto simp: applyFromOrdering_def store_or_reuse_def Let_def split: if_splits option.splits sum.splits)
  then show ?thesis
  proof cases
    case kept
    then show ?thesis by (rule storeSnapshot_micros) simp
  next
    case applied
    have "micros db mid" using applied(1) writePlan_micros by (rule storeSnapshot_micros)
    then show ?thesis by (rule micros_tables) (simp add: applied(2) set_tables_def)
  qed
qed

lemma Erase_micros:
  assumes "Erase env rnd subject db = (db', r)"
  shows "micros db db'"
proof (cases "db' = db")
  case False
  then obtain b where b: "db' = fst (eraseLocked env subject (newPseudonym b) db)"
    using assms by (auto simp: Erase_def Let_def case_prod_unfold split: if_splits option.splits)
  have del: "micros db (delete_rows P d)" if "micros db d" for P d
    using that m_delete rtranclp.rtrancl_into_rtrancl by metis
  have own: "micros db (erase_own hh subject db)" for hh
    by (rule micros_tables [OF del [where P = "authored hh subject" and d = db]])
      (simp_all add: erase_own_def set_tables_def)
  have orphans: "micros db (drop_orphans d)" if "micros db d" for d
    by (rule micros_tables [OF del [where P = "orphaned d", OF that]]) (simp add: drop_orphans_def drop_unkept_def set_tables_def)
  have one: "micros (snd st) (snd (keep_note ros subject p erased n st))" for ros p erased n st
  proof (cases "frozenReaders ros subject erased n = []")
    case False
    obtain kept d where st: "st = (kept, d)" by (cases st)
    let ?marker = "p @ '':'' @ show_nat (Suc kept)"
    have k: "snd (keep_note ros subject p erased n st) =
        set_tables (jd_snapshots d) (jd_erasures d) (jd_kept d @ [(?marker, kn_audience n)])
          (jd_readers d @ map (\<lambda>m. (?marker, m, m = authorOf (kn_key n))) (frozenReaders ros subject erased n)) (move_note n subject ?marker d)"
      using False by (simp add: keep_note_def st Let_def set_tables_def move_note_def)
    show ?thesis unfolding k unfolding st snd_conv
      by (rule rtranclp.rtrancl_into_rtrancl [OF rtranclp.rtrancl_into_rtrancl [OF rtranclp.rtrancl_refl]], rule m_move, rule m_tables)
  qed (simp add: keep_note_def split: prod.split)
  have "micros (snd st) (snd (fold (keep_note ros subject p erased) ns st))" for ros p erased ns st
  proof (induction ns arbitrary: st)
    case (Cons n ns)
    then show ?case using rtranclp_trans [OF one Cons.IH] by simp
  qed simp
  then have keep: "micros d (snd (keepNotes env subject p d))" for p d
    unfolding keepNotes_def by (metis snd_conv)
  have "micros db (erase_subject subject d)" if "micros db d" for d
  proof -
    have "micros db (d\<lparr>jd_snapshots := filter (\<lambda>s. ss_subject s \<noteq> subject) (jd_snapshots d)\<rparr>)"
      using that by (rule micros_tables) (simp add: set_tables_def)
    from del [where P = "\<lambda>i. id_subject i = subject", OF this] show ?thesis by (rule micros_tables) (simp add: erase_subject_def set_tables_def)
  qed
  then show ?thesis unfolding b eraseLocked_stages using own orphans keep rtranclp_trans by metis
qed simp

lemma jstep_micros: "jstep fx C F db db' \<Longrightarrow> micros db db'"
proof (induction rule: jstep.induct)
  case (apply_step env s now n db writer payload db' r)
  then show ?case using applyFromOrdering_micros by (auto simp: Apply_def split: option.splits tx.splits)
next
  case (confirm_step env db sid mayWrite now db' r)
  then show ?case using applyFromOrdering_micros by (auto simp: ConfirmHeld_def split: option.splits tx.splits sum.splits)
next
  case (discard_step sid db db' r)
  show ?case by (rule micros_tables [where d = db]) (use discard_step in \<open>auto simp: DiscardHeld_def set_tables_def split: if_splits\<close>)
next
  case (note_step env nt n db writer now db' r)
  then show ?case using writePlan_micros
    by (auto simp: WriteNote_def Let_def split: if_splits option.splits sum.splits list.splits)
next
  case (erase_step env db rnd subject db' r)
  then show ?case using Erase_micros by blast
next
  case (rescan_current_step env rows db every db' res late)
  from rescan_current_step(3) show ?case
  proof (rule judgeCurrent_induct)
    fix r u c b d
    assume "micros db d" "jd_current d (cr_id r) = Some c"
    then show "micros db (d\<lparr>jd_current := (jd_current d)(cr_id r \<mapsto> c\<lparr>cu_scan := cp_scan u\<rparr>)\<rparr>)"
      using m_row rtranclp.rtrancl_into_rtrancl by metis
  qed simp
next
  case (rescan_events_step env reads db every db' res seqs)
  from rescan_events_step(3) show ?case
  proof (rule judgeEvents_induct)
    fix r u d
    assume "micros db d"
    then show "micros db (d\<lparr>jd_events := map (rescan_event u) (jd_events d)\<rparr>)"
      using m_scan rtranclp.rtrancl_into_rtrancl by metis
  qed simp
qed

lemma jsteps_micros: "jsteps fx C F db db' \<Longrightarrow> micros db db'"
  by (induction rule: jsteps.induct) (auto intro: rtranclp_trans jstep_micros)

section \<open>Sequence numbers\<close>

text \<open>
  Event numbers are positive, strictly increasing and below the counter; each current row names its last
  event, and no two rows name the same one.
\<close>

definition books_ok :: "nat \<Rightarrow> (Identity \<rightharpoonup> Book) \<Rightarrow> bool" where
  "books_ok n bk \<longleftrightarrow> (\<forall>i b. bk i = Some b \<longrightarrow> bk_lastEventSeq b \<le> n)
     \<and> (\<forall>i j b b'. bk i = Some b \<and> bk j = Some b' \<and> bk_lastEventSeq b = bk_lastEventSeq b' \<longrightarrow> i = j)"

definition events_ok :: "nat \<Rightarrow> nat list \<Rightarrow> bool" where
  "events_ok n ss \<longleftrightarrow> sorted_wrt (<) ss \<and> set ss \<subseteq> {1..n}"

definition seq_ok :: "JDB \<Rightarrow> bool" where
  "seq_ok db \<longleftrightarrow> events_ok (jd_seq db) (map er_seq (jd_events db)) \<and> books_ok (jd_seq db) (jd_book db)"

lemma books_ok_insert: "books_ok n bk \<Longrightarrow> bk_lastEventSeq b = Suc n \<Longrightarrow> books_ok (Suc n) (bk(i \<mapsto> b))"
  by (fastforce simp: books_ok_def le_Suc_eq)

lemma books_ok_renamed:
  assumes "books_ok n bk" "\<And>i b. bk' i = Some b \<Longrightarrow> \<exists>b'. bk (g i) = Some b' \<and> bk_lastEventSeq b' = bk_lastEventSeq b"
    "\<And>i j. bk' i \<noteq> None \<Longrightarrow> bk' j \<noteq> None \<Longrightarrow> g i = g j \<Longrightarrow> i = j"
  shows "books_ok n bk'"
  unfolding books_ok_def
proof (intro conjI allI impI)
  fix i b assume "bk' i = Some b"
  then show "bk_lastEventSeq b \<le> n" using assms(1,2) unfolding books_ok_def by metis
next
  fix i j b b' assume a: "bk' i = Some b \<and> bk' j = Some b' \<and> bk_lastEventSeq b = bk_lastEventSeq b'"
  then have "g i = g j" using assms(1,2) unfolding books_ok_def by metis
  then show "i = j" using a assms(3) by simp
qed

lemma books_ok_confirm:
  assumes "books_ok n bk"
  shows "books_ok n (\<lambda>i. if P i then map_option (\<lambda>b. b\<lparr>bk_confirmedBy := sid\<rparr>) (bk i) else bk i)"
  by (rule books_ok_renamed [where g = "\<lambda>i. i", OF assms]) (auto split: if_splits)

lemma books_ok_delete:
  assumes "books_ok n bk"
  shows "books_ok n (\<lambda>i. if P i then None else bk i)"
  by (rule books_ok_renamed [where g = "\<lambda>i. i", OF assms]) (auto split: if_splits)

lemma books_ok_move:
  assumes "books_ok n bk"
  shows "books_ok n (move_row nt subject marker (\<lambda>b. b) bk)"
  by (rule books_ok_renamed [where g = "\<lambda>i. if i = note_id nt marker then note_id nt subject else i", OF assms])
    (auto simp: move_row_def option.map_ident split: if_splits)

lemma events_ok_append: "events_ok n ss \<Longrightarrow> events_ok (Suc n) (ss @ [Suc n])"
  by (fastforce simp: events_ok_def sorted_wrt_append)

lemma sorted_wrt_filter_map: "sorted_wrt R (map f xs) \<Longrightarrow> sorted_wrt R (map f (filter P xs))"
  by (induction xs) auto

lemma events_ok_filter: "events_ok n (map f xs) \<Longrightarrow> events_ok n (map f (filter P xs))"
  by (auto simp: events_ok_def sorted_wrt_filter_map)

lemma move_event_seq [simp]: "er_seq (move_event n subject marker e) = er_seq e"
  by (simp add: move_event_def Let_def)

lemma rescan_event_seq [simp]: "er_seq (rescan_event u e) = er_seq e"
  by (simp add: rescan_event_def)

lemma write_event_tables:
  "jd_events (write_event env t subject src cur ev db) =
     jd_events db @ [(fst (buildEvent env t subject src (case cur (ev_key ev) of Some c \<Rightarrow> c | None \<Rightarrow> zero_current) ev))\<lparr>er_seq := Suc (jd_seq db)\<rparr>]"
  "jd_seq (write_event env t subject src cur ev db) = Suc (jd_seq db)"
  "jd_book (write_event env t subject src cur ev db) = (jd_book db)(row_id t subject (ev_key ev) \<mapsto>
     book_row src (Suc (jd_seq db)) (jd_book db (row_id t subject (ev_key ev))))"
  "jd_current (write_event env t subject src cur ev db) = (jd_current db)(row_id t subject (ev_key ev) \<mapsto>
     snd (buildEvent env t subject src (case cur (ev_key ev) of Some c \<Rightarrow> c | None \<Rightarrow> zero_current) ev))"
  by (simp_all add: write_event_def case_prod_unfold Let_def)

lemma micro_seq: "micro db db' \<Longrightarrow> jd_seq db \<le> jd_seq db'"
  by (induction rule: micro.induct)
    (simp_all add: write_event_tables confirm_rows_def set_tables_def delete_rows_def move_note_def)

lemma micro_seq_ok: "micro db db' \<Longrightarrow> seq_ok db \<Longrightarrow> seq_ok db'"
proof (induction rule: micro.induct)
  case (m_event db env t subject src cur ev)
  then show ?case by (simp add: seq_ok_def write_event_tables events_ok_append books_ok_insert book_row_def)
next
  case (m_confirm db P t0 sid)
  then show ?case by (simp add: seq_ok_def confirm_rows_def books_ok_confirm)
next
  case (m_delete db P)
  then show ?case by (simp add: seq_ok_def delete_rows_def events_ok_filter books_ok_delete)
next
  case (m_move db n subject marker)
  then show ?case by (simp add: seq_ok_def move_note_def comp_def books_ok_move)
next
  case (m_scan db u)
  then show ?case by (simp add: seq_ok_def comp_def)
qed (simp_all add: seq_ok_def set_tables_def)

section \<open>Reads stay valid\<close>

lemma micro_same_current:
  "micro db db' \<Longrightarrow> cr_seq r \<le> jd_seq db \<Longrightarrow> same_current db r \<Longrightarrow> same_current db' r"
proof (induction rule: micro.induct)
  case (m_event db env t subject src cur ev)
  then show ?case by (auto simp: same_current_def write_event_tables book_row_def split: if_splits)
next
  case (m_confirm db P t0 sid)
  then show ?case by (fastforce simp: same_current_def confirm_rows_def confirm_row_def split: if_splits)
next
  case (m_delete db P)
  then show ?case by (auto simp: same_current_def delete_rows_def)
next
  case (m_move db n subject marker)
  then show ?case by (fastforce simp: same_current_def move_note_def move_row_def split: if_splits)
qed (auto simp: same_current_def set_tables_def)

lemma micro_same_event:
  "micro db db' \<Longrightarrow> ed_seq r \<le> jd_seq db \<Longrightarrow> same_event db r \<Longrightarrow> same_event db' r"
proof (induction rule: micro.induct)
  case (m_event db env t subject src cur ev)
  then show ?case by (auto simp: same_event_def write_event_tables)
next
  case (m_delete db P)
  then show ?case by (auto simp: same_event_def delete_rows_def)
next
  case (m_move db n subject marker)
  then show ?case by (auto simp: same_event_def same_values_def move_note_def move_event_def note_id_def Let_def)
next
  case (m_scan db u)
  then show ?case by (auto simp: same_event_def same_values_def rescan_event_def)
qed (auto simp: same_event_def set_tables_def confirm_rows_def)

lemma micros_seq_ok: "micros db db' \<Longrightarrow> seq_ok db \<Longrightarrow> seq_ok db'"
  by (induction rule: rtranclp_induct) (auto intro: micro_seq_ok)

lemma micros_same_current:
  assumes "micros db db'" "cr_seq r \<le> jd_seq db" "same_current db r"
  shows "cr_seq r \<le> jd_seq db' \<and> same_current db' r"
  using assms by (induction rule: rtranclp_induct) (use micro_same_current micro_seq le_trans in \<open>blast+\<close>)

lemma micros_same_event:
  assumes "micros db db'" "ed_seq r \<le> jd_seq db" "same_event db r"
  shows "ed_seq r \<le> jd_seq db' \<and> same_event db' r"
  using assms by (induction rule: rtranclp_induct) (use micro_same_event micro_seq le_trans in \<open>blast+\<close>)

lemma readCurrent_same:
  assumes "seq_ok db" "r \<in> set (readCurrent db is)"
  shows "cr_seq r \<le> jd_seq db \<and> same_current db r"
proof -
  obtain i c b where r: "r = \<lparr>cr_id = i, cr_fields = cu_fields c, cr_scan = cu_scan c, cr_hash = cu_hash c, cr_seq = bk_lastEventSeq b\<rparr>"
    and i: "jd_current db i = Some c" "jd_book db i = Some b"
    using assms(2) by (auto simp: readCurrent_def List.map_filter_def split: option.splits)
  have "bk_lastEventSeq b \<le> jd_seq db" using assms(1) i(2) by (simp add: seq_ok_def books_ok_def)
  moreover have "cu_fields c' = cu_fields c"
    if j: "jd_current db j = Some c'" "jd_book db j = Some b'" "bk_lastEventSeq b' = bk_lastEventSeq b" for j b' c'
  proof -
    have "j = i" using assms(1) i(2) j(2,3) unfolding seq_ok_def books_ok_def by blast
    then show ?thesis using i(1) j(1) by simp
  qed
  ultimately show ?thesis unfolding same_current_def r by simp blast
qed

lemma sorted_wrt_less_unique:
  "sorted_wrt (<) (map f xs) \<Longrightarrow> x \<in> set xs \<Longrightarrow> y \<in> set xs \<Longrightarrow> f x = (f y :: nat) \<Longrightarrow> x = y"
  by (induction xs) auto

lemma readEvents_same:
  assumes "seq_ok db" "r \<in> set (readEvents db P)"
  shows "ed_seq r \<le> jd_seq db \<and> same_event db r"
proof -
  obtain e where e: "e \<in> set (jd_events db)" "ed_seq r = er_seq e" "same_values r e"
    using assms(2) by (auto simp: readEvents_def same_values_def)
  have s: "sorted_wrt (<) (map er_seq (jd_events db))" and "er_seq e \<le> jd_seq db"
    using assms(1) e(1) by (auto simp: seq_ok_def events_ok_def)
  then show ?thesis using e sorted_wrt_less_unique [OF s _ e(1)] by (auto simp: same_event_def)
qed

end
