(* ===== verification/Read.thy ===== *)
theory Read
  imports JStore JVersion
begin

text \<open>
  \<^verbatim>\<open>internal/journal/read.go\<close>: what a member of the household is shown of the journal. A reader's grants come
  from the roster and the kept notes they were frozen as a reader of; rows are selected by the visibility
  rule in SQL and checked again by the one in Go; text is masked by its verdicts. \<^verbatim>\<open>j.visible\<close>, which tests
  replace, is the Go rule.
\<close>

section \<open>Grants\<close>

definition ErrUnknownReader :: err where "ErrUnknownReader = Err ''journal: reader is not in the roster''"
definition ErrBadQuery :: err where "ErrBadQuery = Err ''journal: bad query''"

definition MaxEventsLimit :: int where "MaxEventsLimit = 10000"

definition frozen_grants :: "JDB \<Rightarrow> string \<Rightarrow> Grant list" where
  "frozen_grants db reader = sort_key fst
     (concat (map (\<lambda>(s, m, author). map (\<lambda>(_, aud). (s, if author then ErasedAuthor else ReaderToken aud))
                                     (filter (\<lambda>k. fst k = s) (jd_kept db)))
        (filter (\<lambda>(s, m, author). m = reader) (jd_readers db))))"

definition grantsOf :: "journal_env \<Rightarrow> JDB \<Rightarrow> string \<Rightarrow> err + (Grant list \<times> string)" where
  "grantsOf env db reader =
     (case je_roster env of
        None \<Rightarrow> Inl ErrNoRoster
      | Some ros \<Rightarrow>
          (case Roster_Grants (Some ros) reader of
             None \<Rightarrow> Inl ErrUnknownReader
           | Some g \<Rightarrow>
               if reader \<in> set (jd_erasures db) then Inl ErrUnknownReader
               else Inr (g @ frozen_grants db reader, ro_sha ros)))"

section \<open>The visibility rule in SQL\<close>

text \<open>\<open>subs\<close> and \<open>toks\<close> are the two array arguments; unnesting pairs them up.\<close>

definition visibleSQL :: "string list \<Rightarrow> string list \<Rightarrow> string \<Rightarrow> string list \<Rightarrow> bool" where
  "visibleSQL subs toks subject audience =
     (if prefix ErasedPrefix subject then
        list_ex (\<lambda>(s, t). s = subject \<and> (t = ErasedAuthor \<or> t = ErasedReaderPrefix @ go_join '','' audience)) (zip subs toks)
      else list_ex (\<lambda>a. a \<in> set (toks @ [Public])) audience
           \<and> (Public \<in> set audience \<or> list_ex (\<lambda>(s, t). s = subject \<and> t \<in> set audience) (zip subs toks)))"

definition selects :: "Grant list \<Rightarrow> string \<Rightarrow> string list \<Rightarrow> bool" where
  "selects grants subject audience = (let (subs, toks) = Pairs grants in visibleSQL subs toks subject audience)"

definition wanted :: "string option \<Rightarrow> string \<Rightarrow> Identity \<Rightarrow> bool" where
  "wanted subject rt i \<longleftrightarrow> (case subject of None \<Rightarrow> True | Some s \<Rightarrow> id_subject i = s) \<and> (rt = [] \<or> id_type i = rt)"

section \<open>State\<close>

record StateQuery =
  sq_reader :: string
  sq_subject :: "string option"
  sq_type :: string
  sq_scope :: string
  sq_includeRemoved :: bool

record StateRow =
  so_id :: Identity
  so_scope :: string
  so_audience :: "string list"
  so_fields :: "string \<rightharpoonup> bytes"
  so_removed :: bool
  so_firstSeenAt :: int
  so_lastSeenAt :: int
  so_confirmedAt :: int
  so_inLatest :: "bool option"
  so_approximate :: bool

text \<open>
  The newest applied snapshot of a scope. Of snapshots with the same two times the database may take
  any; here it is the one stored first.
\<close>

definition newer :: "SnapRow \<Rightarrow> SnapRow \<Rightarrow> SnapRow" where
  "newer a b = (if ss_observedAt b > ss_observedAt a \<or> ss_observedAt b = ss_observedAt a \<and> ss_received b > ss_received a then b else a)"

definition latest_applied :: "JDB \<Rightarrow> string \<Rightarrow> string \<Rightarrow> SnapRow option" where
  "latest_applied db rt scope =
     (case filter (\<lambda>s. ss_type s = rt \<and> ss_scope s = scope \<and> ss_status s = ''applied'') (jd_snapshots db) of
        [] \<Rightarrow> None | s # ss \<Rightarrow> Some (foldl newer s ss))"

text \<open>A note has no snapshot; comparing with no snapshot is neither true nor false.\<close>

definition in_latest :: "JDB \<Rightarrow> Identity \<Rightarrow> Current \<Rightarrow> Book \<Rightarrow> bool option" where
  "in_latest db i c b =
     (if bk_confirmedBy b = [] then None
      else if cu_removed c then Some False
      else map_option (\<lambda>s. bk_confirmedBy b = ss_id s) (latest_applied db (id_type i) (cu_scope c)))"

definition event_approximate :: "JDB \<Rightarrow> nat \<Rightarrow> bool" where
  "event_approximate db sq = (case find (\<lambda>e. er_seq e = sq) (jd_events db) of Some e \<Rightarrow> er_approximate e | None \<Rightarrow> False)"

definition mask_state :: "journal_env \<Rightarrow> Registry_t \<Rightarrow> string \<Rightarrow> (string \<rightharpoonup> ScanEntry) \<Rightarrow> string \<Rightarrow> bytes \<Rightarrow> bytes" where
  "mask_state env reg rt scan f v =
     (if scan f \<noteq> None \<or> kind_isText reg rt f
      then the (Text (je_json env) (Some v) (case scan f of Some e \<Rightarrow> se_verdict e | None \<Rightarrow> [])) else v)"

definition state_row :: "journal_env \<Rightarrow> Registry_t \<Rightarrow> JDB \<Rightarrow> Identity \<Rightarrow> Current \<Rightarrow> Book \<Rightarrow> err + StateRow" where
  "state_row env reg db i c b =
     (case je_jsonb env (cu_fields c) of
        None \<Rightarrow> Inl (Lib ''json.Unmarshal'')
      | Some m \<Rightarrow>
          Inr \<lparr>so_id = i, so_scope = cu_scope c, so_audience = cu_audience c,
               so_fields = (\<lambda>f. map_option (mask_state env reg (id_type i) (cu_scan c) f) (m f)),
               so_removed = cu_removed c, so_firstSeenAt = bk_firstSeenAt b, so_lastSeenAt = cu_lastSeenAt c,
               so_confirmedAt = cu_lastConfirmedAt c, so_inLatest = in_latest db i c b,
               so_approximate = event_approximate db (bk_lastEventSeq b)\<rparr>)"

definition selected_rows :: "Grant list \<Rightarrow> JDB \<Rightarrow> StateQuery \<Rightarrow> Identity set" where
  "selected_rows grants db q =
     {i \<in> dom (jd_current db). let c = the (jd_current db i) in
        selects grants (id_subject i) (cu_audience c) \<and> wanted (sq_subject q) (sq_type q) i
        \<and> (sq_scope q = [] \<or> cu_scope c = sq_scope q) \<and> (sq_includeRemoved q \<or> \<not> cu_removed c)}"

definition in_order :: "Identity set \<Rightarrow> Identity list" where
  "in_order is = map (\<lambda>(t, s, k). \<lparr>id_type = t, id_subject = s, id_key = k\<rparr>)
     (sorted_list_of_set ((\<lambda>i. (id_type i, id_subject i, id_key i)) ` is))"

definition StateWithRoster :: "journal_env \<Rightarrow> Registry_t \<Rightarrow> JDB \<Rightarrow> StateQuery \<Rightarrow> err + (StateRow list \<times> string)" where
  "StateWithRoster env reg db q =
     (case grantsOf env db (sq_reader q) of
        Inl e \<Rightarrow> Inl e
      | Inr (grants, sha) \<Rightarrow>
          let rows = filter (\<lambda>i. Visible grants (id_subject i) (cu_audience (the (jd_current db i))))
                       (in_order (selected_rows grants db q))
          in (case map_values (\<lambda>i. state_row env reg db i (the (jd_current db i)) (the (jd_book db i))) rows of
                Inl e \<Rightarrow> Inl e | Inr out \<Rightarrow> Inr (out, sha)))"

section \<open>Events\<close>

record EventsQuery =
  eq_reader :: string
  eq_after :: int
  eq_subject :: "string option"
  eq_type :: string
  eq_minImportance :: string
  eq_limit :: int

record EventOut =
  eo_seq :: nat
  eo_id :: Identity
  eo_kind :: Kind
  eo_version :: int
  eo_scope :: string
  eo_prevScope :: string
  eo_audience :: "string list"
  eo_fields :: "string \<rightharpoonup> bytes"
  eo_changed :: "string \<rightharpoonup> Change"
  eo_lastFields :: "string \<rightharpoonup> bytes"
  eo_observedAt :: int
  eo_prevObserved :: "int option"
  eo_approximate :: bool
  eo_actor :: string
  eo_importance :: string
  eo_rule :: string
  eo_groupKey :: string
  eo_notify :: "Notice list"

text \<open>
  A map under its forwarded names. Where two names are forwarded to one, which entry stays depends on the
  order in which the map is visited, here the sorted one; names of a valid registry stay apart.
\<close>

definition rename_map :: "(string \<Rightarrow> string) \<Rightarrow> (string \<rightharpoonup> 'a) \<Rightarrow> (string \<rightharpoonup> 'a)" where
  "rename_map g m n = (case find (\<lambda>k. g k = n) (rev (Keys m)) of Some k \<Rightarrow> m k | None \<Rightarrow> None)"

definition masked :: "Registry_t \<Rightarrow> string \<Rightarrow> (string \<rightharpoonup> EventScan) \<Rightarrow> string \<Rightarrow> bool" where
  "masked reg rt verdicts f \<longleftrightarrow> verdicts f \<noteq> None \<or> kind_isText reg rt f"

definition mask_event ::
  "journal_env \<Rightarrow> Registry_t \<Rightarrow> string \<Rightarrow> (string \<rightharpoonup> EventScan) \<Rightarrow> string \<Rightarrow> bytes option \<Rightarrow> string \<Rightarrow> bytes option" where
  "mask_event env reg rt verdicts f v verdict = (if masked reg rt verdicts f then Text (je_json env) v verdict else v)"

definition withheld_by :: "Registry_t \<Rightarrow> string \<Rightarrow> (string \<rightharpoonup> EventScan) \<Rightarrow> string \<Rightarrow> bytes option \<Rightarrow> string \<Rightarrow> bool" where
  "withheld_by reg rt verdicts f v verdict \<longleftrightarrow> masked reg rt verdicts f \<and> v \<noteq> None \<and> verdict \<noteq> VerdictPass_j"

definition verdict_of :: "(string \<rightharpoonup> EventScan) \<Rightarrow> string \<Rightarrow> EventScan" where
  "verdict_of verdicts f = (case verdicts f of Some s \<Rightarrow> s | None \<Rightarrow> no_scan)"

definition event_verdicts :: "Registry_t \<Rightarrow> EventRow \<Rightarrow> string \<rightharpoonup> EventScan" where
  "event_verdicts reg e = rename_map (ForwardName reg (id_type (er_id e)) (er_version e)) (er_scan e)"

definition masked_old :: "journal_env \<Rightarrow> Registry_t \<Rightarrow> EventRow \<Rightarrow> (string \<rightharpoonup> bytes) \<Rightarrow> string \<Rightarrow> bytes option" where
  "masked_old env reg e olds n =
     mask_event env reg (id_type (er_id e)) (event_verdicts reg e) n (olds n) (es_old (verdict_of (event_verdicts reg e) n))"

definition masked_new :: "journal_env \<Rightarrow> Registry_t \<Rightarrow> EventRow \<Rightarrow> (string \<rightharpoonup> bytes) \<Rightarrow> string \<Rightarrow> bytes option" where
  "masked_new env reg e news n =
     mask_event env reg (id_type (er_id e)) (event_verdicts reg e) n (news n) (es_new (verdict_of (event_verdicts reg e) n))"

definition prev_audience :: "EventRow \<Rightarrow> string list" where
  "prev_audience e = (case er_prevAudience e of Some a \<Rightarrow> a | None \<Rightarrow> [])"

definition shown_change ::
  "journal_env \<Rightarrow> Registry_t \<Rightarrow> Grant list \<Rightarrow> EventRow \<Rightarrow> (string \<rightharpoonup> bytes) \<Rightarrow> (string \<rightharpoonup> bytes) \<Rightarrow> string \<Rightarrow> Change option" where
  "shown_change env reg grants e olds news n =
     (if olds n = None \<and> news n = None then None
      else Some \<lparr>ch_old = OldValue (je_json env) grants (id_subject (er_id e)) (prev_audience e) (er_prevAudience e \<noteq> None)
                            (masked_old env reg e olds n),
                 ch_new = masked_new env reg e news n\<rparr>)"

text \<open>Some value of the event is withheld by its verdict.\<close>

definition withheldText :: "Registry_t \<Rightarrow> EventRow \<Rightarrow> (string \<rightharpoonup> bytes) \<Rightarrow> (string \<rightharpoonup> bytes) \<Rightarrow> bool" where
  "withheldText reg e olds news \<longleftrightarrow>
     (let vs = event_verdicts reg e; rt = id_type (er_id e)
      in list_ex (\<lambda>n. withheld_by reg rt vs n (olds n) (es_old (verdict_of vs n)) \<or> withheld_by reg rt vs n (news n) (es_new (verdict_of vs n)))
           (sorted_list_of_set (dom olds \<union> dom news)))"

definition fillEventValues :: "journal_env \<Rightarrow> Registry_t \<Rightarrow> Grant list \<Rightarrow> EventRow \<Rightarrow> EventOut \<Rightarrow> err + EventOut" where
  "fillEventValues env reg grants e out =
     (case decode_values (je_jsonb env) (er_kind e) (er_fields e) (er_changed e) of
        None \<Rightarrow> Inl (Wrap ''event'' (Lib ''json.Unmarshal''))
      | Some (o', n') \<Rightarrow>
          let name = ForwardName reg (id_type (er_id e)) (er_version e);
              olds = rename_map name o'; news = rename_map name n';
              out = (if withheldText reg e olds news then out\<lparr>eo_groupKey := []\<rparr> else out)
          in Inr (case er_kind e of
                Updated \<Rightarrow> out\<lparr>eo_changed := shown_change env reg grants e olds news\<rparr>
              | Removed \<Rightarrow> out\<lparr>eo_lastFields := masked_old env reg e olds\<rparr>
              | _ \<Rightarrow> out\<lparr>eo_fields := masked_new env reg e news\<rparr>))"

text \<open>Across an audience change the previous scope and observation belong to the old audience.\<close>

definition outside_before :: "Grant list \<Rightarrow> EventRow \<Rightarrow> bool" where
  "outside_before grants e \<longleftrightarrow> er_prevAudience e \<noteq> None \<and> \<not> Visible grants (id_subject (er_id e)) (prev_audience e)"

definition shown_event :: "Grant list \<Rightarrow> EventRow \<Rightarrow> EventOut" where
  "shown_event grants e =
     \<lparr>eo_seq = er_seq e, eo_id = er_id e, eo_kind = er_kind e, eo_version = er_version e, eo_scope = er_scope e,
      eo_prevScope = (if outside_before grants e then [] else case er_prevScope e of Some s \<Rightarrow> s | None \<Rightarrow> []),
      eo_audience = er_audience e, eo_fields = Map.empty, eo_changed = Map.empty, eo_lastFields = Map.empty,
      eo_observedAt = er_observedAt e, eo_prevObserved = (if outside_before grants e then None else er_prevObserved e),
      eo_approximate = er_approximate e, eo_actor = er_actor e, eo_importance = ro_importance (er_outcome e),
      eo_rule = ro_rule (er_outcome e), eo_groupKey = ro_groupKey (er_outcome e),
      eo_notify = Notices grants (id_subject (er_id e)) (ro_notify (er_outcome e))\<rparr>"

definition min_importance :: "EventsQuery \<Rightarrow> string" where
  "min_importance q = (if eq_minImportance q = [] then Low else eq_minImportance q)"

definition selects_event :: "Grant list \<Rightarrow> EventsQuery \<Rightarrow> EventRow \<Rightarrow> bool" where
  "selects_event grants q e \<longleftrightarrow> int (er_seq e) > eq_after q \<and> selects grants (id_subject (er_id e)) (er_audience e)
     \<and> wanted (eq_subject q) (eq_type q) (er_id e) \<and> ro_importance (er_outcome e) \<in> set (AtLeast (min_importance q))"

definition Events :: "journal_env \<Rightarrow> Registry_t \<Rightarrow> JDB \<Rightarrow> EventsQuery \<Rightarrow> err + EventOut list" where
  "Events env reg db q =
     (case grantsOf env db (eq_reader q) of
        Inl e \<Rightarrow> Inl e
      | Inr (grants, sha) \<Rightarrow>
          if eq_limit q < 1 \<or> eq_limit q > MaxEventsLimit \<or> eq_after q < 0 \<or> ImportanceRank (min_importance q) = 0 then Inl ErrBadQuery
          else map_values (\<lambda>e. fillEventValues env reg grants e (shown_event grants e))
                 (filter (\<lambda>e. Visible grants (id_subject (er_id e)) (er_audience e))
                    (take (nat (eq_limit q)) (filter (selects_event grants q) (sort_key er_seq (jd_events db))))))"

section \<open>Counts\<close>

record CountRow =
  ct_subject :: string
  ct_type :: string
  ct_live :: nat
  ct_events :: "string \<Rightarrow> nat"

text \<open>
  The groups share subject and audience, so checking a group is checking its rows. Whoever holds a row or
  an event under a subject and type has a line there.
\<close>

definition counted_rows :: "Grant list \<Rightarrow> JDB \<Rightarrow> string option \<Rightarrow> Identity set" where
  "counted_rows grants db subject = {i \<in> dom (jd_current db). let c = the (jd_current db i) in
     \<not> cu_removed c \<and> selects grants (id_subject i) (cu_audience c) \<and> wanted subject [] i \<and> Visible grants (id_subject i) (cu_audience c)}"

definition counted_events :: "Grant list \<Rightarrow> JDB \<Rightarrow> string option \<Rightarrow> int \<Rightarrow> EventRow list" where
  "counted_events grants db subject since = filter (\<lambda>e. er_observedAt e \<ge> since \<and> selects grants (id_subject (er_id e)) (er_audience e)
     \<and> wanted subject [] (er_id e) \<and> Visible grants (id_subject (er_id e)) (er_audience e)) (jd_events db)"

definition Counts :: "journal_env \<Rightarrow> JDB \<Rightarrow> string \<Rightarrow> string option \<Rightarrow> int \<Rightarrow> err + CountRow list" where
  "Counts env db reader subject since =
     (case grantsOf env db reader of
        Inl e \<Rightarrow> Inl e
      | Inr (grants, sha) \<Rightarrow>
          let rows = counted_rows grants db subject; evs = counted_events grants db subject since;
              key = (\<lambda>i. (id_subject i, id_type i))
          in Inr (map (\<lambda>(s, t). \<lparr>ct_subject = s, ct_type = t, ct_live = card {i \<in> rows. key i = (s, t)},
                     ct_events = (\<lambda>imp. length (filter (\<lambda>e. key (er_id e) = (s, t) \<and> ro_importance (er_outcome e) = imp) evs))\<rparr>)
               (sorted_list_of_set (key ` rows \<union> key ` er_id ` set evs))))"

section \<open>The two visibility rules agree\<close>

lemma zip_pairs: "zip (map fst g) (map snd g) = g"
  by (induction g) auto

lemma list_ex_pairs: "list_ex (\<lambda>(s, t). P s t) xs = list_ex (\<lambda>g. P (fst g) (snd g)) xs"
  by (simp add: case_prod_unfold)

lemma list_ex_mem: "list_ex (\<lambda>a. x = a) xs \<longleftrightarrow> x \<in> set xs" "list_ex (\<lambda>a. a = x) xs \<longleftrightarrow> x \<in> set xs"
  by (induction xs) auto

lemma selects_Visible: "selects grants subject audience = Visible grants subject audience"
proof -
  have p: "selects grants subject audience = visibleSQL (map fst grants) (map snd grants) subject audience"
    by (simp add: selects_def Pairs_def)
  show ?thesis
  proof (cases "prefix ErasedPrefix subject")
    case True
    then show ?thesis unfolding p visibleSQL_def Visible_def IsErased_def zip_pairs ReaderToken_def list_ex_pairs by simp
  next
    case False
    have "list_ex (\<lambda>a. a \<in> set (map snd grants @ [Public])) audience"
      if "Public \<in> set audience \<or> list_ex (\<lambda>g. fst g = subject \<and> snd g \<in> set audience) grants"
      using that
    proof
      assume "list_ex (\<lambda>g. fst g = subject \<and> snd g \<in> set audience) grants"
      then obtain g where "g \<in> set grants" "snd g \<in> set audience" unfolding list_ex_iff by blast
      moreover from this have "snd g \<in> set (map snd grants @ [Public])" by simp
      ultimately show ?thesis unfolding list_ex_iff by blast
    qed (unfold list_ex_iff, rule bexI [of _ Public], simp_all)
    then show ?thesis
      unfolding p visibleSQL_def Visible_def IsErased_def zip_pairs list_ex_pairs list_ex_mem if_not_P [OF False] by blast
  qed
qed

text \<open>
  C21: The rule in SQL is the rule in Go. For every list of grants and every row, the condition the
  database evaluates over the two arrays of the reader's grants (its index-friendly necessary condition
  and its separate branch for kept notes included) holds exactly when the Go rule makes the row visible.
  So the check after the query never drops a row, and the query never misses one.
\<close>

theorem visibleSQL_is_Visible: "selects grants subject audience = Visible grants subject audience"
  by (rule selects_Visible)

section \<open>What State shows\<close>

lemma identity_eta: "\<lparr>id_type = id_type i, id_subject = id_subject i, id_key = id_key i\<rparr> = i"
  by (cases i) simp

lemma set_in_order: "finite is \<Longrightarrow> set (in_order is) = is"
  by (simp add: in_order_def image_image identity_eta)

lemma map_values_length: "map_values f xs = Inr ys \<Longrightarrow> length ys = length xs"
  by (induction xs arbitrary: ys) (auto split: sum.splits)

lemma map_values_map: "map_values f xs = Inr ys \<Longrightarrow> (\<And>x y. f x = Inr y \<Longrightarrow> g y = x) \<Longrightarrow> map g ys = xs"
  by (induction xs arbitrary: ys) (auto split: sum.splits)

lemma state_row_id: "state_row env reg db i c b = Inr row \<Longrightarrow> so_id row = i \<and> so_audience row = cu_audience c"
  by (auto simp: state_row_def split: option.splits)

text \<open>The rows a query asks for, under the rule for visibility.\<close>

definition asked_rows :: "Grant list \<Rightarrow> JDB \<Rightarrow> StateQuery \<Rightarrow> Identity set" where
  "asked_rows grants db q =
     {i. \<exists>c. jd_current db i = Some c \<and> Visible grants (id_subject i) (cu_audience c) \<and> wanted (sq_subject q) (sq_type q) i
           \<and> (sq_scope q = [] \<or> cu_scope c = sq_scope q) \<and> (sq_includeRemoved q \<or> \<not> cu_removed c)}"

lemma selected_rows_asked: "selected_rows grants db q = asked_rows grants db q"
  by (auto simp: selected_rows_def asked_rows_def Let_def selects_Visible split: option.splits)

lemma asked_finite: "finite (dom (jd_current db)) \<Longrightarrow> finite (asked_rows grants db q)"
  by (rule finite_subset [of _ "dom (jd_current db)"]) (auto simp: asked_rows_def)

lemma State_answer:
  assumes "finite (dom (jd_current db))" "StateWithRoster env reg db q = Inr (rows, sha)"
  obtains grants where "grantsOf env db (sq_reader q) = Inr (grants, sha)"
    "map_values (\<lambda>i. state_row env reg db i (the (jd_current db i)) (the (jd_book db i))) (in_order (asked_rows grants db q)) = Inr rows"
proof -
  obtain grants where g: "grantsOf env db (sq_reader q) = Inr (grants, sha)"
    and m: "map_values (\<lambda>i. state_row env reg db i (the (jd_current db i)) (the (jd_book db i)))
      (filter (\<lambda>i. Visible grants (id_subject i) (cu_audience (the (jd_current db i)))) (in_order (selected_rows grants db q))) = Inr rows"
    using assms(2) by (auto simp: StateWithRoster_def Let_def split: sum.splits prod.splits)
  have "Visible grants (id_subject i) (cu_audience (the (jd_current db i)))" if "i \<in> set (in_order (asked_rows grants db q))" for i
    using that set_in_order [OF asked_finite [OF assms(1)]] by (auto simp: asked_rows_def)
  then have "filter (\<lambda>i. Visible grants (id_subject i) (cu_audience (the (jd_current db i)))) (in_order (selected_rows grants db q))
      = in_order (asked_rows grants db q)"
    by (simp add: selected_rows_asked)
  then show ?thesis using that [OF g] m by simp
qed

text \<open>
  State answers with exactly the rows the reader may see. When a query is answered, the reader is in
  the roster and not erased, and the rows are all current rows that the rule for visibility lets that
  reader see and the query asks for, each once, in the order of type, subject and key; none is missing
  and none is added.
\<close>

theorem State_rows:
  assumes "finite (dom (jd_current db))" "StateWithRoster env reg db q = Inr (rows, sha)"
  shows "\<exists>grants. grantsOf env db (sq_reader q) = Inr (grants, sha) \<and> map so_id rows = in_order (asked_rows grants db q)"
proof -
  obtain grants where g: "grantsOf env db (sq_reader q) = Inr (grants, sha)"
    and m: "map_values (\<lambda>i. state_row env reg db i (the (jd_current db i)) (the (jd_book db i))) (in_order (asked_rows grants db q)) = Inr rows"
    using State_answer [OF assms] by blast
  have "map so_id rows = in_order (asked_rows grants db q)"
    using m by (rule map_values_map) (drule state_row_id, rule conjunct1)
  then show ?thesis using g by blast
qed

lemma Text_pass: "Text jl (Some v) verdict = Some w \<Longrightarrow> w = jl_encString jl WithheldScan \<or> w = v \<and> verdict = VerdictPass_j"
  by (auto simp: Text_def split: if_splits)

lemma keeps_text:
  assumes "keeps_strings fx" "fx_jsonb fx fs = Some m" "m f = Some w"
  shows "\<exists>v. fs f = Some v \<and> text_of fx w = text_of fx v"
proof -
  obtain v where v: "fs f = Some v" using assms unfolding keeps_strings_def by (metis not_None_eq)
  then have "jl_string (sl_json (fx_lib fx)) w = jl_string (sl_json (fx_lib fx)) v"
    using assms unfolding keeps_strings_def by blast
  then show ?thesis using v by (simp add: text_of_def)
qed

lemma row_ok_text:
  assumes "synced fx" "row_ok fx rt c" "kind_isText (fx_registry fx) rt f" "cu_fields c f = Some v"
  shows "\<forall>e. cu_scan c f = Some e \<longrightarrow> sound_pass fx v e"
proof (cases "Registry_Active (fx_registry fx) rt")
  case None
  then show ?thesis using assms(2,4) unfolding row_ok_def by blast
next
  case (Some t)
  obtain types where "NewRegistry_t types = Inr (fx_registry fx)" using assms(1) by (auto simp: synced_def)
  then have "ty_name t = rt" using Registry_Active_name(1) Some by blast
  then have "judged fx t (cu_fields c) (cu_scan c)" using assms(2) Some unfolding row_ok_def by blast
  moreover have "IsText t f" using assms(3) Some by (simp add: kind_isText_def)
  ultimately show ?thesis using assms(4) unfolding judged_def by fastforce
qed

lemma state_row_text:
  assumes "synced fx" "keeps_strings fx" "env_of fx env" "row_ok fx (id_type i) c" "state_row env (fx_registry fx) db i c b = Inr row"
    "so_fields row f = Some v" "kind_isText (fx_registry fx) (id_type i) f"
  shows "v = jl_encString (je_json env) WithheldScan
    \<or> (\<exists>e. cu_scan c f = Some e \<and> fx_judge fx (se_version e) (text_of fx v) = VerdictPass_j)"
proof -
  obtain m where m: "fx_jsonb fx (cu_fields c) = Some m"
    and row: "so_fields row = (\<lambda>f. map_option (mask_state env (fx_registry fx) (id_type i) (cu_scan c) f) (m f))"
    using assms(3,5) by (auto simp: state_row_def env_of_def split: option.splits)
  obtain w where w: "m f = Some w" "v = mask_state env (fx_registry fx) (id_type i) (cu_scan c) f w"
    using assms(6) row by auto
  obtain u where u: "cu_fields c f = Some u" "text_of fx w = text_of fx u" using keeps_text [OF assms(2) m w(1)] by blast
  have "v = jl_encString (je_json env) WithheldScan \<or> v = w \<and> (\<exists>e. cu_scan c f = Some e \<and> se_verdict e = VerdictPass_j)"
    using w(2) assms(7) by (auto simp: mask_state_def Text_def split: if_splits option.splits)
  then show ?thesis using row_ok_text [OF assms(1,4,7) u(1)] u(2) by (auto simp: sound_pass_def)
qed

text \<open>
  C7: State shows no text that no scanner passed. In a journal reached from one in order by any sequence
  of operations and rescans, every text value in every row of the answer (a field of a type the registry
  does not know counts as text) is the withheld marker, or a value that the scanner version recorded with
  it passed.
\<close>

theorem State_shows_passed_text:
  assumes "synced fx" "keeps_strings fx" "store_ok fx db0" "jsteps fx (storable fx) fresh db0 db" "env_of fx env"
    "StateWithRoster env (fx_registry fx) db q = Inr (rows, sha)" "row \<in> set rows" "so_fields row f = Some v"
    "kind_isText (fx_registry fx) (id_type (so_id row)) f"
  shows "v = jl_encString (je_json env) WithheldScan
    \<or> (\<exists>c e. jd_current db (so_id row) = Some c \<and> cu_scan c f = Some e
          \<and> fx_judge fx (se_version e) (text_of fx v) = VerdictPass_j)"
proof -
  have ok: "store_ok fx db" using jsteps_ok [OF assms(4,1-3)] .
  then have fin: "finite (dom (jd_current db))" by (simp add: store_ok_def)
  obtain grants where "map_values (\<lambda>i. state_row env (fx_registry fx) db i (the (jd_current db i)) (the (jd_book db i)))
      (in_order (asked_rows grants db q)) = Inr rows"
    using State_answer [OF fin assms(6)] by blast
  from map_values_in [OF this assms(7)] obtain i where i: "i \<in> set (in_order (asked_rows grants db q))"
    and r: "state_row env (fx_registry fx) db i (the (jd_current db i)) (the (jd_book db i)) = Inr row" by blast
  have id: "so_id row = i" using state_row_id [OF r] by simp
  obtain c where c: "jd_current db i = Some c"
    using i set_in_order [OF asked_finite [OF fin]] by (auto simp: asked_rows_def)
  then have "row_ok fx (id_type i) c" using ok by (simp add: store_ok_def)
  from state_row_text [OF assms(1,2,5) this _ assms(8)] show ?thesis using r c assms(9) id by auto
qed

section \<open>What Events shows\<close>

lemma rename_map_Some: "rename_map g m n = Some x \<Longrightarrow> \<exists>k. g k = n \<and> m k = Some x"
  by (auto simp: rename_map_def find_Some_iff split: option.splits)

text \<open>A value under a forwarded name, and the verdict found under that name, are of one stored field.\<close>

lemma verdict_of_value:
  assumes "inj_on g (dom m \<union> dom sc)" "rename_map g m n = Some x" "rename_map g sc n = Some s"
  shows "\<exists>k. g k = n \<and> m k = Some x \<and> sc k = Some s"
proof -
  obtain k j where k: "g k = n" "m k = Some x" and j: "g j = n" "sc j = Some s"
    using rename_map_Some [OF assms(2)] rename_map_Some [OF assms(3)] by blast
  then have "k = j" using assms(1) by (metis UnCI domI inj_onD)
  then show ?thesis using k j by blast
qed

lemma mask_event_cases:
  assumes "mask_event env reg rt verdicts f v verdict = Some x" "kind_isText reg rt f"
  shows "x = jl_encString (je_json env) WithheldScan \<or> v = Some x \<and> verdict = VerdictPass_j"
  using assms by (auto simp: mask_event_def masked_def Text_def split: option.splits if_splits)

lemma ever_passed_text: "text_of fx w = text_of fx v \<Longrightarrow> ever_passed fx w = ever_passed fx v"
  by (simp add: ever_passed_def)

text \<open>What is read of an event in order: its values came from the stored ones, and a pass was given.\<close>

lemma event_value_passed:
  assumes "keeps_strings fx" "event_ok fx e" "event_values (er_kind e) (er_fields e) (er_changed e) = Some (olds, news)"
    "fx_jsonb fx olds = Some o'" "fx_jsonb fx news = Some n'" "kind_isText (fx_registry fx) (id_type (er_id e)) n"
    "name = ForwardName (fx_registry fx) (id_type (er_id e)) (er_version e)"
  shows "rename_map name o' n = Some x \<Longrightarrow> es_old (verdict_of (event_verdicts (fx_registry fx) e) n) = VerdictPass_j \<Longrightarrow> ever_passed fx x"
    "rename_map name n' n = Some x \<Longrightarrow> es_new (verdict_of (event_verdicts (fx_registry fx) e) n) = VerdictPass_j \<Longrightarrow> ever_passed fx x"
proof -
  have "dom o' = dom olds" "dom n' = dom news" using assms(1,4,5) unfolding keeps_strings_def dom_def by metis+
  then have inj: "inj_on name (dom o' \<union> dom (er_scan e))" "inj_on name (dom n' \<union> dom (er_scan e))"
    using assms(2,3,7) by (auto simp: event_ok_def event_names_def intro: inj_on_subset)
  have sc: "\<exists>s. rename_map name (er_scan e) n = Some s \<and> verdict_of (event_verdicts (fx_registry fx) e) n = s"
    if "es_old (verdict_of (event_verdicts (fx_registry fx) e) n) = VerdictPass_j \<or> es_new (verdict_of (event_verdicts (fx_registry fx) e) n) = VerdictPass_j"
    using that assms(7) by (auto simp: verdict_of_def event_verdicts_def no_scan_def split: option.splits)
  have tf: "text_field fx e k" if "name k = n" for k using assms(6,7) that by (simp add: text_field_def)
  have j: "event_judged fx e" using assms(2) by (simp add: event_ok_def)
  show "ever_passed fx x" if a: "rename_map name o' n = Some x" "es_old (verdict_of (event_verdicts (fx_registry fx) e) n) = VerdictPass_j"
  proof -
    obtain s where s: "rename_map name (er_scan e) n = Some s" "es_old s = VerdictPass_j" using sc a(2) by auto
    obtain k where k: "name k = n" "o' k = Some x" "er_scan e k = Some s" using verdict_of_value [OF inj(1) a(1) s(1)] by blast
    obtain v where "olds k = Some v" "text_of fx x = text_of fx v" using keeps_text [OF assms(1,4) k(2)] by blast
    then show ?thesis using j assms(3) k(3) tf [OF k(1)] s(2) ever_passed_text unfolding event_judged_def by blast
  qed
  show "ever_passed fx x" if a: "rename_map name n' n = Some x" "es_new (verdict_of (event_verdicts (fx_registry fx) e) n) = VerdictPass_j"
  proof -
    obtain s where s: "rename_map name (er_scan e) n = Some s" "es_new s = VerdictPass_j" using sc a(2) by auto
    obtain k where k: "name k = n" "n' k = Some x" "er_scan e k = Some s" using verdict_of_value [OF inj(2) a(1) s(1)] by blast
    obtain v where "news k = Some v" "text_of fx x = text_of fx v" using keeps_text [OF assms(1,5) k(2)] by blast
    then show ?thesis using j assms(3) k(3) tf [OF k(1)] s(2) ever_passed_text unfolding event_judged_def by blast
  qed
qed

text \<open>The values an answered event carries, old and new, under their forwarded names.\<close>

definition carries :: "EventOut \<Rightarrow> string \<Rightarrow> bytes \<Rightarrow> bool" where
  "carries out n v \<longleftrightarrow> eo_fields out n = Some v \<or> eo_lastFields out n = Some v
     \<or> (\<exists>c. eo_changed out n = Some c \<and> (ch_old c = Some v \<or> ch_new c = Some v))"

definition withheld_value :: "json_lib \<Rightarrow> bytes \<Rightarrow> bool" where
  "withheld_value jl v \<longleftrightarrow> v = jl_encString jl WithheldScan \<or> v = jl_encString jl WithheldAudience"

lemma filled_values:
  assumes "fillEventValues env reg grants e (shown_event grants e) = Inr out" "carries out n v"
  obtains olds news o' n' where "event_values (er_kind e) (er_fields e) (er_changed e) = Some (olds, news)"
    "je_jsonb env olds = Some o'" "je_jsonb env news = Some n'"
    "v = jl_encString (je_json env) WithheldAudience
     \<or> masked_old env reg e (rename_map (ForwardName reg (id_type (er_id e)) (er_version e)) o') n = Some v
     \<or> masked_new env reg e (rename_map (ForwardName reg (id_type (er_id e)) (er_version e)) n') n = Some v"
proof -
  let ?name = "ForwardName reg (id_type (er_id e)) (er_version e)"
  obtain o' n' where d: "decode_values (je_jsonb env) (er_kind e) (er_fields e) (er_changed e) = Some (o', n')"
    using assms(1) by (auto simp: fillEventValues_def split: option.splits prod.splits)
  obtain olds news where ev: "event_values (er_kind e) (er_fields e) (er_changed e) = Some (olds, news)"
    "je_jsonb env olds = Some o'" "je_jsonb env news = Some n'"
    using d by (auto simp: decode_values_def split: option.splits prod.splits)
  have "v = jl_encString (je_json env) WithheldAudience \<or> masked_old env reg e (rename_map ?name o') n = Some v
      \<or> masked_new env reg e (rename_map ?name n') n = Some v"
    using assms unfolding fillEventValues_def d
    by (cases "er_kind e") (auto simp: Let_def carries_def shown_event_def shown_change_def OldValue_def split: if_splits)
  then show ?thesis using that ev by blast
qed

lemma filled_text:
  assumes "keeps_strings fx" "env_of fx env" "event_ok fx e" "fillEventValues env (fx_registry fx) grants e (shown_event grants e) = Inr out"
    "carries out n v" "kind_isText (fx_registry fx) (id_type (er_id e)) n"
  shows "withheld_value (je_json env) v \<or> ever_passed fx v"
proof -
  obtain olds news o' n' where ev: "event_values (er_kind e) (er_fields e) (er_changed e) = Some (olds, news)"
    "je_jsonb env olds = Some o'" "je_jsonb env news = Some n'"
    and v: "v = jl_encString (je_json env) WithheldAudience
     \<or> masked_old env (fx_registry fx) e (rename_map (ForwardName (fx_registry fx) (id_type (er_id e)) (er_version e)) o') n = Some v
     \<or> masked_new env (fx_registry fx) e (rename_map (ForwardName (fx_registry fx) (id_type (er_id e)) (er_version e)) n') n = Some v"
    using filled_values [OF assms(4,5)] .
  have j: "fx_jsonb fx olds = Some o'" "fx_jsonb fx news = Some n'" using ev assms(2) by (simp_all add: env_of_def)
  note passed = event_value_passed [OF assms(1,3) ev(1) j assms(6) refl]
  show ?thesis using v passed mask_event_cases [OF _ assms(6)]
    unfolding withheld_value_def masked_old_def masked_new_def by blast
qed

text \<open>The events a query asks for.\<close>

definition asked_event :: "Grant list \<Rightarrow> EventsQuery \<Rightarrow> EventRow \<Rightarrow> bool" where
  "asked_event grants q e \<longleftrightarrow> int (er_seq e) > eq_after q \<and> Visible grants (id_subject (er_id e)) (er_audience e)
     \<and> wanted (eq_subject q) (eq_type q) (er_id e) \<and> ro_importance (er_outcome e) \<in> set (AtLeast (min_importance q))"

definition asked_events :: "Grant list \<Rightarrow> JDB \<Rightarrow> EventsQuery \<Rightarrow> EventRow list" where
  "asked_events grants db q = filter (asked_event grants q) (sort_key er_seq (jd_events db))"

lemma Events_answer:
  assumes "Events env reg db q = Inr out"
  obtains grants sha where "grantsOf env db (eq_reader q) = Inr (grants, sha)" "1 \<le> eq_limit q" "eq_limit q \<le> MaxEventsLimit" "0 \<le> eq_after q"
    "map_values (\<lambda>e. fillEventValues env reg grants e (shown_event grants e)) (take (nat (eq_limit q)) (asked_events grants db q)) = Inr out"
proof -
  obtain grants sha where g: "grantsOf env db (eq_reader q) = Inr (grants, sha)"
    and l: "1 \<le> eq_limit q" "eq_limit q \<le> MaxEventsLimit" "0 \<le> eq_after q"
    and m: "map_values (\<lambda>e. fillEventValues env reg grants e (shown_event grants e))
      (filter (\<lambda>e. Visible grants (id_subject (er_id e)) (er_audience e))
         (take (nat (eq_limit q)) (filter (selects_event grants q) (sort_key er_seq (jd_events db))))) = Inr out"
    using assms by (auto simp: Events_def split: sum.splits prod.splits if_splits)
  have "selects_event grants q = asked_event grants q"
    by (rule ext) (simp add: selects_event_def asked_event_def selects_Visible)
  then have s: "filter (selects_event grants q) (sort_key er_seq (jd_events db)) = asked_events grants db q"
    by (simp add: asked_events_def)
  have "filter (\<lambda>e. Visible grants (id_subject (er_id e)) (er_audience e)) (take k (asked_events grants db q)) = take k (asked_events grants db q)" for k
    by (rule filter_True) (auto simp: asked_events_def asked_event_def dest: in_set_takeD)
  then show ?thesis using that [OF g l] m by (simp add: s)
qed

text \<open>
  C8: Events shows no text that no scanner passed. In a journal reached from one in order by any
  sequence of operations and rescans, every text value that an answered event carries, old or new, under
  the name its field has in the newest schema version, is a withheld marker or a value that some version
  of the scanner passed.
\<close>

theorem Events_shows_passed_text:
  assumes "synced fx" "keeps_strings fx" "store_ok fx db0" "jsteps fx (storable fx) fresh db0 db" "env_of fx env"
    "Events env (fx_registry fx) db q = Inr outs" "out \<in> set outs" "carries out n v"
    "kind_isText (fx_registry fx) (id_type (eo_id out)) n"
  shows "withheld_value (je_json env) v \<or> ever_passed fx v"
proof -
  have ok: "store_ok fx db" using jsteps_ok [OF assms(4,1-3)] .
  obtain grants where "map_values (\<lambda>e. fillEventValues env (fx_registry fx) grants e (shown_event grants e))
      (take (nat (eq_limit q)) (asked_events grants db q)) = Inr outs"
    using Events_answer [OF assms(6)] by blast
  from map_values_in [OF this assms(7)] obtain e where e: "e \<in> set (jd_events db)"
    "fillEventValues env (fx_registry fx) grants e (shown_event grants e) = Inr out"
    by (auto simp: asked_events_def dest!: in_set_takeD)
  then have "eo_id out = er_id e"
    by (auto simp: fillEventValues_def shown_event_def Let_def split: option.splits prod.splits Kind.splits if_splits)
  then show ?thesis using filled_text [OF assms(2,5) _ e(2) assms(8)] ok e(1) assms(9) by (auto simp: store_ok_def)
qed

section \<open>Paging\<close>

lemma filled_event:
  assumes "fillEventValues env reg grants e (shown_event grants e) = Inr out"
  shows "eo_seq out = er_seq e \<and> eo_id out = er_id e"
  using assms by (auto simp: fillEventValues_def shown_event_def Let_def split: option.splits prod.splits Kind.splits if_splits)

lemma Events_eq:
  assumes "grantsOf env db (eq_reader q) = Inr (grants, sha)" "1 \<le> eq_limit q" "eq_limit q \<le> MaxEventsLimit" "0 \<le> eq_after q"
    "ImportanceRank (min_importance q) \<noteq> 0"
  shows "Events env reg db q = map_values (\<lambda>e. fillEventValues env reg grants e (shown_event grants e))
    (take (nat (eq_limit q)) (asked_events grants db q))"
proof -
  have "selects_event grants q = asked_event grants q"
    by (rule ext) (simp add: selects_event_def asked_event_def selects_Visible)
  then have s: "filter (selects_event grants q) (sort_key er_seq (jd_events db)) = asked_events grants db q"
    by (simp add: asked_events_def)
  have "filter (\<lambda>e. Visible grants (id_subject (er_id e)) (er_audience e)) (take k (asked_events grants db q)) = take k (asked_events grants db q)" for k
    by (rule filter_True) (auto simp: asked_events_def asked_event_def dest: in_set_takeD)
  then show ?thesis using assms by (simp add: Events_def s)
qed

lemma Events_accepted:
  assumes "Events env reg db q = Inr out"
  shows "\<exists>grants sha. grantsOf env db (eq_reader q) = Inr (grants, sha) \<and> 1 \<le> eq_limit q \<and> eq_limit q \<le> MaxEventsLimit
    \<and> 0 \<le> eq_after q \<and> ImportanceRank (min_importance q) \<noteq> 0"
  using assms by (auto simp: Events_def split: sum.splits prod.splits if_splits)

lemma map_values_image: "map_values f xs = Inr ys \<Longrightarrow> (\<And>x y. f x = Inr y \<Longrightarrow> g y = h x) \<Longrightarrow> map g ys = map h xs"
  by (induction xs arbitrary: ys) (auto split: sum.splits)

lemma map_values_append: "map_values f xs = Inr a \<Longrightarrow> map_values f ys = Inr b \<Longrightarrow> map_values f (xs @ ys) = Inr (a @ b)"
  by (induction xs arbitrary: a) (auto split: sum.splits)

lemma drop_as_filter:
  assumes "sorted_wrt (<) (map f xs)" "0 < k" "k \<le> length xs"
  shows "filter (\<lambda>x. f (xs ! (k - 1)) < (f x :: nat)) xs = drop k xs"
proof -
  have lt: "f (xs ! i) < f (xs ! j)" if "i < j" "j < length xs" for i j
    using assms(1) that by (simp add: sorted_wrt_iff_nth_less)
  have "filter (\<lambda>x. f (xs ! (k - 1)) < f x) (take k xs) = []"
    unfolding filter_empty_conv
  proof
    fix x assume "x \<in> set (take k xs)"
    then obtain i where i: "i < k" "x = xs ! i" using assms(3) by (auto simp: in_set_conv_nth)
    show "\<not> f (xs ! (k - 1)) < f x"
    proof (cases "i = k - 1")
      case False
      then have "f (xs ! i) < f (xs ! (k - 1))" using i(1) assms(2,3) by (intro lt) auto
      then show ?thesis using i(2) by simp
    qed (use i(2) in simp)
  qed
  moreover have "filter (\<lambda>x. f (xs ! (k - 1)) < f x) (drop k xs) = drop k xs"
  proof (rule filter_True, rule ballI)
    fix x assume "x \<in> set (drop k xs)"
    then obtain i where "i < length xs - k" "x = xs ! (k + i)" by (auto simp: in_set_conv_nth)
    then show "f (xs ! (k - 1)) < f x" using assms(2,3) by (auto intro!: lt)
  qed
  ultimately show ?thesis by (metis append_Nil append_take_drop_id filter_append)
qed

lemma asked_events_sorted: "seq_ok db \<Longrightarrow> sorted_wrt (<) (map er_seq (asked_events grants db q))"
proof -
  assume "seq_ok db"
  then have s: "sorted_wrt (<) (map er_seq (jd_events db))" by (simp add: seq_ok_def events_ok_def)
  then have "sorted (map er_seq (jd_events db))" by (rule sorted_wrt_mono_rel [rotated]) simp
  then have "sort_key er_seq (jd_events db) = jd_events db" by (rule sort_key_id_if_sorted)
  then show ?thesis using sorted_wrt_filter_map [OF s] by (simp add: asked_events_def)
qed

lemma min_importance_page [simp]:
  "min_importance (q\<lparr>eq_after := a\<rparr>) = min_importance q" "min_importance (q\<lparr>eq_limit := m\<rparr>) = min_importance q"
  by (simp_all add: min_importance_def cong: if_cong)

lemma asked_events_after:
  assumes "eq_after q \<le> int a"
  shows "asked_events grants db (q\<lparr>eq_after := int a, eq_limit := m\<rparr>) = filter (\<lambda>e. a < er_seq e) (asked_events grants db q)"
  using assms unfolding asked_events_def
  by (auto simp: asked_event_def intro!: filter_cong)


section \<open>An erased member\<close>

lemma in_order_subset: "set (in_order is) \<subseteq> is"
proof -
  let ?A = "(\<lambda>i. (id_type i, id_subject i, id_key i)) ` is"
  have "set (sorted_list_of_set ?A) \<subseteq> ?A" by (cases "finite ?A") auto
  then have "set (in_order is) \<subseteq> (\<lambda>(t, s, k). \<lparr>id_type = t, id_subject = s, id_key = k\<rparr>) ` ?A"
    unfolding in_order_def set_map by (rule image_mono)
  also have "\<dots> = is" by (simp add: image_image identity_eta)
  finally show ?thesis .
qed

lemma State_row_of:
  assumes "StateWithRoster env reg db q = Inr (rows, sha)" "row \<in> set rows"
  shows "so_id row \<in> dom (jd_current db)"
proof -
  obtain grants where m: "map_values (\<lambda>i. state_row env reg db i (the (jd_current db i)) (the (jd_book db i)))
      (filter (\<lambda>i. Visible grants (id_subject i) (cu_audience (the (jd_current db i)))) (in_order (selected_rows grants db q))) = Inr rows"
    using assms(1) by (auto simp: StateWithRoster_def Let_def split: sum.splits prod.splits)
  obtain i where i: "i \<in> set (in_order (selected_rows grants db q))"
    and r: "state_row env reg db i (the (jd_current db i)) (the (jd_book db i)) = Inr row"
    using map_values_in [OF m assms(2)] by auto
  have "i \<in> selected_rows grants db q" using i in_order_subset by blast
  then have "i \<in> dom (jd_current db)" unfolding selected_rows_def by blast
  moreover have "so_id row = i" using state_row_id [OF r] by blast
  ultimately show ?thesis by simp
qed

lemma Events_out_of:
  assumes "Events env reg db q = Inr outs" "out \<in> set outs"
  shows "\<exists>e \<in> set (jd_events db). eo_id out = er_id e \<and> eo_seq out = er_seq e"
proof -
  obtain grants where "map_values (\<lambda>e. fillEventValues env reg grants e (shown_event grants e))
      (take (nat (eq_limit q)) (asked_events grants db q)) = Inr outs"
    using Events_answer [OF assms(1)] by blast
  from map_values_in [OF this assms(2)] obtain e where e: "e \<in> set (take (nat (eq_limit q)) (asked_events grants db q))"
    "fillEventValues env reg grants e (shown_event grants e) = Inr out" by blast
  have "e \<in> set (jd_events db)" using e(1) by (auto simp: asked_events_def dest: in_set_takeD)
  then show ?thesis using filled_event [OF e(2)] by blast
qed

lemma erased_reader: "reader \<in> set (jd_erasures db) \<Longrightarrow> \<exists>e. grantsOf env db reader = Inl e"
  by (auto simp: grantsOf_def split: option.splits)

text \<open>
  C10: An erased member neither reads nor is read. Once an erase of a member has succeeded, then after any
  further operations and rescans, under whatever roster is loaded, that member is refused every read of
  state, events and counts (an erase is a ban, also while the roster still lists them), and no answer to
  anybody holds a row or an event about them or of a note they wrote.
\<close>

theorem erased_neither_reads_nor_is_read:
  assumes "synced fx" "env_of fx env" "Erase env rnd subject db = (db1, Inr resp)" "jsteps fx C F db1 db2"
  shows "(\<forall>env' reg q r. sq_reader q = subject \<longrightarrow> StateWithRoster env' reg db2 q \<noteq> Inr r)
    \<and> (\<forall>env' reg q r. eq_reader q = subject \<longrightarrow> Events env' reg db2 q \<noteq> Inr r)
    \<and> (\<forall>env' about since r. Counts env' db2 subject about since \<noteq> Inr r)
    \<and> (\<forall>env' reg q rows sha. StateWithRoster env' reg db2 q = Inr (rows, sha)
          \<longrightarrow> (\<forall>row \<in> set rows. \<not> trace_of (fx_household fx) subject (so_id row)))
    \<and> (\<forall>env' reg q outs. Events env' reg db2 q = Inr outs
          \<longrightarrow> (\<forall>out \<in> set outs. \<not> trace_of (fx_household fx) subject (eo_id out)))"
proof -
  have g: "gone (fx_household fx) subject db2" and e: "subject \<in> set (jd_erasures db2)"
    using erase_final [OF assms] by simp_all
  have f1: "StateWithRoster env' reg db2 q \<noteq> Inr r" if "sq_reader q = subject" for env' reg q r
    using erased_reader [OF e, of env'] that by (auto simp: StateWithRoster_def)
  have f2: "Events env' reg db2 q \<noteq> Inr r" if "eq_reader q = subject" for env' reg q r
    using erased_reader [OF e, of env'] that by (auto simp: Events_def)
  have f3: "Counts env' db2 subject about since \<noteq> Inr r" for env' about since r
    using erased_reader [OF e, of env'] by (auto simp: Counts_def)
  have f4: "\<not> trace_of (fx_household fx) subject (so_id row)"
    if "StateWithRoster env' reg db2 q = Inr (rows, sha)" "row \<in> set rows" for env' reg q rows sha row
    using g State_row_of [OF that] by (simp add: gone_def)
  have f5: "\<not> trace_of (fx_household fx) subject (eo_id out)"
    if "Events env' reg db2 q = Inr outs" "out \<in> set outs" for env' reg q outs out
    using g Events_out_of [OF that] by (auto simp: gone_def)
  show ?thesis using f1 f2 f3 f4 f5 by (intro conjI allI impI ballI) blast+
qed

section \<open>Across a change of audience\<close>

text \<open>
  C24: Old values stay with the old audience. When an event changed the audience of its record and the
  reader does not belong to the audience before, the answer gives neither the previous scope nor the
  previous observation, and in place of every old value the marker for a different audience, whatever
  the scanner said of it.
\<close>

theorem old_audience_keeps_old_values:
  assumes "seq_ok db" "grantsOf env db (eq_reader q) = Inr (grants, sha)" "Events env reg db q = Inr outs" "out \<in> set outs"
    "e \<in> set (jd_events db)" "er_seq e = eo_seq out" "er_prevAudience e = Some prev" "\<not> Visible grants (id_subject (er_id e)) prev"
  shows "eo_prevScope out = [] \<and> eo_prevObserved out = None
    \<and> (\<forall>n c. eo_changed out n = Some c \<longrightarrow> ch_old c = Some (jl_encString (je_json env) WithheldAudience))"
proof -
  obtain sha' where m: "map_values (\<lambda>e. fillEventValues env reg grants e (shown_event grants e))
      (take (nat (eq_limit q)) (asked_events grants db q)) = Inr outs"
    using Events_answer [OF assms(3)] assms(2) by (metis Inr_inject prod.inject)
  obtain e' where e': "e' \<in> set (jd_events db)" "fillEventValues env reg grants e' (shown_event grants e') = Inr out"
    using map_values_in [OF m assms(4)] by (auto simp: asked_events_def dest!: in_set_takeD)
  have "e' = e"
    using filled_event [OF e'(2)] sorted_wrt_less_unique [OF _ e'(1) assms(5), of er_seq] assms(1,6)
    by (simp add: seq_ok_def events_ok_def)
  then show ?thesis using e'(2) assms(7,8)
    by (auto simp: fillEventValues_def shown_event_def outside_before_def prev_audience_def shown_change_def OldValue_def Let_def
        split: option.splits prod.splits Kind.splits if_splits)
qed

section \<open>Two members and a memo\<close>

definition home_env :: "Roster \<Rightarrow> journal_env" where
  "home_env ros = text_env\<lparr>je_roster := Some ros\<rparr>"

definition home_roster :: "Roster \<Rightarrow> bool" where
  "home_roster ros \<longleftrightarrow> Roster_Parse (\<lambda>_. decoded.Decoded sample_doc True) (\<lambda>b. b) FormatOpenclawHouseholdV1 [] = Inr ros"

definition ann_grants :: "Grant list" where
  "ann_grants = grants_of sample_doc ''ann''"

lemma home_grants: "home_roster ros \<Longrightarrow> ro_grants ros ''ann'' = Some ann_grants"
  by (auto simp: home_roster_def ann_grants_def Roster_Parse_def parseV1_def sample_doc_def split: if_splits option.splits)

lemma home_of: "home_roster ros \<Longrightarrow> env_of text_fixed (home_env ros)"
  by (auto simp: home_roster_def env_of_def text_fixed_def home_env_def text_env_def memo_fixed_def sample_snap_lib_def VerdictPass_j_def)

lemma ann_sees: "Visible ann_grants ''bob'' [''guardians'']" "\<not> Visible ann_grants ''bob'' [''siblings'']"
  by (simp_all add: Visible_def IsErased_def ErasedPrefix_def Public_def list_ex_iff ann_grants_def grants_of_def sortGrants_def
      person_def sample_doc_def)

lemma home_reads:
  assumes "home_roster ros" "jd_erasures db = []" "jd_readers db = []"
  shows "grantsOf (home_env ros) db ''ann'' = Inr (ann_grants, ro_sha ros)"
  using assms home_grants [OF assms(1)] by (simp add: grantsOf_def home_env_def Roster_Grants_def frozen_grants_def)

definition ann_state :: StateQuery where
  "ann_state = \<lparr>sq_reader = ''ann'', sq_subject = None, sq_type = [], sq_scope = [], sq_includeRemoved = False\<rparr>"

definition ann_events :: EventsQuery where
  "ann_events = \<lparr>eq_reader = ''ann'', eq_after = 0, eq_subject = None, eq_type = [], eq_minImportance = [], eq_limit = 1\<rparr>"

lemma text_tables:
  "jd_erasures text_db = []" "jd_readers text_db = []" "jd_book text_db = [memo_row \<mapsto> book_row text_source 1 None]" "jd_seq text_db = 1"
  by (simp_all add: text_db_def write_event_def case_prod_unfold Let_def row_id_def text_event_fields memo_row_def memo_v2_def memo_v1_def
      empty_journal_def)

lemma text_same: "fst (DiscardHeld ''id'' text_db) = text_db"
  by (simp add: DiscardHeld_def text_db_def write_event_def case_prod_unfold Let_def empty_journal_def)

lemmas text_steps = text_discard [unfolded text_same]

lemma text_row_more: "cu_audience text_row = [''guardians'']" "\<not> cu_removed text_row" "cu_scope text_row = ''source=school''"
  by (simp_all add: text_row_def buildEvent_def text_event_def diff_record_def text_input_def text_record_def Let_def)

lemma home_state:
  assumes "home_roster ros"
  shows "\<exists>row. StateWithRoster (home_env ros) (fx_registry text_fixed) text_db ann_state = Inr ([row], ro_sha ros)
    \<and> so_id row = memo_row \<and> so_fields row ''body'' = Some ''hi''"
proof -
  have "selected_rows ann_grants text_db ann_state = {memo_row}"
    unfolding selected_rows_asked using ann_sees(1)
    by (auto simp: asked_rows_def text_current text_row_more wanted_def ann_state_def memo_row_def split: if_splits)
  then have sel: "in_order (selected_rows ann_grants text_db ann_state) = [memo_row]" by (simp add: in_order_def identity_eta)
  show ?thesis using sel ann_sees(1) home_reads [OF assms text_tables(1,2)]
    by (simp add: StateWithRoster_def ann_state_def text_current text_row_more memo_row_def state_row_def home_env_def text_env_def
        text_row_fields mask_state_def Text_def VerdictPass_j_def)
qed

lemma text_finite: "finite (dom (jd_current text_db))"
  by (simp add: text_current)

theorem State_rows_witness:
  "\<exists>ros rows sha. StateWithRoster (home_env ros) (fx_registry text_fixed) text_db ann_state = Inr (rows, sha)
     \<and> length rows = 1 \<and> (\<exists>grants. map so_id rows = in_order (asked_rows grants text_db ann_state))"
proof -
  obtain ros where ros: "home_roster ros" using sample_roster by (auto simp: home_roster_def)
  obtain row where r: "StateWithRoster (home_env ros) (fx_registry text_fixed) text_db ann_state = Inr ([row], ro_sha ros)"
    using home_state [OF ros] by blast
  have "length [row] = 1" by simp
  then show ?thesis using r State_rows [OF text_finite r] by blast
qed

lemma text_kind: "kind_isText (fx_registry text_fixed) ''memo'' ''body''"
proof -
  have "Registry_Active (fx_registry text_fixed) ''memo'' = Some memo_v2" by (simp add: text_active)
  then show ?thesis using text_body by (simp add: kind_isText_def)
qed

theorem State_shows_passed_text_witness:
  "\<exists>ros row. StateWithRoster (home_env ros) (fx_registry text_fixed) text_db ann_state = Inr ([row], ro_sha ros)
     \<and> so_fields row ''body'' = Some ''hi'' \<and> (''hi'' = WithheldScan \<or> (\<exists>v. fx_judge text_fixed v (text_of text_fixed ''hi'') = ''pass''))"
proof -
  obtain ros where ros: "home_roster ros" using sample_roster by (auto simp: home_roster_def)
  obtain row where r: "StateWithRoster (home_env ros) (fx_registry text_fixed) text_db ann_state = Inr ([row], ro_sha ros)"
    "so_id row = memo_row" "so_fields row ''body'' = Some ''hi''"
    using home_state [OF ros] by blast
  have k: "kind_isText (fx_registry text_fixed) (id_type (so_id row)) ''body''" using text_kind r(2) by (simp add: memo_row_def)
  have "row \<in> set [row]" by simp
  from State_shows_passed_text [OF text_synced text_keeps text_store_ok text_steps home_of [OF ros] r(1) this r(3) k]
  have "''hi'' = WithheldScan \<or> (\<exists>v. fx_judge text_fixed v (text_of text_fixed ''hi'') = ''pass'')"
    by (auto simp: home_env_def text_env_def text_json_def no_json_def VerdictPass_j_def)
  then show ?thesis using r by blast
qed

text \<open>The memo's event, and what ann reads of it.\<close>

definition memo_event :: EventRow where
  "memo_event = (fst (buildEvent text_env memo_v2 ''bob'' text_source zero_current text_event))\<lparr>er_seq := 1\<rparr>"

lemma text_events: "jd_events text_db = [memo_event]"
  by (simp add: text_db_def write_event_tables empty_journal_def memo_event_def)

lemma memo_event_columns:
  "er_seq memo_event = 1" "er_id memo_event = memo_row" "er_audience memo_event = [''guardians'']" "er_kind memo_event = Created"
  "er_version memo_event = 2" "er_fields memo_event = Some [''body'' \<mapsto> ''hi'']" "ro_importance (er_outcome memo_event) = Low"
  "er_scan memo_event ''body'' = Some \<lparr>es_old = [], es_new = ''pass'', es_version = ''v1''\<rparr>"
  "er_changed memo_event = NoChanged"
  by (simp_all add: memo_event_def buildEvent_def text_event_fields Let_def row_id_def memo_row_def memo_v2_def memo_v1_def after_of_def
      Evaluate_def text_env_def IsText_def field_of_def scanNew_def)
    (simp_all add: text_event_def diff_record_def text_input_def text_record_def)

lemma memo_event_scan: "er_scan memo_event f = (if f = ''body'' then Some \<lparr>es_old = [], es_new = ''pass'', es_version = ''v1''\<rparr> else None)"
proof (cases "f = ''body''")
  case True
  then show ?thesis using memo_event_columns(8) by simp
next
  case False
  then show ?thesis by (simp add: memo_event_def buildEvent_def text_event_fields Let_def after_of_def)
qed

lemma memo_names: "ForwardName (fx_registry text_fixed) ''memo'' 2 f = f"
proof -
  have "active_type text_fixed memo_v2" using text_active by (auto simp: active_type_def)
  then show ?thesis using ForwardName_same [OF text_synced, of memo_v2 f] by (simp add: memo_v2_def memo_v1_def)
qed

lemma rename_one: "rename_map (\<lambda>f. f) [k \<mapsto> v] = [k \<mapsto> v]"
  by (rule ext) (simp add: rename_map_def Keys_def)

lemma memo_verdicts: "event_verdicts (fx_registry text_fixed) memo_event = [''body'' \<mapsto> \<lparr>es_old = [], es_new = ''pass'', es_version = ''v1''\<rparr>]"
proof -
  have s: "er_scan memo_event = [''body'' \<mapsto> \<lparr>es_old = [], es_new = ''pass'', es_version = ''v1''\<rparr>]"
    by (rule ext) (simp add: memo_event_scan)
  have n: "ForwardName (fx_registry text_fixed) ''memo'' 2 = (\<lambda>f. f)" using memo_names by (rule ext)
  show ?thesis unfolding event_verdicts_def s by (simp add: memo_event_columns memo_row_def n rename_one)
qed

lemma home_event:
  assumes "home_roster ros"
  shows "\<exists>out. fillEventValues (home_env ros) (fx_registry text_fixed) ann_grants memo_event (shown_event ann_grants memo_event) = Inr out
    \<and> eo_fields out ''body'' = Some ''hi'' \<and> eo_seq out = 1 \<and> eo_id out = memo_row"
proof -
  have n: "ForwardName (fx_registry text_fixed) ''memo'' 2 = (\<lambda>f. f)" using memo_names by (rule ext)
  have d: "decode_values (je_jsonb (home_env ros)) (er_kind memo_event) (er_fields memo_event) (er_changed memo_event)
      = Some (Map.empty, [''body'' \<mapsto> ''hi''])"
    by (simp add: decode_values_def event_values_def memo_event_columns home_env_def text_env_def)
  have m: "masked_new (home_env ros) (fx_registry text_fixed) memo_event [''body'' \<mapsto> ''hi''] ''body'' = Some ''hi''"
    by (simp add: masked_new_def memo_verdicts mask_event_def verdict_of_def Text_def VerdictPass_j_def)
  obtain out where out: "fillEventValues (home_env ros) (fx_registry text_fixed) ann_grants memo_event (shown_event ann_grants memo_event) = Inr out"
    "eo_fields out = masked_new (home_env ros) (fx_registry text_fixed) memo_event [''body'' \<mapsto> ''hi'']"
    unfolding fillEventValues_def d by (simp add: memo_event_columns memo_row_def n rename_one Let_def)
  then show ?thesis using m filled_event [OF out(1)] by (simp add: memo_event_columns)
qed

lemma home_events:
  assumes "home_roster ros"
  shows "\<exists>out. Events (home_env ros) (fx_registry text_fixed) text_db ann_events = Inr [out] \<and> eo_fields out ''body'' = Some ''hi''
    \<and> eo_seq out = 1 \<and> eo_id out = memo_row"
proof -
  have g: "grantsOf (home_env ros) text_db (eq_reader ann_events) = Inr (ann_grants, ro_sha ros)"
    using home_reads [OF assms text_tables(1,2)] by (simp add: ann_events_def)
  have "asked_events ann_grants text_db ann_events = [memo_event]"
    using ann_sees(1) by (simp add: asked_events_def text_events asked_event_def ann_events_def memo_event_columns memo_row_def wanted_def
        min_importance_def AtLeast_def)
  moreover have "ImportanceRank (min_importance ann_events) \<noteq> 0"
    by (simp add: min_importance_def ann_events_def ImportanceRank_def)
  ultimately have "Events (home_env ros) (fx_registry text_fixed) text_db ann_events
      = map_values (\<lambda>e. fillEventValues (home_env ros) (fx_registry text_fixed) ann_grants e (shown_event ann_grants e)) [memo_event]"
    using Events_eq [OF g] by (simp add: ann_events_def MaxEventsLimit_def)
  then show ?thesis using home_event [OF assms] by auto
qed

theorem Events_shows_passed_text_witness:
  "\<exists>ros out. Events (home_env ros) (fx_registry text_fixed) text_db ann_events = Inr [out] \<and> carries out ''body'' ''hi''
     \<and> (withheld_value text_json ''hi'' \<or> ever_passed text_fixed ''hi'')"
proof -
  obtain ros where ros: "home_roster ros" using sample_roster by (auto simp: home_roster_def)
  obtain out where out: "Events (home_env ros) (fx_registry text_fixed) text_db ann_events = Inr [out]"
    "eo_fields out ''body'' = Some ''hi''" "eo_id out = memo_row"
    using home_events [OF ros] by blast
  have c: "carries out ''body'' ''hi''" using out(2) by (simp add: carries_def)
  have k: "kind_isText (fx_registry text_fixed) (id_type (eo_id out)) ''body''" using text_kind out(3) by (simp add: memo_row_def)
  have "out \<in> set [out]" by simp
  from Events_shows_passed_text [OF text_synced text_keeps text_store_ok text_steps home_of [OF ros] out(1) this c k]
  have "withheld_value text_json ''hi'' \<or> ever_passed text_fixed ''hi''" by (simp add: home_env_def text_env_def)
  then show ?thesis using out(1) c by blast
qed

lemma text_seq_ok: "seq_ok text_db"
proof -
  have "seq_ok empty_journal" by (simp add: seq_ok_def events_ok_def books_ok_def empty_journal_def)
  then show ?thesis unfolding text_db_def by (rule micro_seq_ok [OF m_event])
qed


theorem erased_neither_reads_nor_is_read_witness:
  "\<exists>ros db1 resp db2. Erase (memo_env ros) (Some []) ''bob'' memo_db = (db1, Inr resp) \<and> jsteps memo_fixed (\<lambda>_ _ _ _ _. True) (\<lambda>_ _. True) db1 db2
     \<and> (\<forall>env' about since r. Counts env' db2 ''bob'' about since \<noteq> Inr r)"
proof -
  obtain ros where ros: "home_roster ros" using sample_roster by (auto simp: home_roster_def)
  have env: "env_of memo_fixed (memo_env ros)"
    using ros by (auto simp: home_roster_def env_of_def memo_fixed_def memo_env_def sample_snap_lib_def)
  have "ValidID ''bob''" by (simp add: ValidID_def id_char_def is_lower_ascii_def Prelude.in_range_def)
  then obtain db1 resp where e: "Erase (memo_env ros) (Some []) ''bob'' memo_db = (db1, Inr resp)"
    by (simp add: Erase_def memo_env_def Let_def case_prod_unfold)
  obtain db2 r where "DiscardHeld ''id'' db1 = (db2, r)" by (cases "DiscardHeld ''id'' db1")
  then have s: "jsteps memo_fixed (\<lambda>_ _ _ _ _. True) (\<lambda>_ _. True) db1 db2"
    by (intro jsteps.step [OF jsteps.none] discard_step)
  note c = erased_neither_reads_nor_is_read [OF memo_synced env e s, THEN conjunct2, THEN conjunct2, THEN conjunct1]
  show ?thesis by (intro exI conjI) (rule e, rule s, rule c)
qed

text \<open>A memo that was the siblings' before an edit gave it to the guardians.\<close>

definition shared_event :: EventRow where
  "shared_event = memo_event\<lparr>er_kind := Updated, er_fields := None, er_changed := FieldChanges [''body'' \<mapsto> \<lparr>ch_old = Some ''hi'', ch_new = Some ''yo''\<rparr>],
     er_prevScope := Some ''source=x'', er_prevAudience := Some [''siblings'']\<rparr>"

definition shared_db :: JDB where
  "shared_db = text_db\<lparr>jd_events := [shared_event]\<rparr>"

theorem old_audience_keeps_old_values_witness:
  "\<exists>ros out c. Events (home_env ros) (fx_registry text_fixed) shared_db ann_events = Inr [out]
     \<and> eo_changed out ''body'' = Some c \<and> ch_old c = Some WithheldAudience \<and> er_prevScope shared_event = Some ''source=x'' \<and> eo_prevScope out = []"
proof -
  obtain ros where ros: "home_roster ros" using sample_roster by (auto simp: home_roster_def)
  have q: "seq_ok shared_db"
    using text_seq_ok by (simp add: seq_ok_def shared_db_def text_events shared_event_def)
  have g: "grantsOf (home_env ros) shared_db (eq_reader ann_events) = Inr (ann_grants, ro_sha ros)"
    using home_reads [OF ros] text_tables(1,2) by (simp add: ann_events_def shared_db_def)
  have cols: "er_seq shared_event = 1" "er_id shared_event = memo_row" "er_audience shared_event = [''guardians'']" "er_kind shared_event = Updated"
    "er_version shared_event = 2" "ro_importance (er_outcome shared_event) = Low" "er_prevAudience shared_event = Some [''siblings'']"
    by (simp_all add: shared_event_def memo_event_columns)
  have n: "ForwardName (fx_registry text_fixed) ''memo'' 2 = (\<lambda>f. f)" using memo_names by (rule ext)
  let ?ch = "[''body'' \<mapsto> \<lparr>ch_old = Some ''hi'', ch_new = Some ''yo''\<rparr>]"
  have d: "decode_values (je_jsonb (home_env ros)) (er_kind shared_event) (er_fields shared_event) (er_changed shared_event)
      = Some (olds_of ?ch, news_of ?ch)"
    by (simp add: decode_values_def event_values_def shared_event_def home_env_def text_env_def)
  have o: "olds_of ?ch = [''body'' \<mapsto> ''hi'']" "news_of ?ch = [''body'' \<mapsto> ''yo'']" by (auto simp: olds_of_def news_of_def)
  obtain out where out: "fillEventValues (home_env ros) (fx_registry text_fixed) ann_grants shared_event (shown_event ann_grants shared_event) = Inr out"
    "eo_changed out = shown_change (home_env ros) (fx_registry text_fixed) ann_grants shared_event [''body'' \<mapsto> ''hi''] [''body'' \<mapsto> ''yo'']"
    unfolding fillEventValues_def d o by (simp add: cols memo_row_def n rename_one Let_def)
  have "asked_events ann_grants shared_db ann_events = [shared_event]"
    using ann_sees(1) by (simp add: asked_events_def shared_db_def asked_event_def ann_events_def cols memo_row_def wanted_def
        min_importance_def AtLeast_def)
  moreover have "ImportanceRank (min_importance ann_events) \<noteq> 0"
    by (simp add: min_importance_def ann_events_def ImportanceRank_def)
  ultimately have e: "Events (home_env ros) (fx_registry text_fixed) shared_db ann_events = Inr [out]"
    using Events_eq [OF g] out(1) by (simp add: ann_events_def MaxEventsLimit_def)
  obtain c where c: "eo_changed out ''body'' = Some c" unfolding out(2) by (simp add: shown_change_def)
  have hid: "\<not> Visible ann_grants (id_subject (er_id shared_event)) [''siblings'']" using ann_sees(2) by (simp add: cols memo_row_def)
  have s: "er_seq shared_event = eo_seq out" using filled_event [OF out(1)] by simp
  have "out \<in> set [out]" "shared_event \<in> set (jd_events shared_db)" by (simp_all add: shared_db_def)
  from old_audience_keeps_old_values [OF q g e this s cols(7) hid] c
  have "ch_old c = Some WithheldAudience" "eo_prevScope out = []"
    by (auto simp: home_env_def text_env_def text_json_def no_json_def)
  then show ?thesis using e c by (auto simp: shared_event_def)
qed

end
