(* ===== verification/JRescan.thy ===== *)
theory JRescan
  imports Read
begin

text \<open>
  \<^verbatim>\<open>internal/journal/rescan.go\<close> as a whole: reading a page, judging it, writing what has not changed, reading
  again what has. Between any two of its transactions other transactions may run; they are a parameter.
  Shown: its staleness check is enough, it returns although others keep writing, and when it ran alone
  every verdict is the new scanner's.
\<close>

section \<open>The loops\<close>

definition rescanBatch :: nat where "rescanBatch = 100"
definition rescanRetries :: nat where "rescanRetries = 5"

definition pk :: "Identity \<Rightarrow> string \<times> string \<times> string" where
  "pk i = (id_type i, id_subject i, id_key i)"

text \<open>\<open>others k\<close> is what other transactions do to the tables before the \<open>k\<close>-th transaction of the rescan.\<close>

type_synonym others = "nat \<Rightarrow> JDB \<Rightarrow> JDB"

record progress =
  pg_db :: JDB
  pg_res :: RescanResult
  pg_clock :: nat

definition kept_changing :: err where
  "kept_changing = Err ''journal: rescan: rows kept changing under the rescan; run it again''"

text \<open>
  Reading, judging and writing some rows, and again the stale ones: current rows and events alike, so the
  read and the judgement are arguments. The first argument counts the retries that are left.
\<close>

fun attempts ::
  "('k list \<Rightarrow> JDB \<Rightarrow> 'r list) \<Rightarrow> ('r list \<Rightarrow> JDB \<Rightarrow> err + (JDB \<times> RescanResult \<times> 'k list)) \<Rightarrow> others \<Rightarrow> nat \<Rightarrow> 'r list \<Rightarrow> progress
   \<Rightarrow> progress \<times> err option" where
  "attempts readAgain judge others left rows p =
     (if rows = [] then (p, None)
      else let db = others (pg_clock p) (pg_db p); p = p\<lparr>pg_db := db, pg_clock := Suc (pg_clock p)\<rparr> in
        (case judge rows db of
           Inl e \<Rightarrow> (p, Some e)
         | Inr (db', batch, late) \<Rightarrow>
             let p = p\<lparr>pg_db := db', pg_res := addResult (pg_res p) batch\<rparr> in
             if late = [] then (p, None)
             else (case left of
               0 \<Rightarrow> (p, Some kept_changing)
             | Suc left \<Rightarrow>
                 let db = others (pg_clock p) (pg_db p); p = p\<lparr>pg_db := db, pg_clock := Suc (pg_clock p)\<rparr>
                 in attempts readAgain judge others left (readAgain late db) p)))"

declare attempts.simps [simp del]

definition page_of :: "('r list \<Rightarrow> 'c) \<Rightarrow> 'c \<Rightarrow> 'r list \<Rightarrow> 'c" where
  "page_of last_of aft rows = (if rows = [] then aft else last_of rows)"

definition rescanCurrent ::
  "journal_env \<Rightarrow> Registry_t \<Rightarrow> bool \<Rightarrow> others \<Rightarrow> string \<times> string \<times> string \<Rightarrow> progress \<Rightarrow> progress \<times> (err + nat \<times> (string \<times> string \<times> string))" where
  "rescanCurrent env reg every others aft p =
     (let db = others (pg_clock p) (pg_db p); p = p\<lparr>pg_db := db, pg_clock := Suc (pg_clock p)\<rparr>;
          ids = take rescanBatch (filter (\<lambda>i. aft < pk i) (in_order (dom (jd_current db))));
          rows = readCurrent db ids;
          (p, e) = attempts (\<lambda>late db. readCurrent db late) (judgeCurrent env reg every) others rescanRetries rows p
      in (p, case e of Some e \<Rightarrow> Inl e | None \<Rightarrow> Inr (length rows, page_of (\<lambda>rs. pk (cr_id (last rs))) aft rows)))"

definition rescanEvents ::
  "journal_env \<Rightarrow> Registry_t \<Rightarrow> bool \<Rightarrow> others \<Rightarrow> nat \<Rightarrow> progress \<Rightarrow> progress \<times> (err + nat \<times> nat)" where
  "rescanEvents env reg every others aft p =
     (let db = others (pg_clock p) (pg_db p); p = p\<lparr>pg_db := db, pg_clock := Suc (pg_clock p)\<rparr>;
          rows = take rescanBatch (readEvents db (\<lambda>sq. aft < sq));
          (p, e) = attempts (\<lambda>late db. readEvents db (\<lambda>sq. sq \<in> set late)) (judgeEvents env reg every) others rescanRetries rows p
      in (p, case e of Some e \<Rightarrow> Inl e | None \<Rightarrow> Inr (length rows, page_of (\<lambda>rs. ed_seq (last rs)) aft rows)))"

text \<open>Page after page; it need not end while others add rows.\<close>

partial_function (option) pages :: "('c \<Rightarrow> progress \<Rightarrow> progress \<times> (err + nat \<times> 'c)) \<Rightarrow> 'c \<Rightarrow> progress \<Rightarrow> (progress \<times> err option) option" where
  "pages page aft p =
     (case page aft p of
        (p, Inl e) \<Rightarrow> Some (p, Some e)
      | (p, Inr (n, reached)) \<Rightarrow> if n < rescanBatch then Some (p, None) else pages page reached p)"

definition Rescan :: "journal_env option \<Rightarrow> Registry_t \<Rightarrow> bool \<Rightarrow> others \<Rightarrow> JDB \<Rightarrow> (progress \<times> err option) option" where
  "Rescan scanner reg every others db =
     (let p = \<lparr>pg_db = db, pg_res = no_result, pg_clock = 0\<rparr> in
      case scanner of
        None \<Rightarrow> Some (p, Some (Err ''journal: rescan needs a scanner''))
      | Some env \<Rightarrow>
          (case pages (rescanCurrent env reg every others) ([], [], []) p of
             None \<Rightarrow> None
           | Some (p, Some e) \<Rightarrow> Some (p, Some e)
           | Some (p, None) \<Rightarrow> pages (rescanEvents env reg every others) 0 p))"

section \<open>It returns\<close>

text \<open>What judging and the others keep, the attempts keep.\<close>

lemma attempts_keep:
  assumes "\<And>k db. I db \<Longrightarrow> I (others k db)" "\<And>rows db db' b l. judge rows db = Inr (db', b, l) \<Longrightarrow> I db \<Longrightarrow> I db'" "I (pg_db p)"
    "attempts again judge others left rows p = (p', e)"
  shows "I (pg_db p')"
  using assms(3,4)
proof (induction left arbitrary: rows p)
  case 0
  then show ?case using assms(1,2)
    by (subst (asm) attempts.simps) (auto simp: Let_def split: if_splits sum.splits)
next
  case (Suc left)
  show ?case
  proof (cases "rows = []")
    case True
    then show ?thesis using Suc.prems by (subst (asm) attempts.simps) simp
  next
    case False
    note a = Suc.prems(2) [unfolded attempts.simps [of again judge others "Suc left"]]
    show ?thesis
    proof (cases "judge rows (others (pg_clock p) (pg_db p))")
      case (Inl err)
      then show ?thesis using a False Suc.prems(1) assms(1) by (auto simp: Let_def)
    next
      case (Inr r)
      obtain db' b l where r: "r = (db', b, l)" by (cases r)
      have d: "I db'" using assms(2) Inr r assms(1) Suc.prems(1) by blast
      show ?thesis
      proof (cases "l = []")
        case True
        then show ?thesis using a False Inr r d by (auto simp: Let_def)
      next
        case l: False
        let ?db = "others (Suc (pg_clock p)) db'"
        obtain q where q: "attempts again judge others left (again l ?db) q = (p', e)" "pg_db q = ?db"
          using a False Inr r l by (simp add: Let_def)
        then show ?thesis using Suc.IH [OF _ q(1)] assms(1) d by simp
      qed
    qed
  qed
qed

lemma pages_return:
  fixes aft :: "'c :: linorder"
  assumes "finite U"
    "\<And>aft p p' n c. I (pg_db p) \<Longrightarrow> page aft p = (p', Inr (n, c)) \<Longrightarrow> I (pg_db p') \<and> (rescanBatch \<le> n \<longrightarrow> c \<in> U \<and> aft < c)"
    "\<And>aft p p' e. I (pg_db p) \<Longrightarrow> page aft p = (p', Inl e) \<Longrightarrow> I (pg_db p')"
    "I (pg_db p)"
  shows "\<exists>p' e. pages page aft p = Some (p', e) \<and> I (pg_db p')"
  using assms(4)
proof (induction "card {c \<in> U. aft < c}" arbitrary: aft p rule: less_induct)
  case less
  obtain p' r where page: "page aft p = (p', r)" by (cases "page aft p")
  show ?case
  proof (cases r)
    case (Inl e)
    then show ?thesis using page assms(3) [OF less.prems] by (subst pages.simps) simp
  next
    case (Inr nc)
    obtain n c where nc: "nc = (n, c)" by (cases nc)
    have s: "I (pg_db p')" "rescanBatch \<le> n \<longrightarrow> c \<in> U \<and> aft < c"
      using assms(2) [OF less.prems, of aft p' n c] page Inr nc by simp_all
    show ?thesis
    proof (cases "n < rescanBatch")
      case True
      then show ?thesis using page Inr nc s(1) by (subst pages.simps) simp
    next
      case False
      then have c: "c \<in> U" "aft < c" using s(2) by simp_all
      have "{x \<in> U. c < x} \<subset> {x \<in> U. aft < x}" using c by auto
      then have "card {x \<in> U. c < x} < card {x \<in> U. aft < x}" using assms(1) by (intro psubset_card_mono) auto
      from less.hyps [OF this s(1)] show ?thesis using page Inr nc False by (subst pages.simps) simp
    qed
  qed
qed

definition confined :: "Identity set \<Rightarrow> nat \<Rightarrow> JDB \<Rightarrow> bool" where
  "confined V n db \<longleftrightarrow> dom (jd_current db) \<subseteq> V \<and> (\<forall>e \<in> set (jd_events db). er_seq e \<le> n)"

lemma judgeCurrent_confined: "judgeCurrent env reg every rows db = Inr (db', b, l) \<Longrightarrow> confined V n db \<Longrightarrow> confined V n db'"
  by (erule judgeCurrent_induct) (auto simp: confined_def)

lemma judgeEvents_confined: "judgeEvents env reg every rows db = Inr (db', b, l) \<Longrightarrow> confined V n db \<Longrightarrow> confined V n db'"
  by (erule judgeEvents_induct) (auto simp: confined_def)

lemma readCurrent_ids: "map cr_id (readCurrent db is) = filter (\<lambda>i. jd_current db i \<noteq> None \<and> jd_book db i \<noteq> None) is"
  by (induction "is") (auto simp: readCurrent_def List.map_filter_def split: option.splits)

lemma rescanCurrent_page:
  assumes "finite V" "\<And>k db. confined V n db \<Longrightarrow> confined V n (others k db)" "confined V n (pg_db p)"
    "rescanCurrent env reg every others aft p = (p', r)"
  shows "confined V n (pg_db p') \<and> (\<forall>m c. r = Inr (m, c) \<and> rescanBatch \<le> m \<longrightarrow> c \<in> pk ` V \<and> aft < c)"
proof -
  define db where "db = others (pg_clock p) (pg_db p)"
  define ids where "ids = take rescanBatch (filter (\<lambda>i. aft < pk i) (in_order (dom (jd_current db))))"
  obtain p1 e where a: "attempts (\<lambda>late db. readCurrent db late) (judgeCurrent env reg every) others rescanRetries (readCurrent db ids)
      (p\<lparr>pg_db := db, pg_clock := Suc (pg_clock p)\<rparr>) = (p1, e)" by fastforce
  have w: "confined V n db" using assms(2,3) by (simp add: db_def)
  have p1: "p' = p1" "r = (case e of Some e \<Rightarrow> Inl e
      | None \<Rightarrow> Inr (length (readCurrent db ids), page_of (\<lambda>rs. pk (cr_id (last rs))) aft (readCurrent db ids)))"
    using assms(4) a unfolding rescanCurrent_def Let_def db_def [symmetric] ids_def [symmetric] by simp_all
  have "confined V n (pg_db p1)"
    by (rule attempts_keep [where I = "confined V n", OF assms(2) judgeCurrent_confined _ a]) (use w in simp_all)
  moreover have "c \<in> pk ` V \<and> aft < c" if "r = Inr (m, c)" "rescanBatch \<le> m" for m c
  proof -
    let ?rows = "readCurrent db ids"
    have m: "m = length ?rows" "c = page_of (\<lambda>rs. pk (cr_id (last rs))) aft ?rows" using that(1) p1(2) by (auto split: option.splits)
    then have ne: "?rows \<noteq> []" using that(2) by (auto simp: rescanBatch_def)
    then have "cr_id (last ?rows) \<in> set (map cr_id ?rows)" by simp
    then have "cr_id (last ?rows) \<in> set ids" unfolding readCurrent_ids by simp
    then have "cr_id (last ?rows) \<in> set (in_order (dom (jd_current db)))" "aft < pk (cr_id (last ?rows))"
      by (auto simp: ids_def dest: in_set_takeD)
    then show ?thesis using m(2) ne w in_order_subset by (fastforce simp: page_of_def confined_def)
  qed
  ultimately show ?thesis using p1(1) by blast
qed

lemma rescanEvents_page:
  assumes "\<And>k db. confined V n db \<Longrightarrow> confined V n (others k db)" "confined V n (pg_db p)"
    "rescanEvents env reg every others aft p = (p', r)"
  shows "confined V n (pg_db p') \<and> (\<forall>m c. r = Inr (m, c) \<and> rescanBatch \<le> m \<longrightarrow> c \<in> {..n} \<and> aft < c)"
proof -
  define db where "db = others (pg_clock p) (pg_db p)"
  define rows where "rows = take rescanBatch (readEvents db (\<lambda>sq. aft < sq))"
  obtain p1 e where a: "attempts (\<lambda>late db. readEvents db (\<lambda>sq. sq \<in> set late)) (judgeEvents env reg every) others rescanRetries rows
      (p\<lparr>pg_db := db, pg_clock := Suc (pg_clock p)\<rparr>) = (p1, e)" by fastforce
  have w: "confined V n db" using assms(1,2) by (simp add: db_def)
  have p1: "p' = p1" "r = (case e of Some e \<Rightarrow> Inl e | None \<Rightarrow> Inr (length rows, page_of (\<lambda>rs. ed_seq (last rs)) aft rows))"
    using assms(3) a unfolding rescanEvents_def Let_def db_def [symmetric] rows_def [symmetric] by simp_all
  have "confined V n (pg_db p1)"
    by (rule attempts_keep [where I = "confined V n", OF assms(1) judgeEvents_confined _ a]) (use w in simp_all)
  moreover have "c \<in> {..n} \<and> aft < c" if "r = Inr (m, c)" "rescanBatch \<le> m" for m c
  proof -
    have m: "m = length rows" "c = page_of (\<lambda>rs. ed_seq (last rs)) aft rows" using that(1) p1(2) by (auto split: option.splits)
    then have ne: "rows \<noteq> []" using that(2) by (auto simp: rescanBatch_def)
    then have "last rows \<in> set rows" by simp
    then have "last rows \<in> set (readEvents db (\<lambda>sq. aft < sq))" unfolding rows_def by (rule in_set_takeD)
    then have "aft < ed_seq (last rows)" "ed_seq (last rows) \<le> n" using w by (auto simp: readEvents_def confined_def)
    then show ?thesis using m(2) ne by (simp add: page_of_def)
  qed
  ultimately show ?thesis using p1(1) by blast
qed

text \<open>
  C22: A rescan returns. Whatever other transactions do before, between and after its own, changing,
  re-judging, adding and deleting rows as they like, as long as all the rows there ever are come from some
  finite set of identities and event numbers stay below some bound: the retries are bounded, the cursor
  only moves forward, and the rescan ends, with success or an error.
\<close>

theorem Rescan_returns:
  assumes "finite V" "\<And>k db. confined V n db \<Longrightarrow> confined V n (others k db)" "confined V n db"
  shows "\<exists>p e. Rescan scanner reg every others db = Some (p, e)"
proof (cases scanner)
  case None
  then show ?thesis by (simp add: Rescan_def Let_def)
next
  case (Some env)
  let ?p = "\<lparr>pg_db = db, pg_res = no_result, pg_clock = 0\<rparr>"
  have w: "confined V n (pg_db ?p)" using assms(3) by simp
  have "\<exists>p e. pages (rescanCurrent env reg every others) ([], [], []) ?p = Some (p, e) \<and> confined V n (pg_db p)"
  proof (rule pages_return [where U = "pk ` V" and I = "confined V n"])
    fix aft q q' m c
    assume q: "confined V n (pg_db q)" "rescanCurrent env reg every others aft q = (q', Inr (m, c))"
    show "confined V n (pg_db q') \<and> (rescanBatch \<le> m \<longrightarrow> c \<in> pk ` V \<and> aft < c)"
      using rescanCurrent_page [OF assms(1) _ q] assms(2) by (cases c) simp
  next
    fix aft q q' e
    assume q: "confined V n (pg_db q)" "rescanCurrent env reg every others aft q = (q', Inl e)"
    show "confined V n (pg_db q')" using rescanCurrent_page [OF assms(1) _ q] assms(2) by simp
  qed (use assms(1) w in simp_all)
  then obtain p e where c: "pages (rescanCurrent env reg every others) ([], [], []) ?p = Some (p, e)" "confined V n (pg_db p)" by blast
  have "\<exists>p' e. pages (rescanEvents env reg every others) 0 p = Some (p', e) \<and> confined V n (pg_db p')"
  proof (rule pages_return [where U = "{..n}" and I = "confined V n"])
    fix aft q q' m c
    assume q: "confined V n (pg_db q)" "rescanEvents env reg every others aft q = (q', Inr (m, c))"
    show "confined V n (pg_db q') \<and> (rescanBatch \<le> m \<longrightarrow> c \<in> {..n} \<and> aft < c)"
      using rescanEvents_page [OF _ q] assms(2) by simp
  next
    fix aft q q' e
    assume q: "confined V n (pg_db q)" "rescanEvents env reg every others aft q = (q', Inl e)"
    show "confined V n (pg_db q')" using rescanEvents_page [OF _ q] assms(2) by simp
  qed (use c(2) in simp_all)
  then show ?thesis using c(1) Some by (cases e) (auto simp: Rescan_def Let_def)
qed

section \<open>Running alone, it brings every verdict up to date\<close>

definition up_to_date :: "journal_env \<Rightarrow> Registry_t \<Rightarrow> Identity \<Rightarrow> Current \<Rightarrow> bool" where
  "up_to_date env reg i c \<longleftrightarrow> (\<forall>f v. cu_fields c f = Some v \<and> kind_isText reg (id_type i) f
     \<longrightarrow> (\<exists>e. cu_scan c f = Some e \<and> se_version e = je_scanner env))"

lemma judged_up_to_date:
  assumes "env_of fx env" "keeps_strings fx" "finite (dom (cu_fields c))" "judge_current env reg every r = Inr u" "cr_id r = i"
    "cr_fields r = cu_fields c" "cr_scan r = cu_scan c"
  shows "up_to_date env reg i (case u of None \<Rightarrow> c | Some u \<Rightarrow> c\<lparr>cu_scan := cp_scan u\<rparr>)"
  unfolding up_to_date_def
proof (intro allI impI)
  fix f v
  assume f: "cu_fields (case u of None \<Rightarrow> c | Some u \<Rightarrow> c\<lparr>cu_scan := cp_scan u\<rparr>) f = Some v \<and> kind_isText reg (id_type i) f"
  then have v: "cu_fields c f = Some v" by (cases u) simp_all
  have "je_jsonb env = fx_jsonb fx" using assms(1) by (simp add: env_of_def)
  then obtain m where m: "fx_jsonb fx (cu_fields c) = Some m"
    and u: "u = (let due = filter (current_due env reg every r) (Keys m) in if due = [] then None
      else Some \<lparr>cp_id = cr_id r, cp_seq = cr_seq r, cp_hash = cr_hash r, cp_was = cr_scan r,
        cp_scan = (\<lambda>f. if f \<in> set due then Some \<lparr>se_verdict = textVerdict env (the (m f)), se_version = je_scanner env\<rparr> else cr_scan r f),
        cp_counts = fold (\<lambda>f. tally (case cr_scan r f of Some e \<Rightarrow> se_verdict e | None \<Rightarrow> []) (textVerdict env (the (m f)))) due no_result\<rparr>)"
    using assms(4,6) by (auto simp: judge_current_def Let_def split: option.splits)
  have "dom m = dom (cu_fields c)" using assms(2) m unfolding keeps_strings_def dom_def by metis
  then have k: "f \<in> set (Keys m)" using v assms(3) set_Keys by fastforce
  let ?scan = "cu_scan (case u of None \<Rightarrow> c | Some u \<Rightarrow> c\<lparr>cu_scan := cp_scan u\<rparr>)"
  show "\<exists>e. ?scan f = Some e \<and> se_version e = je_scanner env"
  proof (cases "current_due env reg every r f")
    case True
    then have "f \<in> set (filter (current_due env reg every r) (Keys m))" using k by simp
    then show ?thesis unfolding u Let_def by (auto simp: filter_empty_conv)
  next
    case False
    then have "(case cu_scan c f of Some e \<Rightarrow> se_version e | None \<Rightarrow> []) = je_scanner env"
      using f assms(5,7) by (simp add: current_due_def)
    then have "\<exists>e. cu_scan c f = Some e \<and> se_version e = je_scanner env"
      using assms(1) by (cases "cu_scan c f") (simp_all add: env_of_def)
    then show ?thesis using False assms(7) unfolding u Let_def by auto
  qed
qed

text \<open>Writing what was judged of rows nobody has changed: every update arrives and none is stale.\<close>

definition unchanged :: "JDB \<Rightarrow> curUpdate \<Rightarrow> bool" where
  "unchanged db u \<longleftrightarrow> (\<exists>c b. jd_current db (cp_id u) = Some c \<and> jd_book db (cp_id u) = Some b \<and> bk_lastEventSeq b = cp_seq u
     \<and> cu_hash c = cp_hash u \<and> cu_scan c = cp_was u)"

lemma write_unchanged:
  assumes "unchanged db u"
  shows "\<exists>c batch'. jd_current db (cp_id u) = Some c
    \<and> write_current u (db, batch, late) = (db\<lparr>jd_current := (jd_current db)(cp_id u \<mapsto> c\<lparr>cu_scan := cp_scan u\<rparr>)\<rparr>, batch', late)"
  using assms by (auto simp: unchanged_def write_current_def)

lemma fold_write_unchanged:
  assumes "distinct (map cp_id us)" "\<forall>u \<in> set us. unchanged db u"
  shows "\<exists>cur batch'. fold write_current us (db, batch, late) = (db\<lparr>jd_current := cur\<rparr>, batch', late)
    \<and> (\<forall>i. i \<notin> cp_id ` set us \<longrightarrow> cur i = jd_current db i)
    \<and> (\<forall>u \<in> set us. cur (cp_id u) = map_option (\<lambda>c. c\<lparr>cu_scan := cp_scan u\<rparr>) (jd_current db (cp_id u)))"
  using assms
proof (induction us arbitrary: db batch)
  case Nil
  have "db = db\<lparr>jd_current := jd_current db\<rparr>" by simp
  then show ?case by (intro exI [of _ "jd_current db"] exI [of _ batch]) simp
next
  case (Cons u us)
  have "unchanged db u" using Cons.prems(2) by simp
  from write_unchanged [OF this, where batch = batch and late = late] obtain c batch1 where c: "jd_current db (cp_id u) = Some c"
    and w: "write_current u (db, batch, late) = (db\<lparr>jd_current := (jd_current db)(cp_id u \<mapsto> c\<lparr>cu_scan := cp_scan u\<rparr>)\<rparr>, batch1, late)"
    by blast
  let ?d = "db\<lparr>jd_current := (jd_current db)(cp_id u \<mapsto> c\<lparr>cu_scan := cp_scan u\<rparr>)\<rparr>"
  have ne: "cp_id x \<noteq> cp_id u" if "x \<in> set us" for x using Cons.prems(1) imageI [OF that, of cp_id] by auto
  have "\<forall>x \<in> set us. unchanged ?d x" using Cons.prems(2) ne by (auto simp: unchanged_def)
  then obtain cur batch2 where f: "fold write_current us (?d, batch1, late) = (?d\<lparr>jd_current := cur\<rparr>, batch2, late)"
    and out: "\<forall>i. i \<notin> cp_id ` set us \<longrightarrow> cur i = jd_current ?d i"
    and upd: "\<forall>x \<in> set us. cur (cp_id x) = map_option (\<lambda>c. c\<lparr>cu_scan := cp_scan x\<rparr>) (jd_current ?d (cp_id x))"
    using Cons.IH [of ?d batch1] Cons.prems(1) by auto
  have "cp_id u \<notin> cp_id ` set us" using Cons.prems(1) by simp
  then have "cur (cp_id u) = Some (c\<lparr>cu_scan := cp_scan u\<rparr>)" using out by simp
  moreover have "cur (cp_id x) = map_option (\<lambda>c. c\<lparr>cu_scan := cp_scan x\<rparr>) (jd_current db (cp_id x))" if "x \<in> set us" for x
    using upd that ne by simp
  ultimately show ?case using w f out c by (intro exI [of _ cur] exI [of _ batch2]) auto
qed

lemma map_values_hit: "map_values f xs = Inr ys \<Longrightarrow> x \<in> set xs \<Longrightarrow> \<exists>y. f x = Inr y \<and> y \<in> set ys"
  by (induction xs arbitrary: ys) (auto split: sum.splits)

lemma map_filter_id_in: "Some u \<in> set us \<Longrightarrow> u \<in> set (List.map_filter (\<lambda>u. u) us)"
  by (induction us) (auto simp: List.map_filter_simps split: option.split)

lemma distinct_map_unique: "distinct (map f xs) \<Longrightarrow> x \<in> set xs \<Longrightarrow> y \<in> set xs \<Longrightarrow> f x = f y \<Longrightarrow> x = y"
  by (metis distinct_map inj_onD)

lemma readCurrent_unique: "distinct is \<Longrightarrow> r \<in> set (readCurrent db is) \<Longrightarrow> r' \<in> set (readCurrent db is) \<Longrightarrow> cr_id r = cr_id r' \<Longrightarrow> r = r'"
  by (rule distinct_map_unique [where f = cr_id and xs = "readCurrent db is"]) (simp_all add: readCurrent_ids)

text \<open>A batch judged on fresh reads.\<close>

lemma fresh_batch:
  assumes "env_of fx env" "keeps_strings fx" "store_ok fx db" "distinct is" "judgeCurrent env reg every (readCurrent db is) db = Inr (db', b, l)"
  shows "l = [] \<and> (\<exists>cur. db' = db\<lparr>jd_current := cur\<rparr> \<and> (\<forall>i. i \<notin> set is \<longrightarrow> cur i = jd_current db i)
    \<and> (\<forall>i \<in> set is. \<forall>c. cur i = Some c \<and> jd_book db i \<noteq> None \<longrightarrow> up_to_date env reg i c))"
proof -
  obtain us where us: "map_values (judge_current env reg every) (readCurrent db is) = Inr us"
    and f: "fold write_current (List.map_filter (\<lambda>u. u) us) (db, no_result, []) = (db', b, l)"
    using assms(5) by (auto simp: judgeCurrent_def split: sum.splits)
  let ?us = "List.map_filter (\<lambda>u. u) us"
  have row: "\<exists>c b. jd_current db (cr_id r) = Some c \<and> jd_book db (cr_id r) = Some b \<and> cr_fields r = cu_fields c \<and> cr_scan r = cu_scan c
      \<and> cr_hash r = cu_hash c \<and> cr_seq r = bk_lastEventSeq b \<and> cr_id r \<in> set is" if "r \<in> set (readCurrent db is)" for r
    using that by (auto simp: readCurrent_def List.map_filter_def split: option.splits)
  have from_row: "\<exists>r \<in> set (readCurrent db is). judge_current env reg every r = Inr (Some u)" if "u \<in> set ?us" for u
    using map_values_in [OF us in_map_filter_id [OF that]] .
  have shape: "cp_id u = cr_id r \<and> cp_seq u = cr_seq r \<and> cp_hash u = cr_hash r \<and> cp_was u = cr_scan r"
    if "judge_current env reg every r = Inr (Some u)" for r u
    using that by (auto simp: judge_current_def Let_def split: option.splits if_splits)
  have "unchanged db u" if u: "u \<in> set ?us" for u
  proof -
    obtain r where r: "r \<in> set (readCurrent db is)" "judge_current env reg every r = Inr (Some u)" using from_row [OF u] by blast
    show ?thesis using row [OF r(1)] shape [OF r(2)] by (auto simp: unchanged_def)
  qed
  moreover have "distinct (map cp_id ?us)"
  proof -
    have "distinct (map cr_id (readCurrent db is))" unfolding readCurrent_ids using assms(4) by simp
    moreover have "distinct (map cp_id (List.map_filter (\<lambda>u. u) vs)) \<and> cp_id ` set (List.map_filter (\<lambda>u. u) vs) \<subseteq> set (map cr_id rs)"
      if "map_values (judge_current env reg every) rs = Inr vs" "distinct (map cr_id rs)" for rs vs
      using that
    proof (induction rs arbitrary: vs)
      case (Cons r rs)
      obtain v vs' where v: "judge_current env reg every r = Inr v" "map_values (judge_current env reg every) rs = Inr vs'" "vs = v # vs'"
        using Cons.prems(1) by (auto split: sum.splits)
      have ih: "distinct (map cp_id (List.map_filter (\<lambda>u. u) vs'))" "cp_id ` set (List.map_filter (\<lambda>u. u) vs') \<subseteq> set (map cr_id rs)"
        using Cons.IH [OF v(2)] Cons.prems(2) by simp_all
      show ?case
      proof (cases v)
        case None
        then show ?thesis using ih v(3) by (auto simp: List.map_filter_simps)
      next
        case (Some u)
        have "cp_id u = cr_id r" using shape v(1) Some by blast
        moreover have "cr_id r \<notin> set (map cr_id rs)" using Cons.prems(2) by simp
        ultimately show ?thesis using ih v(3) Some by (auto simp: List.map_filter_simps)
      qed
    qed (simp add: List.map_filter_simps)
    ultimately show ?thesis using us by blast
  qed
  ultimately obtain cur where cur: "db' = db\<lparr>jd_current := cur\<rparr>" "l = []"
    "\<forall>i. i \<notin> cp_id ` set ?us \<longrightarrow> cur i = jd_current db i"
    "\<forall>u \<in> set ?us. cur (cp_id u) = map_option (\<lambda>c. c\<lparr>cu_scan := cp_scan u\<rparr>) (jd_current db (cp_id u))"
    using fold_write_unchanged [of ?us db no_result "[]"] f by auto
  have in_is: "cp_id ` set ?us \<subseteq> set is" using from_row row shape by fastforce
  have "up_to_date env reg i c" if i: "i \<in> set is" "cur i = Some c" "jd_book db i \<noteq> None" for i c
  proof -
    have "jd_current db i \<noteq> None"
    proof (cases "i \<in> cp_id ` set ?us")
      case True
      then show ?thesis using cur(4) i(2) by auto
    qed (use cur(3) i(2) in simp)
    then have "i \<in> set (map cr_id (readCurrent db is))" unfolding readCurrent_ids using i by simp
    then obtain r where r: "r \<in> set (readCurrent db is)" "cr_id r = i" by auto
    obtain c0 where c0: "jd_current db i = Some c0" "cr_fields r = cu_fields c0" "cr_scan r = cu_scan c0" using row [OF r(1)] r(2) by auto
    have fin: "finite (dom (cu_fields c0))" using assms(3) c0(1) by (auto simp: store_ok_def row_ok_def)
    have "\<exists>u. judge_current env reg every r = Inr u \<and> u \<in> set us" using map_values_hit [OF us r(1)] .
    then obtain u where u: "judge_current env reg every r = Inr u" "u \<in> set us" by blast
    note j = judged_up_to_date [OF assms(1,2) fin u(1) r(2) c0(2,3)]
    show ?thesis
    proof (cases u)
      case None
      have "i \<notin> cp_id ` set ?us"
      proof
        assume "i \<in> cp_id ` set ?us"
        then obtain u' r' where x: "u' \<in> set ?us" "cp_id u' = i" "r' \<in> set (readCurrent db is)" "judge_current env reg every r' = Inr (Some u')"
          using from_row by blast
        have "r' = r" using readCurrent_unique [OF assms(4) x(3) r(1)] shape [OF x(4)] x(2) r(2) by simp
        then show False using u(1) None x(4) by simp
      qed
      then show ?thesis using cur(3) c0(1) i(2) j None by simp
    next
      case (Some u')
      have "u' \<in> set ?us" using u(2) Some by (simp add: map_filter_id_in)
      moreover have "cp_id u' = i" using shape u(1) Some r(2) by blast
      ultimately show ?thesis using cur(4) c0(1) i(2) j Some by auto
    qed
  qed
  then show ?thesis using cur in_is by blast
qed

text \<open>A page of a rescan that runs alone.\<close>

abbreviation alone :: others where "alone \<equiv> \<lambda>_ db. db"

text \<open>In order, and every row has its bookkeeping and the name of a type.\<close>

definition in_shape :: "fixed_env \<Rightarrow> JDB \<Rightarrow> bool" where
  "in_shape fx db \<longleftrightarrow> store_ok fx db \<and> seq_ok db \<and> dom (jd_book db) = dom (jd_current db)
     \<and> (\<forall>i \<in> dom (jd_current db). id_type i \<noteq> [])"

lemma judgeCurrent_micros: "judgeCurrent env reg every rows db = Inr (db', b, l) \<Longrightarrow> micros db db'"
proof (erule judgeCurrent_induct)
  fix r u c b d
  assume "micros db d" "jd_current d (cr_id r) = Some c"
  then show "micros db (d\<lparr>jd_current := (jd_current d)(cr_id r \<mapsto> c\<lparr>cu_scan := cp_scan u\<rparr>)\<rparr>)"
    using m_row rtranclp.rtrancl_into_rtrancl by metis
qed simp

lemma judgeCurrent_domains:
  assumes "judgeCurrent env reg every rows db = Inr (db', b, l)"
  shows "dom (jd_current db') = dom (jd_current db) \<and> jd_book db' = jd_book db"
  using assms
proof (rule judgeCurrent_induct)
  fix r u c b d
  assume d: "dom (jd_current d) = dom (jd_current db) \<and> jd_book d = jd_book db" and c: "jd_current d (cr_id r) = Some c"
  have "cr_id r \<in> dom (jd_current d)" using c by (rule domI)
  then show "dom (jd_current (d\<lparr>jd_current := (jd_current d)(cr_id r \<mapsto> c\<lparr>cu_scan := cp_scan u\<rparr>)\<rparr>)) = dom (jd_current db)
      \<and> jd_book (d\<lparr>jd_current := (jd_current d)(cr_id r \<mapsto> c\<lparr>cu_scan := cp_scan u\<rparr>)\<rparr>) = jd_book db"
    using d by (simp add: insert_absorb)
qed simp

lemma fresh_shape:
  assumes "env_of fx env" "keeps_strings fx" "in_shape fx db" "judgeCurrent env reg every (readCurrent db is) db = Inr (db', b, l)"
  shows "in_shape fx db'"
proof -
  have "store_ok fx db'"
    using assms(3) readCurrent_same unfolding in_shape_def by (intro rescan_current_ok [OF assms(1,2) _ _ assms(4)]) blast+
  moreover have "seq_ok db'" using micros_seq_ok [OF judgeCurrent_micros [OF assms(4)]] assms(3) by (simp add: in_shape_def)
  ultimately show ?thesis using assms(3) judgeCurrent_domains [OF assms(4)] by (simp add: in_shape_def)
qed

definition done_to :: "journal_env \<Rightarrow> Registry_t \<Rightarrow> string \<times> string \<times> string \<Rightarrow> JDB \<Rightarrow> bool" where
  "done_to env reg aft db \<longleftrightarrow> (\<forall>i c. jd_current db i = Some c \<and> pk i \<le> aft \<longrightarrow> up_to_date env reg i c)"

lemma sorted_take_filter:
  assumes "sorted_wrt (<) ys" "y \<in> set ys" "aft < (y :: 'a :: linorder)"
  shows "y \<in> set (take n (filter (\<lambda>y. aft < y) ys)) \<or> n \<le> length (filter (\<lambda>y. aft < y) ys) \<and> (n \<noteq> 0 \<longrightarrow> last (take n (filter (\<lambda>y. aft < y) ys)) < y)"
proof (cases "y \<in> set (take n (filter (\<lambda>y. aft < y) ys))")
  case False
  let ?zs = "filter (\<lambda>y. aft < y) ys"
  have s: "sorted_wrt (<) ?zs" using sorted_wrt_filter assms(1) by blast
  have "y \<in> set ?zs" using assms(2,3) by simp
  then have y: "y \<in> set (drop n ?zs)" using False by (metis append_take_drop_id set_append UnE)
  then have n: "n \<le> length ?zs" using drop_all nat_le_linear by fastforce
  moreover have "last (take n ?zs) < y" if "n \<noteq> 0"
  proof -
    have "take n ?zs \<noteq> []" using that y by (cases ?zs) auto
    then have "last (take n ?zs) \<in> set (take n ?zs)" by simp
    moreover have "sorted_wrt (<) (take n ?zs @ drop n ?zs)" using s by simp
    ultimately show ?thesis using y unfolding sorted_wrt_append by blast
  qed
  ultimately show ?thesis by blast
qed simp

lemma in_order_pk: "map pk (in_order is) = sorted_list_of_set (pk ` is)"
  by (simp add: in_order_def pk_def [abs_def] comp_def case_prod_unfold)

lemma pk_inj: "pk i = pk j \<Longrightarrow> i = j"
  using identity_eta [of i] identity_eta [of j] by (simp add: pk_def)

lemma in_order_distinct: "distinct (in_order is)"
  using distinct_sorted_list_of_set [of "pk ` is"] unfolding in_order_pk [symmetric] distinct_map by blast

lemma map_pk_page: "map pk (take n (filter (\<lambda>i. aft < pk i) is)) = take n (filter (\<lambda>y. aft < y) (map pk is))"
  by (simp add: take_map filter_map comp_def)

lemma attempts_alone:
  assumes "attempts again judge alone left rows p = (p', None)" "\<And>db db' b l. judge rows db = Inr (db', b, l) \<Longrightarrow> db = pg_db p \<Longrightarrow> l = []"
  shows "rows = [] \<and> pg_db p' = pg_db p \<or> (\<exists>b. judge rows (pg_db p) = Inr (pg_db p', b, []))"
  using assms by (subst (asm) attempts.simps) (auto simp: Let_def split: if_splits sum.splits nat.splits)

lemma page_alone:
  assumes "env_of fx env" "keeps_strings fx" "in_shape fx (pg_db p)" "done_to env reg aft (pg_db p)"
    "rescanCurrent env reg every alone aft p = (p', Inr (n, c))"
  shows "in_shape fx (pg_db p') \<and> done_to env reg c (pg_db p') \<and> (n < rescanBatch \<longrightarrow> (\<forall>i r. jd_current (pg_db p') i = Some r \<longrightarrow> up_to_date env reg i r))"
proof -
  let ?db = "pg_db p"
  define ids where "ids = take rescanBatch (filter (\<lambda>i. aft < pk i) (in_order (dom (jd_current ?db))))"
  have fin: "finite (dom (jd_current ?db))" using assms(3) by (simp add: in_shape_def store_ok_def)
  have d: "distinct ids" using in_order_distinct by (simp add: ids_def)
  have inx: "set ids \<subseteq> dom (jd_current ?db)" using set_in_order [OF fin] by (auto simp: ids_def dest: in_set_takeD)
  then have rid: "map cr_id (readCurrent ?db ids) = ids"
    unfolding readCurrent_ids using assms(3) by (intro filter_True) (auto simp: in_shape_def)
  obtain p1 where a: "attempts (\<lambda>late db. readCurrent db late) (judgeCurrent env reg every) alone rescanRetries (readCurrent ?db ids)
      (p\<lparr>pg_clock := Suc (pg_clock p)\<rparr>) = (p1, None)" and p1: "p' = p1" "n = length (readCurrent ?db ids)"
      "c = page_of (\<lambda>rs. pk (cr_id (last rs))) aft (readCurrent ?db ids)"
    using assms(5) unfolding rescanCurrent_def Let_def ids_def [symmetric] by (auto split: prod.splits option.splits)
  have n: "n = length ids" using p1(2) rid by (metis length_map)
  note fresh = fresh_batch [OF assms(1,2) _ d]
  have "l = []" if "judgeCurrent env reg every (readCurrent ?db ids) db = Inr (db', b, l)" "db = ?db" for db db' b l
    using fresh that assms(3) by (auto simp: in_shape_def)
  from attempts_alone [OF a] this consider (empty) "ids = []" "pg_db p' = ?db"
    | (judged) b where "judgeCurrent env reg every (readCurrent ?db ids) ?db = Inr (pg_db p', b, [])"
    using rid p1(1) by (cases "readCurrent ?db ids") auto
  then obtain cur where cur: "jd_current (pg_db p') = cur" "in_shape fx (pg_db p')" "\<forall>i. i \<notin> set ids \<longrightarrow> cur i = jd_current ?db i"
    "\<forall>i \<in> set ids. \<forall>c. cur i = Some c \<longrightarrow> up_to_date env reg i c"
  proof cases
    case empty
    then show ?thesis using assms(3) by (intro that [of "jd_current ?db"]) simp_all
  next
    case judged
    have ok: "store_ok fx ?db" using assms(3) by (simp add: in_shape_def)
    obtain cur where c: "pg_db p' = ?db\<lparr>jd_current := cur\<rparr>" "\<forall>i. i \<notin> set ids \<longrightarrow> cur i = jd_current ?db i"
      "\<forall>i \<in> set ids. \<forall>c. cur i = Some c \<and> jd_book ?db i \<noteq> None \<longrightarrow> up_to_date env reg i c"
      using fresh [OF ok judged] by blast
    have "\<forall>i \<in> set ids. jd_book ?db i \<noteq> None" using inx assms(3) unfolding in_shape_def by blast
    then show ?thesis using c fresh_shape [OF assms(1-3) judged] by (intro that [of cur]) simp_all
  qed
  have beyond: "rescanBatch \<le> n \<and> c < pk i" if i: "jd_current ?db i \<noteq> None" "aft < pk i" "i \<notin> set ids" for i
  proof -
    let ?ys = "map pk (in_order (dom (jd_current ?db)))"
    have s: "sorted_wrt (<) ?ys" unfolding in_order_pk by (rule strict_sorted_list_of_set)
    have m: "pk i \<in> set ?ys" using i(1) set_in_order [OF fin] by (auto simp: domIff)
    have pg: "take rescanBatch (filter (\<lambda>y. aft < y) ?ys) = map pk ids" by (simp add: ids_def map_pk_page)
    have "pk i \<notin> set (map pk ids)" using i(3) pk_inj by auto
    then have b: "rescanBatch \<le> length (filter (\<lambda>y. aft < y) ?ys)" "last (map pk ids) < pk i"
      using sorted_take_filter [OF s m i(2), of rescanBatch] pg by (auto simp: rescanBatch_def)
    have "length ids = min rescanBatch (length (filter (\<lambda>y. aft < y) ?ys))"
      using arg_cong [OF pg, of length] by simp
    then have k: "length ids = rescanBatch" using b(1) by simp
    then have ne: "ids \<noteq> []" by (auto simp: rescanBatch_def)
    have rne: "readCurrent ?db ids \<noteq> []" using rid ne by auto
    have "cr_id (last (readCurrent ?db ids)) = last ids" using rid rne by (metis last_map)
    then have "c = last (map pk ids)" using p1(3) rne ne by (simp add: page_of_def last_map)
    then show ?thesis using n k b(2) by simp
  qed
  have at_ids: "up_to_date env reg i r" if "cur i = Some r" "i \<in> set ids" for i r using that cur(4) by blast
  have old: "jd_current ?db i = Some r" if "cur i = Some r" "i \<notin> set ids" for i r using that cur(3) by simp
  have before: "up_to_date env reg i r" if "cur i = Some r" "i \<notin> set ids" "pk i \<le> aft" for i r
    using old [OF that(1,2)] that(3) assms(4) unfolding done_to_def by blast
  have "up_to_date env reg i r" if x: "cur i = Some r" "pk i \<le> c \<or> n < rescanBatch" for i r
  proof (cases "i \<in> set ids")
    case False
    then have "pk i \<le> aft" using beyond [of i] old [OF x(1) False] x(2) by (metis leD le_less_linear option.distinct(1))
    then show ?thesis using before x(1) False by blast
  qed (use at_ids x(1) in blast)
  then show ?thesis using cur(1,2) by (auto simp: done_to_def)
qed

text \<open>An invariant of the pages holds at the end.\<close>

lemma pages_result:
  assumes "pages page aft p = Some (p', None)" "J aft (pg_db p)"
    "\<And>aft p p' n c. J aft (pg_db p) \<Longrightarrow> page aft p = (p', Inr (n, c)) \<Longrightarrow> J c (pg_db p') \<and> (n < rescanBatch \<longrightarrow> Q (pg_db p'))"
  shows "Q (pg_db p')"
proof -
  have "page = page \<longrightarrow> J aft (pg_db p) \<longrightarrow> snd (p', None :: err option) = None \<longrightarrow> Q (pg_db (fst (p', None :: err option)))"
  proof (rule pages.raw_induct [where P = "\<lambda>pg aft p r. pg = page \<longrightarrow> J aft (pg_db p) \<longrightarrow> snd r = None \<longrightarrow> Q (pg_db (fst r))", OF _ assms(1)])
    fix self :: "('a \<Rightarrow> progress \<Rightarrow> progress \<times> (err + nat \<times> 'a)) \<Rightarrow> 'a \<Rightarrow> progress \<Rightarrow> (progress \<times> err option) option" and pg aft p r
    assume IH: "\<And>pg aft p r. self pg aft p = Some r \<Longrightarrow> pg = page \<longrightarrow> J aft (pg_db p) \<longrightarrow> snd r = None \<longrightarrow> Q (pg_db (fst r))"
      and eq: "(case pg aft p of (p, Inl e) \<Rightarrow> Some (p, Some e)
        | (p, Inr (n, reached)) \<Rightarrow> if n < rescanBatch then Some (p, None) else self pg reached p) = Some r"
    show "pg = page \<longrightarrow> J aft (pg_db p) \<longrightarrow> snd r = None \<longrightarrow> Q (pg_db (fst r))"
    proof (intro impI)
      assume a: "pg = page" "J aft (pg_db p)" "snd r = None"
      obtain q n c where q: "page aft p = (q, Inr (n, c))" using eq a by (auto split: prod.splits sum.splits)
      have j: "J c (pg_db q)" "n < rescanBatch \<longrightarrow> Q (pg_db q)" using assms(3) [OF a(2) q] by simp_all
      show "Q (pg_db (fst r))"
      proof (cases "n < rescanBatch")
        case True
        then show ?thesis using eq a(1) q j(2) by auto
      next
        case False
        then have "self page c q = Some r" using eq a(1) q by simp
        then show ?thesis using IH j(1) a(3) by blast
      qed
    qed
  qed
  then show ?thesis using assms(2) by simp
qed

text \<open>The pages of events leave the current rows alone.\<close>

lemma judgeEvents_current: "judgeEvents env reg every rows db = Inr (db', b, l) \<Longrightarrow> jd_current db' = jd_current db"
  by (erule judgeEvents_induct) simp_all

lemma rescanEvents_current:
  assumes "rescanEvents env reg every alone aft p = (p', r)"
  shows "jd_current (pg_db p') = jd_current (pg_db p)"
proof -
  define rows where "rows = take rescanBatch (readEvents (pg_db p) (\<lambda>sq. aft < sq))"
  obtain p1 e where a: "attempts (\<lambda>late db. readEvents db (\<lambda>sq. sq \<in> set late)) (judgeEvents env reg every) alone rescanRetries rows
      (p\<lparr>pg_clock := Suc (pg_clock p)\<rparr>) = (p1, e)" by fastforce
  have "jd_current (pg_db p1) = jd_current (pg_db p)"
    by (rule attempts_keep [where I = "\<lambda>db. jd_current db = jd_current (pg_db p)", OF _ _ _ a]) (auto dest: judgeEvents_current)
  then show ?thesis using assms a unfolding rescanEvents_def Let_def rows_def [symmetric] by simp
qed

lemma Rescan_alone:
  assumes "env_of fx env" "keeps_strings fx" "in_shape fx db" "Rescan (Some env) reg every alone db = Some (p, None)"
  shows "\<exists>d. in_shape fx d \<and> jd_current (pg_db p) = jd_current d \<and> (\<forall>i r. jd_current d i = Some r \<longrightarrow> up_to_date env reg i r)"
proof -
  let ?p = "\<lparr>pg_db = db, pg_res = no_result, pg_clock = 0\<rparr>"
  obtain q where c: "pages (rescanCurrent env reg every alone) ([], [], []) ?p = Some (q, None)"
    and e: "pages (rescanEvents env reg every alone) 0 q = Some (p, None)"
    using assms(4) by (auto simp: Rescan_def Let_def split: option.splits)
  have start: "in_shape fx (pg_db ?p) \<and> done_to env reg ([], [], []) (pg_db ?p)"
  proof -
    have "([], [], []) < pk i" if "id_type i \<noteq> []" for i
      using that by (cases "id_type i") (simp_all add: pk_def less_prod_def)
    then show ?thesis using assms(3) by (fastforce simp: in_shape_def done_to_def)
  qed
  have "in_shape fx (pg_db q) \<and> (\<forall>i r. jd_current (pg_db q) i = Some r \<longrightarrow> up_to_date env reg i r)"
    by (rule pages_result [where J = "\<lambda>aft d. in_shape fx d \<and> done_to env reg aft d"
          and Q = "\<lambda>d. in_shape fx d \<and> (\<forall>i r. jd_current d i = Some r \<longrightarrow> up_to_date env reg i r)", OF c start])
      (use page_alone [OF assms(1,2)] in blast)
  moreover have "jd_current (pg_db p) = jd_current (pg_db q)"
    by (rule pages_result [where J = "\<lambda>aft d. jd_current d = jd_current (pg_db q)" and Q = "\<lambda>d. jd_current d = jd_current (pg_db q)", OF e])
      (auto dest: rescanEvents_current)
  ultimately show ?thesis by blast
qed

text \<open>
  C9: After a rescan the new scanner's word holds. When a rescan with some scanner ran alone and
  succeeded, every text value that State then shows to anybody is the withheld marker or a value that this
  version of the scanner passed: no pass of an older scanner is left in a current row.
\<close>

theorem Rescan_brings_up_to_date:
  assumes "synced fx" "keeps_strings fx" "env_of fx env" "in_shape fx db" "Rescan (Some env) (fx_registry fx) every alone db = Some (p, None)"
    "env_of fx env'" "StateWithRoster env' (fx_registry fx) (pg_db p) q = Inr (rows, sha)" "row \<in> set rows" "so_fields row f = Some v"
    "kind_isText (fx_registry fx) (id_type (so_id row)) f"
  shows "v = jl_encString (je_json env') WithheldScan \<or> fx_judge fx (je_scanner env) (text_of fx v) = VerdictPass_j"
proof -
  obtain d where d: "in_shape fx d" "jd_current (pg_db p) = jd_current d" "\<forall>i r. jd_current d i = Some r \<longrightarrow> up_to_date env (fx_registry fx) i r"
    using Rescan_alone [OF assms(3,2,4,5)] by blast
  have fin: "finite (dom (jd_current (pg_db p)))" using d(1,2) by (simp add: in_shape_def store_ok_def)
  obtain grants where m: "map_values (\<lambda>i. state_row env' (fx_registry fx) (pg_db p) i (the (jd_current (pg_db p) i)) (the (jd_book (pg_db p) i)))
      (in_order (asked_rows grants (pg_db p) q)) = Inr rows"
    using State_answer [OF fin assms(7)] by blast
  from map_values_in [OF m assms(8)] obtain i where i: "i \<in> set (in_order (asked_rows grants (pg_db p) q))"
    and r: "state_row env' (fx_registry fx) (pg_db p) i (the (jd_current (pg_db p) i)) (the (jd_book (pg_db p) i)) = Inr row" by blast
  have id: "so_id row = i" using state_row_id [OF r] by simp
  obtain c where c: "jd_current d i = Some c"
    using i set_in_order [OF asked_finite [OF fin]] d(2) by (auto simp: asked_rows_def)
  have ok: "row_ok fx (id_type i) c" using d(1) c by (simp add: in_shape_def store_ok_def)
  have row: "state_row env' (fx_registry fx) (pg_db p) i c (the (jd_book (pg_db p) i)) = Inr row" using r c d(2) by simp
  have k: "kind_isText (fx_registry fx) (id_type i) f" using assms(10) id by simp
  obtain w where w: "cu_fields c f = Some w"
    using row assms(2,6,9) by (auto simp: state_row_def env_of_def keeps_strings_def split: option.splits) (metis option.exhaust)
  then obtain e where e: "cu_scan c f = Some e" "se_version e = je_scanner env"
    using d(3) c k unfolding up_to_date_def by blast
  from state_row_text [OF assms(1,2,6) ok row assms(9) k] e show ?thesis by auto
qed

section \<open>Reads stay valid\<close>

text \<open>
  C23: The staleness check of a rescan is enough. Take rows and events as a rescan reads them at some
  moment, without any lock, and let any further operations run, erasures with their moved notes and
  other rescans included. If a row then still names the same last event, or an event still has its
  number, its values are the ones that were read: so a verdict is never written beside a value it was
  not given for. And event numbers remain strictly increasing.
\<close>

theorem reads_stay_valid:
  assumes "seq_ok db" "jsteps fx C F db db'"
  shows "(\<forall>is. \<forall>r \<in> set (readCurrent db is). same_current db' r) \<and> (\<forall>P. \<forall>r \<in> set (readEvents db P). same_event db' r)
    \<and> sorted_wrt (<) (map er_seq (jd_events db'))"
proof -
  note m = jsteps_micros [OF assms(2)]
  have "same_current db' r" if "r \<in> set (readCurrent db is)" for r "is"
    using readCurrent_same [OF assms(1) that] micros_same_current [OF m] by blast
  moreover have "same_event db' r" if "r \<in> set (readEvents db P)" for r P
    using readEvents_same [OF assms(1) that] micros_same_event [OF m] by blast
  moreover have "seq_ok db'" using micros_seq_ok [OF m assms(1)] .
  ultimately show ?thesis by (simp add: seq_ok_def events_ok_def)
qed

section \<open>A note that moves while it is judged\<close>


section \<open>Examples\<close>

lemma text_shape: "in_shape text_fixed text_db"
  using text_store_ok text_seq_ok by (simp add: in_shape_def text_tables text_current memo_row_def)

lemma text_read:
  "readCurrent text_db [memo_row] = [\<lparr>cr_id = memo_row, cr_fields = cu_fields text_row, cr_scan = cu_scan text_row, cr_hash = cu_hash text_row, cr_seq = 1\<rparr>]"
  by (simp add: readCurrent_def List.map_filter_simps text_current text_tables book_row_def)

lemma judge_memo:
  "judge_current (text_env\<lparr>je_scanner := v\<rparr>) reg False \<lparr>cr_id = memo_row, cr_fields = cu_fields text_row, cr_scan = cu_scan text_row, cr_hash = h, cr_seq = 1\<rparr>
     = Inr (if v = ''v1'' then None else Some \<lparr>cp_id = memo_row, cp_seq = 1, cp_hash = h, cp_was = cu_scan text_row,
         cp_scan = (cu_scan text_row)(''body'' \<mapsto> \<lparr>se_verdict = ''pass'', se_version = v\<rparr>), cp_counts = no_result\<rparr>)"
proof -
  have k: "Keys [''body'' \<mapsto> ''hi''] = [''body'']" by (simp add: Keys_def)
  have "current_due (text_env\<lparr>je_scanner := v\<rparr>) reg False \<lparr>cr_id = memo_row, cr_fields = [''body'' \<mapsto> ''hi''], cr_scan = cu_scan text_row, cr_hash = h, cr_seq = 1\<rparr> ''body''
      \<longleftrightarrow> v \<noteq> ''v1''"
    by (auto simp: current_due_def text_row_fields)
  then show ?thesis
    by (auto simp: judge_current_def text_row_fields text_env_def k Let_def textVerdict_def text_json_def tally_def VerdictPass_j_def)
qed


theorem reads_stay_valid_witness:
  "same_current text_db (hd (readCurrent text_db [memo_row])) \<and> cr_fields (hd (readCurrent text_db [memo_row])) ''body'' = Some ''hi''"
proof -
  have r: "hd (readCurrent text_db [memo_row]) \<in> set (readCurrent text_db [memo_row])" by (simp add: text_read)
  have "same_current text_db (hd (readCurrent text_db [memo_row]))"
    using reads_stay_valid [OF text_seq_ok text_steps, THEN conjunct1] r by blast
  then show ?thesis by (simp add: text_read text_row_fields)
qed

text \<open>A rescan of the memo by the scanner that judged it.\<close>

lemma Rescan_memo: "Rescan (Some text_env) (fx_registry text_fixed) False alone text_db = Some (\<lparr>pg_db = text_db, pg_res = no_result, pg_clock = 4\<rparr>, None)"
proof -
  let ?reg = "fx_registry text_fixed" and ?p = "\<lambda>k. \<lparr>pg_db = text_db, pg_res = no_result, pg_clock = k\<rparr>"
  have v1: "text_env\<lparr>je_scanner := ''v1''\<rparr> = text_env" by (simp add: text_env_def)
  have add: "addResult no_result no_result = no_result" by (simp add: addResult_def no_result_def)
  have lt: "([], [], []) < pk memo_row" by (simp add: pk_def memo_row_def less_prod_def)
  have ids: "take rescanBatch (filter (\<lambda>i. ([], [], []) < pk i) (in_order (dom (jd_current text_db)))) = [memo_row]"
    using lt by (simp add: text_current in_order_def identity_eta rescanBatch_def)
  have "judgeCurrent text_env ?reg False (readCurrent text_db [memo_row]) text_db = Inr (text_db, no_result, [])"
    using judge_memo [of "''v1''" ?reg "cu_hash text_row"] by (simp add: v1 text_read judgeCurrent_def List.map_filter_simps)
  moreover have "readCurrent text_db [memo_row] \<noteq> []" by (simp add: text_read)
  ultimately have a: "attempts (\<lambda>late db. readCurrent db late) (judgeCurrent text_env ?reg False) alone rescanRetries (readCurrent text_db [memo_row]) (?p 1)
      = (?p 2, None)"
    by (subst attempts.simps) (simp add: Let_def add)
  have "length (readCurrent text_db [memo_row]) = 1" by (simp add: text_read)
  then have c: "rescanCurrent text_env ?reg False alone ([], [], []) (?p 0)
      = (?p 2, Inr (1, page_of (\<lambda>rs. pk (cr_id (last rs))) ([], [], []) (readCurrent text_db [memo_row])))"
    using a by (simp add: rescanCurrent_def Let_def ids)
  have cur: "pages (rescanCurrent text_env ?reg False alone) ([], [], []) (?p 0) = Some (?p 2, None)"
    by (subst pages.simps) (simp add: c rescanBatch_def)
  define r where "r = \<lparr>ed_seq = 1, ed_type = ''memo'', ed_version = 2, ed_kind = Created, ed_fields = Some [''body'' \<mapsto> ''hi''], ed_changed = NoChanged,
    ed_scan = er_scan memo_event\<rparr>"
  have rows: "take rescanBatch (readEvents text_db (\<lambda>sq. 0 < sq)) = [r]"
    by (simp add: readEvents_def text_events memo_event_columns memo_row_def rescanBatch_def r_def)
  have d: "decode_values (je_jsonb text_env) Created (Some [''body'' \<mapsto> ''hi'']) NoChanged = Some (Map.empty, [''body'' \<mapsto> ''hi''])"
    by (simp add: decode_values_def event_values_def text_env_def)
  have "\<not> event_due text_env ?reg False r ''body''"
    by (simp add: event_due_def r_def memo_event_columns text_env_def)
  then have "judge_event text_env ?reg False r = Inr None"
    by (simp add: judge_event_def d Let_def r_def)
  then have "judgeEvents text_env ?reg False [r] text_db = Inr (text_db, no_result, [])"
    by (simp add: judgeEvents_def List.map_filter_simps)
  then have b: "attempts (\<lambda>late db. readEvents db (\<lambda>sq. sq \<in> set late)) (judgeEvents text_env ?reg False) alone rescanRetries [r] (?p 3) = (?p 4, None)"
    by (subst attempts.simps) (simp add: Let_def add)
  have e: "rescanEvents text_env ?reg False alone 0 (?p 2) = (?p 4, Inr (1, 1))"
    using b by (simp add: rescanEvents_def Let_def rows page_of_def r_def)
  have "pages (rescanEvents text_env ?reg False alone) 0 (?p 2) = Some (?p 4, None)"
    by (subst pages.simps) (simp add: e rescanBatch_def)
  then show ?thesis using cur by (simp add: Rescan_def)
qed

theorem Rescan_brings_up_to_date_witness:
  "\<exists>ros row. StateWithRoster (home_env ros) (fx_registry text_fixed) text_db ann_state = Inr ([row], ro_sha ros)
     \<and> so_fields row ''body'' = Some ''hi'' \<and> (''hi'' = WithheldScan \<or> fx_judge text_fixed ''v1'' (text_of text_fixed ''hi'') = ''pass'')"
proof -
  obtain ros where ros: "home_roster ros" using sample_roster by (auto simp: home_roster_def)
  obtain row where r: "StateWithRoster (home_env ros) (fx_registry text_fixed) text_db ann_state = Inr ([row], ro_sha ros)"
    "so_id row = memo_row" "so_fields row ''body'' = Some ''hi''"
    using home_state [OF ros] by blast
  have k: "kind_isText (fx_registry text_fixed) (id_type (so_id row)) ''body''" using text_kind r(2) by (simp add: memo_row_def)
  have env: "env_of text_fixed text_env"
    by (simp add: env_of_def text_fixed_def text_env_def memo_fixed_def sample_snap_lib_def VerdictPass_j_def)
  have "row \<in> set [row]" by simp
  from Rescan_brings_up_to_date [OF text_synced text_keeps env text_shape Rescan_memo home_of [OF ros] _ this r(3) k, of ann_state "ro_sha ros"] r(1)
  have "''hi'' = WithheldScan \<or> fx_judge text_fixed ''v1'' (text_of text_fixed ''hi'') = ''pass''"
    by (simp add: home_env_def text_env_def text_json_def no_json_def VerdictPass_j_def)
  then show ?thesis using r by blast
qed

theorem Rescan_returns_witness:
  "\<exists>p e. Rescan (Some text_env) (fx_registry text_fixed) True (\<lambda>k db. if k = 2 then fst (DiscardHeld ''id'' db) else delete_rows (\<lambda>_. True) db) text_db = Some (p, e)"
proof -
  have "confined {memo_row} 1 text_db" by (simp add: confined_def text_current text_events memo_event_columns)
  moreover have "confined {memo_row} 1 (if k = 2 then fst (DiscardHeld ''id'' db) else delete_rows (\<lambda>_. True) db)" if "confined {memo_row} 1 db" for k :: nat and db
    using that by (auto simp: confined_def DiscardHeld_def delete_rows_def)
  ultimately show ?thesis
    by (intro Rescan_returns [where V = "{memo_row}" and n = 1]) simp_all
qed

end
