(* ===== verification/DailyWindow.thy ===== *)
theory DailyWindow
  imports JRecord "HOL-Library.Signed_Division"
begin

text \<open>
  \<^verbatim>\<open>internal/dailywindow/dailywindow.go\<close>: daily spans on the wall clock of a time zone, from which the login
  job and the login broker build their blackouts. Instants and durations are nanoseconds. A zone is its
  offset from UTC at every second, daylight-saving changes included. Durations near the end of their
  64-bit range, some three hundred years, are left out.
\<close>

section \<open>Windows\<close>

definition daySeconds :: int where "daySeconds = 86400"

record Window =
  wn_start :: int
  wn_end :: int

definition ContainsSecond :: "Window \<Rightarrow> int \<Rightarrow> bool" where
  "ContainsSecond w sec =
     (if wn_start w < wn_end w then wn_start w \<le> sec \<and> sec < wn_end w else wn_start w \<le> sec \<or> sec < wn_end w)"

text \<open>The verb \<^verbatim>\<open>%02d\<close>; integer division truncates.\<close>

definition show_02d :: "int \<Rightarrow> string" where
  "show_02d n =
     (if n < 0 then ''-'' @ show_nat (nat (- n))
      else if n < 10 then ''0'' @ show_nat (nat n) else show_nat (nat n))"

definition ClockString :: "int \<Rightarrow> string" where
  "ClockString sec = show_02d (sec sdiv 3600) @ '':'' @ show_02d (sec smod 3600 sdiv 60)"

definition Window_String :: "Window \<Rightarrow> string" where
  "Window_String w = ClockString (wn_start w) @ ''-'' @ ClockString (wn_end w)"

text \<open>\<^verbatim>\<open>Covers\<close> steps through the other window minute by minute; bounds that are not whole minutes apart never meet.\<close>

partial_function (option) covers_from :: "Window \<Rightarrow> Window \<Rightarrow> int \<Rightarrow> bool option" where
  "covers_from w other sec =
     (if sec = wn_end other then Some (ContainsSecond w ((wn_end other + daySeconds - 1) mod daySeconds))
      else if \<not> ContainsSecond w sec then Some False
      else covers_from w other ((sec + 60) mod daySeconds))"

declare covers_from.simps [simp del]

definition Covers :: "Window \<Rightarrow> Window \<Rightarrow> bool option" where
  "Covers w other = covers_from w other (wn_start other)"

section \<open>Reading windows\<close>

definition not_clock :: "string \<Rightarrow> err" where "not_clock v = Err (v @ '' is not HH:MM'')"

definition ParseClock :: "string \<Rightarrow> err + int" where
  "ParseClock v =
     (case go_split CHR '':'' (TrimSpace v) of
        [hh, mm] \<Rightarrow>
          if length hh \<noteq> 2 \<or> length mm \<noteq> 2 then Inl (not_clock v)
          else (case ParseInt64 hh of
                  None \<Rightarrow> Inl (not_clock v)
                | Some h \<Rightarrow>
                    if h < 0 \<or> h > 23 then Inl (not_clock v)
                    else (case ParseInt64 mm of
                            None \<Rightarrow> Inl (not_clock v)
                          | Some m \<Rightarrow> if m < 0 \<or> m > 59 then Inl (not_clock v) else Inr (h * 3600 + m * 60)))
      | _ \<Rightarrow> Inl (not_clock v))"

definition Window_Parse :: "string \<Rightarrow> string \<Rightarrow> err + Window" where
  "Window_Parse start end1 =
     (case ParseClock start of
        Inl e \<Rightarrow> Inl (Wrap ''start'' e)
      | Inr s \<Rightarrow>
          (case ParseClock end1 of
             Inl e \<Rightarrow> Inl (Wrap ''end'' e)
           | Inr e \<Rightarrow>
               if s = e then Inl (Err (''start and end are both '' @ TrimSpace start @ '': a window cannot be empty''))
               else Inr \<lparr>wn_start = s, wn_end = e\<rparr>))"

fun parse_items :: "string list \<Rightarrow> err + Window list" where
  "parse_items [] = Inr []"
| "parse_items (raw # items) =
     (let item = TrimSpace raw in
      if item = [] then parse_items items
      else (case go_split CHR ''-'' item of
              [a, b] \<Rightarrow>
                (case Window_Parse a b of
                   Inl e \<Rightarrow> Inl (Wrap (''window '' @ item) e)
                 | Inr w \<Rightarrow> (case parse_items items of Inl e \<Rightarrow> Inl e | Inr ws \<Rightarrow> Inr (w # ws)))
            | _ \<Rightarrow> Inl (Err (''window '' @ item @ '' is not HH:MM-HH:MM''))))"

definition ParseList :: "string \<Rightarrow> err + Window list" where
  "ParseList spec = parse_items (go_split CHR '','' spec)"

section \<open>Instants\<close>

definition second_ns :: int where "second_ns = 1000000000"
definition minute_ns :: int where "minute_ns = 60 * second_ns"

record Location =
  lo_name :: string
  lo_offset :: "int \<Rightarrow> int"

text \<open>\<^verbatim>\<open>t.In(loc).Clock()\<close>.\<close>

definition Clock :: "Location \<Rightarrow> int \<Rightarrow> int \<times> int \<times> int" where
  "Clock loc t =
     (let unix = t div second_ns; sec = (unix + lo_offset loc unix) mod daySeconds
      in (sec div 3600, sec mod 3600 div 60, sec mod 60))"

record WindowSet =
  ws_windows :: "Window list"
  ws_loc :: "Location option"

definition Set_Contains :: "WindowSet \<Rightarrow> int \<Rightarrow> bool" where
  "Set_Contains s t =
     (case ws_loc s of
        None \<Rightarrow> False
      | Some loc \<Rightarrow>
          let (h, m, sec) = Clock loc t; at_sec = h * 3600 + m * 60 + sec
          in list_ex (\<lambda>w. ContainsSecond w at_sec) (ws_windows s))"

definition blockStep :: int where "blockStep = 15 * second_ns"

function blocks_from :: "WindowSet \<Rightarrow> int \<Rightarrow> int \<Rightarrow> int \<Rightarrow> bool" where
  "blocks_from s t headroom d =
     (if d < headroom then if Set_Contains s (t + d) then True else blocks_from s t headroom (d + blockStep)
      else Set_Contains s (t + headroom))"
  by pat_completeness auto
termination
  by (relation "measure (\<lambda>(s, t, headroom, d). nat (headroom - d))") (auto simp: blockStep_def second_ns_def)

declare blocks_from.simps [simp del]

definition Set_BlocksAt :: "WindowSet \<Rightarrow> int \<Rightarrow> int \<Rightarrow> bool" where
  "Set_BlocksAt s t headroom = blocks_from s t headroom 0"

definition Set_String :: "WindowSet \<Rightarrow> string" where
  "Set_String s = go_join '','' (map Window_String (ws_windows s))"

section \<open>Schedules\<close>

definition Schedule_BlocksAt :: "WindowSet list \<Rightarrow> int \<Rightarrow> int \<Rightarrow> bool" where
  "Schedule_BlocksAt sc t headroom = list_ex (\<lambda>s. Set_BlocksAt s t headroom) sc"

definition nextClearHorizon :: int where "nextClearHorizon = 48 * 60 * minute_ns"

function clear_from :: "WindowSet list \<Rightarrow> int \<Rightarrow> int \<Rightarrow> int \<Rightarrow> int option" where
  "clear_from sc headroom nxt end_t =
     (if nxt < end_t then if \<not> Schedule_BlocksAt sc nxt headroom then Some nxt
        else clear_from sc headroom (nxt + minute_ns) end_t
      else None)"
  by pat_completeness auto
termination
  by (relation "measure (\<lambda>(sc, headroom, nxt, end_t). nat (end_t - nxt))") (auto simp: minute_ns_def second_ns_def)

declare clear_from.simps [simp del]

text \<open>\<^verbatim>\<open>t.Truncate(time.Minute)\<close> is \<open>t - t mod minute_ns\<close>: the zero time is a whole minute.\<close>

definition NextClear :: "WindowSet list \<Rightarrow> int \<Rightarrow> int \<Rightarrow> int option" where
  "NextClear sc t headroom =
     (if \<not> Schedule_BlocksAt sc t headroom then Some t
      else clear_from sc headroom (t - t mod minute_ns + minute_ns) (t + nextClearHorizon))"

definition Schedule_String :: "WindowSet list \<Rightarrow> string" where
  "Schedule_String sc = go_join ''; '' (List.map_filter
     (\<lambda>s. case ws_loc s of None \<Rightarrow> None
        | Some loc \<Rightarrow> if ws_windows s = [] then None else Some (Set_String s @ '' '' @ lo_name loc)) sc)"

section \<open>Windows and minutes\<close>

definition window_ok :: "Window \<Rightarrow> bool" where
  "window_ok w \<longleftrightarrow> 0 \<le> wn_start w \<and> wn_start w < daySeconds \<and> wn_start w mod 60 = 0
     \<and> 0 \<le> wn_end w \<and> wn_end w < daySeconds \<and> wn_end w mod 60 = 0 \<and> wn_start w \<noteq> wn_end w"

lemma ParseClock_ok: "ParseClock v = Inr n \<Longrightarrow> 0 \<le> n \<and> n < daySeconds \<and> n mod 60 = 0"
  by (auto simp: ParseClock_def daySeconds_def split: list.splits option.splits if_splits)

lemma Window_Parse_ok: "Window_Parse a b = Inr w \<Longrightarrow> window_ok w"
  by (auto simp: Window_Parse_def window_ok_def dest!: ParseClock_ok split: sum.splits if_splits)

lemma parse_items_ok: "parse_items items = Inr ws \<Longrightarrow> w \<in> set ws \<Longrightarrow> window_ok w"
  by (induction items arbitrary: ws)
    (auto simp: Let_def dest: Window_Parse_ok split: if_splits list.splits sum.splits)

lemma ContainsSecond_minute:
  assumes "window_ok w"
  shows "ContainsSecond w sec = ContainsSecond w (sec - sec mod 60)"
proof -
  obtain a b where w: "wn_start w = 60 * a" "wn_end w = 60 * b"
    using assms by (metis window_ok_def mod_0_imp_dvd dvdE)
  define m r where "m = sec div 60" and "r = sec mod 60"
  have s: "sec = 60 * m + r" "0 \<le> r" "r < 60" "sec - sec mod 60 = 60 * m" by (simp_all add: m_def r_def minus_mod_eq_mult_div)
  have "(60 * a \<le> 60 * m + r) = (60 * a \<le> 60 * m)" using s(2,3) by presburger
  moreover have "(60 * m + r < 60 * b) = (60 * m < 60 * b)" using s(2,3) by presburger
  ultimately show ?thesis unfolding ContainsSecond_def w s(4) unfolding s(1) by simp
qed

section \<open>Covering\<close>

lemma covers_from_steps:
  assumes "window_ok w" "window_ok other" "0 \<le> sec" "sec < daySeconds" "sec mod 60 = 0"
    and "(wn_end other - sec) mod daySeconds = 60 * int k"
  shows "covers_from w other sec = Some ((\<forall>i. 0 \<le> i \<and> i < 60 * int k \<longrightarrow> ContainsSecond w ((sec + i) mod daySeconds))
    \<and> ContainsSecond w ((wn_end other + daySeconds - 1) mod daySeconds))"
  using assms(3-6)
proof (induction k arbitrary: sec)
  case 0
  have "wn_end other = sec"
  proof -
    have "0 \<le> wn_end other" "wn_end other < daySeconds" using assms(2) by (simp_all add: window_ok_def)
    with 0 have "wn_end other mod daySeconds = wn_end other" "sec mod daySeconds = sec" by simp_all
    moreover have "daySeconds dvd wn_end other - sec" using 0(4) by (simp add: dvd_eq_mod_eq_0)
    then have "wn_end other mod daySeconds = sec mod daySeconds" by (rule mod_eq_dvd_iff [THEN iffD2])
    ultimately show ?thesis by metis
  qed
  then show ?case by (subst covers_from.simps) auto
next
  case (Suc k)
  have ne: "sec \<noteq> wn_end other" using Suc.prems(4) by auto
  let ?next = "(sec + 60) mod daySeconds"
  have nx: "0 \<le> ?next" "?next < daySeconds" by (simp_all add: daySeconds_def)
  have day60: "x mod daySeconds mod 60 = x mod 60" for x :: int by (rule mod_mod_cancel) (simp add: daySeconds_def)
  have nm: "?next mod 60 = 0" unfolding day60 using Suc.prems(3) by simp
  have "(wn_end other - ?next) mod daySeconds = (wn_end other - sec - 60) mod daySeconds"
    by (simp add: mod_diff_right_eq algebra_simps)
  also have "\<dots> = ((wn_end other - sec) mod daySeconds - 60) mod daySeconds" by (simp add: mod_diff_left_eq)
  also have "\<dots> = 60 * int k"
  proof -
    have "(wn_end other - sec) mod daySeconds < daySeconds" by (simp add: daySeconds_def)
    then show ?thesis using Suc.prems(4) by (simp add: daySeconds_def)
  qed
  finally have IH: "covers_from w other ?next = Some ((\<forall>i. 0 \<le> i \<and> i < 60 * int k \<longrightarrow> ContainsSecond w ((?next + i) mod daySeconds))
    \<and> ContainsSecond w ((wn_end other + daySeconds - 1) mod daySeconds))"
    using Suc.IH [OF nx nm] by simp
  have first: "ContainsSecond w ((sec + i) mod daySeconds) = ContainsSecond w sec" if "0 \<le> i" "i < 60" for i
  proof -
    obtain q where q: "sec = 60 * q" using Suc.prems(3) by (metis mod_0_imp_dvd dvdE)
    then have "sec + i < daySeconds" using that Suc.prems(2) by (simp add: daySeconds_def)
    then have "(sec + i) mod daySeconds = sec + i" using that Suc.prems(1) by simp
    moreover have "(sec + i) mod 60 = i" using q that by simp
    ultimately show ?thesis using ContainsSecond_minute [OF assms(1), of "sec + i"] by simp
  qed
  have rest: "(?next + i) mod daySeconds = (sec + (i + 60)) mod daySeconds" for i
    using mod_add_left_eq [of "sec + 60" daySeconds i] by (simp add: ac_simps)
  have "(\<forall>i. 0 \<le> i \<and> i < 60 * int (Suc k) \<longrightarrow> ContainsSecond w ((sec + i) mod daySeconds))
      \<longleftrightarrow> ContainsSecond w sec \<and> (\<forall>i. 0 \<le> i \<and> i < 60 * int k \<longrightarrow> ContainsSecond w ((?next + i) mod daySeconds))"
    (is "?all \<longleftrightarrow> _ \<and> ?tail")
  proof safe
    assume a: ?all
    show "ContainsSecond w sec" using a [rule_format, of 0] first [of 0] by simp
    show "ContainsSecond w ((?next + i) mod daySeconds)" if "0 \<le> i" "i < 60 * int k" for i
      using a [rule_format, of "i + 60"] that rest [of i] by simp
  next
    fix i assume s: "ContainsSecond w sec" and t: ?tail and i: "0 \<le> i" "i < 60 * int (Suc k)"
    show "ContainsSecond w ((sec + i) mod daySeconds)"
    proof (cases "i < 60")
      case True then show ?thesis using first [OF i(1)] s by simp
    next
      case False
      then show ?thesis using t [rule_format, of "i - 60"] rest [of "i - 60"] i by simp
    qed
  qed
  then show ?case using IH ne by (subst covers_from.simps) simp
qed

lemma ContainsSecond_span:
  assumes "window_ok w" "0 \<le> x" "x < daySeconds"
  shows "ContainsSecond w x \<longleftrightarrow> (\<exists>i. 0 \<le> i \<and> i < (wn_end w - wn_start w) mod daySeconds \<and> x = (wn_start w + i) mod daySeconds)"
    (is "_ \<longleftrightarrow> ?rhs")
proof -
  have w: "0 \<le> wn_start w" "wn_start w < daySeconds" "0 \<le> wn_end w" "wn_end w < daySeconds" "wn_start w \<noteq> wn_end w"
    using assms(1) by (simp_all add: window_ok_def)
  show ?thesis
  proof (cases "wn_start w < wn_end w")
    case True
    then have n: "(wn_end w - wn_start w) mod daySeconds = wn_end w - wn_start w" using w by simp
    show ?thesis
    proof
      assume "ContainsSecond w x"
      then have "wn_start w \<le> x" "x < wn_end w" using True by (simp_all add: ContainsSecond_def)
      then show ?rhs using n assms by (intro exI [of _ "x - wn_start w"]) simp
    next
      assume ?rhs
      then obtain i where "0 \<le> i" "i < wn_end w - wn_start w" "x = (wn_start w + i) mod daySeconds" unfolding n by blast
      then show "ContainsSecond w x" using True w by (simp add: ContainsSecond_def)
    qed
  next
    case False
    then have lt: "wn_end w < wn_start w" using w(5) by simp
    have "(wn_end w - wn_start w + daySeconds) mod daySeconds = wn_end w - wn_start w + daySeconds"
      using w lt by (intro mod_pos_pos_trivial) simp_all
    then have n: "(wn_end w - wn_start w) mod daySeconds = wn_end w - wn_start w + daySeconds" by simp
    show ?thesis
    proof
      assume c: "ContainsSecond w x"
      show ?rhs
      proof (cases "wn_start w \<le> x")
        case True
        then show ?thesis using n assms w by (intro exI [of _ "x - wn_start w"]) simp
      next
        case left: False
        then have "x < wn_end w" using c False by (simp add: ContainsSecond_def)
        then show ?thesis using n assms w by (intro exI [of _ "x - wn_start w + daySeconds"]) simp
      qed
    next
      assume ?rhs
      then obtain i where i: "0 \<le> i" "i < wn_end w - wn_start w + daySeconds" "x = (wn_start w + i) mod daySeconds" unfolding n by blast
      show "ContainsSecond w x"
      proof (cases "wn_start w + i < daySeconds")
        case True
        then show ?thesis using i w False by (simp add: ContainsSecond_def)
      next
        case over: False
        then have "(wn_start w + i - daySeconds) mod daySeconds = wn_start w + i - daySeconds" using i w by (intro mod_pos_pos_trivial) simp_all
        then have "x = wn_start w + i - daySeconds" using i(3) by simp
        then show ?thesis using i False by (simp add: ContainsSecond_def)
      qed
    qed
  qed
qed

text \<open>
  C30: \<^verbatim>\<open>Covers\<close> answers, and rightly: for windows that were read from a configuration the loop ends, and
  the answer is whether every second of the day that lies in the other window lies in this one, however
  the two wrap past midnight.
\<close>

theorem Covers_correct:
  assumes "Window_Parse a b = Inr w" "Window_Parse c d = Inr other"
  shows "Covers w other = Some (\<forall>x. 0 \<le> x \<and> x < daySeconds \<longrightarrow> ContainsSecond other x \<longrightarrow> ContainsSecond w x)"
proof -
  note ok = Window_Parse_ok [OF assms(1)] Window_Parse_ok [OF assms(2)]
  let ?n = "(wn_end other - wn_start other) mod daySeconds"
  have o1: "0 \<le> wn_start other" "wn_start other < daySeconds" "wn_start other mod 60 = 0" and ne: "wn_start other \<noteq> wn_end other"
    and e: "0 \<le> wn_end other" "wn_end other < daySeconds" "wn_end other mod 60 = 0"
    using ok(2) by (simp_all add: window_ok_def)
  have "?n mod 60 = 0" using o1(3) e(3) by (simp add: daySeconds_def mod_mod_cancel mod_0_imp_dvd)
  then obtain q where q: "?n = 60 * q" by (metis mod_0_imp_dvd dvdE)
  moreover have "0 \<le> ?n" by (simp add: daySeconds_def)
  ultimately have k: "?n = 60 * int (nat q)" by simp
  have pos: "0 < ?n"
  proof (rule ccontr)
    assume "\<not> 0 < ?n"
    then have "?n = 0" using \<open>0 \<le> ?n\<close> by simp
    then have "daySeconds dvd wn_end other - wn_start other" by (simp add: dvd_eq_mod_eq_0)
    then have "wn_end other mod daySeconds = wn_start other mod daySeconds" by (rule mod_eq_dvd_iff [THEN iffD2])
    then show False using o1 e ne by simp
  qed
  have "(wn_start other + (?n - 1)) mod daySeconds = (wn_end other - 1) mod daySeconds"
    by (metis (no_types, opaque_lifting) add_diff_eq diff_add_cancel mod_add_right_eq add.commute mod_diff_left_eq)
  then have l: "(wn_end other + daySeconds - 1) mod daySeconds = (wn_start other + (?n - 1)) mod daySeconds"
    by (metis add_diff_eq add.commute mod_add_self1 diff_add_eq)
  have range: "0 \<le> (wn_start other + i) mod daySeconds" "(wn_start other + i) mod daySeconds < daySeconds" for i
    by (simp_all add: daySeconds_def)
  have "(\<forall>i. 0 \<le> i \<and> i < ?n \<longrightarrow> ContainsSecond w ((wn_start other + i) mod daySeconds))
      \<longleftrightarrow> (\<forall>x. 0 \<le> x \<and> x < daySeconds \<longrightarrow> ContainsSecond other x \<longrightarrow> ContainsSecond w x)"
    using ContainsSecond_span [OF ok(2)] range by metis
  moreover have "ContainsSecond w ((wn_end other + daySeconds - 1) mod daySeconds)"
    if "\<forall>i. 0 \<le> i \<and> i < ?n \<longrightarrow> ContainsSecond w ((wn_start other + i) mod daySeconds)"
    using that [rule_format, of "?n - 1"] pos l by simp
  ultimately show ?thesis
    unfolding Covers_def covers_from_steps [OF ok o1 k] k [symmetric] by blast
qed

section \<open>Blocking\<close>

definition whole_minutes :: "Location \<Rightarrow> bool" where
  "whole_minutes loc \<longleftrightarrow> (\<forall>u. lo_offset loc u mod 60 = 0 \<and> lo_offset loc u = lo_offset loc (u - u mod 60))"

definition set_ok :: "WindowSet \<Rightarrow> bool" where
  "set_ok s \<longleftrightarrow> list_all window_ok (ws_windows s) \<and> (\<forall>loc. ws_loc s = Some loc \<longrightarrow> whole_minutes loc)"

lemma clock_second: "0 \<le> x \<Longrightarrow> x div 3600 * 3600 + x mod 3600 div 60 * 60 + x mod 60 = (x::int)"
proof -
  have "x mod 60 = x mod 3600 mod 60" by (simp add: mod_mod_cancel)
  then have "x mod 3600 div 60 * 60 + x mod 60 = x mod 3600" by simp
  then show ?thesis by (metis add.assoc div_mult_mod_eq)
qed

lemma Set_Contains_second:
  "ws_loc s = Some loc \<Longrightarrow> Set_Contains s t
    \<longleftrightarrow> list_ex (\<lambda>w. ContainsSecond w ((t div second_ns + lo_offset loc (t div second_ns)) mod daySeconds)) (ws_windows s)"
  unfolding Set_Contains_def Clock_def Let_def
  by (simp add: clock_second daySeconds_def)

lemma minute_in_day: "0 \<le> j \<Longrightarrow> j < 60 \<Longrightarrow> (60 * a + j) mod daySeconds - (60 * a + j) mod daySeconds mod 60 = 60 * a mod daySeconds" for a j :: int
proof -
  assume j: "0 \<le> j" "j < 60"
  have "60 * a + j = daySeconds * (a div 1440) + (60 * (a mod 1440) + j)" "60 * a = daySeconds * (a div 1440) + 60 * (a mod 1440)"
    using div_mult_mod_eq [of a 1440] unfolding daySeconds_def by linarith+
  moreover have "0 \<le> a mod 1440" "a mod 1440 < 1440" by simp_all
  moreover have "(daySeconds * c + e) mod daySeconds = e" if "0 \<le> e" "e < daySeconds" for c e
    using that by simp
  moreover have "0 \<le> 60 * (a mod 1440) + j" "60 * (a mod 1440) + j < daySeconds" "0 \<le> 60 * (a mod 1440)" "60 * (a mod 1440) < daySeconds"
    using j pos_mod_bound [of 1440 a] pos_mod_sign [of 1440 a] unfolding daySeconds_def by linarith+
  ultimately have e: "(60 * a + j) mod daySeconds = 60 * (a mod 1440) + j" "60 * a mod daySeconds = 60 * (a mod 1440)"
    by metis+
  show ?thesis unfolding e using j by simp
qed

lemma Set_Contains_minute:
  assumes "set_ok s"
  shows "Set_Contains s t = Set_Contains s (t - t mod minute_ns)"
proof (cases "ws_loc s")
  case None
  then show ?thesis by (simp add: Set_Contains_def)
next
  case (Some loc)
  define q where "q = t div minute_ns"
  define j where "j = t mod minute_ns div second_ns"
  have j: "0 \<le> j" "j < 60" by (auto simp: j_def minute_ns_def second_ns_def)
  have u: "t div second_ns = 60 * q + j"
  proof -
    have "t = t mod minute_ns + (60 * q) * second_ns"
      using div_mult_mod_eq [of t minute_ns] by (simp add: q_def minute_ns_def second_ns_def)
    then have "t div second_ns = (t mod minute_ns + (60 * q) * second_ns) div second_ns" by simp
    also have "\<dots> = 60 * q + j" unfolding j_def by (rule div_mult_self1) (simp add: second_ns_def)
    finally show ?thesis .
  qed
  have u0: "(t - t mod minute_ns) div second_ns = 60 * q"
  proof -
    have "t - t mod minute_ns = minute_ns * q" unfolding q_def by (simp add: minus_mod_eq_mult_div)
    then show ?thesis by (simp add: minute_ns_def second_ns_def)
  qed
  have "(60 * q + j) - (60 * q + j) mod 60 = 60 * q" using j by simp
  then have off: "lo_offset loc (60 * q + j) = lo_offset loc (60 * q)" "lo_offset loc (60 * q) mod 60 = 0"
    using assms Some unfolding set_ok_def whole_minutes_def by metis+
  then obtain p where p: "lo_offset loc (60 * q) = 60 * p" by (metis mod_0_imp_dvd dvdE)
  have "ContainsSecond w ((60 * (q + p) + j) mod daySeconds) = ContainsSecond w (60 * (q + p) mod daySeconds)"
    if "w \<in> set (ws_windows s)" for w
  proof -
    have "window_ok w" using that assms by (simp add: set_ok_def list_all_iff)
    from ContainsSecond_minute [OF this, of "(60 * (q + p) + j) mod daySeconds"] show ?thesis using minute_in_day [OF j, of "q + p"] by simp
  qed
  moreover have e: "60 * q + j + 60 * p = 60 * (q + p) + j" "60 * q + 60 * p = 60 * (q + p)" by simp_all
  ultimately show ?thesis
    unfolding Set_Contains_second [OF Some] u u0 off p e list_ex_iff by blast
qed

lemma Set_Contains_same_minute:
  assumes "set_ok s" "t div minute_ns = u div minute_ns"
  shows "Set_Contains s t = Set_Contains s u"
proof -
  have "t - t mod minute_ns = u - u mod minute_ns" using assms(2) by (simp add: minus_mod_eq_mult_div)
  then show ?thesis using Set_Contains_minute [OF assms(1)] by metis
qed

lemma blocks_from_iff:
  "blocks_from s t headroom d
    \<longleftrightarrow> (\<exists>k. d + int k * blockStep < headroom \<and> Set_Contains s (t + (d + int k * blockStep))) \<or> Set_Contains s (t + headroom)"
proof (induction s t headroom d rule: blocks_from.induct)
  case (1 s t headroom d)
  show ?case
  proof (cases "d < headroom")
    case True
    have shift: "(\<exists>k. d + int k * blockStep < headroom \<and> Set_Contains s (t + (d + int k * blockStep)))
        \<longleftrightarrow> Set_Contains s (t + d) \<or> (\<exists>k. d + blockStep + int k * blockStep < headroom \<and> Set_Contains s (t + (d + blockStep + int k * blockStep)))"
      (is "?l \<longleftrightarrow> ?r")
    proof
      assume ?l
      then obtain k where k: "d + int k * blockStep < headroom" "Set_Contains s (t + (d + int k * blockStep))" by blast
      show ?r
      proof (cases k)
        case 0 with k show ?thesis by simp
      next
        case (Suc m)
        have "d + int k * blockStep = d + blockStep + int m * blockStep" by (simp add: Suc algebra_simps)
        with k show ?thesis by metis
      qed
    next
      assume ?r
      then show ?l
      proof
        assume "Set_Contains s (t + d)"
        then show ?l using True by (intro exI [of _ 0]) simp
      next
        assume "\<exists>k. d + blockStep + int k * blockStep < headroom \<and> Set_Contains s (t + (d + blockStep + int k * blockStep))"
        then obtain k where k: "d + blockStep + int k * blockStep < headroom" "Set_Contains s (t + (d + blockStep + int k * blockStep))" by blast
        have "d + int (Suc k) * blockStep = d + blockStep + int k * blockStep" by (simp add: algebra_simps)
        with k show ?l by metis
      qed
    qed
    show ?thesis
      using True 1 shift by (subst blocks_from.simps) auto
  next
    case False
    have "blockStep > 0" by (simp add: blockStep_def second_ns_def)
    then have "\<not> d + int k * blockStep < headroom" for k
      using False by (smt (verit, best) mult_nonneg_nonneg of_nat_0_le_iff)
    then show ?thesis using False by (subst blocks_from.simps) simp
  qed
qed

lemma Set_BlocksAt_iff:
  assumes "set_ok s" "0 \<le> headroom"
  shows "Set_BlocksAt s t headroom \<longleftrightarrow> (\<exists>u. t \<le> u \<and> u \<le> t + headroom \<and> Set_Contains s u)"
proof
  assume "Set_BlocksAt s t headroom"
  then show "\<exists>u. t \<le> u \<and> u \<le> t + headroom \<and> Set_Contains s u"
    unfolding Set_BlocksAt_def blocks_from_iff
  proof (elim disjE exE conjE)
    fix k assume "0 + int k * blockStep < headroom" "Set_Contains s (t + (0 + int k * blockStep))"
    moreover have "0 \<le> int k * blockStep" by (simp add: blockStep_def second_ns_def)
    ultimately show ?thesis by (intro exI [of _ "t + int k * blockStep"]) simp
  next
    assume "Set_Contains s (t + headroom)"
    then show ?thesis using assms(2) by (intro exI [of _ "t + headroom"]) simp
  qed
next
  assume "\<exists>u. t \<le> u \<and> u \<le> t + headroom \<and> Set_Contains s u"
  then obtain u where u: "t \<le> u" "u \<le> t + headroom" "Set_Contains s u" by blast
  define c where "c = u div minute_ns * minute_ns"
  have m: "0 < minute_ns" "0 < blockStep" "minute_ns = 4 * blockStep" by (simp_all add: minute_ns_def blockStep_def second_ns_def)
  have c: "c \<le> u" "u < c + minute_ns"
    using m(1) div_mult_mod_eq [of u minute_ns] pos_mod_bound [of minute_ns u] pos_mod_sign [of minute_ns u] unfolding c_def by linarith+
  have cell: "Set_Contains s x" if "c \<le> x" "x < c + minute_ns" for x
  proof -
    have "x div minute_ns = u div minute_ns"
      using that unfolding c_def by (intro int_div_pos_eq [of _ _ _ "x - u div minute_ns * minute_ns"]) (auto simp: algebra_simps)
    then show ?thesis using Set_Contains_same_minute [OF assms(1)] u(3) by metis
  qed
  show "Set_BlocksAt s t headroom"
  proof (cases "t + headroom < c + minute_ns")
    case True
    then have "Set_Contains s (t + headroom)" using cell c(1) u(2) by simp
    then show ?thesis by (simp add: Set_BlocksAt_def blocks_from_iff)
  next
    case False
    obtain k where k: "c \<le> t + int k * blockStep" "t + int k * blockStep < c + minute_ns"
    proof (cases "c \<le> t")
      case True
      show ?thesis by (rule that [of 0]) (use True u c in simp_all)
    next
      case left: False
      define k where "k = nat ((c - t + blockStep - 1) div blockStep)"
      have "0 \<le> (c - t + blockStep - 1) div blockStep" using left m(2) by (simp add: pos_imp_zdiv_nonneg_iff)
      then have ik: "int k * blockStep = (c - t + blockStep - 1) - (c - t + blockStep - 1) mod blockStep"
        by (simp add: k_def minus_mod_eq_div_mult)
      have "0 \<le> (c - t + blockStep - 1) mod blockStep" "(c - t + blockStep - 1) mod blockStep < blockStep" using m(2) by simp_all
      then show ?thesis using ik m by (intro that [of k]) linarith+
    qed
    have "Set_Contains s (t + int k * blockStep)" using cell k by simp
    moreover have "int k * blockStep < headroom" using k False by linarith
    ultimately show ?thesis unfolding Set_BlocksAt_def blocks_from_iff by auto
  qed
qed

text \<open>
  C27: No window hides between two steps. For windows read from a configuration, in zones whose offset
  changes only at whole minutes and by whole minutes, and a headroom that is not negative, the check at
  every fifteenth second is exact: \<^verbatim>\<open>BlocksAt\<close> says yes just when some instant, to the nanosecond, from the
  start to the end of the headroom lies inside a window of some set, also across the hour that a change
  of clocks skips or repeats.
\<close>

theorem BlocksAt_exact:
  assumes "\<And>s. s \<in> set sc \<Longrightarrow> set_ok s" "0 \<le> headroom"
  shows "Schedule_BlocksAt sc t headroom \<longleftrightarrow> (\<exists>s \<in> set sc. \<exists>u. t \<le> u \<and> u \<le> t + headroom \<and> Set_Contains s u)"
  using Set_BlocksAt_iff assms by (fastforce simp: Schedule_BlocksAt_def list_ex_iff)

section \<open>The next clear instant\<close>

lemma Schedule_blocks_later:
  assumes "\<And>s. s \<in> set sc \<Longrightarrow> set_ok s" "0 \<le> headroom" "t \<le> u" "t div minute_ns = u div minute_ns" "Schedule_BlocksAt sc t headroom"
  shows "Schedule_BlocksAt sc u headroom"
proof -
  obtain s v where s: "s \<in> set sc" "t \<le> v" "v \<le> t + headroom" "Set_Contains s v"
    using assms(2,5) Set_BlocksAt_iff [OF assms(1)] by (auto simp: Schedule_BlocksAt_def list_ex_iff)
  have "\<exists>v. u \<le> v \<and> v \<le> u + headroom \<and> Set_Contains s v"
  proof (cases "u \<le> v")
    case True then show ?thesis using s assms(3) by (intro exI [of _ v]) simp
  next
    case False
    then have "t div minute_ns \<le> v div minute_ns" "v div minute_ns \<le> u div minute_ns"
      using s(2) by (simp_all add: zdiv_mono1 minute_ns_def second_ns_def)
    then have "v div minute_ns = u div minute_ns" using assms(4) by simp
    then have "Set_Contains s u" using Set_Contains_same_minute [OF assms(1) [OF s(1)]] s(4) by metis
    then show ?thesis using assms(2) by (intro exI [of _ u]) simp
  qed
  then show ?thesis using s(1) Set_BlocksAt_iff [OF assms(1) assms(2)] by (auto simp: Schedule_BlocksAt_def list_ex_iff)
qed

lemma clear_from_result:
  "case clear_from sc headroom n e of
     Some r \<Rightarrow> \<exists>k. r = n + int k * minute_ns \<and> r < e \<and> \<not> Schedule_BlocksAt sc r headroom
       \<and> (\<forall>j < k. Schedule_BlocksAt sc (n + int j * minute_ns) headroom)
   | None \<Rightarrow> \<forall>j. n + int j * minute_ns < e \<longrightarrow> Schedule_BlocksAt sc (n + int j * minute_ns) headroom"
proof (induction sc headroom n e rule: clear_from.induct)
  case (1 sc headroom n e)
  have pos: "0 < minute_ns" by (simp add: minute_ns_def second_ns_def)
  consider (out) "\<not> n < e" | (clear) "n < e" "\<not> Schedule_BlocksAt sc n headroom" | (on) "n < e" "Schedule_BlocksAt sc n headroom" by blast
  then show ?case
  proof cases
    case out
    have "\<not> n + int j * minute_ns < e" for j
      using out pos by (smt (verit, best) mult_nonneg_nonneg of_nat_0_le_iff)
    then show ?thesis using out by (subst clear_from.simps) simp
  next
    case clear
    then show ?thesis by (subst clear_from.simps) (auto intro: exI [of _ 0])
  next
    case on
    have eq: "clear_from sc headroom n e = clear_from sc headroom (n + minute_ns) e" using on by (subst clear_from.simps) simp
    have shift: "n + minute_ns + int j * minute_ns = n + int (Suc j) * minute_ns" for j by (simp add: algebra_simps)
    have all: "P (n + int j * minute_ns) \<longrightarrow> Schedule_BlocksAt sc (n + int j * minute_ns) headroom"
      if "\<And>i. j = Suc i \<Longrightarrow> P (n + int (Suc i) * minute_ns) \<longrightarrow> Schedule_BlocksAt sc (n + int (Suc i) * minute_ns) headroom" for j P
      using that on(2) by (cases j) auto
    show ?thesis
    proof (cases "clear_from sc headroom (n + minute_ns) e")
      case None
      then have "\<forall>j. n + int (Suc j) * minute_ns < e \<longrightarrow> Schedule_BlocksAt sc (n + int (Suc j) * minute_ns) headroom"
        using 1 on unfolding shift by simp
      then show ?thesis unfolding eq None option.case using all [of _ "\<lambda>x. x < e"] by blast
    next
      case (Some r)
      then obtain k where k: "r = n + int (Suc k) * minute_ns" "r < e" "\<not> Schedule_BlocksAt sc r headroom"
        "\<forall>j < k. Schedule_BlocksAt sc (n + int (Suc j) * minute_ns) headroom"
        using 1 on unfolding shift by auto
      have "Schedule_BlocksAt sc (n + int j * minute_ns) headroom" if "j < Suc k" for j
        using all [of j "\<lambda>_. True"] k(4) that by auto
      then have "\<forall>j < Suc k. Schedule_BlocksAt sc (n + int j * minute_ns) headroom" by blast
      then show ?thesis unfolding eq Some option.case using k by blast
    qed
  qed
qed

definition fixed_zones :: "WindowSet list \<Rightarrow> bool" where
  "fixed_zones sc \<longleftrightarrow> (\<forall>s \<in> set sc. \<forall>loc. ws_loc s = Some loc \<longrightarrow> (\<exists>c. \<forall>u. lo_offset loc u = c))"

lemma Set_Contains_daily:
  assumes "\<forall>loc. ws_loc s = Some loc \<longrightarrow> (\<exists>c. \<forall>u. lo_offset loc u = c)"
  shows "Set_Contains s (t + k * (daySeconds * second_ns)) = Set_Contains s t"
proof (cases "ws_loc s")
  case None
  then show ?thesis by (simp add: Set_Contains_def)
next
  case (Some loc)
  then obtain c where c: "\<And>u. lo_offset loc u = c" using assms by blast
  have "(t + k * (daySeconds * second_ns)) div second_ns = t div second_ns + k * daySeconds"
    by (simp add: second_ns_def daySeconds_def)
  then have "(t + k * (daySeconds * second_ns)) div second_ns + c = (t div second_ns + c) + k * daySeconds" by simp
  then have "((t + k * (daySeconds * second_ns)) div second_ns + c) mod daySeconds = (t div second_ns + c) mod daySeconds"
    by (metis mod_mult_self1)
  then show ?thesis unfolding Set_Contains_second [OF Some] c by simp
qed

lemma Schedule_blocks_daily:
  assumes "\<And>s. s \<in> set sc \<Longrightarrow> set_ok s" "0 \<le> headroom" "fixed_zones sc" "Schedule_BlocksAt sc t headroom"
  shows "Schedule_BlocksAt sc (t + k * (daySeconds * second_ns)) headroom"
proof -
  let ?d = "k * (daySeconds * second_ns)"
  obtain s v where s: "s \<in> set sc" "t \<le> v" "v \<le> t + headroom" "Set_Contains s v"
    using assms(2,4) Set_BlocksAt_iff [OF assms(1)] by (auto simp: Schedule_BlocksAt_def list_ex_iff)
  have "Set_Contains s (v + ?d)" using Set_Contains_daily [of s v k] assms(3) s(1,4) by (simp add: fixed_zones_def)
  then have "\<exists>u. t + ?d \<le> u \<and> u \<le> t + ?d + headroom \<and> Set_Contains s u" using s(2,3) by (intro exI [of _ "v + ?d"]) simp
  then show ?thesis using s(1) Set_BlocksAt_iff [OF assms(1) assms(2)] by (auto simp: Schedule_BlocksAt_def list_ex_iff)
qed

text \<open>
  C26: \<^verbatim>\<open>NextClear\<close> finds the first clear instant, exactly. It searches whole minutes, yet when it answers,
  the answer is clear and every instant from the start up to it, between the minutes too, is blocked. When
  it finds none, every instant of the next two days is blocked, and if no zone changes its offset, every
  later instant is: the horizon of two days misses nothing.
\<close>

theorem NextClear_first:
  assumes "\<And>s. s \<in> set sc \<Longrightarrow> set_ok s" "0 \<le> headroom"
  shows "case NextClear sc t headroom of
      Some r \<Rightarrow> t \<le> r \<and> r < t + nextClearHorizon \<and> \<not> Schedule_BlocksAt sc r headroom
        \<and> (\<forall>u. t \<le> u \<and> u < r \<longrightarrow> Schedule_BlocksAt sc u headroom)
    | None \<Rightarrow> (\<forall>u. t \<le> u \<and> u < t + nextClearHorizon \<longrightarrow> Schedule_BlocksAt sc u headroom)
        \<and> (fixed_zones sc \<longrightarrow> (\<forall>u \<ge> t. Schedule_BlocksAt sc u headroom))"
proof (cases "Schedule_BlocksAt sc t headroom")
  case False
  then show ?thesis by (auto simp: NextClear_def nextClearHorizon_def minute_ns_def second_ns_def)
next
  case True
  let ?M = minute_ns
  let ?n = "t - t mod ?M + ?M"
  have pos: "0 < ?M" by (simp add: minute_ns_def second_ns_def)
  have n: "?n = (t div ?M + 1) * ?M" by (simp add: minus_mod_eq_div_mult algebra_simps)
  have between: "Schedule_BlocksAt sc u headroom"
    if "t \<le> u" "\<And>j. ?n + int j * ?M \<le> u \<Longrightarrow> Schedule_BlocksAt sc (?n + int j * ?M) headroom" for u
  proof (cases "u div ?M = t div ?M")
    case True
    then show ?thesis using Schedule_blocks_later [OF assms that(1)] \<open>Schedule_BlocksAt sc t headroom\<close> by simp
  next
    case False
    define j where "j = nat (u div ?M - t div ?M - 1)"
    have "t div ?M \<le> u div ?M" using that(1) pos by (rule zdiv_mono1)
    then have "int j = u div ?M - t div ?M - 1" using False by (simp add: j_def)
    then have c: "?n + int j * ?M = u div ?M * ?M" unfolding n by (simp add: distrib_right [symmetric])
    have le: "u div ?M * ?M \<le> u" using pos by (metis add_increasing2 div_mult_mod_eq order_refl pos_mod_sign)
    have "u div ?M * ?M div ?M = u div ?M" using pos by simp
    from Schedule_blocks_later [OF assms le this] show ?thesis using that(2) [of j] le unfolding c by simp
  qed
  have eq: "NextClear sc t headroom = clear_from sc headroom ?n (t + nextClearHorizon)" using True by (simp add: NextClear_def)
  note found = clear_from_result [where sc = sc and headroom = headroom and n = ?n and e = "t + nextClearHorizon"]
  show ?thesis
  proof (cases "clear_from sc headroom ?n (t + nextClearHorizon)")
    case None
    then have b: "\<forall>u. t \<le> u \<and> u < t + nextClearHorizon \<longrightarrow> Schedule_BlocksAt sc u headroom" using found between by simp
    have "Schedule_BlocksAt sc u headroom" if f: "fixed_zones sc" "t \<le> u" for u
    proof -
      let ?D = "daySeconds * second_ns"
      define v where "v = t + (u - t) mod ?D"
      have "0 < ?D" "?D < nextClearHorizon" by (simp_all add: daySeconds_def second_ns_def nextClearHorizon_def minute_ns_def)
      then have "t \<le> v" "v < t + nextClearHorizon" by (auto simp: v_def intro: less_trans [OF pos_mod_bound])
      then have "Schedule_BlocksAt sc v headroom" using b by blast
      moreover have "u = v + (u - t) div ?D * ?D" unfolding v_def using div_mult_mod_eq [of "u - t" ?D] by linarith
      ultimately show ?thesis using Schedule_blocks_daily [OF assms f(1)] by metis
    qed
    then show ?thesis unfolding eq None using b by simp
  next
    case (Some r)
    then obtain k where k: "r = ?n + int k * ?M" "r < t + nextClearHorizon" "\<not> Schedule_BlocksAt sc r headroom"
      "\<forall>j < k. Schedule_BlocksAt sc (?n + int j * ?M) headroom" using found [unfolded Some option.case] by blast
    have "t mod ?M < ?M" "0 \<le> int k * ?M" using pos by simp_all
    then have "t \<le> r" using k(1) by linarith
    moreover have "Schedule_BlocksAt sc u headroom" if u: "t \<le> u" "u < r" for u
    proof (rule between [OF u(1)])
      fix j assume "?n + int j * ?M \<le> u"
      then have "int j * ?M < int k * ?M" using u(2) k(1) by linarith
      then have "j < k" using pos by (simp add: mult_less_cancel_right)
      then show "Schedule_BlocksAt sc (?n + int j * ?M) headroom" using k(4) by blast
    qed
    ultimately show ?thesis unfolding eq Some using k by simp
  qed
qed

section \<open>Printing and reading\<close>

lemma show_02d_digits: "n < 100 \<Longrightarrow> show_02d (int n) = [char_of (48 + n div 10), char_of (48 + n mod 10)]"
proof -
  assume n: "n < 100"
  have z: "char_of (48::nat) = CHR ''0''" by code_simp
  show ?thesis
    using n by (auto simp: show_02d_def show_nat.simps [of n] show_nat.simps [of "n div 10"] z)
qed

lemma digit_char:
  assumes "n < 10"
  shows "is_digit_ascii (char_of (48 + n))" "bv (char_of (48 + n)) = 48 + n" "char_of (48 + n) \<noteq> CHR '':''"
    "char_of (48 + n) \<noteq> CHR ''-''" "char_of (48 + n) \<noteq> CHR ''+''" "char_of (48 + n) \<noteq> CHR '',''"
proof -
  show b: "bv (char_of (48 + n)) = 48 + n" using assms by simp
  show "is_digit_ascii (char_of (48 + n))" unfolding is_digit_ascii_def in_range_def b using assms by simp
  have "c \<noteq> char_of (48 + n)" if "bv c < 48 \<or> 57 < bv c" for c using that b assms by auto
  then show "char_of (48 + n) \<noteq> CHR '':''" "char_of (48 + n) \<noteq> CHR ''-''" "char_of (48 + n) \<noteq> CHR ''+''"
    "char_of (48 + n) \<noteq> CHR '',''" by force+
qed

lemma ParseInt64_two:
  "a < 10 \<Longrightarrow> b < 10 \<Longrightarrow> ParseInt64 [char_of (48 + a), char_of (48 + b)] = Some (int (10 * a + b))"
  by (simp add: ParseInt64_def digit_char digits_value_def Let_def)

lemma trunc_nonneg: "0 \<le> x \<Longrightarrow> 0 < y \<Longrightarrow> x sdiv y = x div y" "0 \<le> x \<Longrightarrow> 0 < y \<Longrightarrow> x smod y = x mod y" for x y :: int
  by (cases "x = 0"; simp add: signed_divide_int_def signed_modulo_int_def)+

lemma ClockString_digits:
  assumes "0 \<le> sec" "sec < daySeconds"
  shows "\<exists>a b c d. ClockString sec = [char_of (48 + a), char_of (48 + b), CHR '':'', char_of (48 + c), char_of (48 + d)]
    \<and> a < 10 \<and> b < 10 \<and> c < 10 \<and> d < 10 \<and> int (10 * a + b) = sec div 3600 \<and> int (10 * c + d) = sec mod 3600 div 60"
proof -
  define h where "h = nat (sec div 3600)"
  define m where "m = nat (sec mod 3600 div 60)"
  have h: "sec sdiv 3600 = int h" "sec div 3600 = int h" and m: "sec smod 3600 sdiv 60 = int m" "sec mod 3600 div 60 = int m"
    using assms(1) by (simp_all add: h_def m_def trunc_nonneg pos_imp_zdiv_nonneg_iff)
  have "h < 24" using assms by (simp add: h_def daySeconds_def)
  moreover have "m < 60" by (simp add: m_def)
  ultimately have "h < 100" "m < 100" "h div 10 < 10" "h mod 10 < 10" "m div 10 < 10" "m mod 10 < 10" by simp_all
  then show ?thesis
    by (intro exI [of _ "h div 10"] exI [of _ "h mod 10"] exI [of _ "m div 10"] exI [of _ "m mod 10"])
      (simp add: ClockString_def h m show_02d_digits)
qed

lemma not_white: "bv c < 0x80 \<Longrightarrow> 0x20 < bv c \<Longrightarrow> \<not> white_space (bv c)"
  by (simp add: white_space_def)

lemma ParseClock_ClockString:
  assumes "0 \<le> sec" "sec < daySeconds" "sec mod 60 = 0"
  shows "ParseClock (ClockString sec) = Inr sec"
proof -
  obtain a b c d where s: "ClockString sec = [char_of (48 + a), char_of (48 + b), CHR '':'', char_of (48 + c), char_of (48 + d)]"
    and d: "a < 10" "b < 10" "c < 10" "d < 10" and v: "int (10 * a + b) = sec div 3600" "int (10 * c + d) = sec mod 3600 div 60"
    using ClockString_digits [OF assms(1,2)] by blast
  have "TrimSpace (ClockString sec) = ClockString sec"
    unfolding s by (rule TrimSpace_clean) (use d in \<open>simp add: digit_char(2) white_space_def\<close>)
  moreover have "go_split CHR '':'' (ClockString sec) = [[char_of (48 + a), char_of (48 + b)], [char_of (48 + c), char_of (48 + d)]]"
    unfolding s using d digit_char(3) by simp
  moreover have "sec div 3600 < 24" using assms(2) by (simp add: daySeconds_def)
  moreover have "sec mod 3600 div 60 < 60" by simp
  moreover have "sec div 3600 * 3600 + sec mod 3600 div 60 * 60 = sec" using clock_second [OF assms(1)] assms(3) by simp
  ultimately show ?thesis
    using v assms(1) d by (simp add: ParseClock_def ParseInt64_two pos_imp_zdiv_nonneg_iff)
qed

lemma window_text_chars:
  assumes "window_ok w"
  shows "list_all (\<lambda>c. bv c < 0x80 \<and> \<not> white_space (bv c)) (Window_String w)" "CHR '','' \<notin> set (Window_String w)"
    "go_split CHR ''-'' (Window_String w) = [ClockString (wn_start w), ClockString (wn_end w)]" "Window_String w \<noteq> []"
proof -
  have ok: "0 \<le> wn_start w" "wn_start w < daySeconds" "0 \<le> wn_end w" "wn_end w < daySeconds"
    using assms by (simp_all add: window_ok_def)
  obtain a b c d :: nat where s: "ClockString (wn_start w) = [char_of (48 + a), char_of (48 + b), CHR '':'', char_of (48 + c), char_of (48 + d)]"
    "a < 10" "b < 10" "c < 10" "d < 10" using ClockString_digits [OF ok(1,2)] by blast
  obtain a' b' c' d' :: nat where e: "ClockString (wn_end w) = [char_of (48 + a'), char_of (48 + b'), CHR '':'', char_of (48 + c'), char_of (48 + d')]"
    "a' < 10" "b' < 10" "c' < 10" "d' < 10" using ClockString_digits [OF ok(3,4)] by blast
  show "list_all (\<lambda>c. bv c < 0x80 \<and> \<not> white_space (bv c)) (Window_String w)"
    unfolding Window_String_def s(1) e(1) using s(2-) e(2-) by (simp add: digit_char(2) white_space_def)
  show "CHR '','' \<notin> set (Window_String w)"
    unfolding Window_String_def s(1) e(1) using s(2-) e(2-) digit_char(6) [symmetric] by simp
  show "go_split CHR ''-'' (Window_String w) = [ClockString (wn_start w), ClockString (wn_end w)]"
    unfolding Window_String_def s(1) e(1) using s(2-) e(2-) digit_char(4) by simp
  show "Window_String w \<noteq> []" by (simp add: Window_String_def)
qed

lemma Window_Parse_clocks:
  assumes "window_ok w"
  shows "Window_Parse (ClockString (wn_start w)) (ClockString (wn_end w)) = Inr w"
  using assms ParseClock_ClockString [of "wn_start w"] ParseClock_ClockString [of "wn_end w"]
  by (simp add: Window_Parse_def window_ok_def)

lemma parse_items_windows: "list_all window_ok ws \<Longrightarrow> parse_items (map Window_String ws) = Inr ws"
  by (induction ws) (simp_all add: Let_def TrimSpace_clean window_text_chars Window_Parse_clocks)

text \<open>
  What is printed is read back: the list of windows that a set prints as is read as the same windows,
  for any windows on whole minutes, none at all included.
\<close>

theorem ParseList_String:
  assumes "list_all window_ok (ws_windows s)"
  shows "ParseList (Set_String s) = Inr (ws_windows s)"
proof (cases "ws_windows s = []")
  case True
  have "TrimSpace [] = []" by (rule TrimSpace_clean) simp
  then show ?thesis by (simp add: True ParseList_def Set_String_def Let_def)
next
  case False
  have "\<forall>x \<in> set (map Window_String (ws_windows s)). CHR '','' \<notin> set x"
    using assms window_text_chars(2) by (auto simp: list_all_iff)
  then have "go_split CHR '','' (Set_String s) = map Window_String (ws_windows s)"
    using False by (simp add: Set_String_def go_split_join)
  then show ?thesis using parse_items_windows [OF assms] by (simp add: ParseList_def)
qed

section \<open>Examples\<close>

definition evening :: Window where "evening = \<lparr>wn_start = 57600, wn_end = 75600\<rparr>"

definition school_day :: WindowSet where
  "school_day = \<lparr>ws_windows = [evening], ws_loc = Some \<lparr>lo_name = ''UTC'', lo_offset = \<lambda>_. 0\<rparr>\<rparr>"

lemma evening_ok: "window_ok evening"
  by (simp add: window_ok_def evening_def daySeconds_def)

lemma school_ok: "s \<in> set [school_day] \<Longrightarrow> set_ok s"
  by (simp add: set_ok_def school_day_def evening_ok whole_minutes_def)

lemma school_contains: "Set_Contains school_day u \<longleftrightarrow> 57600 \<le> u div second_ns mod daySeconds \<and> u div second_ns mod daySeconds < 75600"
proof -
  have "ws_loc school_day = Some \<lparr>lo_name = ''UTC'', lo_offset = \<lambda>_. 0\<rparr>" by (simp add: school_day_def)
  from Set_Contains_second [OF this] show ?thesis by (simp add: school_day_def ContainsSecond_def evening_def)
qed

theorem Covers_correct_witness: "Covers \<lparr>wn_start = 79200, wn_end = 7200\<rparr> \<lparr>wn_start = 82800, wn_end = 3600\<rparr> = Some True"
proof -
  have ok: "window_ok \<lparr>wn_start = 79200, wn_end = 7200\<rparr>" "window_ok \<lparr>wn_start = 82800, wn_end = 3600\<rparr>"
    by (simp_all add: window_ok_def daySeconds_def)
  from Covers_correct [OF Window_Parse_clocks [OF ok(1)] Window_Parse_clocks [OF ok(2)]]
  show ?thesis by (auto simp: ContainsSecond_def)
qed

theorem BlocksAt_exact_witness: "Schedule_BlocksAt [school_day] (57540 * second_ns) (60 * second_ns)"
proof -
  have h: "0 \<le> 60 * second_ns" by (simp add: second_ns_def)
  have "Set_Contains school_day (57600 * second_ns)" by (simp add: school_contains second_ns_def daySeconds_def)
  then have "\<exists>s \<in> set [school_day]. \<exists>u. 57540 * second_ns \<le> u \<and> u \<le> 57540 * second_ns + 60 * second_ns \<and> Set_Contains s u"
    by (intro bexI [of _ school_day] exI [of _ "57600 * second_ns"]) (simp_all add: second_ns_def)
  with BlocksAt_exact [OF school_ok h, where t = "57540 * second_ns"] show ?thesis by blast
qed

lemma school_blocks:
  assumes "57540 * second_ns \<le> u" "u < 86000 * second_ns"
  shows "Schedule_BlocksAt [school_day] u (60 * second_ns) \<longleftrightarrow> u < 75600 * second_ns"
proof -
  have day: "v div second_ns mod daySeconds = v div second_ns" if "u \<le> v" "v \<le> u + 60 * second_ns" for v
    using that assms by (intro mod_pos_pos_trivial) (simp_all add: second_ns_def daySeconds_def)
  have "Schedule_BlocksAt [school_day] u (60 * second_ns) \<longleftrightarrow> (\<exists>v. u \<le> v \<and> v \<le> u + 60 * second_ns \<and> Set_Contains school_day v)"
    using Set_BlocksAt_iff [OF school_ok, of school_day "60 * second_ns" u] by (simp add: Schedule_BlocksAt_def second_ns_def)
  also have "\<dots> \<longleftrightarrow> (\<exists>v. u \<le> v \<and> v \<le> u + 60 * second_ns \<and> 57600 * second_ns \<le> v \<and> v < 75600 * second_ns)"
  proof -
    have "Set_Contains school_day v \<longleftrightarrow> 57600 * second_ns \<le> v \<and> v < 75600 * second_ns" if "u \<le> v" "v \<le> u + 60 * second_ns" for v
      using day [OF that] by (simp add: school_contains second_ns_def pos_le_divide_eq) arith
    then show ?thesis by blast
  qed
  also have "\<dots> \<longleftrightarrow> u < 75600 * second_ns"
  proof
    assume "u < 75600 * second_ns"
    then show "\<exists>v. u \<le> v \<and> v \<le> u + 60 * second_ns \<and> 57600 * second_ns \<le> v \<and> v < 75600 * second_ns"
      using assms(1) by (intro exI [of _ "max u (57600 * second_ns)"]) (auto simp: second_ns_def)
  qed auto
  finally show ?thesis .
qed

theorem NextClear_first_witness: "NextClear [school_day] (57540 * second_ns) (60 * second_ns) = Some (75600 * second_ns)"
proof -
  let ?t = "57540 * second_ns" and ?h = "60 * second_ns"
  have h: "0 \<le> ?h" by (simp add: second_ns_def)
  note first = NextClear_first [where sc = "[school_day]" and headroom = ?h and t = ?t, OF school_ok h]
  have clear: "\<not> Schedule_BlocksAt [school_day] (75600 * second_ns) ?h"
    using school_blocks [of "75600 * second_ns"] by (simp add: second_ns_def)
  show ?thesis
  proof (cases "NextClear [school_day] ?t ?h")
    case None
    have "?t \<le> 75600 * second_ns \<and> 75600 * second_ns < ?t + nextClearHorizon"
      by (simp add: second_ns_def nextClearHorizon_def minute_ns_def)
    then show ?thesis using first [unfolded None option.case] clear by blast
  next
    case (Some r)
    then have r: "?t \<le> r" "\<not> Schedule_BlocksAt [school_day] r ?h" "\<forall>u. ?t \<le> u \<and> u < r \<longrightarrow> Schedule_BlocksAt [school_day] u ?h"
      using first [unfolded Some option.case] by blast+
    have "?t \<le> 75600 * second_ns" by (simp add: second_ns_def)
    then have "r \<le> 75600 * second_ns" using r(3) [rule_format, of "75600 * second_ns"] clear by linarith
    moreover have "\<not> r < 75600 * second_ns" using school_blocks [OF r(1)] r(2) by (auto simp: second_ns_def)
    ultimately show ?thesis using Some by simp
  qed
qed

theorem ParseList_String_witness: "ParseList (Set_String school_day) = Inr [evening]"
  using ParseList_String [of school_day] evening_ok by (simp add: school_day_def)

end
