(* ===== verification/Upload.thy ===== *)
theory Upload
  imports Staging Decode JRecord
begin

text \<open>
  The tables of the archive uploads: the lanes of \<^verbatim>\<open>internal/source/registry.go\<close>, the metadata of an upload
  (\<^verbatim>\<open>internal/ingest/archives/metadata.go\<close>) and the table of live uploads with its two caps (\<^verbatim>\<open>store.go\<close>).
\<close>

section \<open>Source lanes (registry.go)\<close>

record sourcePolicy =
  lp_sourceID :: string
  lp_kind :: string
  lp_dataSubjectDefault :: string
  lp_audienceDefault :: "string list option"

record SourceRegistry =
  lr_enforce :: bool
  lr_bySourceID :: "string \<rightharpoonup> sourcePolicy"

definition Source_Enforce :: "SourceRegistry option \<Rightarrow> bool" where
  "Source_Enforce r = (case r of None \<Rightarrow> False | Some r \<Rightarrow> lr_enforce r)"

definition Source_Lookup :: "SourceRegistry option \<Rightarrow> string \<Rightarrow> sourcePolicy option" where
  "Source_Lookup r sourceID = (case r of None \<Rightarrow> None | Some r \<Rightarrow> lr_bySourceID r sourceID)"

text \<open>The entries of the file, as decoded; a policy is stored as it is written there.\<close>

fun load_sources :: "unicode_data \<Rightarrow> sourcePolicy list \<Rightarrow> (string \<rightharpoonup> sourcePolicy) \<Rightarrow> err + (string \<rightharpoonup> sourcePolicy)" where
  "load_sources ud [] m = Inr m"
| "load_sources ud (s # ss) m =
     (if lp_sourceID s = [] then Inl (Err ''source registry: source_id must not be empty'')
      else if m (lp_sourceID s) \<noteq> None then Inl (Err ''source registry: duplicate source_id'')
      else (case ValidateAudience ud (lp_audienceDefault s) (lp_dataSubjectDefault s \<noteq> []) of
              Some e \<Rightarrow> Inl (Wrap ''source registry: audience_default'' (Err e))
            | None \<Rightarrow> load_sources ud ss (m(lp_sourceID s \<mapsto> s))))"

text \<open>\<open>decoded\<close> is the file read and decoded, \<open>None\<close> for an empty path.\<close>

definition Source_Load :: "unicode_data \<Rightarrow> (err + bool \<times> sourcePolicy list) option \<Rightarrow> err + SourceRegistry" where
  "Source_Load ud decoded =
     (case decoded of
        None \<Rightarrow> Inr \<lparr>lr_enforce = False, lr_bySourceID = Map.empty\<rparr>
      | Some (Inl e) \<Rightarrow> Inl (Wrap ''source registry'' e)
      | Some (Inr (enforce, ss)) \<Rightarrow>
          (case load_sources ud ss Map.empty of
             Inl e \<Rightarrow> Inl e
           | Inr m \<Rightarrow> Inr \<lparr>lr_enforce = enforce, lr_bySourceID = m\<rparr>))"

section \<open>Metadata (metadata.go)\<close>

datatype MediaShape = MediaRaw | MediaTar

record Metadata =
  um_archiveID :: string
  um_archiveFilename :: string
  um_subtreePath :: string
  um_mediaType :: string
  um_matcherID :: string
  um_provider :: string
  um_sha256 :: string
  um_sizeBytes :: int
  um_acqProvider :: string
  um_acqAccountID :: string
  um_acqAuthMethod :: string
  um_dataSubject :: string
  um_audience :: "string list option"

definition mediaAllowList :: "string \<rightharpoonup> MediaShape" where
  "mediaAllowList = map_of
     [(''archive/mbox'', MediaRaw), (''archive/google-takeout-subtree'', MediaTar), (''archive/generic-tarball'', MediaTar),
      (''archive/imap-export'', MediaRaw), (''archive/walhelm-export'', MediaTar), (''archive/recognizer-scan'', MediaTar)]"

definition requiredProvenance :: "string \<Rightarrow> bool" where
  "requiredProvenance t \<longleftrightarrow> t = ''archive/walhelm-export''"

definition Shape :: "Metadata \<Rightarrow> MediaShape option" where
  "Shape m = mediaAllowList (um_mediaType m)"

subsection \<open>The patterns\<close>

definition is_alnum :: "char \<Rightarrow> bool" where
  "is_alnum c \<longleftrightarrow> is_upper_ascii c \<or> is_lower_ascii c \<or> is_digit_ascii c"

definition is_name_char :: "char \<Rightarrow> bool" where
  "is_name_char c \<longleftrightarrow> is_alnum c \<or> c \<in> set ''._-''"

definition archiveIDRe :: "string \<Rightarrow> bool" where
  "archiveIDRe s \<longleftrightarrow> list_all is_name_char s \<and> 1 \<le> length s \<and> length s \<le> 128"

definition archiveFilenameRe :: "string \<Rightarrow> bool" where
  "archiveFilenameRe s \<longleftrightarrow> list_all is_name_char s \<and> s \<noteq> []"

definition matcherIDRe :: "string \<Rightarrow> bool" where
  "matcherIDRe s \<longleftrightarrow> list_all (\<lambda>c. is_alnum c \<or> c \<in> set ''._/-'') s \<and> 1 \<le> length s \<and> length s \<le> 256"

definition providerRe :: "string \<Rightarrow> bool" where
  "providerRe s \<longleftrightarrow>
     (case s of [] \<Rightarrow> False
      | c # cs \<Rightarrow> is_lower_ascii c \<and> list_all (\<lambda>c. is_lower_ascii c \<or> is_digit_ascii c \<or> c = CHR ''-'') cs \<and> length cs \<le> 63)"

definition sha256Re :: "string \<Rightarrow> bool" where
  "sha256Re s \<longleftrightarrow> length s = 64 \<and> list_all (\<lambda>c. is_digit_ascii c \<or> in_range CHR ''a'' CHR ''f'' c) s"

definition hasControlChar :: "string \<Rightarrow> bool" where
  "hasControlChar s \<longleftrightarrow> list_ex (\<lambda>c. bv c < 0x20 \<and> c \<noteq> CHR 0x09) s"

subsection \<open>Parsing\<close>

datatype meta_err =
    ErrMetadataMissing string
  | ErrMetadataInvalid string
  | ErrMetadataReservedKey string
  | ErrMetadataUnknownMediaType string
  | ErrMetadataSizeMismatch int int
  | ErrMetadataTooLong

definition uploadMetadataMaxBytes :: nat where "uploadMetadataMaxBytes = 4096"
definition archiveFilenameMaxBytes :: nat where "archiveFilenameMaxBytes = 256"
definition subtreeRelativePathMaxBytes :: nat where "subtreeRelativePathMaxBytes = 1024"
definition provenanceStringMaxBytes :: nat where "provenanceStringMaxBytes = 256"

fun decode_pairs :: "string list \<Rightarrow> (string \<rightharpoonup> string) \<Rightarrow> meta_err + (string \<rightharpoonup> string)" where
  "decode_pairs [] out = Inr out"
| "decode_pairs (raw # kvs) out =
     (let kv = TrimSpace raw in
      if kv = [] then decode_pairs kvs out
      else (case go_index_byte kv CHR '' '' of
              None \<Rightarrow> Inl (ErrMetadataInvalid ''pair missing space'')
            | Some sp \<Rightarrow>
                let key = take sp kv; val = drop (Suc sp) kv in
                if key = [] then Inl (ErrMetadataInvalid ''empty key'')
                else (case b64_Decode False True val of
                        None \<Rightarrow> Inl (ErrMetadataInvalid (key @ '' base64''))
                      | Some decoded \<Rightarrow> decode_pairs kvs (out(key \<mapsto> decoded)))))"

definition decodeMetadataPairs :: "string \<Rightarrow> meta_err + (string \<rightharpoonup> string)" where
  "decodeMetadataPairs header = decode_pairs (go_split CHR '','' header) Map.empty"

definition value_of :: "(string \<rightharpoonup> string) \<Rightarrow> string \<Rightarrow> string" where
  "value_of raw k = (case raw k of None \<Rightarrow> [] | Some v \<Rightarrow> v)"

text \<open>The first fault of a list of checks, each a test with what it means.\<close>

fun first_failed :: "(bool \<times> 'e) list \<Rightarrow> 'e option" where
  "first_failed [] = None"
| "first_failed ((bad, e) # cs) = (if bad then Some e else first_failed cs)"

definition plain_provenance :: "string \<Rightarrow> bool" where
  "plain_provenance s \<longleftrightarrow> length s \<le> provenanceStringMaxBytes \<and> \<not> hasControlChar s"

definition metadata_fault :: "Metadata \<Rightarrow> meta_err option" where
  "metadata_fault m = first_failed
     [(\<not> archiveIDRe (um_archiveID m), ErrMetadataInvalid ''archive_id''),
      (list_all (\<lambda>c. c = CHR ''.'') (um_archiveID m), ErrMetadataInvalid ''archive_id must not consist only of dots''),
      (\<not> archiveFilenameRe (um_archiveFilename m) \<or> go_contains (um_archiveFilename m) ''..''
         \<or> length (um_archiveFilename m) > archiveFilenameMaxBytes, ErrMetadataInvalid ''archive_filename''),
      (\<not> utf8_valid (um_subtreePath m) \<or> CHR 0x00 \<in> set (um_subtreePath m)
         \<or> length (um_subtreePath m) > subtreeRelativePathMaxBytes \<or> hasControlChar (um_subtreePath m),
       ErrMetadataInvalid ''subtree_relative_path''),
      (\<not> matcherIDRe (um_matcherID m) \<or> hasControlChar (um_matcherID m), ErrMetadataInvalid ''matcher_id''),
      (\<not> providerRe (um_provider m), ErrMetadataInvalid ''provider''),
      (\<not> sha256Re (um_sha256 m), ErrMetadataInvalid ''sha256''),
      (mediaAllowList (um_mediaType m) = None, ErrMetadataUnknownMediaType (um_mediaType m))]"

definition provenance_fault :: "Metadata \<Rightarrow> meta_err option" where
  "provenance_fault m =
     (if requiredProvenance (um_mediaType m) then first_failed
        [(um_acqProvider m = [], ErrMetadataMissing ''acq_provider''),
         (\<not> providerRe (um_acqProvider m), ErrMetadataInvalid ''acq_provider''),
         (um_acqAccountID m = [], ErrMetadataMissing ''acq_account_id''),
         (\<not> plain_provenance (um_acqAccountID m), ErrMetadataInvalid ''acq_account_id''),
         (um_acqAuthMethod m = [], ErrMetadataMissing ''acq_auth_method''),
         (um_acqAuthMethod m \<noteq> ''browser_session'', ErrMetadataInvalid ''acq_auth_method''),
         (um_dataSubject m = [], ErrMetadataMissing ''data_subject''),
         (\<not> plain_provenance (um_dataSubject m), ErrMetadataInvalid ''data_subject'')]
      else None)"

definition meta_of :: "(string \<rightharpoonup> string) \<Rightarrow> int \<Rightarrow> Metadata" where
  "meta_of raw sz =
     \<lparr>um_archiveID = value_of raw ''archive_id'', um_archiveFilename = value_of raw ''archive_filename'',
      um_subtreePath = value_of raw ''subtree_relative_path'', um_mediaType = value_of raw ''media_type'',
      um_matcherID = value_of raw ''matcher_id'', um_provider = value_of raw ''provider'',
      um_sha256 = value_of raw ''sha256'', um_sizeBytes = sz, um_acqProvider = value_of raw ''acq_provider'',
      um_acqAccountID = value_of raw ''acq_account_id'', um_acqAuthMethod = value_of raw ''acq_auth_method'',
      um_dataSubject = value_of raw ''data_subject'', um_audience = None\<rparr>"

definition ParseUploadMetadata :: "unicode_data \<Rightarrow> string \<Rightarrow> int \<Rightarrow> meta_err + Metadata" where
  "ParseUploadMetadata ud header uploadLength =
     (if length header > uploadMetadataMaxBytes then Inl ErrMetadataTooLong
      else (case decodeMetadataPairs header of
        Inl e \<Rightarrow> Inl e
      | Inr raw \<Rightarrow>
          if raw ''delivered_by'' \<noteq> None then Inl (ErrMetadataReservedKey ''delivered_by'')
          else if raw ''delivered_at'' \<noteq> None then Inl (ErrMetadataReservedKey ''delivered_at'')
          else if value_of raw ''size_bytes'' = [] then Inl (ErrMetadataMissing ''size_bytes'')
          else (case ParseInt64 (value_of raw ''size_bytes'') of
            None \<Rightarrow> Inl (ErrMetadataInvalid ''size_bytes'')
          | Some sz \<Rightarrow>
              if sz < 0 then Inl (ErrMetadataInvalid ''size_bytes'')
              else if sz \<noteq> uploadLength then Inl (ErrMetadataSizeMismatch sz uploadLength)
              else
                let m = meta_of raw sz
                in (case metadata_fault m of
                      Some e \<Rightarrow> Inl e
                    | None \<Rightarrow>
                        (case provenance_fault m of
                           Some e \<Rightarrow> Inl e
                         | None \<Rightarrow>
                             if value_of raw ''audience'' = [] then Inr m
                             else let tokens = go_split CHR '','' (value_of raw ''audience'') in
                               (case ValidateAudience ud (Some tokens) (um_dataSubject m \<noteq> []) of
                                  Some e \<Rightarrow> Inl (ErrMetadataInvalid (''audience: '' @ e))
                                | None \<Rightarrow> Inr (m\<lparr>um_audience := Some tokens\<rparr>)))))))"

section \<open>The table of uploads (store.go)\<close>

text \<open>
  The hasher is the bytes written to it. A request keeps the upload it looked up after the table has dropped
  it; the objects are kept apart from the ids in the table, under the random id each was made with.
\<close>

record UploadState =
  us_id :: string
  us_sourceID :: string
  us_archiveID :: string
  us_length :: int
  us_offset :: int
  us_hashed :: bytes
  us_meta :: Metadata
  us_createdAt :: int
  us_lastActivity :: int

record StoreConfig =
  sn_perSource :: int
  sn_global :: int

record Store =
  tb_objects :: "string \<rightharpoonup> UploadState"
  tb_uploads :: "string set"
  tb_perSrc :: "string \<rightharpoonup> int"
  tb_cfg :: StoreConfig

definition ErrConcurrencyPerSource :: err where "ErrConcurrencyPerSource = Err ''per-source concurrent upload cap exceeded''"
definition ErrConcurrencyGlobal :: err where "ErrConcurrencyGlobal = Err ''global concurrent upload cap exceeded''"
definition ErrUploadNotFound :: err where "ErrUploadNotFound = Err ''upload id not found or not owned by caller''"

definition NewStore :: "StoreConfig \<Rightarrow> Store" where
  "NewStore cfg = \<lparr>tb_objects = Map.empty, tb_uploads = {}, tb_perSrc = Map.empty, tb_cfg = cfg\<rparr>"

definition newUploadID :: "bytes option \<Rightarrow> err + string" where
  "newUploadID random = (case random of None \<Rightarrow> Inl (Wrap ''upload-id rand'' (Lib ''rand.Read'')) | Some b \<Rightarrow> Inr (hex_encode b))"

definition src_count :: "Store \<Rightarrow> string \<Rightarrow> int" where
  "src_count s sourceID = (case tb_perSrc s sourceID of None \<Rightarrow> 0 | Some n \<Rightarrow> n)"

definition Store_Create :: "bytes option \<Rightarrow> int \<Rightarrow> Store \<Rightarrow> string \<Rightarrow> Metadata \<Rightarrow> int \<Rightarrow> Store \<times> (err + UploadState)" where
  "Store_Create random now s sourceID m uploadLength =
     (if int (card (tb_uploads s)) \<ge> sn_global (tb_cfg s) then (s, Inl ErrConcurrencyGlobal)
      else if src_count s sourceID \<ge> sn_perSource (tb_cfg s) then (s, Inl ErrConcurrencyPerSource)
      else (case newUploadID random of
              Inl e \<Rightarrow> (s, Inl e)
            | Inr uid \<Rightarrow>
                if uid \<in> tb_uploads s then (s, Inl (Err ''upload-id collision''))
                else let st = \<lparr>us_id = uid, us_sourceID = sourceID, us_archiveID = um_archiveID m, us_length = uploadLength,
                               us_offset = 0, us_hashed = [], us_meta = m, us_createdAt = now, us_lastActivity = now\<rparr>
                  in (s\<lparr>tb_objects := (tb_objects s)(uid \<mapsto> st), tb_uploads := insert uid (tb_uploads s),
                        tb_perSrc := (tb_perSrc s)(sourceID \<mapsto> src_count s sourceID + 1)\<rparr>, Inr st)))"

definition Store_Get :: "Store \<Rightarrow> string \<Rightarrow> string \<Rightarrow> err + UploadState" where
  "Store_Get s uid sourceID =
     (if uid \<notin> tb_uploads s then Inl ErrUploadNotFound
      else (case tb_objects s uid of
              None \<Rightarrow> Inl ErrUploadNotFound
            | Some st \<Rightarrow> if us_sourceID st \<noteq> sourceID then Inl ErrUploadNotFound else Inr st))"

definition Store_Remove :: "Store \<Rightarrow> string \<Rightarrow> Store" where
  "Store_Remove s uid =
     (if uid \<notin> tb_uploads s then s
      else (case tb_objects s uid of
              None \<Rightarrow> s
            | Some st \<Rightarrow>
                let n = src_count s (us_sourceID st) - 1
                in s\<lparr>tb_perSrc := (if n \<le> 0 then (tb_perSrc s)(us_sourceID st := None) else (tb_perSrc s)(us_sourceID st \<mapsto> n)),
                     tb_uploads := tb_uploads s - {uid}\<rparr>))"

section \<open>What the parser lets through\<close>

text \<open>A safe file name: nothing in it that a path would take apart or resolve.\<close>

definition safe_name :: "string \<Rightarrow> bool" where
  "safe_name s \<longleftrightarrow> s \<noteq> [] \<and> s \<noteq> ''.'' \<and> s \<noteq> ''..'' \<and> CHR ''/'' \<notin> set s \<and> CHR 0x00 \<notin> set s"

lemma first_failed_None [simp]: "first_failed ((bad, e) # cs) = None \<longleftrightarrow> \<not> bad \<and> first_failed cs = None"
  by simp

declare first_failed.simps(2) [simp del]

lemma name_char_plain: "is_name_char c \<Longrightarrow> c \<noteq> CHR ''/'' \<and> c \<noteq> CHR 0x00"
  by (auto simp: is_name_char_def is_alnum_def is_upper_ascii_def is_lower_ascii_def is_digit_ascii_def in_range_def)

lemma dots_only: "list_all (\<lambda>c. c = CHR ''.'') s \<Longrightarrow> length s = n \<Longrightarrow> s = replicate n CHR ''.''"
  by (auto simp: list_all_iff intro: replicate_eqI)

lemma safe_archive_id:
  assumes "archiveIDRe s" "\<not> list_all (\<lambda>c. c = CHR ''.'') s"
  shows "safe_name s"
  using assms name_char_plain by (auto simp: safe_name_def archiveIDRe_def list_all_iff)

lemma go_contains_refl: "go_contains s s"
  by (cases s) (simp_all add: go_contains_def)

lemma safe_filename:
  assumes "archiveFilenameRe s" "\<not> go_contains s ''..''"
  shows "s \<noteq> []" "s \<noteq> ''..''" "CHR ''/'' \<notin> set s" "CHR 0x00 \<notin> set s"
  using assms name_char_plain go_contains_refl [of "''..''"] by (auto simp: archiveFilenameRe_def list_all_iff)

text \<open>What holds of every upload that is accepted.\<close>

definition meta_ok :: "Metadata \<Rightarrow> bool" where
  "meta_ok m \<longleftrightarrow> metadata_fault m = None \<and> provenance_fault m = None"

lemma meta_of_more: "um_sizeBytes (meta_of raw sz) = sz" "um_audience (meta_of raw sz) = None"
  by (simp_all add: meta_of_def)

lemma ParseUploadMetadata_ok:
  assumes "ParseUploadMetadata ud header n = Inr m"
  shows "meta_ok m \<and> um_sizeBytes m = n \<and> 0 \<le> n \<and> ValidateAudience ud (um_audience m) (um_dataSubject m \<noteq> []) = None"
proof -
  have u: "metadata_fault (m\<lparr>um_audience := a\<rparr>) = metadata_fault m" "provenance_fault (m\<lparr>um_audience := a\<rparr>) = provenance_fault m" for m a
    by (simp_all add: metadata_fault_def provenance_fault_def)
  have v: "ValidateAudience ud None b = None" for b by (simp add: ValidateAudience_def)
  show ?thesis
    using assms unfolding ParseUploadMetadata_def Let_def
    by (auto simp: meta_ok_def u v meta_of_more split: if_splits sum.splits option.splits)
qed

lemma meta_ok_names:
  assumes "meta_ok m"
  shows "safe_name (um_archiveID m)" "um_archiveFilename m \<noteq> []" "um_archiveFilename m \<noteq> ''..''"
    "CHR ''/'' \<notin> set (um_archiveFilename m)" "sha256Re (um_sha256 m)" "Shape m \<noteq> None"
proof -
  have f: "archiveIDRe (um_archiveID m)" "\<not> list_all (\<lambda>c. c = CHR ''.'') (um_archiveID m)" "archiveFilenameRe (um_archiveFilename m)"
    "\<not> go_contains (um_archiveFilename m) ''..''" "sha256Re (um_sha256 m)" "mediaAllowList (um_mediaType m) \<noteq> None"
    using assms by (auto simp: meta_ok_def metadata_fault_def)
  show "safe_name (um_archiveID m)" using safe_archive_id [OF f(1,2)] .
  show "um_archiveFilename m \<noteq> []" "um_archiveFilename m \<noteq> ''..''" "CHR ''/'' \<notin> set (um_archiveFilename m)"
    using safe_filename [OF f(3,4)] by simp_all
  show "sha256Re (um_sha256 m)" "Shape m \<noteq> None" using f by (simp_all add: Shape_def)
qed

text \<open>
  C29: Accepted metadata is safe to build paths from. When the parser accepts a header, the archive id is a
  single path component that names neither its directory nor the parent, the file name holds no separator
  and no double dot, the digest is 64 lowercase hexadecimal digits, the declared size is the upload's length
  and not negative, the media type is on the list, and a media type that must say where its data comes from
  does.
\<close>

theorem ParseUploadMetadata_safe:
  assumes "ParseUploadMetadata ud header n = Inr m"
  shows "safe_name (um_archiveID m) \<and> CHR ''/'' \<notin> set (um_archiveFilename m) \<and> \<not> go_contains (um_archiveFilename m) ''..''
    \<and> sha256Re (um_sha256 m) \<and> um_sizeBytes m = n \<and> 0 \<le> n \<and> Shape m \<noteq> None
    \<and> (requiredProvenance (um_mediaType m) \<longrightarrow> um_acqProvider m \<noteq> [] \<and> um_acqAccountID m \<noteq> []
         \<and> um_acqAuthMethod m = ''browser_session'' \<and> um_dataSubject m \<noteq> [])"
proof -
  note ok = ParseUploadMetadata_ok [OF assms]
  then have "meta_ok m" by simp
  moreover from this have "\<not> go_contains (um_archiveFilename m) ''..''"
    by (auto simp: meta_ok_def metadata_fault_def)
  moreover from \<open>meta_ok m\<close> have "requiredProvenance (um_mediaType m) \<longrightarrow> um_acqProvider m \<noteq> [] \<and> um_acqAccountID m \<noteq> []
      \<and> um_acqAuthMethod m = ''browser_session'' \<and> um_dataSubject m \<noteq> []"
    by (auto simp: meta_ok_def provenance_fault_def)
  ultimately show ?thesis using ok meta_ok_names [of m] by simp
qed

subsection \<open>Encoded headers are read back\<close>

text \<open>The header a client sends for keys and values: \<^verbatim>\<open>key base64\<close> pairs joined by commas.\<close>

definition encode_pair :: "string \<times> string \<Rightarrow> string" where
  "encode_pair kv = fst kv @ CHR '' '' # b64_encode (snd kv)"

definition encode_header :: "(string \<times> string) list \<Rightarrow> string" where
  "encode_header kvs = go_join '','' (map encode_pair kvs)"

definition plain_char :: "char \<Rightarrow> bool" where
  "plain_char c \<longleftrightarrow> bv c < 0x80 \<and> \<not> white_space (bv c) \<and> bv c \<noteq> 44"

definition plain_pair :: "string \<times> string \<Rightarrow> bool" where
  "plain_pair kv \<longleftrightarrow> fst kv \<noteq> [] \<and> list_all plain_char (fst kv) \<and> snd kv \<noteq> []"

lemma in_range_bounds: "in_range a b c \<longleftrightarrow> bv a \<le> bv c \<and> bv c \<le> bv b"
  by (simp add: in_range_def)

lemma plain_above: "48 \<le> bv c \<Longrightarrow> bv c < 0x80 \<Longrightarrow> plain_char c"
  by (simp add: plain_char_def white_space_def)

lemma b64_char_plain:
  assumes "is_std_b64 c \<or> c = CHR ''=''"
  shows "plain_char c"
proof -
  have u: "plain_char c" if "is_upper_ascii c" by (rule plain_above) (use that in \<open>simp_all add: is_upper_ascii_def in_range_bounds\<close>)
  have l: "plain_char c" if "is_lower_ascii c" by (rule plain_above) (use that in \<open>simp_all add: is_lower_ascii_def in_range_bounds\<close>)
  have d: "plain_char c" if "is_digit_ascii c" by (rule plain_above) (use that in \<open>simp_all add: is_digit_ascii_def in_range_bounds\<close>)
  have "plain_char CHR ''+''" "plain_char CHR ''/''" "plain_char CHR ''=''"
    by (simp_all add: plain_char_def white_space_def)
  then show ?thesis using assms unfolding is_std_b64_def by (elim disjE) (simp_all only: u l d)
qed

lemma b64_encode_plain: "list_all plain_char (b64_encode m)"
proof -
  obtain run k where "b64_encode m = run @ replicate k CHR ''=''" "list_all is_std_b64 run"
    using b64_encode_shape by blast
  moreover have "list_all plain_char run"
    by (rule list.pred_mono_strong [OF \<open>list_all is_std_b64 run\<close>]) (rule b64_char_plain, rule disjI1)
  moreover have "list_all plain_char (replicate k CHR ''='')"
    using b64_char_plain [OF disjI2, OF refl] by (simp add: list_all_iff)
  ultimately show ?thesis by simp
qed

lemma b64_encode_empty [simp]: "b64_encode m = [] \<longleftrightarrow> m = []"
  by (cases m rule: b64_encode.cases) simp_all

lemma go_index_byte_first: "c \<notin> set xs \<Longrightarrow> go_index_byte (xs @ c # ys) c = Some (length xs)"
  by (induction xs) auto

lemma plain_not_sep: "list_all plain_char s \<Longrightarrow> CHR '','' \<notin> set s \<and> CHR '' '' \<notin> set s"
  by (auto simp: list_all_iff plain_char_def white_space_def)

lemma decode_pair:
  assumes "plain_pair kv"
  shows "decode_pairs (encode_pair kv # rest) out = decode_pairs rest (out(fst kv \<mapsto> snd kv))"
proof -
  have p: "list_all plain_char (fst kv)" "fst kv \<noteq> []" "snd kv \<noteq> []" using assms by (simp_all add: plain_pair_def)
  have e: "list_all (\<lambda>c. bv c < 0x80) (encode_pair kv)"
    using p b64_encode_plain [of "snd kv"] by (auto simp: encode_pair_def list_all_iff plain_char_def)
  have "hd (encode_pair kv) \<in> set (fst kv)" "last (encode_pair kv) \<in> set (b64_encode (snd kv))"
    using p by (simp_all add: encode_pair_def)
  then have "plain_char (hd (encode_pair kv))" "plain_char (last (encode_pair kv))"
    using p(1) b64_encode_plain [of "snd kv"] by (auto simp: list_all_iff)
  then have "TrimSpace (encode_pair kv) = encode_pair kv" by (intro TrimSpace_ends e) (simp add: plain_char_def)
  moreover have "go_index_byte (encode_pair kv) CHR '' '' = Some (length (fst kv))"
    unfolding encode_pair_def by (rule go_index_byte_first) (use plain_not_sep [OF p(1)] in simp)
  moreover have "encode_pair kv \<noteq> []" by (simp add: encode_pair_def)
  ultimately show ?thesis using p(2) by (simp add: Let_def) (simp add: encode_pair_def b64_Decode_encode)
qed

lemma decode_encoded_pairs:
  "list_all plain_pair kvs \<Longrightarrow> decode_pairs (map encode_pair kvs) out = Inr (out ++ map_of (rev kvs))"
proof (induction kvs arbitrary: out)
  case (Cons kv kvs)
  then show ?case by (cases kv) (simp add: decode_pair del: decode_pairs.simps(2))
qed simp

lemma decode_encode_header:
  assumes "list_all plain_pair kvs" "kvs \<noteq> []"
  shows "decodeMetadataPairs (encode_header kvs) = Inr (map_of (rev kvs))"
proof -
  have "CHR '','' \<notin> set (encode_pair kv)" if "kv \<in> set kvs" for kv
    using that assms(1) plain_not_sep [of "fst kv"] plain_not_sep [OF b64_encode_plain, of "snd kv"]
    by (auto simp: encode_pair_def list_all_iff plain_pair_def)
  then have "go_split CHR '','' (encode_header kvs) = map encode_pair kvs"
    unfolding encode_header_def using assms(2) by (intro go_split_join) auto
  then show ?thesis using assms(1) by (simp add: decodeMetadataPairs_def decode_encoded_pairs)
qed

text \<open>An upload of a household export, which must say where its data comes from.\<close>

definition export_pairs :: "(string \<times> string) list" where
  "export_pairs =
     [(''archive_id'', ''mail-2024''), (''archive_filename'', ''mail.tar''), (''media_type'', ''archive/walhelm-export''),
      (''matcher_id'', ''m/1''), (''provider'', ''google''), (''sha256'', replicate 64 CHR ''0''), (''size_bytes'', ''42''),
      (''acq_provider'', ''google''), (''acq_account_id'', ''a1''), (''acq_auth_method'', ''browser_session''),
      (''data_subject'', ''bee'')]"

definition export_meta :: Metadata where
  "export_meta = \<lparr>um_archiveID = ''mail-2024'', um_archiveFilename = ''mail.tar'', um_subtreePath = [],
     um_mediaType = ''archive/walhelm-export'', um_matcherID = ''m/1'', um_provider = ''google'', um_sha256 = replicate 64 CHR ''0'',
     um_sizeBytes = 42, um_acqProvider = ''google'', um_acqAccountID = ''a1'', um_acqAuthMethod = ''browser_session'',
     um_dataSubject = ''bee'', um_audience = None\<rparr>"

lemma b64_encode_length: "length (b64_encode m) = 4 * ((length m + 2) div 3)"
  by (induction m rule: b64_encode.induct) (simp_all, presburger)

lemma export_accepted: "ParseUploadMetadata ud (encode_header export_pairs) 42 = Inr export_meta"
proof -
  have "list_all (\<lambda>kv. fst kv \<noteq> [] \<and> snd kv \<noteq> [] \<and> list_all (\<lambda>c. 48 \<le> bv c \<and> bv c < 0x80) (fst kv)) export_pairs"
    by (simp add: export_pairs_def)
  then have "list_all plain_pair export_pairs"
    by (rule list.pred_mono_strong) (auto simp: plain_pair_def list_all_iff intro: plain_above)
  then have d: "decodeMetadataPairs (encode_header export_pairs) = Inr (map_of (rev export_pairs))"
    by (rule decode_encode_header) (simp add: export_pairs_def)
  have l: "length (encode_header export_pairs) \<le> uploadMetadataMaxBytes"
    by (simp add: encode_header_def encode_pair_def export_pairs_def uploadMetadataMaxBytes_def b64_encode_length del: b64_encode.simps)
  note cl = is_name_char_def is_alnum_def is_upper_ascii_def is_lower_ascii_def is_digit_ascii_def in_range_bounds
  have "archiveIDRe ''mail-2024''" "\<not> list_all (\<lambda>c. c = CHR ''.'') ''mail-2024''" "archiveFilenameRe ''mail.tar''"
    "\<not> go_contains ''mail.tar'' ''..''" "matcherIDRe ''m/1''" "providerRe ''google''" "\<not> hasControlChar ''m/1''" "\<not> hasControlChar []"
    by (simp_all add: archiveIDRe_def archiveFilenameRe_def matcherIDRe_def providerRe_def hasControlChar_def go_contains_def cl)
  moreover have "sha256Re (replicate 64 CHR ''0'')" by (simp add: sha256Re_def list_all_iff cl)
  moreover have "mediaAllowList ''archive/walhelm-export'' \<noteq> None" by (simp add: mediaAllowList_def)
  moreover have "utf8_valid []" by (simp add: utf8_valid_def)
  ultimately have f: "metadata_fault export_meta = None"
    by (simp add: metadata_fault_def export_meta_def archiveFilenameMaxBytes_def subtreeRelativePathMaxBytes_def)
  have g: "provenance_fault export_meta = None"
    by (simp add: provenance_fault_def export_meta_def requiredProvenance_def providerRe_def is_lower_ascii_def is_digit_ascii_def
        in_range_bounds plain_provenance_def provenanceStringMaxBytes_def hasControlChar_def)
  have p: "ParseInt64 ''42'' = Some 42" by code_simp
  have m: "meta_of (map_of (rev export_pairs)) 42 = export_meta"
    by (simp add: meta_of_def export_pairs_def export_meta_def value_of_def)
  have v: "map_of (rev export_pairs) ''delivered_by'' = None" "map_of (rev export_pairs) ''delivered_at'' = None"
    "value_of (map_of (rev export_pairs)) ''size_bytes'' = ''42''" "value_of (map_of (rev export_pairs)) ''audience'' = []"
    by (simp_all add: export_pairs_def value_of_def)
  show ?thesis using l by (simp add: ParseUploadMetadata_def d v p m f g Let_def)
qed

lemma ParseUploadMetadata_safe_witness:
  "ParseUploadMetadata sample_ud (encode_header export_pairs) 42 = Inr export_meta \<and> safe_name (um_archiveID export_meta)
   \<and> sha256Re (um_sha256 export_meta) \<and> um_acqAuthMethod export_meta = ''browser_session''"
  using ParseUploadMetadata_safe [OF export_accepted [of sample_ud]] export_accepted [of sample_ud]
  by (simp add: export_meta_def requiredProvenance_def)

section \<open>The caps\<close>

text \<open>The counters are the numbers of live uploads, and neither cap is passed.\<close>

definition owned :: "Store \<Rightarrow> string \<Rightarrow> string set" where
  "owned s src = {uid \<in> tb_uploads s. \<exists>st. tb_objects s uid = Some st \<and> us_sourceID st = src}"

definition counted :: "Store \<Rightarrow> bool" where
  "counted s \<longleftrightarrow> finite (tb_uploads s) \<and> tb_uploads s \<subseteq> dom (tb_objects s)
     \<and> (\<forall>src. src_count s src = int (card (owned s src)))
     \<and> int (card (tb_uploads s)) \<le> max 0 (sn_global (tb_cfg s))
     \<and> (\<forall>src. int (card (owned s src)) \<le> max 0 (sn_perSource (tb_cfg s)))"

lemma owned_finite: "finite (tb_uploads s) \<Longrightarrow> finite (owned s src)"
  by (simp add: owned_def)

lemma counted_new: "counted (NewStore cfg)"
  by (simp add: counted_def NewStore_def src_count_def owned_def)

lemma Store_Create_counted:
  assumes "counted s" "Store_Create random now s src m n = (s', r)"
  shows "counted s' \<and> tb_cfg s' = tb_cfg s"
proof (cases r)
  case (Inl e)
  then show ?thesis using assms by (auto simp: Store_Create_def Let_def split: if_splits sum.splits)
next
  case (Inr st)
  obtain uid where u: "newUploadID random = Inr uid" "uid \<notin> tb_uploads s" "int (card (tb_uploads s)) < sn_global (tb_cfg s)"
    "src_count s src < sn_perSource (tb_cfg s)"
    and s': "s' = s\<lparr>tb_objects := (tb_objects s)(uid \<mapsto> st), tb_uploads := insert uid (tb_uploads s),
        tb_perSrc := (tb_perSrc s)(src \<mapsto> src_count s src + 1)\<rparr>" and st: "us_sourceID st = src"
    using assms(2) Inr by (auto simp: Store_Create_def Let_def split: if_splits sum.splits)
  have o: "owned s' x = (if x = src then insert uid (owned s src) else owned s x)" for x
    using u(2) by (auto simp: owned_def s' st)
  have n: "uid \<notin> owned s src" using u(2) by (simp add: owned_def)
  have f: "finite (tb_uploads s)" using assms(1) by (simp add: counted_def)
  have c: "card (owned s' x) = card (owned s x) + (if x = src then 1 else 0)" for x
    using n owned_finite [OF f] by (simp add: o)
  have "src_count s' x = src_count s x + (if x = src then 1 else 0)" for x by (simp add: s' src_count_def)
  then show ?thesis using assms(1) u(2-4) c by (auto simp: counted_def s')
qed

lemma Store_Remove_counted:
  assumes "counted s"
  shows "counted (Store_Remove s uid) \<and> tb_cfg (Store_Remove s uid) = tb_cfg s"
proof (cases "uid \<in> tb_uploads s")
  case False
  then show ?thesis using assms by (simp add: Store_Remove_def)
next
  case True
  then obtain st where st: "tb_objects s uid = Some st" using assms by (auto simp: counted_def)
  let ?s = "Store_Remove s uid" and ?src = "us_sourceID st"
  have f: "finite (tb_uploads s)" using assms by (simp add: counted_def)
  have m: "uid \<in> owned s ?src" using True st by (simp add: owned_def)
  then have pos: "0 < card (owned s ?src)" using owned_finite [OF f] card_gt_0_iff by blast
  have o: "owned ?s x = (if x = ?src then owned s ?src - {uid} else owned s x)" for x
    using True st by (auto simp: owned_def Store_Remove_def Let_def)
  have c: "int (card (owned ?s x)) = int (card (owned s x)) - (if x = ?src then 1 else 0)" for x
    using m owned_finite [OF f, of ?src] pos by (simp add: o card_Diff_singleton)
  have p: "src_count ?s x = src_count s x - (if x = ?src then 1 else 0)" for x
  proof -
    have "src_count s ?src = int (card (owned s ?src))" using assms by (simp add: counted_def)
    then have "1 \<le> src_count s ?src" using pos by simp
    then show ?thesis using True st by (auto simp: Store_Remove_def Let_def src_count_def)
  qed
  have "tb_uploads ?s = tb_uploads s - {uid}" "tb_objects ?s = tb_objects s" "tb_cfg ?s = tb_cfg s"
    using True st by (simp_all add: Store_Remove_def Let_def)
  moreover have "int (card (tb_uploads s - {uid})) \<le> int (card (tb_uploads s))" using f by (simp add: card_Diff1_le)
  moreover have "int (card (owned ?s x)) \<le> max 0 (sn_perSource (tb_cfg s))" for x
  proof -
    have "int (card (owned s x)) \<le> max 0 (sn_perSource (tb_cfg s))" using assms by (simp add: counted_def)
    then show ?thesis using c [of x] by (simp split: if_splits)
  qed
  moreover have "src_count ?s x = int (card (owned ?s x))" for x using assms c [of x] p [of x] by (simp add: counted_def)
  ultimately show ?thesis using assms by (auto simp: counted_def)
qed

text \<open>\<open>Get\<close> tells an upload of another source and one that does not exist apart in nothing.\<close>

lemma Store_Get_own: "Store_Get s uid src = Inr st \<Longrightarrow> tb_objects s uid = Some st \<and> us_sourceID st = src \<and> uid \<in> tb_uploads s"
  by (auto simp: Store_Get_def split: if_splits option.splits)

lemma Store_Get_foreign: "uid \<notin> owned s src \<Longrightarrow> Store_Get s uid src = Inl ErrUploadNotFound"
  by (auto simp: Store_Get_def owned_def split: option.splits)

end
