(* ===== verification/Disk.thy ===== *)
theory Disk
  imports Prelude "HOL-Library.Sublist"
begin

text \<open>
  The file system below the staging root, as the archive code uses it: files and directories by their path,
  a list of components; which calls succeed is an argument. A write that fails may leave the first bytes, a
  removal that fails may leave some of the files.
\<close>

type_synonym path = "string list"

record disk =
  dk_files :: "path \<rightharpoonup> bytes"
  dk_dirs :: "path set"

datatype disk_op =
    DMkdir path
  | DChmod path
  | DOpen path
  | DCreate path
  | DWrite path
  | DSync path
  | DClose path
  | DStat path
  | DRead path
  | DRename path path
  | DRemove path
  | DRemoveAll path

record disk_lib =
  dl_ok :: "disk_op \<Rightarrow> bool"
  dl_torn :: "path \<Rightarrow> nat"
  dl_kept :: "path \<Rightarrow> bool"

type_synonym 'a act = "disk \<Rightarrow> disk \<times> (err + 'a)"

definition act_bind :: "'a act \<Rightarrow> ('a \<Rightarrow> 'b act) \<Rightarrow> 'b act" where
  "act_bind m f d = (case m d of (d', Inl e) \<Rightarrow> (d', Inl e) | (d', Inr x) \<Rightarrow> f x d')"

definition act_return :: "'a \<Rightarrow> 'a act" where "act_return x d = (d, Inr x)"
definition act_fail :: "err \<Rightarrow> 'a act" where "act_fail e d = (d, Inl e)"

definition act_wrap :: "string \<Rightarrow> 'a act \<Rightarrow> 'a act" where
  "act_wrap msg m d = (case m d of (d', Inl e) \<Rightarrow> (d', Inl (Wrap msg e)) | r \<Rightarrow> r)"

definition act_ignore :: "'a act \<Rightarrow> disk \<Rightarrow> disk" where
  "act_ignore m d = fst (m d)"

definition NotExist :: err where "NotExist = Lib ''file does not exist''"
definition Exist :: err where "Exist = Lib ''file already exists''"

fun err_is :: "err \<Rightarrow> err \<Rightarrow> bool" where
  "err_is (Wrap msg e) target = (Wrap msg e = target \<or> err_is e target)"
| "err_is e target = (e = target)"

section \<open>The calls\<close>

definition d_MkdirAll :: "disk_lib \<Rightarrow> path \<Rightarrow> unit act" where
  "d_MkdirAll l p d =
     (if dl_ok l (DMkdir p) \<and> (\<forall>q \<in> set (prefixes p). dk_files d q = None)
      then (d\<lparr>dk_dirs := dk_dirs d \<union> set (prefixes p)\<rparr>, Inr ()) else (d, Inl (Lib ''os.MkdirAll'')))"

definition d_Check :: "disk_lib \<Rightarrow> disk_op \<Rightarrow> string \<Rightarrow> unit act" where
  "d_Check l x msg d = (d, if dl_ok l x then Inr () else Inl (Lib msg))"

definition d_Chmod :: "disk_lib \<Rightarrow> path \<Rightarrow> unit act" where "d_Chmod l p = d_Check l (DChmod p) ''os.Chmod''"
definition d_Sync :: "disk_lib \<Rightarrow> path \<Rightarrow> unit act" where "d_Sync l p = d_Check l (DSync p) ''Sync''"
definition d_Close :: "disk_lib \<Rightarrow> path \<Rightarrow> unit act" where "d_Close l p = d_Check l (DClose p) ''Close''"

text \<open>\<^verbatim>\<open>os.OpenFile\<close> with \<^verbatim>\<open>O_CREATE|O_WRONLY|O_EXCL\<close>, and with \<^verbatim>\<open>O_WRONLY|O_APPEND\<close>.\<close>

definition d_Create :: "disk_lib \<Rightarrow> path \<Rightarrow> unit act" where
  "d_Create l p d =
     (if dk_files d p \<noteq> None \<or> p \<in> dk_dirs d then (d, Inl Exist)
      else if butlast p \<notin> dk_dirs d then (d, Inl NotExist)
      else if \<not> dl_ok l (DCreate p) then (d, Inl (Lib ''os.OpenFile''))
      else (d\<lparr>dk_files := (dk_files d)(p \<mapsto> [])\<rparr>, Inr ()))"

definition d_Open :: "disk_lib \<Rightarrow> path \<Rightarrow> unit act" where
  "d_Open l p d = (d, if dk_files d p = None then Inl NotExist else if dl_ok l (DOpen p) then Inr () else Inl (Lib ''os.OpenFile''))"

text \<open>Writing at the end of an open file; one that is gone takes the bytes with it.\<close>

definition d_append :: "path \<Rightarrow> bytes \<Rightarrow> disk \<Rightarrow> disk" where
  "d_append p bs d = (case dk_files d p of None \<Rightarrow> d | Some old \<Rightarrow> d\<lparr>dk_files := (dk_files d)(p \<mapsto> old @ bs)\<rparr>)"

definition landed :: "disk_lib \<Rightarrow> path \<Rightarrow> bytes \<Rightarrow> bytes" where
  "landed l p bs = (if bs = [] \<or> dl_ok l (DWrite p) then bs else take (dl_torn l p) bs)"

definition d_Write :: "disk_lib \<Rightarrow> path \<Rightarrow> bytes \<Rightarrow> unit act" where
  "d_Write l p bs d = (d_append p (landed l p bs) d, if bs = [] \<or> dl_ok l (DWrite p) then Inr () else Inl (Lib ''Write''))"

definition d_ReadFile :: "disk_lib \<Rightarrow> path \<Rightarrow> bytes act" where
  "d_ReadFile l p d = (d, case dk_files d p of None \<Rightarrow> Inl NotExist | Some b \<Rightarrow> if dl_ok l (DRead p) then Inr b else Inl (Lib ''os.ReadFile''))"

text \<open>\<^verbatim>\<open>os.Stat\<close>: the size of a file, nothing for a directory.\<close>

definition d_Stat :: "disk_lib \<Rightarrow> path \<Rightarrow> nat option act" where
  "d_Stat l p d =
     (d, if \<not> dl_ok l (DStat p) then Inl (Lib ''os.Stat'')
         else case dk_files d p of Some b \<Rightarrow> Inr (Some (length b)) | None \<Rightarrow> if p \<in> dk_dirs d then Inr None else Inl NotExist)"

definition empty_dir :: "disk \<Rightarrow> path \<Rightarrow> bool" where
  "empty_dir d p \<longleftrightarrow> (\<forall>q \<in> dk_dirs d \<union> dom (dk_files d). prefix p q \<longrightarrow> q = p)"

definition d_Rename :: "disk_lib \<Rightarrow> path \<Rightarrow> path \<Rightarrow> unit act" where
  "d_Rename l src dst d =
     (case dk_files d src of
        Some b \<Rightarrow>
          if dl_ok l (DRename src dst) \<and> dst \<notin> dk_dirs d \<and> butlast dst \<in> dk_dirs d
          then (d\<lparr>dk_files := (dk_files d)(src := None, dst \<mapsto> b)\<rparr>, Inr ()) else (d, Inl (Lib ''os.Rename''))
      | None \<Rightarrow>
          if src \<notin> dk_dirs d then (d, Inl NotExist)
          else if dl_ok l (DRename src dst) \<and> dk_files d dst = None \<and> butlast dst \<in> dk_dirs d
            \<and> empty_dir d dst
          then (d\<lparr>dk_files := (\<lambda>q. if prefix dst q then dk_files d (src @ drop (length dst) q)
                                   else if prefix src q then None else dk_files d q),
                  dk_dirs := {q. if prefix dst q then src @ drop (length dst) q \<in> dk_dirs d else q \<in> dk_dirs d \<and> \<not> prefix src q}\<rparr>, Inr ())
          else (d, Inl (Lib ''os.Rename'')))"

definition d_Remove :: "disk_lib \<Rightarrow> path \<Rightarrow> unit act" where
  "d_Remove l p d =
     (if dk_files d p \<noteq> None then
        if dl_ok l (DRemove p) then (d\<lparr>dk_files := (dk_files d)(p := None)\<rparr>, Inr ()) else (d, Inl (Lib ''os.Remove''))
      else if p \<notin> dk_dirs d then (d, Inl NotExist)
      else if dl_ok l (DRemove p) \<and> empty_dir d p
      then (d\<lparr>dk_dirs := dk_dirs d - {p}\<rparr>, Inr ()) else (d, Inl (Lib ''os.Remove'')))"

definition d_RemoveAll :: "disk_lib \<Rightarrow> path \<Rightarrow> unit act" where
  "d_RemoveAll l p d =
     (if dl_ok l (DRemoveAll p)
      then (d\<lparr>dk_files := (\<lambda>q. if prefix p q then None else dk_files d q), dk_dirs := {q \<in> dk_dirs d. \<not> prefix p q}\<rparr>, Inr ())
      else (d\<lparr>dk_files := (\<lambda>q. if prefix p q \<and> \<not> dl_kept l q then None else dk_files d q)\<rparr>, Inl (Lib ''os.RemoveAll'')))"

section \<open>Frames\<close>

text \<open>An action that changes only files and directories in a set of paths.\<close>

definition alters :: "path set \<Rightarrow> (disk \<Rightarrow> disk) \<Rightarrow> bool" where
  "alters P f \<longleftrightarrow> (\<forall>d q. q \<notin> P \<longrightarrow> dk_files (f d) q = dk_files d q)"

definition touches :: "path set \<Rightarrow> 'a act \<Rightarrow> bool" where
  "touches P m \<longleftrightarrow> alters P (\<lambda>d. fst (m d))"

named_theorems touch

lemma touches_bind [touch]: "touches P m \<Longrightarrow> (\<And>x. touches P (f x)) \<Longrightarrow> touches P (act_bind m f)"
  by (auto simp: touches_def alters_def act_bind_def split: prod.splits sum.splits) (metis fst_conv)+

lemma touches_wrap [touch]: "touches P m \<Longrightarrow> touches P (act_wrap msg m)"
  by (auto simp: touches_def alters_def act_wrap_def split: prod.splits sum.splits) (metis fst_conv)+

lemma touches_ignore [touch]: "touches P m \<Longrightarrow> alters P (act_ignore m)"
  by (simp add: touches_def act_ignore_def [abs_def])

lemma touches_pure [touch]: "touches P (act_return x)" "touches P (act_fail e)" "touches P (d_Check l c msg)"
  "touches P (d_Chmod l p)" "touches P (d_Sync l p)" "touches P (d_Close l p)" "touches P (d_Open l p)"
  "touches P (d_ReadFile l p)" "touches P (d_Stat l p)" "touches P (d_MkdirAll l p)"
  by (simp_all add: touches_def alters_def act_return_def act_fail_def d_Check_def d_Chmod_def d_Sync_def d_Close_def
      d_Open_def d_ReadFile_def d_Stat_def d_MkdirAll_def)

lemma touches_file [touch]: "p \<in> P \<Longrightarrow> touches P (d_Create l p)" "p \<in> P \<Longrightarrow> touches P (d_Write l p bs)" "p \<in> P \<Longrightarrow> touches P (d_Remove l p)"
  by (auto simp: touches_def alters_def d_Create_def d_Write_def d_append_def d_Remove_def split: option.splits)

lemma touches_tree [touch]: "{q. prefix p q} \<subseteq> P \<Longrightarrow> touches P (d_RemoveAll l p)"
  by (auto simp: touches_def alters_def d_RemoveAll_def)

lemma touches_rename [touch]: "{q. prefix src q} \<subseteq> P \<Longrightarrow> {q. prefix dst q} \<subseteq> P \<Longrightarrow> touches P (d_Rename l src dst)"
  by (auto simp: touches_def alters_def d_Rename_def split: option.splits)

lemma alters_comp [touch]: "alters P f \<Longrightarrow> alters P g \<Longrightarrow> alters P (\<lambda>d. g (f d))"
  by (simp add: alters_def)

lemma alters_mono: "alters P f \<Longrightarrow> P \<subseteq> Q \<Longrightarrow> alters Q f"
  by (auto simp: alters_def)

section \<open>Actions that succeed\<close>

lemma act_bind_Inr: "act_bind m f d = (d', Inr y) \<longleftrightarrow> (\<exists>d1 x. m d = (d1, Inr x) \<and> f x d1 = (d', Inr y))"
  by (auto simp: act_bind_def split: prod.splits sum.splits)

lemma act_wrap_Inr: "act_wrap msg m d = (d', Inr x) \<longleftrightarrow> m d = (d', Inr x)"
  by (auto simp: act_wrap_def split: prod.splits sum.splits)

lemma act_pure_Inr: "act_return x d = (d', Inr y) \<longleftrightarrow> d' = d \<and> y = x" "act_fail e d = (d', Inr y) \<longleftrightarrow> False"
  "d_Check l c msg d = (d', Inr u) \<longleftrightarrow> d' = d \<and> dl_ok l c"
  by (auto simp: act_return_def act_fail_def d_Check_def)

lemma d_Create_Inr: "d_Create l p d = (d', Inr u) \<Longrightarrow> dk_files d p = None \<and> d' = d\<lparr>dk_files := (dk_files d)(p \<mapsto> [])\<rparr>"
  by (auto simp: d_Create_def split: if_splits)

lemma d_Write_Inr: "d_Write l p bs d = (d', Inr u) \<Longrightarrow> d' = d_append p bs d"
  by (auto simp: d_Write_def landed_def split: if_splits)

lemma d_MkdirAll_Inr:
  "d_MkdirAll l p d = (d', Inr u) \<Longrightarrow> dk_files d p = None \<and> d' = d\<lparr>dk_dirs := dk_dirs d \<union> set (prefixes p)\<rparr>"
  by (auto simp: d_MkdirAll_def split: if_splits)

lemma d_Rename_file_Inr:
  "d_Rename l src dst d = (d', Inr u) \<Longrightarrow> dk_files d src = Some b \<Longrightarrow> d' = d\<lparr>dk_files := (dk_files d)(src := None, dst \<mapsto> b)\<rparr>"
  by (auto simp: d_Rename_def split: if_splits)

lemma d_Rename_dir_Inr:
  assumes "d_Rename l src dst d = (d', Inr u)" "dk_files d src = None"
  shows "dk_files d dst = None \<and> empty_dir d dst
    \<and> dk_files d' = (\<lambda>q. if prefix dst q then dk_files d (src @ drop (length dst) q) else if prefix src q then None else dk_files d q)"
  using assms by (auto simp: d_Rename_def split: if_splits)

lemma d_Rename_Inl: "d_Rename l src dst d = (d', Inl e) \<Longrightarrow> d' = d"
  by (auto simp: d_Rename_def split: if_splits option.splits)

lemma d_Remove_Inr: "d_Remove l p d = (d', Inr u) \<Longrightarrow> dk_files d' = (dk_files d)(p := None)"
  by (auto simp: d_Remove_def fun_eq_iff split: if_splits)

lemma touchesD: "touches P m \<Longrightarrow> m d = (d', r) \<Longrightarrow> q \<notin> P \<Longrightarrow> dk_files d' q = dk_files d q"
  by (auto simp: touches_def alters_def) (metis fst_conv)

lemma altersD: "alters P f \<Longrightarrow> q \<notin> P \<Longrightarrow> dk_files (f d) q = dk_files d q"
  by (simp add: alters_def)

lemmas act_done = act_bind_Inr act_wrap_Inr act_pure_Inr

end
