(* ===== verification/Untar.thy ===== *)
theory Untar
  imports Disk Utf8
begin

text \<open>
  \<^verbatim>\<open>internal/ingest/archives/untar.go\<close>: the extraction of an uploaded tar archive. What \<^verbatim>\<open>archive/tar\<close> reads
  from the file is a list of entries, each with its header and the bytes that can be read of it, and
  whether the list ends properly.
\<close>

section \<open>Names\<close>

definition untarPathMax :: nat where "untarPathMax = 4096"
definition untarNameMax :: nat where "untarNameMax = 255"
definition untarMaxEntries :: nat where "untarMaxEntries = 1000000"
definition untarSizeFactor :: int where "untarSizeFactor = 2"

definition TypeReg :: char where "TypeReg = CHR ''0''"
definition TypeDir :: char where "TypeDir = CHR ''5''"

definition ErrTarPaxOverride :: err where "ErrTarPaxOverride = Err ''pax path/linkpath override rejected''"
definition ErrTarTypeflag :: err where "ErrTarTypeflag = Err ''disallowed typeflag''"
definition ErrTarNameInvalid :: err where "ErrTarNameInvalid = Err ''entry name invalid''"
definition ErrTarPathTraversal :: err where "ErrTarPathTraversal = Err ''entry name path traversal''"
definition ErrTarTooLarge :: err where "ErrTarTooLarge = Err ''entry or cumulative size exceeded cap''"
definition ErrTarTooMany :: err where "ErrTarTooMany = Err ''entry count exceeded cap''"
definition errExceededCap :: err where "errExceededCap = Err ''exceeded cumulative cap''"

lemmas tar_errs = ErrTarPaxOverride_def ErrTarTypeflag_def ErrTarNameInvalid_def ErrTarPathTraversal_def ErrTarTooLarge_def ErrTarTooMany_def

fun ClassifyReason :: "err option \<Rightarrow> string option" where
  "ClassifyReason None = None"
| "ClassifyReason (Some e) =
     (if err_is e ErrTarPaxOverride then Some ''pax_path_override''
      else if err_is e ErrTarTypeflag then Some ''typeflag_disallowed''
      else if err_is e ErrTarNameInvalid then Some ''name_invalid''
      else if err_is e ErrTarPathTraversal then Some ''name_traversal''
      else if err_is e ErrTarTooLarge then Some ''size_too_large''
      else if err_is e ErrTarTooMany then Some ''entry_count_too_large''
      else None)"

definition validUntarName :: "string \<Rightarrow> bool" where
  "validUntarName name \<longleftrightarrow>
     \<not> (name = [] \<or> length name > untarPathMax)
     \<and> CHR 0x00 \<notin> set name \<and> utf8_valid name
     \<and> list_all (\<lambda>c. \<not> (bv c < 0x20 \<or> bv c = 0x7f)) name
     \<and> list_all (\<lambda>comp. \<not> length comp > untarNameMax) (go_split CHR ''/'' name)"

definition validateTypeflag :: "char \<Rightarrow> err option" where
  "validateTypeflag t = (if t = TypeReg \<or> t = TypeDir then None else Some (Wrap [t] ErrTarTypeflag))"

definition hasPathTraversal :: "string \<Rightarrow> char \<Rightarrow> bool" where
  "hasPathTraversal name typeflag \<longleftrightarrow>
     prefix ''/'' name \<or> CHR 0x5C \<in> set name \<or> go_contains name ''//''
     \<or> suffix ''/'' name \<and> typeflag = TypeReg
     \<or> length name \<ge> 2 \<and> name ! 1 = CHR '':''
     \<or> list_ex (\<lambda>comp. comp = ''..'') (go_split CHR ''/'' name)"

text \<open>\<^verbatim>\<open>filepath.Join(DestDir, filepath.Clean(name))\<close>, the destination being absolute and clean.\<close>

definition resolve :: "path \<Rightarrow> string \<Rightarrow> path" where
  "resolve dest name = rev (fold (clean_step True) (go_split CHR ''/'' (go_Clean name)) (rev dest))"

section \<open>Entries\<close>

record TarHeader =
  th_name :: string
  th_typeflag :: char
  th_size :: int
  th_pax :: "string list"

record TarEntry =
  te_header :: TarHeader
  te_data :: bytes
  te_broken :: bool

text \<open>The bytes that count as written, and an error.\<close>

definition writeCapped :: "disk_lib \<Rightarrow> path \<Rightarrow> bytes \<Rightarrow> bool \<Rightarrow> int \<Rightarrow> disk \<Rightarrow> disk \<times> int \<times> err option" where
  "writeCapped l dst src broken limit d =
     (if limit < 0 then if src \<noteq> [] then (d, 1, Some errExceededCap) else (d, 0, None)
      else let chunk = take (nat limit) src in
        (case d_Write l dst chunk d of
           (d1, Inl e) \<Rightarrow> (d1, int (length (landed l dst chunk)), Some e)
         | (d1, Inr _) \<Rightarrow>
             if length src < nat limit \<and> broken then (d1, int (length chunk), Some (Lib ''tar''))
             else if length src > nat limit
             then (act_ignore (d_Write l dst [src ! nat limit]) d1, int (length chunk) + 1, Some errExceededCap)
             else (d1, int (length chunk), None)))"

text \<open>One entry: the disk, the entries and bytes so far, and an error that ends the extraction.\<close>

definition untar_dir :: "disk_lib \<Rightarrow> path \<Rightarrow> unit act" where
  "untar_dir l dst = act_bind (act_wrap ''mkdir'' (d_MkdirAll l dst)) (\<lambda>_. act_wrap ''chmod dir'' (d_Chmod l dst))"

definition untar_open :: "disk_lib \<Rightarrow> path \<Rightarrow> unit act" where
  "untar_open l dst = act_bind (act_wrap ''mkdir parent'' (d_MkdirAll l (butlast dst))) (\<lambda>_. act_wrap ''create file'' (d_Create l dst))"

definition untar_file ::
  "disk_lib \<Rightarrow> path \<Rightarrow> int \<Rightarrow> TarEntry \<Rightarrow> nat \<Rightarrow> int \<Rightarrow> disk \<Rightarrow> disk \<times> nat \<times> int \<times> err option" where
  "untar_file l dst uploadLength e entries written d =
     (case untar_open l dst d of
        (d1, Inl er) \<Rightarrow> (d1, entries, written, Some er)
      | (d1, Inr _) \<Rightarrow>
          (case writeCapped l dst (te_data e) (te_broken e) (uploadLength * untarSizeFactor - written) d1 of
             (d2, n, werr) \<Rightarrow>
               let (d3, closed) = d_Close l dst d2 in
               (case (werr, closed) of
                  (Some er, _) \<Rightarrow> (d3, entries, written + n, Some (if err_is er errExceededCap then ErrTarTooLarge else Wrap ''write entry'' er))
                | (None, Inl er) \<Rightarrow> (d3, entries, written + n, Some (Wrap ''close entry'' er))
                | (None, Inr _) \<Rightarrow>
                    (case act_wrap ''chmod file'' (d_Chmod l dst) d3 of
                       (d4, Inl er) \<Rightarrow> (d4, entries, written + n, Some er)
                     | (d4, Inr _) \<Rightarrow> (d4, entries + 1, written + n, None)))))"

definition untar_entry ::
  "disk_lib \<Rightarrow> path \<Rightarrow> int \<Rightarrow> TarEntry \<Rightarrow> nat \<Rightarrow> int \<Rightarrow> disk \<Rightarrow> disk \<times> nat \<times> int \<times> err option" where
  "untar_entry l dest uploadLength e entries written d =
     (let h = te_header e; name = th_name h; dst = resolve dest name in
      if ''path'' \<in> set (th_pax h) \<or> ''linkpath'' \<in> set (th_pax h) then (d, entries, written, Some ErrTarPaxOverride)
      else if validateTypeflag (th_typeflag h) \<noteq> None then (d, entries, written, validateTypeflag (th_typeflag h))
      else if \<not> validUntarName name then (d, entries, written, Some ErrTarNameInvalid)
      else if hasPathTraversal name (th_typeflag h) then (d, entries, written, Some ErrTarPathTraversal)
      else if \<not> prefix dest dst then (d, entries, written, Some ErrTarPathTraversal)
      else if th_typeflag h = TypeDir then
        (case untar_dir l dst d of
           (d1, Inl er) \<Rightarrow> (d1, entries, written, Some er)
         | (d1, Inr _) \<Rightarrow> (d1, entries + 1, written, None))
      else if th_size h < 0 \<or> th_size h > uploadLength then (d, entries, written, Some ErrTarTooLarge)
      else untar_file l dst uploadLength e entries written d)"

fun untar_loop ::
  "disk_lib \<Rightarrow> path \<Rightarrow> int \<Rightarrow> nat \<Rightarrow> bool \<Rightarrow> TarEntry list \<Rightarrow> nat \<Rightarrow> int \<Rightarrow> disk \<Rightarrow> disk \<times> nat \<times> int \<times> err option" where
  "untar_loop l dest uploadLength maxEntries whole [] entries written d =
     (d, entries, written, if entries \<ge> maxEntries then Some ErrTarTooMany else if whole then None else Some (Wrap ''tar read'' (Lib ''tar'')))"
| "untar_loop l dest uploadLength maxEntries whole (e # es) entries written d =
     (if entries \<ge> maxEntries then (d, entries, written, Some ErrTarTooMany)
      else (case untar_entry l dest uploadLength e entries written d of
              (d1, n, w, Some er) \<Rightarrow> (d1, n, w, Some er)
            | (d1, n, w, None) \<Rightarrow> untar_loop l dest uploadLength maxEntries whole es n w d1))"

definition Untar :: "disk_lib \<Rightarrow> path \<Rightarrow> int \<Rightarrow> nat \<Rightarrow> TarEntry list \<times> bool \<Rightarrow> disk \<Rightarrow> disk \<times> nat \<times> int \<times> err option" where
  "Untar l dest uploadLength maxEntries stream d =
     untar_loop l dest uploadLength (if maxEntries = 0 then untarMaxEntries else maxEntries) (snd stream) (fst stream) 0 0 d"

section \<open>Nothing outside, nothing overwritten\<close>

text \<open>
  What an extraction may do to the disk: new files strictly below the destination, whose bytes are counted,
  and new directories at or below it; every file that was there stays as it was.
\<close>

definition extends :: "path \<Rightarrow> int \<Rightarrow> disk \<Rightarrow> disk \<Rightarrow> bool" where
  "extends dest n d d' \<longleftrightarrow>
     (\<exists>new. finite (dom new) \<and> dom new \<inter> dom (dk_files d) = {} \<and> dk_files d' = dk_files d ++ new
       \<and> (\<forall>p \<in> dom new. prefix dest p) \<and> int (\<Sum>p \<in> dom new. length (the (new p))) \<le> n)
     \<and> dk_dirs d \<subseteq> dk_dirs d' \<and> (\<forall>q \<in> dk_dirs d' - dk_dirs d. prefix dest q)"

definition rooted :: "path \<Rightarrow> disk \<Rightarrow> bool" where
  "rooted dest d \<longleftrightarrow> set (prefixes dest) \<subseteq> dk_dirs d"

lemma extends_refl: "0 \<le> n \<Longrightarrow> extends dest n d d"
  unfolding extends_def by (intro conjI exI [of _ Map.empty]) auto

lemma extends_rooted: "extends dest n d d' \<Longrightarrow> rooted dest d \<Longrightarrow> rooted dest d'"
  by (auto simp: extends_def rooted_def)

lemma extends_mono: "extends dest n d d' \<Longrightarrow> n \<le> m \<Longrightarrow> extends dest m d d'"
  unfolding extends_def by force

lemma extends_trans:
  assumes "extends dest n d d1" "extends dest m d1 d2"
  shows "extends dest (n + m) d d2"
proof -
  obtain a where a: "finite (dom a)" "dom a \<inter> dom (dk_files d) = {}" "dk_files d1 = dk_files d ++ a" "\<forall>p \<in> dom a. prefix dest p"
    "int (\<Sum>p \<in> dom a. length (the (a p))) \<le> n" using assms(1) by (auto simp: extends_def)
  obtain b where b: "finite (dom b)" "dom b \<inter> dom (dk_files d1) = {}" "dk_files d2 = dk_files d1 ++ b" "\<forall>p \<in> dom b. prefix dest p"
    "int (\<Sum>p \<in> dom b. length (the (b p))) \<le> m" using assms(2) by (auto simp: extends_def)
  have dj: "dom a \<inter> dom b = {}" "dom b \<inter> dom (dk_files d) = {}" using b(2) unfolding a(3) by auto
  have "(\<Sum>p \<in> dom (a ++ b). length (the ((a ++ b) p))) = (\<Sum>p \<in> dom a. length (the ((a ++ b) p))) + (\<Sum>p \<in> dom b. length (the ((a ++ b) p)))"
    unfolding dom_map_add by (subst Un_commute) (rule sum.union_disjoint [OF a(1) b(1) dj(1)])
  also have "(\<Sum>p \<in> dom a. length (the ((a ++ b) p))) = (\<Sum>p \<in> dom a. length (the (a p)))"
    using dj(1) by (intro sum.cong) (auto simp: map_add_def split: option.splits)
  also have "(\<Sum>p \<in> dom b. length (the ((a ++ b) p))) = (\<Sum>p \<in> dom b. length (the (b p)))"
    by (intro sum.cong) (auto simp: map_add_def)
  finally have "int (\<Sum>p \<in> dom (a ++ b). length (the ((a ++ b) p))) \<le> n + m" using a(5) b(5) by simp
  moreover have "dk_files d2 = dk_files d ++ (a ++ b)" by (simp add: a(3) b(3))
  moreover have "dom (a ++ b) \<inter> dom (dk_files d) = {}" using a(2) dj(2) by auto
  moreover have "\<forall>p \<in> dom (a ++ b). prefix dest p" "finite (dom (a ++ b))" using a(1,4) b(1,4) by auto
  moreover have "dk_dirs d \<subseteq> dk_dirs d2" "\<forall>q \<in> dk_dirs d2 - dk_dirs d. prefix dest q"
    using assms by (auto simp: extends_def)
  ultimately show ?thesis unfolding extends_def by blast
qed

lemma extends_file:
  assumes "dk_files d p = None" "dk_files d' = (dk_files d)(p \<mapsto> b)" "dk_dirs d' = dk_dirs d" "prefix dest p" "int (length b) \<le> n"
  shows "extends dest n d d'"
  unfolding extends_def using assms by (intro conjI exI [of _ "[p \<mapsto> b]"]) auto

lemma prefixes_below: "q \<in> set (prefixes (p :: path)) \<Longrightarrow> prefix dest p \<Longrightarrow> prefix q dest \<or> prefix dest q"
  using prefix_same_cases in_set_prefixes by blast

lemma mkdir_extends:
  assumes "rooted dest d" "prefix dest p \<or> prefix p dest" "0 \<le> n"
  shows "extends dest n d (fst (d_MkdirAll l p d))"
proof -
  have "prefix dest q" if "q \<in> set (prefixes p)" "q \<notin> dk_dirs d" for q
  proof (rule ccontr)
    assume a: "\<not> prefix dest q"
    have "prefix q dest" using a that(1) assms(2) prefixes_below prefix_order.trans in_set_prefixes by metis
    then show False using that(2) assms(1) by (auto simp: rooted_def in_set_prefixes)
  qed
  then show ?thesis
    using assms(3) unfolding extends_def d_MkdirAll_def by (intro conjI exI [of _ Map.empty]) auto
qed

lemma landed_length: "length (landed l p bs) \<le> length bs"
  by (simp add: landed_def)

lemma d_append_file: "dk_files d p = Some old \<Longrightarrow> d_append p bs d = d\<lparr>dk_files := (dk_files d)(p \<mapsto> old @ bs)\<rparr>"
  by (simp add: d_append_def)

lemma writeCapped_ok:
  assumes "dk_files d p = Some []" "writeCapped l p src broken limit d = (d2, n, e)" "0 \<le> limit"
  shows "(\<exists>b. d2 = d\<lparr>dk_files := (dk_files d)(p \<mapsto> b)\<rparr> \<and> int (length b) \<le> n \<and> (e = None \<longrightarrow> b = src))
    \<and> 0 \<le> n \<and> n \<le> limit + 1 \<and> (e = None \<longrightarrow> n \<le> limit)"
proof -
  define chunk where "chunk = take (nat limit) src"
  have len: "int (length chunk) \<le> limit" using assms(3) by (simp add: chunk_def)
  have w: "d_Write l p bs d0 = (d0\<lparr>dk_files := (dk_files d0)(p \<mapsto> old @ landed l p bs)\<rparr>,
      if bs = [] \<or> dl_ok l (DWrite p) then Inr () else Inl (Lib ''Write''))" if "dk_files d0 p = Some old" for d0 old bs
    using that by (simp add: d_Write_def d_append_file)
  consider (torn) "\<not> (chunk = [] \<or> dl_ok l (DWrite p))"
    | (cut) "chunk = [] \<or> dl_ok l (DWrite p)" "length src < nat limit \<and> broken"
    | (over) "chunk = [] \<or> dl_ok l (DWrite p)" "\<not> (length src < nat limit \<and> broken)" "length src > nat limit"
    | (whole) "chunk = [] \<or> dl_ok l (DWrite p)" "\<not> (length src < nat limit \<and> broken)" "\<not> length src > nat limit" by blast
  then show ?thesis
  proof cases
    case torn
    have "int (length (landed l p chunk)) \<le> limit" using landed_length [of l p chunk] len by linarith
    then show ?thesis using assms(2,3) torn by (auto simp: writeCapped_def chunk_def [symmetric] w [OF assms(1)])
  next
    case cut
    then have "landed l p chunk = chunk" by (auto simp: landed_def)
    then show ?thesis using assms(2,3) cut len by (auto simp: writeCapped_def chunk_def [symmetric] w [OF assms(1)])
  next
    case over
    then have la: "landed l p chunk = chunk" by (auto simp: landed_def)
    let ?d = "d\<lparr>dk_files := (dk_files d)(p \<mapsto> chunk)\<rparr>"
    have p: "dk_files ?d p = Some chunk" by simp
    have "writeCapped l p src broken limit d = (act_ignore (d_Write l p [src ! nat limit]) ?d, int (length chunk) + 1, Some errExceededCap)"
      using assms(3) over la by (simp add: writeCapped_def chunk_def [symmetric] w [OF assms(1)])
    then have "d2 = ?d\<lparr>dk_files := (dk_files ?d)(p \<mapsto> chunk @ landed l p [src ! nat limit])\<rparr>" "n = int (length chunk) + 1" "e = Some errExceededCap"
      using assms(2) by (simp_all add: act_ignore_def w [OF p])
    moreover have "length (landed l p [src ! nat limit]) \<le> 1" using landed_length [of l p "[src ! nat limit]"] by simp
    ultimately show ?thesis using len by (intro conjI exI [of _ "chunk @ landed l p [src ! nat limit]"]) simp_all
  next
    case whole
    then have "landed l p chunk = chunk" "chunk = src" using assms(3) by (auto simp: landed_def chunk_def)
    then show ?thesis using assms(2,3) whole len by (auto simp: writeCapped_def chunk_def [symmetric] w [OF assms(1)])
  qed
qed

lemma untar_open_ok:
  assumes "untar_open l dst d = (d1, r)" "rooted dest d" "prefix dest dst"
  shows "case r of
      Inl e \<Rightarrow> extends dest 0 d d1
    | Inr u \<Rightarrow> \<exists>d0. extends dest 0 d d0 \<and> dk_files d0 dst = None \<and> d1 = d0\<lparr>dk_files := (dk_files d0)(dst \<mapsto> [])\<rparr>"
proof -
  obtain d0 q where m: "d_MkdirAll l (butlast dst) d = (d0, q)" by (cases "d_MkdirAll l (butlast dst) d")
  have "prefix dest (butlast dst) \<or> prefix (butlast dst) dest"
    using assms(3) by (metis prefix_def prefix_order.eq_iff prefix_same_cases prefixeq_butlast)
  then have e: "extends dest 0 d d0" using mkdir_extends [OF assms(2), of "butlast dst" 0 l] m by simp
  show ?thesis
    using assms(1) e m
    by (auto simp: untar_open_def act_bind_def act_wrap_def d_Create_def split: sum.splits if_splits)
qed

lemma untar_dir_ok:
  assumes "untar_dir l dst d = (d1, r)" "rooted dest d" "prefix dest dst"
  shows "extends dest 0 d d1"
proof -
  obtain d0 q where m: "d_MkdirAll l dst d = (d0, q)" by (cases "d_MkdirAll l dst d")
  have e: "extends dest 0 d d0" using mkdir_extends [OF assms(2), of dst 0 l] assms(3) m by simp
  show ?thesis
    using assms(1) e m
    by (auto simp: untar_dir_def act_bind_def act_wrap_def d_Chmod_def d_Check_def split: sum.splits if_splits)
qed

lemma untar_file_ok:
  assumes "untar_file l dst ul e n w d = (d', n', w', r)" "rooted dest d" "prefix dest dst" "w \<le> 2 * ul"
  shows "extends dest (w' - w) d d' \<and> w \<le> w' \<and> w' \<le> 2 * ul + 1 \<and> (r = None \<longrightarrow> w' \<le> 2 * ul \<and> n' = n + 1) \<and> n' \<le> n + 1"
proof -
  obtain d1 q where o: "untar_open l dst d = (d1, q)" by (cases "untar_open l dst d")
  note open_ok = untar_open_ok [OF o assms(2,3)]
  show ?thesis
  proof (cases q)
    case (Inl er)
    then show ?thesis using assms(1,4) o open_ok by (auto simp: untar_file_def)
  next
    case (Inr u)
    then obtain d0 where d0: "extends dest 0 d d0" "dk_files d0 dst = None" "d1 = d0\<lparr>dk_files := (dk_files d0)(dst \<mapsto> [])\<rparr>"
      using open_ok by auto
    obtain d2 k werr where wc: "writeCapped l dst (te_data e) (te_broken e) (ul * untarSizeFactor - w) d1 = (d2, k, werr)"
      by (cases "writeCapped l dst (te_data e) (te_broken e) (ul * untarSizeFactor - w) d1")
    have lim: "0 \<le> ul * untarSizeFactor - w" using assms(4) by (simp add: untarSizeFactor_def)
    have empty: "dk_files d1 dst = Some []" by (simp add: d0(3))
    note wr = writeCapped_ok [OF empty wc lim]
    then obtain b where b: "d2 = d1\<lparr>dk_files := (dk_files d1)(dst \<mapsto> b)\<rparr>" "int (length b) \<le> k" by blast
    have d2: "extends dest k d0 d2"
      by (rule extends_file [of _ dst _ b]) (simp_all add: b d0 assms(3))
    have "d' = d2" "w' = w + k" "r = None \<longrightarrow> werr = None \<and> n' = n + 1" "n' \<le> n + 1"
      using assms(1) o Inr wc
      by (auto simp: untar_file_def Let_def act_wrap_def d_Close_def d_Chmod_def d_Check_def split: option.splits sum.splits if_splits)
    then show ?thesis using extends_trans [OF d0(1) d2] wr by (auto simp: untarSizeFactor_def)
  qed
qed

lemma untar_entry_ok:
  assumes "untar_entry l dest ul e n w d = (d', n', w', r)" "rooted dest d" "0 \<le> w" "w \<le> 2 * ul"
  shows "extends dest (w' - w) d d' \<and> w \<le> w' \<and> w' \<le> 2 * ul + 1 \<and> (r = None \<longrightarrow> w' \<le> 2 * ul \<and> n' = n + 1) \<and> n' \<le> n + 1"
proof -
  define dst where "dst = resolve dest (th_name (te_header e))"
  have same: "extends dest 0 d d" by (rule extends_refl) simp
  let ?dir = "case untar_dir l dst d of (d1, Inl er) \<Rightarrow> (d1, n, w, Some er) | (d1, Inr _) \<Rightarrow> (d1, n + 1, w, None)"
  have "(\<exists>er. untar_entry l dest ul e n w d = (d, n, w, Some er)) \<or> prefix dest dst
      \<and> (untar_entry l dest ul e n w d = ?dir \<or> untar_entry l dest ul e n w d = untar_file l dst ul e n w d)"
    unfolding untar_entry_def Let_def dst_def [symmetric]
    by (cases "validateTypeflag (th_typeflag (te_header e))") (simp_all cong: if_cong)
  then consider (reg) "untar_entry l dest ul e n w d = untar_file l dst ul e n w d" "prefix dest dst"
    | (dir) "untar_entry l dest ul e n w d = ?dir" "prefix dest dst"
    | (rej) er where "untar_entry l dest ul e n w d = (d, n, w, Some er)" by blast
  then show ?thesis
  proof cases
    case reg
    show ?thesis using untar_file_ok [OF assms(1) [unfolded reg(1)] assms(2) reg(2) assms(4)] .
  next
    case dir
    obtain d1 q where q: "untar_dir l dst d = (d1, q)" by (cases "untar_dir l dst d")
    then show ?thesis using dir(1) untar_dir_ok [OF q assms(2) dir(2)] assms by (cases q) auto
  next
    case rej
    then show ?thesis using assms same by auto
  qed
qed

lemma untar_loop_ok:
  assumes "untar_loop l dest ul m whole es n w d = (d', n', w', r)" "rooted dest d" "0 \<le> w" "w \<le> 2 * ul" "n \<le> m"
  shows "extends dest (w' - w) d d' \<and> w' \<le> 2 * ul + 1 \<and> (r = None \<longrightarrow> w' \<le> 2 * ul) \<and> n' \<le> m"
  using assms
proof (induction es arbitrary: n w d)
  case Nil
  then show ?case using extends_refl [of 0 dest d] by auto
next
  case (Cons e es)
  show ?case
  proof (cases "n \<ge> m")
    case True
    then show ?thesis using Cons.prems extends_refl [of 0 dest d] by auto
  next
    case False
    obtain d1 n1 w1 r1 where en: "untar_entry l dest ul e n w d = (d1, n1, w1, r1)" by (cases "untar_entry l dest ul e n w d")
    note ok = untar_entry_ok [OF en Cons.prems(2-4)]
    show ?thesis
    proof (cases r1)
      case (Some er)
      then show ?thesis using Cons.prems(1) False en ok by auto
    next
      case None
      then have rest: "untar_loop l dest ul m whole es n1 w1 d1 = (d', n', w', r)" using Cons.prems(1) False en by simp
      have "rooted dest d1" using extends_rooted ok Cons.prems(2) by blast
      then have "extends dest (w' - w1) d1 d' \<and> w' \<le> 2 * ul + 1 \<and> (r = None \<longrightarrow> w' \<le> 2 * ul) \<and> n' \<le> m"
        using Cons.IH [OF rest] ok None False Cons.prems(3) by auto
      then show ?thesis using extends_trans [of dest "w1 - w" d d1 "w' - w1" d'] ok by auto
    qed
  qed
qed

text \<open>
  C11: An archive cannot escape, overwrite or exhaust. For any tar stream, however hostile, and whichever
  calls fail, the extraction into an existing directory leaves every file that was there, inside and
  outside, as it was; every new file and directory lies at or below the destination; the new files hold at
  most as many bytes as are counted, which is at most twice the upload's length on success and one byte
  more on failure; and no more entries are extracted than the cap.
\<close>

theorem Untar_confined:
  assumes "Untar l dest ul maxEntries stream d = (d', n, w, r)" "set (prefixes dest) \<subseteq> dk_dirs d" "0 \<le> ul"
  shows "(\<forall>p b. dk_files d p = Some b \<longrightarrow> dk_files d' p = Some b)
    \<and> (\<forall>p. (dk_files d' p \<noteq> None \<and> dk_files d p = None) \<or> (p \<in> dk_dirs d' \<and> p \<notin> dk_dirs d) \<longrightarrow> prefix dest p)
    \<and> int (\<Sum>p \<in> dom (dk_files d') - dom (dk_files d). length (the (dk_files d' p))) \<le> w
    \<and> w \<le> 2 * ul + 1 \<and> (r = None \<longrightarrow> w \<le> 2 * ul) \<and> n \<le> (if maxEntries = 0 then untarMaxEntries else maxEntries)"
proof -
  have "untar_loop l dest ul (if maxEntries = 0 then untarMaxEntries else maxEntries) (snd stream) (fst stream) 0 0 d = (d', n, w, r)"
    using assms(1) by (simp add: Untar_def)
  from untar_loop_ok [OF this] have ok: "extends dest w d d'" "w \<le> 2 * ul + 1" "r = None \<longrightarrow> w \<le> 2 * ul"
    "n \<le> (if maxEntries = 0 then untarMaxEntries else maxEntries)"
    using assms(2,3) by (simp_all add: rooted_def)
  obtain new where new: "dom new \<inter> dom (dk_files d) = {}" "dk_files d' = dk_files d ++ new" "\<forall>p \<in> dom new. prefix dest p"
    "int (\<Sum>p \<in> dom new. length (the (new p))) \<le> w" using ok(1) by (auto simp: extends_def)
  have dirs: "\<forall>p \<in> dk_dirs d' - dk_dirs d. prefix dest p" using ok(1) by (auto simp: extends_def)
  have kept: "\<forall>p b. dk_files d p = Some b \<longrightarrow> dk_files d' p = Some b"
    using new(1) unfolding new(2) by (auto simp: map_add_def dom_def split: option.splits)
  have dom: "dom (dk_files d') - dom (dk_files d) = dom new" using new(1) unfolding new(2) by auto
  have "(\<Sum>p \<in> dom new. length (the (dk_files d' p))) = (\<Sum>p \<in> dom new. length (the (new p)))"
    unfolding new(2) by (intro sum.cong) (auto simp: map_add_def)
  then have size: "int (\<Sum>p \<in> dom (dk_files d') - dom (dk_files d). length (the (dk_files d' p))) \<le> w" using new(4) by (simp add: dom)
  have "prefix dest p" if "dk_files d' p \<noteq> None" "dk_files d p = None" for p
    using that new(3) unfolding new(2) by (auto simp: map_add_def split: option.splits)
  then show ?thesis using kept dirs size ok(2-4) by blast
qed

section \<open>Files elsewhere\<close>

lemma writeCapped_files: "q \<noteq> p \<Longrightarrow> dk_files (fst (writeCapped l p src broken limit d)) q = dk_files d q"
  by (auto simp: writeCapped_def d_Write_def d_append_def act_ignore_def Let_def split: option.splits)

lemma untar_open_files: "q \<noteq> dst \<Longrightarrow> dk_files (fst (untar_open l dst d)) q = dk_files d q"
  by (auto simp: untar_open_def act_bind_def act_wrap_def d_MkdirAll_def d_Create_def split: sum.splits)

lemma untar_dir_files: "dk_files (fst (untar_dir l dst d)) q = dk_files d q"
  by (auto simp: untar_dir_def act_bind_def act_wrap_def d_MkdirAll_def d_Chmod_def d_Check_def split: sum.splits)

lemma untar_file_files: "q \<noteq> dst \<Longrightarrow> dk_files (fst (untar_file l dst ul e n w d)) q = dk_files d q"
  using untar_open_files [of q dst l d] writeCapped_files [of q dst l "te_data e" "te_broken e" "ul * untarSizeFactor - w"]
  by (auto simp: untar_file_def Let_def act_wrap_def d_Close_def d_Chmod_def d_Check_def split: prod.splits sum.splits option.splits)
    (metis fst_conv)+

lemma untar_entry_files: "\<not> prefix dest q \<Longrightarrow> dk_files (fst (untar_entry l dest ul e n w d)) q = dk_files d q"
  using untar_dir_files [of l "resolve dest (th_name (te_header e))" d q]
    untar_file_files [of q "resolve dest (th_name (te_header e))" l ul e n w d]
  by (auto simp: untar_entry_def Let_def split: prod.splits sum.splits)

lemma untar_loop_files: "\<not> prefix dest q \<Longrightarrow> dk_files (fst (untar_loop l dest ul m whole es n w d)) q = dk_files d q"
proof (induction es arbitrary: n w d)
  case (Cons e es)
  obtain d1 n1 w1 r1 where en: "untar_entry l dest ul e n w d = (d1, n1, w1, r1)" by (cases "untar_entry l dest ul e n w d")
  then have "dk_files d1 q = dk_files d q" using untar_entry_files [OF Cons.prems, of l ul e n w d] by simp
  then show ?case using Cons.IH [OF Cons.prems, of n1 w1 d1] en by (cases r1) auto
qed simp

lemma Untar_files: "\<not> prefix dest q \<Longrightarrow> dk_files (fst (Untar l dest ul m stream d)) q = dk_files d q"
  by (simp add: Untar_def untar_loop_files)

section \<open>Where an entry goes\<close>

definition target :: "string \<Rightarrow> path" where
  "target name = filter (\<lambda>c. c \<noteq> [] \<and> c \<noteq> ''.'') (go_split CHR ''/'' name)"

lemma clean_plain: "''..'' \<notin> set cs \<Longrightarrow> fold (clean_step r) cs acc = rev (filter (\<lambda>c. c \<noteq> [] \<and> c \<noteq> ''.'') cs) @ acc"
  by (induction cs arbitrary: acc) (auto simp: clean_step_def)

text \<open>A name without double dots resolves to its own components below the destination: the second check never fires.\<close>

lemma resolve_target:
  assumes "\<not> prefix ''/'' name" "''..'' \<notin> set (go_split CHR ''/'' name)"
  shows "resolve dest name = dest @ target name"
proof -
  let ?t = "target name"
  have plain: "\<forall>c \<in> set ?t. CHR ''/'' \<notin> set c" by (auto simp: target_def dest: go_split_no_sep)
  have cl: "rev (fold (clean_step False) (go_split CHR ''/'' name) []) = ?t" using clean_plain [OF assms(2), of False "[]"] by (simp add: target_def)
  have split: "filter (\<lambda>c. c \<noteq> [] \<and> c \<noteq> ''.'') (go_split CHR ''/'' (go_Clean name)) = ?t \<and> ''..'' \<notin> set (go_split CHR ''/'' (go_Clean name))"
  proof (cases "go_join ''/'' ?t = []")
    case True
    have "?t = []"
    proof (rule ccontr)
      assume n: "?t \<noteq> []"
      then obtain x xs where x: "?t = x # xs" by (cases ?t) auto
      have "x \<in> set ?t" by (simp add: x)
      then have "x \<noteq> []" by (simp add: target_def)
      then show False using True x by (cases xs) auto
    qed
    then show ?thesis using True assms(1) cl by (simp add: go_Clean_def)
  next
    case False
    then have ne: "?t \<noteq> []" by auto
    have "go_Clean name = go_join ''/'' ?t" using assms(1) cl False by (simp add: go_Clean_def)
    then have "go_split CHR ''/'' (go_Clean name) = ?t" using go_split_join [OF plain ne] by simp
    then show ?thesis using assms(2) by (simp add: target_def)
  qed
  show ?thesis
    unfolding resolve_def clean_plain [OF conjunct2 [OF split]] using split by simp
qed

definition plain_entry :: "int \<Rightarrow> TarEntry \<Rightarrow> bool" where
  "plain_entry ul e \<longleftrightarrow>
     (let h = te_header e in
      th_typeflag h = TypeReg \<and> ''path'' \<notin> set (th_pax h) \<and> ''linkpath'' \<notin> set (th_pax h) \<and> validUntarName (th_name h)
      \<and> \<not> hasPathTraversal (th_name h) TypeReg \<and> 0 \<le> th_size h \<and> th_size h \<le> ul \<and> \<not> te_broken e)"

definition place_of :: "path \<Rightarrow> TarEntry \<Rightarrow> path" where
  "place_of dest e = dest @ target (th_name (te_header e))"

definition free_for :: "path \<Rightarrow> disk \<Rightarrow> bool" where
  "free_for p d \<longleftrightarrow> (\<forall>q \<in> set (prefixes p). dk_files d q = None) \<and> p \<notin> dk_dirs d"

definition apart :: "path \<Rightarrow> path \<Rightarrow> bool" where
  "apart p q \<longleftrightarrow> \<not> prefix p q \<and> \<not> prefix q p"

lemma write_whole:
  assumes "dl_ok l = (\<lambda>_. True)" "dk_files d p = Some []" "int (length src) \<le> limit"
  shows "writeCapped l p src False limit d = (d\<lparr>dk_files := (dk_files d)(p \<mapsto> src)\<rparr>, int (length src), None)"
proof -
  have "take (nat limit) src = src" "\<not> nat limit < length src" "\<not> limit < 0" using assms(3) by simp_all
  then show ?thesis using assms(1,2) by (simp add: writeCapped_def d_Write_def d_append_def landed_def)
qed

lemma untar_plain_entry:
  assumes "dl_ok l = (\<lambda>_. True)" "plain_entry ul e" "rooted dest d" "free_for (place_of dest e) d" "w + int (length (te_data e)) \<le> 2 * ul"
  shows "untar_entry l dest ul e n w d
    = (d\<lparr>dk_files := (dk_files d)(place_of dest e \<mapsto> te_data e), dk_dirs := dk_dirs d \<union> set (prefixes (butlast (place_of dest e)))\<rparr>,
       n + 1, w + int (length (te_data e)), None)"
proof -
  let ?p = "place_of dest e" and ?h = "te_header e"
  have "\<not> prefix ''/'' (th_name ?h)" "''..'' \<notin> set (go_split CHR ''/'' (th_name ?h))"
    using assms(2) by (auto simp: plain_entry_def Let_def hasPathTraversal_def list_ex_iff)
  then have res: "resolve dest (th_name ?h) = ?p" by (simp add: resolve_target place_of_def)
  have pre: "prefix dest ?p" by (simp add: place_of_def)
  have clear: "\<forall>q. prefix q (butlast ?p) \<longrightarrow> dk_files d q = None"
  proof (intro allI impI)
    fix q assume "prefix q (butlast ?p)"
    then have "prefix q ?p" using prefixeq_butlast by (rule prefix_order.trans)
    then show "dk_files d q = None" using assms(4) by (simp add: free_for_def)
  qed
  have self: "dk_files d ?p = None" "?p \<notin> dk_dirs d" using assms(4) by (simp_all add: free_for_def)
  have "[] \<in> dk_dirs d" using assms(3) unfolding rooted_def by (meson Nil_prefix in_set_prefixes subsetD)
  then have "?p \<noteq> []" using self(2) by auto
  then have nb: "\<not> prefix ?p (butlast ?p)" by (metis diff_less length_butlast length_greater_0_conv less_numeral_extra(1) not_less prefix_length_le)
  let ?d0 = "d\<lparr>dk_dirs := dk_dirs d \<union> set (prefixes (butlast ?p))\<rparr>"
  let ?d1 = "?d0\<lparr>dk_files := (dk_files d)(?p \<mapsto> [])\<rparr>"
  have op: "untar_open l ?p d = (?d1, Inr ())"
    using assms(1) clear self nb by (simp add: untar_open_def act_bind_def act_wrap_def d_MkdirAll_def d_Create_def)
  have lim: "int (length (te_data e)) \<le> ul * untarSizeFactor - w" using assms(5) by (simp add: untarSizeFactor_def)
  have "te_broken e = False" using assms(2) by (simp add: plain_entry_def Let_def)
  then have wr: "writeCapped l ?p (te_data e) (te_broken e) (ul * untarSizeFactor - w) ?d1
      = (?d1\<lparr>dk_files := (dk_files ?d1)(?p \<mapsto> te_data e)\<rparr>, int (length (te_data e)), None)"
    using write_whole [OF assms(1) _ lim, of ?d1 ?p] by simp
  have "untar_entry l dest ul e n w d = untar_file l ?p ul e n w d"
    using assms(2) res pre by (simp add: untar_entry_def plain_entry_def Let_def validateTypeflag_def TypeReg_def TypeDir_def)
  then show ?thesis
    using assms(1) op wr by (simp add: untar_file_def d_Close_def d_Chmod_def d_Check_def act_wrap_def Let_def)
qed

lemma free_for_other:
  assumes "free_for p d" "apart p q"
  shows "free_for p (d\<lparr>dk_files := (dk_files d)(q \<mapsto> b), dk_dirs := dk_dirs d \<union> set (prefixes (butlast q))\<rparr>)"
  using assms prefix_order.trans [OF _ prefixeq_butlast, of p q] by (auto simp: free_for_def apart_def)

lemma untar_plain_loop:
  assumes "dl_ok l = (\<lambda>_. True)" "list_all (plain_entry ul) es" "rooted dest d" "\<forall>e \<in> set es. free_for (place_of dest e) d"
    "sorted_wrt apart (map (place_of dest) es)" "w + int (sum_list (map (\<lambda>e. length (te_data e)) es)) \<le> 2 * ul" "n + length es < m"
  shows "\<exists>d'. untar_loop l dest ul m True es n w d = (d', n + length es, w + int (sum_list (map (\<lambda>e. length (te_data e)) es)), None)
    \<and> (\<forall>e \<in> set es. dk_files d' (place_of dest e) = Some (te_data e))
    \<and> (\<forall>q. q \<notin> place_of dest ` set es \<longrightarrow> dk_files d' q = dk_files d q)"
  using assms(2-)
proof (induction es arbitrary: n w d)
  case Nil
  then show ?case by simp
next
  case (Cons e es)
  let ?p = "place_of dest e"
  let ?d = "d\<lparr>dk_files := (dk_files d)(?p \<mapsto> te_data e), dk_dirs := dk_dirs d \<union> set (prefixes (butlast ?p))\<rparr>"
  let ?w = "w + int (length (te_data e))"
  have one: "untar_entry l dest ul e n w d = (?d, n + 1, ?w, None)"
    using Cons.prems(1-5) by (intro untar_plain_entry [OF assms(1)]) simp_all
  have ap: "\<forall>x \<in> set es. apart ?p (place_of dest x)" using Cons.prems(4) by simp
  have fr: "free_for (place_of dest x) ?d" if "x \<in> set es" for x
    using free_for_other [of "place_of dest x" d ?p] Cons.prems(3) ap that by (auto simp: apart_def)
  have "rooted dest ?d" using Cons.prems(2) by (auto simp: rooted_def)
  then obtain d' where d': "untar_loop l dest ul m True es (n + 1) ?w ?d
      = (d', n + 1 + length es, ?w + int (sum_list (map (\<lambda>e. length (te_data e)) es)), None)"
    "\<forall>x \<in> set es. dk_files d' (place_of dest x) = Some (te_data x)"
    "\<forall>q. q \<notin> place_of dest ` set es \<longrightarrow> dk_files d' q = dk_files ?d q"
    using Cons.IH [of ?d ?w "n + 1"] Cons.prems(1,4-6) fr by auto
  have "?p \<notin> place_of dest ` set es" using ap by (auto simp: apart_def)
  then have "dk_files d' ?p = Some (te_data e)" using d'(3) by simp
  then show ?case using one d' Cons.prems(6) by (intro exI [of _ d']) (auto simp: algebra_simps)
qed

text \<open>
  C28: An honest archive arrives whole. When the entries are ordinary files with valid names that are neither
  equal nor below one another, the destination holds nothing in their way, their sizes are within the two
  caps, there are fewer than the capped number, and no call fails, the extraction succeeds, counts every
  entry and byte, puts exactly the bytes of each entry at the components of its name below the destination,
  and changes no other file.
\<close>

theorem Untar_extracts:
  assumes "dl_ok l = (\<lambda>_. True)" "list_all (plain_entry ul) es" "set (prefixes dest) \<subseteq> dk_dirs d" "\<forall>e \<in> set es. free_for (place_of dest e) d"
    "sorted_wrt apart (map (place_of dest) es)" "int (sum_list (map (\<lambda>e. length (te_data e)) es)) \<le> 2 * ul"
    "length es < (if m = 0 then untarMaxEntries else m)"
  shows "\<exists>d'. Untar l dest ul m (es, True) d = (d', length es, int (sum_list (map (\<lambda>e. length (te_data e)) es)), None)
    \<and> (\<forall>e \<in> set es. dk_files d' (place_of dest e) = Some (te_data e))
    \<and> (\<forall>q. q \<notin> place_of dest ` set es \<longrightarrow> dk_files d' q = dk_files d q)"
  using untar_plain_loop [OF assms(1,2), of dest d 0 0 "if m = 0 then untarMaxEntries else m"] assms(3-) by (simp add: Untar_def rooted_def)

lemma untar_loop_count:
  "untar_loop l dest ul m whole es n w d = (d', n', w', None) \<Longrightarrow> n' = n + length es \<and> n' < m"
proof (induction es arbitrary: n w d)
  case (Cons e es)
  obtain d1 n1 w1 r1 where en: "untar_entry l dest ul e n w d = (d1, n1, w1, r1)" by (cases "untar_entry l dest ul e n w d")
  then have "r1 = None" using Cons.prems by (cases r1) (auto split: if_splits)
  moreover have "n1 = n + 1"
    using en \<open>r1 = None\<close> unfolding untar_entry_def untar_file_def Let_def validateTypeflag_def
    by (auto split: if_splits prod.splits sum.splits option.splits)
  ultimately have "\<not> m \<le> n" "untar_loop l dest ul m whole es (n + 1) w1 d1 = (d', n', w', None)"
    using Cons.prems en by (auto split: if_splits)
  then show ?case using Cons.IH [of "n + 1" w1 d1] by simp
qed (auto split: if_splits)

text \<open>
  An archive of exactly as many entries as the cap is refused, although it does not exceed it: the
  count is compared before the end of the archive is looked for.
\<close>

theorem Untar_refuses_full:
  assumes "length (fst stream) = (if maxEntries = 0 then untarMaxEntries else maxEntries)"
  shows "snd (snd (snd (Untar l dest ul maxEntries stream d))) \<noteq> None"
proof
  assume n: "snd (snd (snd (Untar l dest ul maxEntries stream d))) = None"
  obtain d' n' w' r where u: "Untar l dest ul maxEntries stream d = (d', n', w', r)" by (cases "Untar l dest ul maxEntries stream d")
  then have "untar_loop l dest ul (if maxEntries = 0 then untarMaxEntries else maxEntries) (snd stream) (fst stream) 0 0 d = (d', n', w', None)"
    using n by (simp add: Untar_def)
  from untar_loop_count [OF this] assms show False by (metis add_0 less_irrefl)
qed

section \<open>Examples\<close>

definition one_file :: TarEntry where
  "one_file = \<lparr>te_header = \<lparr>th_name = ''a/b'', th_typeflag = TypeReg, th_size = 2, th_pax = []\<rparr>, te_data = ''hi'', te_broken = False\<rparr>"

definition sound_disk :: disk_lib where
  "sound_disk = \<lparr>dl_ok = (\<lambda>_. True), dl_torn = (\<lambda>_. 0), dl_kept = (\<lambda>_. False)\<rparr>"

definition bare_disk :: disk where "bare_disk = \<lparr>dk_files = Map.empty, dk_dirs = {[], [''t'']}\<rparr>"

lemma one_file_place: "place_of [''t''] one_file = [''t'', ''a'', ''b'']"
  by (simp add: place_of_def target_def one_file_def)

lemma one_file_plain: "plain_entry 2 one_file"
proof -
  have "utf8_valid ''a/b''" by (rule ascii_valid) (simp add: all_ascii_def)
  then show ?thesis
    by (simp add: plain_entry_def Let_def one_file_def validUntarName_def hasPathTraversal_def TypeReg_def untarPathMax_def untarNameMax_def
        go_contains_def suffix_def)
qed

lemma bare_ready: "set (prefixes [''t'']) \<subseteq> dk_dirs bare_disk" "free_for (place_of [''t''] one_file) bare_disk"
  by (auto simp: bare_disk_def free_for_def one_file_place)

theorem Untar_extracts_witness:
  "\<exists>d'. Untar sound_disk [''t''] 2 0 ([one_file], True) bare_disk = (d', 1, 2, None) \<and> dk_files d' [''t'', ''a'', ''b''] = Some ''hi''"
  using Untar_extracts [of sound_disk 2 "[one_file]" "[''t'']" bare_disk 0] one_file_plain bare_ready one_file_place
  by (auto simp: sound_disk_def one_file_def untarMaxEntries_def)

theorem Untar_confined_witness: "fst (snd (snd (Untar sound_disk [''t''] 2 0 ([one_file], True) bare_disk))) \<le> 5"
proof -
  obtain d' n w r where u: "Untar sound_disk [''t''] 2 0 ([one_file], True) bare_disk = (d', n, w, r)"
    by (cases "Untar sound_disk [''t''] 2 0 ([one_file], True) bare_disk")
  from Untar_confined [OF u bare_ready(1)] show ?thesis by (simp add: u)
qed

theorem Untar_refuses_full_witness: "snd (snd (snd (Untar sound_disk [''t''] 2 1 ([one_file], True) bare_disk))) \<noteq> None"
  by (rule Untar_refuses_full) simp

end
