(* ===== verification/Finalize.thy ===== *)
theory Finalize
  imports Upload Untar Scoring
begin

text \<open>
  \<^verbatim>\<open>internal/ingest/archives/finalize.go\<close> and \<^verbatim>\<open>scan_extract.go\<close>: a complete upload becomes a published archive.
  It is verified, staged in a directory of its own and renamed into place; every failure removes what was
  staged. SHA-256, the tar reader, the JSON of the receipt and the content scanner are arguments.
\<close>

section \<open>Paths\<close>

text \<open>Below the staging root. Upload ids are hexadecimal and archive ids are checked, so each is one component.\<close>

definition tmp_path :: "string \<Rightarrow> path" where "tmp_path uid = [''.tmp-archives'', uid]"
definition finalize_dir :: "string \<Rightarrow> path" where "finalize_dir uid = [''.tmp-archives'', uid @ ''.finalize'']"
definition final_path :: "string \<Rightarrow> path" where "final_path aid = [''archives'', aid]"

text \<open>\<^verbatim>\<open>filepath.Join\<close> with a file name that may be a single dot.\<close>

definition join_name :: "path \<Rightarrow> string \<Rightarrow> path" where
  "join_name dir name = (if name = ''.'' then dir else dir @ [name])"

section \<open>Data\<close>

record FinalizeReceipt =
  fr_archiveID :: string
  fr_receivedAt :: int
  fr_deliveredBy :: string
  fr_identity :: "ItemIdentity option"
  fr_mediaType :: string
  fr_matcherID :: string
  fr_source :: string
  fr_sizeBytes :: int
  fr_sha256 :: string
  fr_sha256Verified :: bool
  fr_stagedPath :: path
  fr_entriesExtracted :: nat
  fr_rawFilename :: string
  fr_acquisition :: "ItemIdentity option"
  fr_dataSubject :: string
  fr_audience :: "string list option"

record finalize_lib =
  fz_sha256 :: "bytes \<Rightarrow> bytes"
  fz_tar :: "bytes \<Rightarrow> TarEntry list \<times> bool"
  fz_encode :: "FinalizeReceipt \<Rightarrow> bytes option"
  fz_decode :: "bytes \<Rightarrow> FinalizeReceipt option"
  fz_scanner :: "(bytes \<Rightarrow> string \<Rightarrow> err + ScanResult) option"
  fz_sources :: "SourceRegistry option"
  fz_identity :: "ItemIdentity option"
  fz_now :: int

definition recognizerScanMediaType :: string where "recognizerScanMediaType = ''archive/recognizer-scan''"
definition recognizerScannerKind :: string where "recognizerScannerKind = ''recognizer-scanner''"

definition ErrSHAMismatch :: err where "ErrSHAMismatch = Err ''sha256 mismatch''"
definition ErrSizeMismatch :: err where "ErrSizeMismatch = Err ''size mismatch''"
definition ErrArchiveExists :: err where "ErrArchiveExists = Err ''archive_id already exists''"
definition ErrSourceNotAuthorized :: err where "ErrSourceNotAuthorized = Err ''source not authorized for recognizer-scan lane''"
definition ErrScanMissingOCR :: err where "ErrScanMissingOCR = Err ''recognizer-scan: missing or empty ocr.txt''"
definition ErrExtractUnscanned :: err where "ErrExtractUnscanned = Err ''recognizer-scan: no scanner configured for extracted text''"

definition scannerLanePolicy :: "SourceRegistry option \<Rightarrow> string \<Rightarrow> sourcePolicy option" where
  "scannerLanePolicy reg sourceID =
     (case Source_Lookup reg sourceID of
        None \<Rightarrow> None
      | Some pol \<Rightarrow> if lp_kind pol \<noteq> recognizerScannerKind then None else Some pol)"

section \<open>Files\<close>

definition cleanupTmp :: "disk_lib \<Rightarrow> string \<Rightarrow> disk \<Rightarrow> disk" where
  "cleanupTmp l uid d = act_ignore (d_RemoveAll l (finalize_dir uid)) (act_ignore (d_Remove l (tmp_path uid)) d)"

text \<open>An action whose failure is followed by a clean-up.\<close>

definition act_catch :: "(disk \<Rightarrow> disk) \<Rightarrow> 'a act \<Rightarrow> 'a act" where
  "act_catch f m d = (case m d of (d', Inl e) \<Rightarrow> (f d', Inl e) | r \<Rightarrow> r)"

definition atomicWriteSibling :: "disk_lib \<Rightarrow> path \<Rightarrow> bytes \<Rightarrow> unit act" where
  "atomicWriteSibling l p data =
     (let tmp = butlast p @ [last p @ ''.tmp''] in
      act_bind (act_wrap ''create temp'' (d_Create l tmp)) (\<lambda>_.
      act_catch (act_ignore (d_Remove l tmp))
        (act_bind (act_wrap ''write temp'' (d_Write l tmp data)) (\<lambda>_.
         act_bind (act_wrap ''sync temp'' (d_Sync l tmp)) (\<lambda>_.
         act_bind (act_wrap ''close temp'' (d_Close l tmp)) (\<lambda>_.
         act_bind (act_wrap ''chmod temp'' (d_Chmod l tmp)) (\<lambda>_.
         act_wrap ''rename'' (d_Rename l tmp p))))))))"

definition make_dir :: "disk_lib \<Rightarrow> string \<Rightarrow> path \<Rightarrow> unit act" where
  "make_dir l what p = act_bind (act_wrap (''mkdir '' @ what) (d_MkdirAll l p)) (\<lambda>_. act_wrap (''chmod '' @ what) (d_Chmod l p))"

section \<open>The extracted text (scan\_extract.go)\<close>

definition nl :: string where "nl = [CHR 0x0A]"

definition renderExtractedMarkdown :: "bytes \<Rightarrow> ScanResult \<Rightarrow> err + bytes" where
  "renderExtractedMarkdown ocr verdict =
     (if TrimSpace ocr = [] then Inl ErrScanMissingOCR
      else if sr_verdict verdict = VerdictQuarantine then
        Inr (''# Scanned document (withheld)'' @ nl @ nl
             @ ''The extracted text of this scan was quarantined by the content scanner ''
             @ ''and is not reproduced here.'' @ nl @ nl
             @ ''- score: '' @ show_fixed2 (sr_total verdict) @ nl
             @ ''- signals: '' @ go_join '', '' (map sig_name (sr_signals verdict))
             @ nl @ ''- raw text: tree/ocr.txt (unmodified, for human review)'' @ nl)
      else Inr (''# Scanned document'' @ nl @ nl @ ocr @ nl))"

definition writeExtractedMarkdown :: "disk_lib \<Rightarrow> finalize_lib \<Rightarrow> path \<Rightarrow> unit act" where
  "writeExtractedMarkdown l fz dir d =
     (case d_ReadFile l (dir @ [''tree'', ''ocr.txt'']) d of
        (d, Inl e) \<Rightarrow> (d, Inl (if err_is e NotExist then ErrScanMissingOCR else Wrap ''read ocr.txt'' e))
      | (d, Inr ocr) \<Rightarrow>
          (case fz_scanner fz of
             None \<Rightarrow> (d, Inl ErrExtractUnscanned)
           | Some scan \<Rightarrow>
               (case scan ocr ''text/plain'' of
                  Inl e \<Rightarrow> (d, Inl (Wrap ''scan extracted text'' e))
                | Inr verdict \<Rightarrow>
                    (case renderExtractedMarkdown ocr verdict of
                       Inl e \<Rightarrow> (d, Inl e)
                     | Inr md \<Rightarrow> act_wrap ''write content.extracted.md''
                         (atomicWriteSibling l (dir @ [''content.extracted.md'']) md) d))))"

section \<open>Finalize\<close>

definition verify_upload :: "disk_lib \<Rightarrow> finalize_lib \<Rightarrow> UploadState \<Rightarrow> unit act" where
  "verify_upload l fz st =
     (case hex_Decode (um_sha256 (us_meta st)) of
        None \<Rightarrow> act_fail (Wrap ''invalid claimed hex'' ErrSHAMismatch)
      | Some claimed \<Rightarrow>
          if fz_sha256 fz (us_hashed st) \<noteq> claimed then act_fail ErrSHAMismatch
          else act_bind (act_wrap ''stat tmp'' (d_Stat l (tmp_path (us_id st)))) (\<lambda>size.
            if map_option int size \<noteq> Some (us_length st) then act_fail ErrSizeMismatch else act_return ()))"

definition base_receipt :: "finalize_lib \<Rightarrow> UploadState \<Rightarrow> FinalizeReceipt" where
  "base_receipt fz st =
     (let m = us_meta st in
      \<lparr>fr_archiveID = us_archiveID st, fr_receivedAt = fz_now fz, fr_deliveredBy = us_sourceID st, fr_identity = fz_identity fz,
       fr_mediaType = um_mediaType m, fr_matcherID = um_matcherID m, fr_source = [], fr_sizeBytes = us_length st,
       fr_sha256 = um_sha256 m, fr_sha256Verified = True, fr_stagedPath = final_path (us_archiveID st), fr_entriesExtracted = 0,
       fr_rawFilename = [],
       fr_acquisition = (if um_acqProvider m \<noteq> [] then Some \<lparr>id_accountID = um_acqAccountID m, id_provider = um_acqProvider m,
           id_authMethod = um_acqAuthMethod m, id_scopes = [], id_tenant = []\<rparr> else None),
       fr_dataSubject = um_dataSubject m, fr_audience = um_audience m\<rparr>)"

definition lane_receipt :: "sourcePolicy option \<Rightarrow> UploadState \<Rightarrow> FinalizeReceipt \<Rightarrow> FinalizeReceipt" where
  "lane_receipt lane st r =
     (case lane of
        None \<Rightarrow> r
      | Some pol \<Rightarrow> r\<lparr>fr_source := us_sourceID st,
          fr_dataSubject := (if fr_dataSubject r = [] then lp_dataSubjectDefault pol else fr_dataSubject r),
          fr_audience := lp_audienceDefault pol\<rparr>)"

definition stage_raw :: "disk_lib \<Rightarrow> UploadState \<Rightarrow> FinalizeReceipt \<Rightarrow> FinalizeReceipt act" where
  "stage_raw l st r =
     (let raw = finalize_dir (us_id st) @ [''raw'']; name = um_archiveFilename (us_meta st); dst = join_name raw name in
      act_bind (make_dir l ''raw'' raw) (\<lambda>_.
      act_bind (act_wrap ''rename tmp -> raw'' (d_Rename l (tmp_path (us_id st)) dst)) (\<lambda>_.
      act_bind (act_wrap ''chmod raw file'' (d_Chmod l dst)) (\<lambda>_.
      act_return (r\<lparr>fr_rawFilename := name, fr_entriesExtracted := 0\<rparr>)))))"

text \<open>The extraction of the tar: its entries, or its error; the file is closed either way.\<close>

definition untar_act :: "disk_lib \<Rightarrow> finalize_lib \<Rightarrow> UploadState \<Rightarrow> path \<Rightarrow> nat act" where
  "untar_act l fz st tree d =
     (case dk_files d (tmp_path (us_id st)) of
        None \<Rightarrow> (d, Inl (Wrap ''open tmp for untar'' NotExist))
      | Some content \<Rightarrow>
          (case Untar l tree (us_length st) 0 (fz_tar fz content) d of
             (d', n, w, Some e) \<Rightarrow> (d', Inl (Wrap ''untar'' e))
           | (d', n, w, None) \<Rightarrow>
               (case d_Close l (tmp_path (us_id st)) d' of
                  (d'', Inl e) \<Rightarrow> (d'', Inl (Wrap ''untar'' (Wrap ''close tmp after untar'' e)))
                | (d'', Inr _) \<Rightarrow> (d'', Inr n))))"

definition remove_tmp :: "disk_lib \<Rightarrow> string \<Rightarrow> unit act" where
  "remove_tmp l uid d =
     (case d_Remove l (tmp_path uid) d of
        (d', Inl e) \<Rightarrow> (d', if err_is e NotExist then Inr () else Inl (Wrap ''remove tmp after untar'' e))
      | (d', Inr _) \<Rightarrow> (d', Inr ()))"

definition stage_tar :: "disk_lib \<Rightarrow> finalize_lib \<Rightarrow> bool \<Rightarrow> UploadState \<Rightarrow> FinalizeReceipt \<Rightarrow> FinalizeReceipt act" where
  "stage_tar l fz isScanner st r =
     (let dir = finalize_dir (us_id st); tree = dir @ [''tree''] in
      act_bind (make_dir l ''tree'' tree) (\<lambda>_.
      act_bind (act_wrap ''open tmp for untar'' (d_Open l (tmp_path (us_id st)))) (\<lambda>_.
      act_bind (untar_act l fz st tree) (\<lambda>n.
      act_bind (remove_tmp l (us_id st)) (\<lambda>_.
      act_bind (if isScanner then act_wrap ''extract'' (writeExtractedMarkdown l fz dir) else act_return ()) (\<lambda>_.
      act_return (r\<lparr>fr_entriesExtracted := n\<rparr>)))))))"

definition stage_content :: "disk_lib \<Rightarrow> finalize_lib \<Rightarrow> bool \<Rightarrow> UploadState \<Rightarrow> FinalizeReceipt \<Rightarrow> FinalizeReceipt act" where
  "stage_content l fz isScanner st r =
     (case Shape (us_meta st) of
        Some MediaRaw \<Rightarrow> stage_raw l st r
      | Some MediaTar \<Rightarrow> stage_tar l fz isScanner st r
      | None \<Rightarrow> act_fail (Err ''internal: unknown media shape''))"

definition write_receipt :: "disk_lib \<Rightarrow> finalize_lib \<Rightarrow> UploadState \<Rightarrow> FinalizeReceipt \<Rightarrow> unit act" where
  "write_receipt l fz st r =
     (case fz_encode fz r of
        None \<Rightarrow> act_fail (Wrap ''marshal receipt'' (Lib ''json.MarshalIndent''))
      | Some b \<Rightarrow> act_wrap ''write metadata'' (atomicWriteSibling l (finalize_dir (us_id st) @ [''metadata.json'']) b))"

definition stage_all :: "disk_lib \<Rightarrow> finalize_lib \<Rightarrow> UploadState \<Rightarrow> FinalizeReceipt act" where
  "stage_all l fz st =
     (let lane = scannerLanePolicy (fz_sources fz) (us_sourceID st) in
      act_bind (verify_upload l fz st) (\<lambda>_.
      act_bind (make_dir l ''finalize'' (finalize_dir (us_id st))) (\<lambda>_.
      act_bind (stage_content l fz (lane \<noteq> None) st (lane_receipt lane st (base_receipt fz st))) (\<lambda>r.
      act_bind (write_receipt l fz st r) (\<lambda>_.
      act_bind (act_wrap ''mkdir archives parent'' (d_MkdirAll l [''archives''])) (\<lambda>_.
      act_return r))))))"

definition publish :: "disk_lib \<Rightarrow> UploadState \<Rightarrow> unit act" where
  "publish l st d =
     (let dir = finalize_dir (us_id st); dst = final_path (us_archiveID st) in
      case d_Stat l dst d of
        (d1, Inr _) \<Rightarrow> (act_ignore (d_RemoveAll l dir) d1, Inl ErrArchiveExists)
      | (d1, Inl _) \<Rightarrow> act_catch (act_ignore (d_RemoveAll l dir)) (act_wrap ''rename to final'' (d_Rename l dir dst)) d1)"

definition Finalize :: "disk_lib \<Rightarrow> finalize_lib \<Rightarrow> UploadState \<Rightarrow> FinalizeReceipt act" where
  "Finalize l fz st =
     (if um_mediaType (us_meta st) = recognizerScanMediaType \<and> scannerLanePolicy (fz_sources fz) (us_sourceID st) = None
      then (\<lambda>d. (cleanupTmp l (us_id st) d, Inl ErrSourceNotAuthorized))
      else act_bind (act_catch (cleanupTmp l (us_id st)) (stage_all l fz st)) (\<lambda>r.
           act_bind (publish l st) (\<lambda>_. act_return r)))"

section \<open>What Finalize changes\<close>

definition own_area :: "string \<Rightarrow> path set" where
  "own_area uid = {q. prefix (tmp_path uid) q} \<union> {q. strict_prefix (finalize_dir uid) q}"

lemma own_areaI: "prefix (finalize_dir uid @ x # xs) q \<Longrightarrow> q \<in> own_area uid"
  by (auto simp: own_area_def strict_prefix_def dest: append_prefixD)

lemma own_tmp: "tmp_path uid \<in> own_area uid"
  by (simp add: own_area_def)

lemma touches_catch [touch]: "touches P m \<Longrightarrow> alters P f \<Longrightarrow> touches P (act_catch f m)"
  by (auto simp: touches_def alters_def act_catch_def split: prod.splits sum.splits) (metis fst_conv)+

lemma touches_make_dir [touch]: "touches P (make_dir l what p)"
  unfolding make_dir_def by (intro touch)

lemma touches_verify [touch]: "touches P (verify_upload l fz st)"
  unfolding verify_upload_def by (auto intro!: touch split: option.split)

lemma touches_atomic_write:
  assumes "{q. prefix p q} \<subseteq> P" "{q. prefix (butlast p @ [last p @ ''.tmp'']) q} \<subseteq> P"
  shows "touches P (atomicWriteSibling l p data)"
proof -
  have "butlast p @ [last p @ ''.tmp''] \<in> P" using assms(2) by blast
  then show ?thesis unfolding atomicWriteSibling_def Let_def using assms by (intro touch) auto
qed

lemma touches_extract:
  "touches (own_area (us_id st)) (writeExtractedMarkdown l fz (finalize_dir (us_id st)))"
proof -
  let ?p = "finalize_dir (us_id st) @ [''content.extracted.md'']"
  have w: "touches (own_area (us_id st)) (act_wrap m (atomicWriteSibling l ?p md))" for m md
    by (intro touch touches_atomic_write) (auto intro: own_areaI)
  have "fst (d_ReadFile l q d) = d" for q d by (simp add: d_ReadFile_def)
  then show ?thesis
    using w unfolding touches_def alters_def writeExtractedMarkdown_def
    by (auto split: prod.splits sum.splits option.splits) (metis fst_conv)+
qed

lemma touches_untar: "touches (own_area (us_id st)) (untar_act l fz st (finalize_dir (us_id st) @ [''tree'']))"
  unfolding touches_def alters_def
proof (intro allI impI)
  fix d q assume q: "q \<notin> own_area (us_id st)"
  then have "\<not> prefix (finalize_dir (us_id st) @ [''tree'']) q" using own_areaI by blast
  note u = Untar_files [OF this, of l "us_length st" 0]
  show "dk_files (fst (untar_act l fz st (finalize_dir (us_id st) @ [''tree'']) d)) q = dk_files d q"
  proof (cases "dk_files d (tmp_path (us_id st))")
    case (Some c)
    obtain d' n w r where e: "Untar l (finalize_dir (us_id st) @ [''tree'']) (us_length st) 0 (fz_tar fz c) d = (d', n, w, r)"
      by (cases "Untar l (finalize_dir (us_id st) @ [''tree'']) (us_length st) 0 (fz_tar fz c) d")
    then show ?thesis using u [of "fz_tar fz c" d] Some
      by (cases r) (auto simp: untar_act_def d_Close_def d_Check_def split: sum.splits)
  qed (simp add: untar_act_def)
qed

lemma touches_remove_tmp: "touches (own_area uid) (remove_tmp l uid)"
  using touches_file(3) [OF own_tmp, of uid l]
  by (auto simp: remove_tmp_def touches_def alters_def split: prod.splits sum.splits) (metis fst_conv)+

lemma own_tree: "{q. prefix (tmp_path uid) q} \<subseteq> own_area uid" "{q. prefix (finalize_dir uid @ [x]) q} \<subseteq> own_area uid"
  using own_areaI by (auto simp: own_area_def)

lemma touches_stage_content: "touches (own_area (us_id st)) (stage_content l fz lane st r)"
proof -
  let ?A = "own_area (us_id st)"
  have "{q. prefix (join_name (finalize_dir (us_id st) @ [''raw'']) name) q} \<subseteq> ?A" for name
    by (auto simp: join_name_def intro: own_areaI)
  then have raw: "touches ?A (stage_raw l st r)"
    unfolding stage_raw_def Let_def by (intro touch own_tree)
  have tar: "touches ?A (stage_tar l fz lane st r)"
    unfolding stage_tar_def Let_def
    by (intro touch touches_untar touches_remove_tmp) (auto intro: touch touches_extract)
  show ?thesis unfolding stage_content_def using raw tar by (auto intro: touch split: option.split MediaShape.split)
qed

lemma touches_stage_all: "touches (own_area (us_id st)) (stage_all l fz st)"
proof -
  have w: "touches (own_area (us_id st)) (write_receipt l fz st r)" for r
    unfolding write_receipt_def
    by (auto intro!: touch touches_atomic_write own_tree simp: own_tree split: option.split)
      (auto intro: own_areaI)
  show ?thesis unfolding stage_all_def Let_def by (intro touch touches_stage_content w)
qed

lemma alters_cleanup: "alters (own_area uid \<union> {finalize_dir uid}) (cleanupTmp l uid)"
proof -
  have "{q. prefix (finalize_dir uid) q} \<subseteq> own_area uid \<union> {finalize_dir uid}" by (auto simp: own_area_def strict_prefix_def)
  then have a: "alters (own_area uid \<union> {finalize_dir uid}) (act_ignore (d_RemoveAll l (finalize_dir uid)))" by (intro touch)
  have "alters (own_area uid \<union> {finalize_dir uid}) (act_ignore (d_Remove l (tmp_path uid)))"
    by (intro touch) (simp add: own_tmp)
  then show ?thesis using alters_comp [OF _ a] unfolding cleanupTmp_def [abs_def] by blast
qed

section \<open>Archives are never altered\<close>

lemma act_catch_Inr: "act_catch f m d = (d', Inr x) \<longleftrightarrow> m d = (d', Inr x)"
  by (auto simp: act_catch_def split: prod.splits sum.splits)

lemma d_Stat_same: "fst (d_Stat l p d) = d"
  by (simp add: d_Stat_def)

text \<open>The directory of an upload, with what belongs to it.\<close>

definition upload_area :: "string \<Rightarrow> path set" where
  "upload_area uid = own_area uid \<union> {finalize_dir uid}"

lemma upload_area_dir: "{q. prefix (finalize_dir uid) q} \<subseteq> upload_area uid"
  by (auto simp: upload_area_def own_area_def strict_prefix_def)

lemma upload_area_apart: "q \<in> upload_area uid \<Longrightarrow> \<not> prefix (final_path aid) q"
  by (auto simp: upload_area_def own_area_def tmp_path_def finalize_dir_def final_path_def strict_prefix_def prefix_def)

lemma alters_drop_dir: "alters (upload_area uid) (act_ignore (d_RemoveAll l (finalize_dir uid)))"
  by (intro touch upload_area_dir)

lemma publish_failed:
  assumes "publish l st d = (d', Inl e)" "q \<notin> upload_area (us_id st)"
  shows "dk_files d' q = dk_files d q"
proof -
  have s: "d_Stat l (final_path (us_archiveID st)) d = (d, snd (d_Stat l (final_path (us_archiveID st)) d))"
    using d_Stat_same by (metis prod.collapse)
  have drop: "dk_files (act_ignore (d_RemoveAll l (finalize_dir (us_id st))) d) q = dk_files d q"
    using altersD [OF alters_drop_dir assms(2)] .
  show ?thesis
    using assms(1) drop d_Rename_Inl unfolding publish_def Let_def
    by (subst (asm) s) (fastforce simp: act_catch_def act_wrap_def split: sum.splits prod.splits)
qed

lemma publish_done:
  assumes "publish l st d = (d', Inr u)"
  shows "d_Rename l (finalize_dir (us_id st)) (final_path (us_archiveID st)) d = (d', Inr u)"
proof -
  have s: "d_Stat l (final_path (us_archiveID st)) d = (d, snd (d_Stat l (final_path (us_archiveID st)) d))"
    using d_Stat_same by (metis prod.collapse)
  show ?thesis
    using assms unfolding publish_def Let_def
    by (subst (asm) s) (auto simp: act_catch_Inr act_wrap_Inr split: sum.splits)
qed

lemma stage_all_dir:
  assumes "stage_all l fz st d = (d', Inr r)"
  shows "dk_files d' (finalize_dir (us_id st)) = None"
proof -
  have f: "dk_files d (finalize_dir (us_id st)) = None"
    using assms unfolding stage_all_def Let_def verify_upload_def make_dir_def d_Chmod_def
    by (auto simp: act_done d_Stat_def dest!: d_MkdirAll_Inr split: option.splits if_splits)
  have "finalize_dir (us_id st) \<notin> own_area (us_id st)"
    by (auto simp: own_area_def tmp_path_def finalize_dir_def)
  then show ?thesis using touchesD [OF touches_stage_all assms] f by simp
qed

text \<open>Every file outside the upload's own area is as before, or is new and part of the archive that was published.\<close>

lemma Finalize_outside:
  assumes "Finalize l fz st d = (d', r)" "q \<notin> upload_area (us_id st)"
  shows "dk_files d' q = dk_files d q
    \<or> (\<exists>x. r = Inr x) \<and> strict_prefix (final_path (us_archiveID st)) q \<and> dk_files d q = None"
proof -
  have own: "q \<notin> own_area (us_id st)" and clean: "dk_files (cleanupTmp l (us_id st) d1) q = dk_files d1 q" for d1
    using assms(2) altersD [OF alters_cleanup] by (auto simp: upload_area_def)
  obtain d1 r1 where st: "stage_all l fz st d = (d1, r1)" by (cases "stage_all l fz st d")
  have 1: "dk_files d1 q = dk_files d q" using touchesD [OF touches_stage_all st own] .
  consider (refused) "d' = cleanupTmp l (us_id st) d" | (staging) "d' = cleanupTmp l (us_id st) d1"
    | (published) x d2 r2 where "r1 = Inr x" "publish l st d1 = (d2, r2)" "d' = d2" "r = map_sum id (\<lambda>_. x) r2"
    using assms(1) st
    by (cases r1; cases "publish l st d1"; cases "snd (publish l st d1)")
      (auto simp: Finalize_def act_bind_def act_catch_def act_return_def split: if_splits)
  then show ?thesis
  proof cases
    case published
    show ?thesis
    proof (cases r2)
      case (Inl e)
      then show ?thesis using publish_failed [OF _ assms(2)] published 1 by metis
    next
      case (Inr u)
      have "d_Rename l (finalize_dir (us_id st)) (final_path (us_archiveID st)) d1 = (d', Inr u)"
        using publish_done published Inr by blast
      note R = d_Rename_dir_Inr [OF this stage_all_dir [OF st [unfolded published(1)]]]
      have not: "\<not> prefix (finalize_dir (us_id st)) q" using assms(2) upload_area_dir by blast
      show ?thesis
      proof (cases "prefix (final_path (us_archiveID st)) q")
        case True
        have none: "dk_files d1 q = None"
          using R True by (cases "q = final_path (us_archiveID st)") (auto simp: empty_dir_def)
        show ?thesis
        proof (cases "q = final_path (us_archiveID st)")
          case True
          then have "dk_files d' q = None" using R stage_all_dir [OF st [unfolded published(1)]] by simp
          then show ?thesis using none 1 by simp
        next
          case False
          then show ?thesis using none 1 True published(4) Inr by (auto simp: strict_prefix_def)
        qed
      next
        case False
        then show ?thesis using R not 1 by simp
      qed
    qed
  qed (use clean 1 in auto)
qed

text \<open>
  C57: An archive that is published is never touched again. Whatever upload is finalized, under whichever
  archive id, with any calls failing, every file outside the upload's own temporary area keeps its bytes; a
  new file appears only below the directory of the archive, and only when the finalization reports success.
\<close>

theorem Finalize_keeps_archives:
  "(\<forall>q b. dk_files d q = Some b \<and> q \<notin> upload_area (us_id st) \<longrightarrow> dk_files (fst (Finalize l fz st d)) q = Some b)
   \<and> (\<forall>q. dk_files d q = None \<and> q \<notin> upload_area (us_id st) \<and> dk_files (fst (Finalize l fz st d)) q \<noteq> None
        \<longrightarrow> strict_prefix (final_path (us_archiveID st)) q \<and> (\<exists>x. snd (Finalize l fz st d) = Inr x))"
  using Finalize_outside [of l fz st d "fst (Finalize l fz st d)" "snd (Finalize l fz st d)"]
  by (metis option.distinct(1) prod.collapse)

section \<open>What is published\<close>

lemma temp_name: "p \<noteq> [] \<Longrightarrow> butlast p @ [last p @ ''.tmp''] \<noteq> p"
proof
  assume "p \<noteq> []" "butlast p @ [last p @ ''.tmp''] = p"
  then have "last p @ ''.tmp'' = last p" by (metis last_snoc)
  then show False by simp
qed

lemma atomicWriteSibling_done:
  assumes "atomicWriteSibling l p data d = (d', Inr u)" "p \<noteq> []"
  shows "dk_files d' = (dk_files d)(p \<mapsto> data)"
proof -
  let ?tmp = "butlast p @ [last p @ ''.tmp'']"
  let ?d1 = "d\<lparr>dk_files := (dk_files d)(?tmp \<mapsto> [])\<rparr>"
  have c: "dk_files d ?tmp = None" "d_Rename l ?tmp p (d_append ?tmp data ?d1) = (d', Inr ())"
    using assms(1) unfolding atomicWriteSibling_def Let_def
    by (auto simp: act_done act_catch_Inr d_Sync_def d_Close_def d_Chmod_def dest!: d_Create_Inr d_Write_Inr)
  have "dk_files (d_append ?tmp data ?d1) ?tmp = Some data" by (simp add: d_append_def)
  from d_Rename_file_Inr [OF c(2) this]
  have "dk_files d' = (dk_files (d_append ?tmp data ?d1))(?tmp := None, p \<mapsto> data)" by simp
  then show ?thesis using c(1) temp_name [OF assms(2)] by (auto simp: d_append_def fun_eq_iff)
qed

lemma make_dir_done: "make_dir l what p d = (d', Inr u) \<Longrightarrow> dk_files d' = dk_files d"
  by (auto simp: make_dir_def act_done d_Chmod_def dest!: d_MkdirAll_Inr)

lemma verify_upload_done:
  assumes "verify_upload l fz st d = (d', Inr u)"
  shows "d' = d \<and> hex_Decode (um_sha256 (us_meta st)) = Some (fz_sha256 fz (us_hashed st))
    \<and> (\<exists>content. dk_files d (tmp_path (us_id st)) = Some content \<and> int (length content) = us_length st)"
  using assms unfolding verify_upload_def by (auto simp: act_done d_Stat_def split: option.splits if_splits)

lemma stage_raw_done:
  assumes "stage_raw l st r d = (d', Inr r')" "dk_files d (tmp_path (us_id st)) = Some content"
  shows "r' = r\<lparr>fr_rawFilename := um_archiveFilename (us_meta st), fr_entriesExtracted := 0\<rparr>
    \<and> dk_files d' = (dk_files d)(tmp_path (us_id st) := None,
        join_name (finalize_dir (us_id st) @ [''raw'']) (um_archiveFilename (us_meta st)) \<mapsto> content)"
proof -
  let ?dst = "join_name (finalize_dir (us_id st) @ [''raw'']) (um_archiveFilename (us_meta st))"
  obtain d1 where d1: "make_dir l ''raw'' (finalize_dir (us_id st) @ [''raw'']) d = (d1, Inr ())"
    "d_Rename l (tmp_path (us_id st)) ?dst d1 = (d', Inr ())"
    and r': "r' = r\<lparr>fr_rawFilename := um_archiveFilename (us_meta st), fr_entriesExtracted := 0\<rparr>"
    using assms(1) unfolding stage_raw_def Let_def by (auto simp: act_done d_Chmod_def)
  have "dk_files d1 = dk_files d" using make_dir_done [OF d1(1)] .
  then show ?thesis using d_Rename_file_Inr [OF d1(2), of content] assms(2) r' by simp
qed

lemma remove_tmp_done: "remove_tmp l uid d = (d', Inr u) \<Longrightarrow> dk_files d' = (dk_files d)(tmp_path uid := None)"
proof -
  assume a: "remove_tmp l uid d = (d', Inr u)"
  obtain d1 r where r: "d_Remove l (tmp_path uid) d = (d1, r)" by (cases "d_Remove l (tmp_path uid) d")
  show ?thesis
  proof (cases r)
    case (Inr v)
    then show ?thesis using a r d_Remove_Inr by (auto simp: remove_tmp_def)
  next
    case (Inl e)
    then have "err_is e NotExist" "d' = d1" using a r by (auto simp: remove_tmp_def split: if_splits)
    then show ?thesis using r Inl by (auto simp: d_Remove_def NotExist_def fun_eq_iff split: if_splits)
  qed
qed

lemma untar_act_done:
  assumes "untar_act l fz st tree d = (d', Inr n)" "dk_files d (tmp_path (us_id st)) = Some content"
  shows "\<exists>w. Untar l tree (us_length st) 0 (fz_tar fz content) d = (d', n, w, None)"
proof -
  obtain d1 k w e where u: "Untar l tree (us_length st) 0 (fz_tar fz content) d = (d1, k, w, e)"
    by (cases "Untar l tree (us_length st) 0 (fz_tar fz content) d")
  then show ?thesis using assms
    by (cases e) (auto simp: untar_act_def d_Close_def d_Check_def split: sum.splits if_splits)
qed

text \<open>The text a scanner lane shows, by the verdict of the content scanner.\<close>

definition withheld_notice :: "ScanResult \<Rightarrow> bytes" where
  "withheld_notice verdict =
     ''# Scanned document (withheld)'' @ nl @ nl
     @ ''The extracted text of this scan was quarantined by the content scanner ''
     @ ''and is not reproduced here.'' @ nl @ nl
     @ ''- score: '' @ show_fixed2 (sr_total verdict) @ nl
     @ ''- signals: '' @ go_join '', '' (map sig_name (sr_signals verdict))
     @ nl @ ''- raw text: tree/ocr.txt (unmodified, for human review)'' @ nl"

definition extracted_from :: "finalize_lib \<Rightarrow> bytes \<Rightarrow> bytes \<Rightarrow> bool" where
  "extracted_from fz ocr md \<longleftrightarrow> (\<exists>scan verdict. fz_scanner fz = Some scan \<and> scan ocr ''text/plain'' = Inr verdict
     \<and> md = (if sr_verdict verdict = VerdictQuarantine then withheld_notice verdict
             else ''# Scanned document'' @ nl @ nl @ ocr @ nl))"

lemma writeExtractedMarkdown_done:
  assumes "writeExtractedMarkdown l fz dir d = (d', Inr u)"
  shows "\<exists>ocr md. dk_files d (dir @ [''tree'', ''ocr.txt'']) = Some ocr \<and> extracted_from fz ocr md
    \<and> dk_files d' = (dk_files d)(dir @ [''content.extracted.md''] \<mapsto> md)"
proof -
  obtain ocr where o: "d_ReadFile l (dir @ [''tree'', ''ocr.txt'']) d = (d, Inr ocr)"
    using assms by (cases "d_ReadFile l (dir @ [''tree'', ''ocr.txt'']) d")
      (auto simp: writeExtractedMarkdown_def d_ReadFile_def split: sum.splits option.splits if_splits)
  obtain scan verdict md where s: "fz_scanner fz = Some scan" "scan ocr ''text/plain'' = Inr verdict"
    "renderExtractedMarkdown ocr verdict = Inr md" "atomicWriteSibling l (dir @ [''content.extracted.md'']) md d = (d', Inr u)"
    using assms o by (auto simp: writeExtractedMarkdown_def act_wrap_Inr split: sum.splits option.splits)
  have "extracted_from fz ocr md"
    using s unfolding extracted_from_def withheld_notice_def renderExtractedMarkdown_def by (auto split: if_splits)
  moreover have "dk_files d (dir @ [''tree'', ''ocr.txt'']) = Some ocr"
    using o by (auto simp: d_ReadFile_def split: option.splits if_splits)
  ultimately show ?thesis using atomicWriteSibling_done [OF s(4)] by auto
qed

lemma stage_tar_done:
  assumes "stage_tar l fz lane st r d = (d', Inr r')" "dk_files d (tmp_path (us_id st)) = Some content"
  shows "\<exists>d0 d1 n w. dk_files d0 = dk_files d \<and> r' = r\<lparr>fr_entriesExtracted := n\<rparr>
    \<and> Untar l (finalize_dir (us_id st) @ [''tree'']) (us_length st) 0 (fz_tar fz content) d0 = (d1, n, w, None)
    \<and> (if lane then \<exists>ocr md. dk_files d1 (finalize_dir (us_id st) @ [''tree'', ''ocr.txt'']) = Some ocr \<and> extracted_from fz ocr md
          \<and> dk_files d' = (dk_files d1)(tmp_path (us_id st) := None, finalize_dir (us_id st) @ [''content.extracted.md''] \<mapsto> md)
        else dk_files d' = (dk_files d1)(tmp_path (us_id st) := None))"
proof -
  let ?dir = "finalize_dir (us_id st)" and ?tmp = "tmp_path (us_id st)"
  obtain d0 d1 d2 n where d0: "make_dir l ''tree'' (?dir @ [''tree'']) d = (d0, Inr ())"
    and d1: "untar_act l fz st (?dir @ [''tree'']) d0 = (d1, Inr n)" and d2: "remove_tmp l (us_id st) d1 = (d2, Inr ())"
    and ex: "(if lane then act_wrap ''extract'' (writeExtractedMarkdown l fz ?dir) else act_return ()) d2 = (d', Inr ())"
    and r': "r' = r\<lparr>fr_entriesExtracted := n\<rparr>"
    using assms(1) unfolding stage_tar_def Let_def by (auto simp: act_done d_Open_def split: if_splits)
  have f0: "dk_files d0 = dk_files d" using make_dir_done [OF d0] .
  obtain w where w: "Untar l (?dir @ [''tree'']) (us_length st) 0 (fz_tar fz content) d0 = (d1, n, w, None)"
    using untar_act_done [OF d1] assms(2) f0 by auto
  have f2: "dk_files d2 = (dk_files d1)(?tmp := None)" using remove_tmp_done [OF d2] .
  have "?dir @ [''tree'', ''ocr.txt''] \<noteq> ?tmp" by (simp add: tmp_path_def finalize_dir_def)
  then have "if lane then \<exists>ocr md. dk_files d1 (?dir @ [''tree'', ''ocr.txt'']) = Some ocr \<and> extracted_from fz ocr md
      \<and> dk_files d' = (dk_files d1)(?tmp := None, ?dir @ [''content.extracted.md''] \<mapsto> md)
    else dk_files d' = (dk_files d1)(?tmp := None)"
    using ex f2 writeExtractedMarkdown_done [of l fz ?dir d2 d'] by (auto simp: act_done split: if_splits)
  then show ?thesis using f0 w r' by blast
qed

text \<open>
  What the directory of an archive holds: the file itself, or the tree that its extraction gives, and for a
  scanner lane the text beside it.
\<close>

definition holds_archive ::
  "disk_lib \<Rightarrow> finalize_lib \<Rightarrow> UploadState \<Rightarrow> (path \<rightharpoonup> bytes) \<Rightarrow> bytes \<Rightarrow> bool \<Rightarrow> nat \<Rightarrow> (path \<rightharpoonup> bytes) \<Rightarrow> path \<Rightarrow> bool" where
  "holds_archive l fz st before content lane n f base \<longleftrightarrow>
     (case Shape (us_meta st) of
        Some MediaRaw \<Rightarrow> n = 0 \<and> f (base @ join_name [''raw''] (um_archiveFilename (us_meta st))) = Some content
      | Some MediaTar \<Rightarrow>
          (\<exists>d0 d1 w. dk_files d0 = before
             \<and> Untar l (finalize_dir (us_id st) @ [''tree'']) (us_length st) 0 (fz_tar fz content) d0 = (d1, n, w, None)
             \<and> (\<forall>q. f (base @ ''tree'' # q) = dk_files d1 (finalize_dir (us_id st) @ ''tree'' # q)))
          \<and> (lane \<longrightarrow> (\<exists>ocr md. f (base @ [''tree'', ''ocr.txt'']) = Some ocr \<and> f (base @ [''content.extracted.md'']) = Some md
               \<and> extracted_from fz ocr md))
      | None \<Rightarrow> False)"

lemma join_name_append: "join_name (dir @ xs) name = dir @ join_name xs name"
  by (simp add: join_name_def)

lemma holds_archive_moved:
  assumes "holds_archive l fz st before content lane n f base" "\<And>x. x \<noteq> [''metadata.json''] \<Longrightarrow> f' (base' @ x) = f (base @ x)"
  shows "holds_archive l fz st before content lane n f' base'"
proof -
  have "join_name [''raw''] name \<noteq> [''metadata.json'']" for name by (simp add: join_name_def)
  moreover have "[''tree'', ''ocr.txt''] \<noteq> [''metadata.json'']" "[''content.extracted.md''] \<noteq> [''metadata.json'']"
    "''tree'' # q \<noteq> [''metadata.json'']" for q by simp_all
  ultimately show ?thesis using assms unfolding holds_archive_def by (simp split: option.splits MediaShape.splits)
qed

lemma stage_content_done:
  assumes "stage_content l fz lane st r d = (d', Inr r')" "dk_files d (tmp_path (us_id st)) = Some content"
  shows "holds_archive l fz st (dk_files d) content lane (fr_entriesExtracted r') (dk_files d') (finalize_dir (us_id st))
    \<and> dk_files d' (tmp_path (us_id st)) = None \<and> fr_audience r' = fr_audience r \<and> fr_source r' = fr_source r"
proof -
  have apart: "tmp_path (us_id st) \<noteq> finalize_dir (us_id st) @ x" "finalize_dir (us_id st) @ x \<noteq> tmp_path (us_id st)" for x
    by (simp_all add: tmp_path_def finalize_dir_def)
  show ?thesis
  proof (cases "Shape (us_meta st)")
    case None
    then show ?thesis using assms(1) by (simp add: stage_content_def act_done)
  next
    case (Some shape)
    show ?thesis
    proof (cases shape)
      case MediaRaw
      then show ?thesis using stage_raw_done [of l st r d d' r' content] assms Some apart
        by (auto simp: stage_content_def holds_archive_def join_name_append)
    next
      case MediaTar
      then obtain d0 d1 n w where t: "dk_files d0 = dk_files d" "r' = r\<lparr>fr_entriesExtracted := n\<rparr>"
        "Untar l (finalize_dir (us_id st) @ [''tree'']) (us_length st) 0 (fz_tar fz content) d0 = (d1, n, w, None)"
        "if lane then \<exists>ocr md. dk_files d1 (finalize_dir (us_id st) @ [''tree'', ''ocr.txt'']) = Some ocr \<and> extracted_from fz ocr md
            \<and> dk_files d' = (dk_files d1)(tmp_path (us_id st) := None, finalize_dir (us_id st) @ [''content.extracted.md''] \<mapsto> md)
          else dk_files d' = (dk_files d1)(tmp_path (us_id st) := None)"
        using stage_tar_done [of l fz lane st r d d' r' content] assms Some by (auto simp: stage_content_def)
      have same: "dk_files d' (finalize_dir (us_id st) @ ''tree'' # q) = dk_files d1 (finalize_dir (us_id st) @ ''tree'' # q)" for q
        using t(4) apart by (auto split: if_splits)
      have "lane \<longrightarrow> (\<exists>ocr md. dk_files d' (finalize_dir (us_id st) @ [''tree'', ''ocr.txt'']) = Some ocr
          \<and> dk_files d' (finalize_dir (us_id st) @ [''content.extracted.md'']) = Some md \<and> extracted_from fz ocr md)"
        using t(4) apart by (auto split: if_splits)
      moreover have "dk_files d' (tmp_path (us_id st)) = None" using t(4) apart by (auto split: if_splits)
      ultimately show ?thesis using t(1-3) same Some MediaTar by (auto simp: holds_archive_def)
    qed
  qed
qed

text \<open>A finalization that reports success, step by step.\<close>

lemma Finalize_done:
  assumes "Finalize l fz st d = (d', Inr r)"
  defines "lane \<equiv> scannerLanePolicy (fz_sources fz) (us_sourceID st)"
  shows "\<exists>content b. dk_files d (tmp_path (us_id st)) = Some content \<and> int (length content) = us_length st
    \<and> hex_Decode (um_sha256 (us_meta st)) = Some (fz_sha256 fz (us_hashed st))
    \<and> holds_archive l fz st (dk_files d) content (lane \<noteq> None) (fr_entriesExtracted r) (dk_files d') (final_path (us_archiveID st))
    \<and> fz_encode fz r = Some b \<and> dk_files d' (final_path (us_archiveID st) @ [''metadata.json'']) = Some b
    \<and> dk_files d' (tmp_path (us_id st)) = None
    \<and> (um_mediaType (us_meta st) = recognizerScanMediaType \<longrightarrow> lane \<noteq> None)
    \<and> (\<forall>pol. lane = Some pol \<longrightarrow> fr_source r = us_sourceID st \<and> fr_audience r = lp_audienceDefault pol)"
proof -
  let ?dir = "finalize_dir (us_id st)" and ?fin = "final_path (us_archiveID st)" and ?tmp = "tmp_path (us_id st)"
  let ?r0 = "lane_receipt lane st (base_receipt fz st)"
  obtain d2 where lane: "um_mediaType (us_meta st) = recognizerScanMediaType \<longrightarrow> lane \<noteq> None"
    and st2: "stage_all l fz st d = (d2, Inr r)" and pub: "publish l st d2 = (d', Inr ())"
    using assms(1) unfolding Finalize_def lane_def [symmetric]
    by (auto simp: act_done act_catch_Inr split: if_splits)
  from st2 obtain d0 d1 d3 where v: "verify_upload l fz st d = (d, Inr ())" and d0: "make_dir l ''finalize'' ?dir d = (d0, Inr ())"
    and d1: "stage_content l fz (lane \<noteq> None) st ?r0 d0 = (d1, Inr r)" and d3: "write_receipt l fz st r d1 = (d3, Inr ())"
    and d2: "dk_files d2 = dk_files d3"
    unfolding stage_all_def Let_def lane_def [symmetric]
    using verify_upload_done by (fastforce simp: act_done dest!: d_MkdirAll_Inr)
  obtain content where c: "dk_files d ?tmp = Some content" "int (length content) = us_length st"
    using verify_upload_done [OF v] by blast
  have f0: "dk_files d0 = dk_files d" using make_dir_done [OF d0] .
  have s: "holds_archive l fz st (dk_files d) content (lane \<noteq> None) (fr_entriesExtracted r) (dk_files d1) ?dir"
    "dk_files d1 ?tmp = None" "fr_audience r = fr_audience ?r0" "fr_source r = fr_source ?r0"
    using stage_content_done [OF d1, of content] c f0 by simp_all
  obtain b where b: "fz_encode fz r = Some b" "atomicWriteSibling l (?dir @ [''metadata.json'']) b d1 = (d3, Inr ())"
    using d3 by (auto simp: write_receipt_def act_done split: option.splits)
  have f2: "dk_files d2 = (dk_files d1)(?dir @ [''metadata.json''] \<mapsto> b)" using atomicWriteSibling_done [OF b(2)] d2 by simp
  note R = d_Rename_dir_Inr [OF publish_done [OF pub] stage_all_dir [OF st2]]
  have len: "length ?fin = 2" by (simp add: final_path_def)
  have moved: "dk_files d' (?fin @ x) = dk_files d2 (?dir @ x)" for x using R len by simp
  have "dk_files d1 (?dir @ x) = dk_files d' (?fin @ x)" if "x \<noteq> [''metadata.json'']" for x using moved f2 that by simp
  then have held: "holds_archive l fz st (dk_files d) content (lane \<noteq> None) (fr_entriesExtracted r) (dk_files d') ?fin"
    using holds_archive_moved [OF s(1), where f' = "dk_files d'" and base' = ?fin] by simp
  have np: "\<not> prefix ?fin ?tmp" "?tmp \<noteq> ?dir @ [''metadata.json'']"
    by (simp_all add: final_path_def tmp_path_def finalize_dir_def)
  then have tmp: "dk_files d' ?tmp = None" using R f2 s(2) by simp
  have pol: "fr_source r = us_sourceID st \<and> fr_audience r = lp_audienceDefault pol" if "lane = Some pol" for pol
    using s(3,4) that by (simp add: lane_receipt_def)
  show ?thesis using c b(1) held tmp pol lane verify_upload_done [OF v] moved [of "[''metadata.json'']"] f2 by auto
qed

end
