(* ===== verification/Spec2Isabelle.thy ===== *)
theory Spec2Isabelle
  imports Pipeline Signature JApply JRescan DailyWindow Finalize
begin

text \<open>
  Glovebox stands between the outside world and a household's agents. This development models its main
  parts: the scanning pipeline, which decides of every staged item whether it may reach an inbox; the
  record journal, which stores structured records about household members and decides who may see them;
  and the acceptance of uploaded archives, which are unpacked into a directory that consumers read.

  \<^bold>\<open>How the parts interact.\<close> Connectors write items into a staging directory. The daemon (\<^verbatim>\<open>main.go\<close>,
  \<^verbatim>\<open>internal/pipeline\<close>) reads an item (\<^verbatim>\<open>internal/staging\<close>), lets a worker scan its content and metadata
  (\<^verbatim>\<open>internal/scan\<close> over \<^verbatim>\<open>internal/engine\<close> and \<^verbatim>\<open>internal/detector\<close>), passes the result through a router
  that keeps ordered items of a destination in order, and delivers it (\<^verbatim>\<open>internal/routing\<close>) to an inbox, to
  the quarantine or to the audit log, resolving the subject it names (\<^verbatim>\<open>internal/subject\<close>). Rules come from a
  signed file (\<^verbatim>\<open>engine/signature.go\<close>, \<^verbatim>\<open>provenance.go\<close>). Separately, services post snapshots and notes to the
  journal (\<^verbatim>\<open>internal/journal\<close>): a request is validated against the registry of record types
  (\<^verbatim>\<open>record\<close>), planned against the current rows (\<^verbatim>\<open>diff\<close>), judged by the rules (\<^verbatim>\<open>rules\<close>) and the scanner,
  and written in one transaction; readers see what their roster grants allow (\<^verbatim>\<open>roster\<close>, \<^verbatim>\<open>access\<close>,
  \<^verbatim>\<open>policy\<close>, \<^verbatim>\<open>read.go\<close>), and a rescan judges stored text again when the scanner changes (\<^verbatim>\<open>rescan.go\<close>).
  An archive is announced with metadata, received in pieces, checked against its digest, unpacked beside its
  destination and published by a rename (\<^verbatim>\<open>internal/ingest/archives\<close>). Times of day at which actions are held
  back are given as daily windows (\<^verbatim>\<open>internal/dailywindow\<close>).

  \<^bold>\<open>Theories, in the order they build on each other.\<close>
  \<^item> Prelude, Utf8, Fmt, F64: outcomes with an explicit hang, Go's byte strings, UTF-8 and string
    functions, formatting of numbers, and binary64 arithmetic as rounding of rationals (a locale for
    monotone rounding, interpreted on the model's rounding).
  \<^item> Scoring: \<^verbatim>\<open>engine/scoring.go\<close>, \<^verbatim>\<open>matcher.go\<close>, \<^verbatim>\<open>rules.go\<close>, \<^verbatim>\<open>stream.go\<close> and the ceiling of \<^verbatim>\<open>provenance.go\<close>.
  \<^item> Unescape, Invisible, Bidi, Decode, Preprocess: \<^verbatim>\<open>engine/unescape.go\<close>, \<^verbatim>\<open>invisible.go\<close> with
    \<^verbatim>\<open>confusables.go\<close>, \<^verbatim>\<open>bidi.go\<close>, \<^verbatim>\<open>decode.go\<close> with \<^verbatim>\<open>structured.go\<close>, and \<^verbatim>\<open>preprocess.go\<close>, which composes them
    into the views that are scanned (a locale for the bounded output buffer).
  \<^item> Detector, Scan: the detectors (a locale for their contract), and the scan of one item.
  \<^item> Staging, Subject, Routing, Pipeline: reading items, the subject registry, every delivery path over a
    file map and an audit log, and the pipeline with its router (a locale for a delivery that logs).
  \<^item> Signature: keys, envelopes, verification and the loading policy of the rule file.
  \<^item> JRecord, Schema, Snapshot: \<^verbatim>\<open>journal/record\<close> (value.go and scope.go, types.go, fields.go and
    validate.go); a locale for encodings joined by a separator serves scopes and group keys.
  \<^item> JDiff, JRules, Access: \<^verbatim>\<open>journal/diff\<close>, \<^verbatim>\<open>journal/rules\<close>, and \<^verbatim>\<open>roster\<close>, \<^verbatim>\<open>access\<close> and \<^verbatim>\<open>policy\<close>.
  \<^item> Journal, Erase, Rescan: \<^verbatim>\<open>journal/apply.go\<close>, \<^verbatim>\<open>hold.go\<close>, \<^verbatim>\<open>notes.go\<close>, \<^verbatim>\<open>erase.go\<close>, \<^verbatim>\<open>scanner.go\<close> and the batches of
    \<^verbatim>\<open>rescan.go\<close> as functions on the tables.
  \<^item> JSteps, JStore, JVersion, JApply: the journal as a step relation over all its writing operations with
    the environment free to change between steps; what every step keeps (current rows are the fold of the
    events, a stored pass was given by a scanner, sequence numbers are fresh and in order); every step as a
    series of small ones that read versions of rows; and the admission of writes.
  \<^item> Read, JRescan: \<^verbatim>\<open>journal/read.go\<close> (grants, the rows and events a reader is shown, counts), and the whole
    loop of \<^verbatim>\<open>rescan.go\<close> with other transactions between its own.
  \<^item> DailyWindow: \<^verbatim>\<open>dailywindow.go\<close>: clock times, windows, sets of them, and when a schedule is next clear.
  \<^item> Disk: files, directories and links under absolute paths, and actions on them that stop at the first call
    that fails, with frame lemmas that bound the paths an action can touch.
  \<^item> Upload: \<^verbatim>\<open>internal/source/registry.go\<close>, \<^verbatim>\<open>metadata.go\<close> and \<^verbatim>\<open>store.go\<close> of \<^verbatim>\<open>internal/ingest/archives\<close>.
  \<^item> Untar, Finalize: \<^verbatim>\<open>untar.go\<close>, \<^verbatim>\<open>finalize.go\<close> and \<^verbatim>\<open>scan_extract.go\<close>: unpacking an archive within its
    directory, and turning a finished upload into a published archive and its receipt.

  \<^bold>\<open>State.\<close> A staged item, a scan configuration, a registry are records with the fields of the Go structs.
  Files are a map from paths to contents with an oracle that says which call fails (for archives, with
  directories and links, since their paths come from outside); the audit log is a list. The journal's tables are a record of lists and a finite map, and a transaction returns the new
  tables or rolls back. Go maps whose order of iteration is visible take the order as an argument.
  Machine integers do not overflow in the code modelled; sizes are natural numbers and times are
  nanoseconds as integers, compared only. Floats are rationals rounded to binary64.

  \<^bold>\<open>What the lemmas show.\<close> Safety of the whole path (an item in an inbox was scanned, passed and was
  destined there; a decisive rule quarantines; nothing is delivered unaccounted); correctness of every
  normalisation against its specification (tables, round trips, permutations, bounds); the router's
  order and conservation; fail-closed loading of rules; and for the journal: validation gives normal
  forms, schema evolution neither merges fields nor unmasks text, visibility is the relation drawn by
  the household document, writes happen only when admitted and are idempotent, current rows are the
  fold of the events, an erasure is final, readers are shown only text that passed a scan, within their
  grants, in pages that neither skip nor repeat, and a rescan that succeeds leaves no verdict of an older
  scanner behind. For archives: accepted metadata is safe to build paths from, unpacking touches nothing
  outside its directory and stays within its caps, and well-formed archives unpack to their contents. A
  schedule of windows blocks exactly inside them, and the next clear time is the first.

  \<^bold>\<open>Parameters.\<close> Code outside the repository is an argument: regular expressions, the HTML tokenizer, NFKC and
  NFD, the Unicode tables, the language classifier, JSON, ed25519, SHA-256, PEM and X.509, UUIDs, RFC
  3339, random bytes, and what PostgreSQL returns for a stored object. Hypotheses about them are stated
  in the theorems that need them and are met by the witnesses.

  \<^bold>\<open>Bounds and fuel.\<close> Loops recurse on their data or a measure. The offset loop, which the code can enter
  with an empty needle, is a partial function whose divergence is a value, and a theorem says exactly
  when it diverges. The pages of a rescan are a partial function too, since others may add rows for ever; it
  is shown to return when they stay within a finite set of rows. Its retries are the bound of the code. No
  other fuel is used.

  \<^bold>\<open>Not modelled.\<close> HTTP handlers and servers (those of ingest with its upload protocol, quota, cleanup and tokens too), configuration, metrics,
  file watching and other start-up sweeps, migrations, the connectors and importers (clients of third-party
  services), command-line tools, and the goroutine plumbing of the worker pool. The journal's locks are
  taken as what they provide: transactions on a subject run one after another, and the transactions of a
  rescan run between those of others, which are an argument of it.
\<close>

section \<open>From the staged file to the inbox\<close>

text \<open>A rule that alone reaches the threshold, under every rule of its name.\<close>

definition decisive :: "RuleConfig \<Rightarrow> Rule \<Rightarrow> bool" where
  "decisive rc r \<longleftrightarrow> r \<in> set (rc_rules rc) \<and> r_match_type r \<noteq> MatchCustomDetector
     \<and> (\<forall>r' \<in> set (rc_rules rc). r_name r' = r_name r \<longrightarrow>
          r_behavior r' \<noteq> ''weight_booster'' \<and> rc_threshold rc \<le> r_weight r' \<and> f64 (r_weight r') = r_weight r')"

abbreviation scanned_fields :: "StagingItem \<Rightarrow> string list" where
  "scanned_fields item \<equiv> [im_subject (si_metadata item), im_sender (si_metadata item), im_source (si_metadata item)]"

lemma worker_scan_result:
  assumes "sp_result (worker_scan lib sc read expired item) = Some res"
  obtains content where "\<not> expired" "read (si_contentPath item) = Some content"
    "ScanWithMetadata lib sc content (im_contentType (si_metadata item)) (scanned_fields item) = Returns res"
  using assms
  by (auto simp: worker_scan_def scan_goroutine_def timeout_response_def error_response_def Let_def
      split: if_splits option.splits outcome.splits)

lemma worker_scan_item: "sp_item (worker_scan lib sc read expired item) = item"
  by (auto simp: worker_scan_def scan_goroutine_def timeout_response_def error_response_def Let_def
      split: option.splits outcome.splits)


text \<open>A concrete run: the content passes a scanner whose only rule does not fire, and is delivered.\<close>

definition quiet_rule :: Rule where
  "quiet_rule = sample_rule\<lparr>r_match_type := MatchRegex\<rparr>"

definition quiet_rc :: RuleConfig where
  "quiet_rc = \<lparr>rc_rules = [quiet_rule], rc_threshold = 4 / 5\<rparr>"

definition quiet_sc :: Scanner where
  "quiet_sc = \<lparr>sc_matchers = [makeMatcherScanFunc (RegexMatcher_Match [(''ignore'', \<lambda>_. [])]) quiet_rule], sc_detectors = [],
     sc_boostConfig = Map.empty, sc_threshold = 4 / 5\<rparr>"

lemma quiet_compiled: "compiled sample_slib NewRegistry quiet_rc quiet_sc"
  by (simp add: compiled_def New_def buildScanFuncs_def quiet_rc_def quiet_rule_def sample_rule_def quiet_sc_def boost_config_def
      validateRuleConfig_def validate_rule_def validMatchTypes_def match_type_defs registry_contract_def Get_def
      NewRegistry_def no_empty_patterns_def sample_slib_def owrap_def)

lemma quiet_content: "ScanContent c (sc_matchers quiet_sc) [] = Returns []"
  by (simp add: quiet_sc_def ScanContent_def makeMatcherScanFunc_def RegexMatcher_Match_def)

lemma quiet_views: "\<forall>v \<in> set vs. snd (snd v) = [] \<Longrightarrow> views_loop ctx vs (sc_matchers quiet_sc) [] = Returns []"
proof (induction vs)
  case (Cons v vs)
  obtain n c where v: "v = (n, c, [])" using Cons.prems by (cases v) auto
  show ?case using Cons v by (cases c) (auto simp: quiet_content owrap_def appendDeduped_def)
qed simp

lemma quiet_scan: "ScanWithMetadata sample_slib quiet_sc content ct md = Returns (score_signals quiet_sc [])"
proof -
  have n: "ScanContent c (sc_matchers quiet_sc) (sc_detectors quiet_sc) = Returns []" for c
    using quiet_content [of c] by (simp add: quiet_sc_def)
  have "scanMetadata sample_slib quiet_sc md = Returns []"
  proof (cases "metadata_text sample_slib md")
    case (Some joined)
    have "views_loop ''scan metadata'' (metadata_views pp) (sc_matchers quiet_sc) [] = Returns []" for pp
      by (rule quiet_views) (simp add: metadata_views_def)
    with Some show ?thesis by (simp add: scanMetadata_def)
  qed (simp add: scanMetadata_def)
  moreover have "views_loop ''scan '' (content_views quiet_sc pp) (sc_matchers quiet_sc) [] = Returns []" for pp
    by (rule quiet_views) (auto simp: content_views_def quiet_sc_def)
  ultimately show ?thesis by (simp add: ScanWithMetadata_def n owrap_def Let_def appendDeduped_def)
qed

abbreviation quiet_worker :: ScanResponse where
  "quiet_worker \<equiv> worker_scan sample_slib quiet_sc (\<lambda>_. Some ''hello'') False sample_item"

lemma quiet_response: "quiet_worker = sample_resp"
proof -
  have "score_signals quiet_sc [] = \<lparr>sr_signals = [], sr_total = 0, sr_verdict = VerdictPass\<rparr>"
    by (simp add: score_signals_def ScoreSignals_def Let_def quiet_sc_def List.map_filter_def)
  then show ?thesis by (simp add: worker_scan_def scan_goroutine_def quiet_scan sample_resp_def Let_def)
qed


end
